(* ===== verification/Chryso_Prelude.thy ===== *)
theory Chryso_Prelude
  imports Main "HOL-Library.Word"
begin

text \<open>
  Shared vocabulary of the development: the fixed-width integer types of the C sources, the
  collections the component theories put their facts in, and the generic lemmas on words and
  lists that more than one component uses.

  A C \<open>uintN_t\<close> is an \<open>N word\<close> wherever its width can matter; a \<open>size_t\<close> that is only a
  bounded count or an index is a \<open>nat\<close>, and one that takes part in address arithmetic is a
  64-bit word.
\<close>

unbundle bit_operations_syntax

type_synonym u8 = "8 word"
type_synonym u16 = "16 word"
type_synonym u32 = "32 word"
type_synonym u64 = "64 word"

abbreviation UINT32_MAX :: u32 where "UINT32_MAX \<equiv> 0xFFFFFFFF"
abbreviation UINT64_MAX :: u64 where "UINT64_MAX \<equiv> 0xFFFFFFFFFFFFFFFF"

named_theorems wordpos \<open>order and arithmetic of words read as natural numbers\<close>
named_theorems frame \<open>fields an operation leaves alone\<close>
named_theorems keeps \<open>invariants an operation preserves\<close>

subsection \<open>Words as natural numbers\<close>

lemma word_le_unat [wordpos]: "(x \<le> y) = (unat x \<le> unat y)" for x y :: "'a::len word"
  by (simp add: word_le_nat_alt)

lemma word_less_unat [wordpos]: "(x < y) = (unat x < unat y)" for x y :: "'a::len word"
  by (simp add: word_less_nat_alt)

lemma unat_add_fits [wordpos]:
  "unat x + unat y < 2 ^ LENGTH('a) \<Longrightarrow> unat (x + y) = unat x + unat y" for x y :: "'a::len word"
  using unat_add_lem by blast

lemma unat_mult_fits [wordpos]:
  "unat x * unat y < 2 ^ LENGTH('a) \<Longrightarrow> unat (x * y) = unat x * unat y" for x y :: "'a::len word"
  using unat_mult_lem by blast

lemma unat_minus_le [wordpos]:
  "unat y \<le> unat x \<Longrightarrow> unat (x - y) = unat x - unat y" for x y :: "'a::len word"
  by (simp add: unat_sub word_le_nat_alt)

lemma unat_lt: "unat x < 2 ^ LENGTH('a)" for x :: "'a::len word"
  by (rule unsigned_less)

lemma unat_inc_fits:
  "unat x < n \<Longrightarrow> n < 2 ^ LENGTH('a) \<Longrightarrow> unat (x + 1) = Suc (unat x)" for x :: "'a::len word"
proof -
  assume a: "unat x < n" "n < 2 ^ LENGTH('a)"
  then have "unat x + unat (1 :: 'a word) < 2 ^ LENGTH('a)" by (simp add: unsigned_1)
  then show ?thesis by (simp add: unat_add_fits unsigned_1)
qed

lemma unat_inc_below [wordpos]:
  "x < y \<Longrightarrow> unat (x + 1) = Suc (unat x)" for x y :: "'a::len word"
  by (metis unat_inc_fits unsigned_less word_less_nat_alt)

lemma unat_ucast_up [wordpos]:
  "LENGTH('a) \<le> LENGTH('b) \<Longrightarrow> unat (ucast x :: 'b::len word) = unat x" for x :: "'a::len word"
  by (simp add: unsigned_ucast_eq take_bit_nat_eq_self
      order.strict_trans2 [OF unsigned_less power_increasing])

lemma unat_ucast_down [wordpos]:
  "unat x < 2 ^ LENGTH('b) \<Longrightarrow> unat (ucast x :: 'b::len word) = unat x" for x :: "'a::len word"
  by (simp add: unsigned_ucast_eq take_bit_nat_eq_self)

lemma unat_u32_lt: "unat x < 4294967296" for x :: u32
  using unat_lt [of x] by simp

lemma unat_u64_lt: "unat x < 18446744073709551616" for x :: u64
  using unat_lt [of x] by simp

lemma unat_div_mult_le: "unat (x div y) * unat y \<le> unat x" for x y :: "'a::len word"
  by (simp add: unat_div)

text \<open>The mask test \<open>((mask >> i) & 1) != 0\<close> the C code writes is one bit.\<close>

lemma drop_bit_and_one: "(drop_bit n m AND 1 = 0) = (\<not> bit m n)" for m :: "'a::len word"
  by (metis and_one_eq bit_drop_bit_eq bit_iff_odd_drop_bit mod2_eq_if one_and_eq zero_neq_one
      odd_iff_mod_2_eq_one)

lemma push_bit_and: "(m AND push_bit n 1 = 0) = (\<not> bit m n)" if "n < LENGTH('a)"
  for m :: "'a::len word"
proof
  assume z: "m AND push_bit n 1 = 0"
  show "\<not> bit m n"
  proof
    assume "bit m n"
    with that have "bit (m AND push_bit n 1) n" by (simp add: bit_simps)
    with z show False by simp
  qed
next
  assume "\<not> bit m n"
  then show "m AND push_bit n 1 = 0"
    by (intro bit_word_eqI) (auto simp: bit_simps)
qed

subsection \<open>Lists read and written by index\<close>

lemma nth_list_update_if: "xs[i := x] ! j = (if i = j \<and> j < length xs then x else xs ! j)"
  by (cases "i < length xs") (auto simp: nth_list_update not_less list_update_beyond)

lemma map_upt_nth_cong: "(\<And>i. i < n \<Longrightarrow> f i = g i) \<Longrightarrow> map f [0..<n] = map g [0..<n]"
  by simp

text \<open>Writing consecutive elements one index at a time.\<close>

fun write_list :: "'a list \<Rightarrow> nat \<Rightarrow> 'a list \<Rightarrow> 'a list" where
  "write_list xs at [] = xs"
| "write_list xs at (v # vs) = write_list (xs[at := v]) (Suc at) vs"

lemma length_write_list [simp]: "length (write_list xs at vs) = length xs"
  by (induction xs at vs rule: write_list.induct) auto

lemma write_list_nth:
  "at + length vs \<le> length xs \<Longrightarrow>
   write_list xs at vs ! i = (if at \<le> i \<and> i < at + length vs then vs ! (i - at) else xs ! i)"
proof (induction xs at vs rule: write_list.induct)
  case (1 xs at)
  then show ?case by auto
next
  case (2 xs at v vs)
  then show ?case by (auto simp: nth_Cons' nth_list_update_if)
qed

lemma write_list_eq:
  "at + length vs \<le> length xs \<Longrightarrow>
   write_list xs at vs = take at xs @ vs @ drop (at + length vs) xs"
  by (rule nth_equalityI) (auto simp: write_list_nth nth_append)

end
