(* ===== verification/Rate_Limiter.thy ===== *)
theory Rate_Limiter
  imports Chryso_Prelude
begin

text \<open>
  The interface of a rate limiter: an operation that admits or refuses a request at a time,
  whose state holds a credit that an admission pays for and that grows no faster than time
  passes.  Root has two of them, the restart window of \<open>root_policy.h\<close> and the command token
  bucket of \<open>command.c\<close>; both are instances, so the bound on admissions is proved once.
\<close>

fun admissions :: "('s \<Rightarrow> 't \<Rightarrow> bool \<times> 's) \<Rightarrow> 's \<Rightarrow> 't list \<Rightarrow> nat" where
  "admissions admit s [] = 0"
| "admissions admit s (t # ts) =
     (case admit s t of (b, s') \<Rightarrow> (if b then 1 else 0) + admissions admit s' ts)"

locale rate_limiter =
  fixes admit :: "'s \<Rightarrow> 't \<Rightarrow> bool \<times> 's"
    and clock :: "'t \<Rightarrow> nat"
    and ok :: "'s \<Rightarrow> 't \<Rightarrow> bool"
    and credit :: "'s \<Rightarrow> 't \<Rightarrow> nat"
    and cost :: nat
  assumes ok_admit: "ok s t0 \<Longrightarrow> clock t0 \<le> clock t \<Longrightarrow> ok (snd (admit s t)) t"
    and admit_pays: "ok s t0 \<Longrightarrow> clock t0 \<le> clock t \<Longrightarrow> fst (admit s t) \<Longrightarrow>
      credit (snd (admit s t)) t + cost \<le> credit s t"
    and refuse_free: "ok s t0 \<Longrightarrow> clock t0 \<le> clock t \<Longrightarrow> \<not> fst (admit s t) \<Longrightarrow>
      credit (snd (admit s t)) t \<le> credit s t"
    and credit_grows: "ok s t0 \<Longrightarrow> clock t0 \<le> clock t \<Longrightarrow>
      credit s t \<le> credit s t0 + (clock t - clock t0)"
begin

lemma step_budget:
  assumes "ok s t0" "clock t0 \<le> clock t"
  shows "(if fst (admit s t) then cost else 0) + credit (snd (admit s t)) t
    \<le> credit s t0 + (clock t - clock t0)"
  using admit_pays [OF assms] refuse_free [OF assms] credit_grows [OF assms] by auto

lemma admissions_cost:
  "ok s t0 \<Longrightarrow> sorted (map clock (t0 # ts)) \<Longrightarrow>
   admissions admit s ts * cost \<le> credit s t0 + (clock (last (t0 # ts)) - clock t0)"
proof (induction ts arbitrary: s t0)
  case Nil
  then show ?case by simp
next
  case (Cons t ts)
  obtain b s' where a: "admit s t = (b, s')" by (cases "admit s t")
  have le: "clock t0 \<le> clock t" using Cons.prems(2) by simp
  have ok': "ok s' t" using ok_admit [OF Cons.prems(1) le] a by simp
  have "sorted (map clock (t # ts))" using Cons.prems(2) by simp
  note ih = Cons.IH [OF ok' this]
  have mono: "clock t \<le> clock (last (t # ts))"
    using Cons.prems(2) last_in_set [of "t # ts"] by (cases ts) auto
  show ?case
    using step_budget [OF Cons.prems(1) le] ih mono le a by (auto simp: algebra_simps)
qed

text \<open>Over any run, the admissions are bounded by what was on credit and the time that passed.\<close>

lemma admissions_bound:
  assumes "ok s t0" "sorted (map clock (t0 # ts))" "0 < cost" "credit s t0 \<le> burst * cost"
  shows "admissions admit s ts \<le> burst + (clock (last (t0 # ts)) - clock t0) div cost"
proof -
  have "admissions admit s ts * cost \<le> (clock (last (t0 # ts)) - clock t0) + burst * cost"
    using admissions_cost [OF assms(1,2)] assms(4) by simp
  then have "admissions admit s ts \<le> ((clock (last (t0 # ts)) - clock t0) + burst * cost) div cost"
    using assms(3) by (metis div_le_mono nonzero_mult_div_cancel_right not_less_zero)
  then show ?thesis using assms(3) by simp
qed

end

end
