(* ===== verification/Root_Policy.thy ===== *)
theory Root_Policy
  imports Rate_Limiter
begin

text \<open>
  Root's restart and notification decisions: \<open>src/src/pd/root/policy/root_policy.h\<close>.

  Every operation of the header is a definition here, with C's \<open>unsigned int\<close> as \<open>u32\<close> and
  \<open>uint64_t\<close> as \<open>u64\<close>.  An operation that writes through a pointer returns the new value; one
  that may leave its out parameter unwritten returns an option or a sum.
\<close>

section \<open>Ids\<close>

datatype root_child = Root_child (child_value: u32)

datatype root_channel = Root_channel (channel_value: u32)

definition root_child_mask_bits :: u32 where
  "root_child_mask_bits = 64"

definition root_child_from_raw :: "u32 \<Rightarrow> nat \<Rightarrow> u64 \<Rightarrow> root_child option" where
  "root_child_from_raw raw max_children known_mask =
     (if unat raw \<ge> max_children \<or> raw \<ge> root_child_mask_bits \<or>
         drop_bit (unat raw) known_mask AND 1 = 0
      then None
      else Some (Root_child raw))"

section \<open>Per-child records and the lifetime decision\<close>

datatype root_child_state = Child_live | Child_gone

record root_child_record =
  lifetime_count :: u32
  window_count :: u32
  last_charge_ticks :: u64
  last_charge_valid :: bool
  child_state :: root_child_state

definition root_child_record_zero :: root_child_record where
  "root_child_record_zero =
     \<lparr>lifetime_count = 0, window_count = 0, last_charge_ticks = 0, last_charge_valid = False,
      child_state = Child_live\<rparr>"

datatype root_restart_action =
    Restart_resume
  | Giveup_budget_exhausted
  | Giveup_window_exhausted
  | Giveup_lifetime_exhausted
  | Giveup_no_entry
  | Restart_ignore_gone

definition root_restart_decide :: "root_child_record \<Rightarrow> u32 \<Rightarrow> u64 \<Rightarrow> root_restart_action" where
  "root_restart_decide r budget entry =
     (if child_state r = Child_gone then Restart_ignore_gone
      else if lifetime_count r \<ge> budget then Giveup_budget_exhausted
      else if entry = 0 then Giveup_no_entry
      else Restart_resume)"

definition root_record_charge :: "root_child_record \<Rightarrow> root_child_record" where
  "root_record_charge r = r\<lparr>lifetime_count := lifetime_count r + 1\<rparr>"

definition root_record_give_up :: "root_child_record \<Rightarrow> root_child_record" where
  "root_record_give_up r = r\<lparr>child_state := Child_gone\<rparr>"

fun root_restart_giveup_reason :: "root_restart_action \<Rightarrow> string" where
  "root_restart_giveup_reason Giveup_budget_exhausted = ''budget-exhausted''"
| "root_restart_giveup_reason Giveup_window_exhausted = ''window-exhausted''"
| "root_restart_giveup_reason Giveup_lifetime_exhausted = ''lifetime-exhausted''"
| "root_restart_giveup_reason Giveup_no_entry = ''no-restart-entry''"
| "root_restart_giveup_reason Restart_resume = ''''"
| "root_restart_giveup_reason Restart_ignore_gone = ''''"

section \<open>The clock\<close>

datatype root_clock_result =
    Clock_ok
  | Clock_bad_frequency
  | Clock_regressed
  | Clock_bad_interval
  | Clock_interval_overflow

record root_clock =
  ticks_per_ms :: u64
  last_ticks :: u64
  clock_seen :: bool
  clock_available :: bool

definition root_clock_zero :: root_clock where
  "root_clock_zero =
     \<lparr>ticks_per_ms = 0, last_ticks = 0, clock_seen = False, clock_available = False\<rparr>"

definition root_clock_init :: "u64 \<Rightarrow> u64 \<Rightarrow> u64 \<Rightarrow> root_clock_result \<times> root_clock" where
  "root_clock_init frequency_hz minimum_hz maximum_hz =
     (if minimum_hz < 1000 \<or> minimum_hz > maximum_hz \<or>
         frequency_hz < minimum_hz \<or> frequency_hz > maximum_hz
      then (Clock_bad_frequency, root_clock_zero)
      else (Clock_ok,
            root_clock_zero
              \<lparr>ticks_per_ms := frequency_hz div 1000 + (if frequency_hz mod 1000 \<noteq> 0 then 1 else 0),
               clock_available := True\<rparr>))"

definition root_clock_observe :: "root_clock \<Rightarrow> u64 \<Rightarrow> root_clock_result \<times> root_clock" where
  "root_clock_observe c ticks =
     (if \<not> clock_available c then (Clock_bad_frequency, c)
      else if ticks_per_ms c = 0 then (Clock_bad_frequency, c\<lparr>clock_available := False\<rparr>)
      else if clock_seen c \<and> ticks < last_ticks c then (Clock_regressed, c\<lparr>clock_available := False\<rparr>)
      else (Clock_ok, c\<lparr>clock_seen := True, last_ticks := ticks\<rparr>))"

definition root_clock_interval :: "root_clock \<Rightarrow> u64 \<Rightarrow> root_clock_result + u64" where
  "root_clock_interval c milliseconds =
     (if \<not> clock_available c \<or> ticks_per_ms c = 0 then Inl Clock_bad_frequency
      else if milliseconds = 0 then Inl Clock_bad_interval
      else if milliseconds > UINT64_MAX div ticks_per_ms c then Inl Clock_interval_overflow
      else Inr (milliseconds * ticks_per_ms c))"

section \<open>The leaky restart window\<close>

record root_budget_policy =
  capacity :: u32
  lifetime_limit :: u32
  leak_interval_ticks :: u64

datatype root_timed_error =
    Timed_valid
  | Timed_invalid_policy
  | Timed_invalid_record
  | Timed_clock_regressed

record root_timed_decision =
  td_error :: root_timed_error
  td_action :: root_restart_action
  td_next :: root_child_record

text \<open>The leak the middle of \<open>root_restart_decide_at\<close> applies to \<open>result.next\<close>.\<close>

definition window_leak ::
  "root_child_record \<Rightarrow> root_budget_policy \<Rightarrow> u64 \<Rightarrow> root_child_record" where
  "window_leak r p now =
     (if last_charge_valid r then
        let elapsed = now - last_charge_ticks r;
            leaked = elapsed div leak_interval_ticks p
        in if leaked \<ge> ucast (window_count r)
           then r\<lparr>window_count := 0, last_charge_valid := False\<rparr>
           else if leaked \<noteq> 0
           then r\<lparr>window_count := window_count r - ucast leaked,
                  last_charge_ticks := last_charge_ticks r + leaked * leak_interval_ticks p\<rparr>
           else r
      else r)"

definition root_restart_decide_at ::
  "root_child_record \<Rightarrow> root_budget_policy \<Rightarrow> u64 \<Rightarrow> u64 \<Rightarrow> root_timed_decision" where
  "root_restart_decide_at r p entry now =
     (let result = \<lparr>td_error = Timed_valid, td_action = Restart_ignore_gone, td_next = r\<rparr>
      in if child_state r = Child_gone then result
      else if capacity p = 0 \<or> lifetime_limit p = 0 \<or> leak_interval_ticks p = 0
      then result\<lparr>td_error := Timed_invalid_policy\<rparr>
      else if window_count r > capacity p \<or> last_charge_valid r \<noteq> (window_count r \<noteq> 0)
      then result\<lparr>td_error := Timed_invalid_record\<rparr>
      else if last_charge_valid r \<and> now < last_charge_ticks r
      then result\<lparr>td_error := Timed_clock_regressed\<rparr>
      else if lifetime_count r \<ge> lifetime_limit p
      then result\<lparr>td_action := Giveup_lifetime_exhausted\<rparr>
      else
        let next = window_leak r p now
        in if window_count next \<ge> capacity p
        then result\<lparr>td_action := Giveup_window_exhausted, td_next := next\<rparr>
        else if entry = 0 then result\<lparr>td_action := Giveup_no_entry, td_next := next\<rparr>
        else
          let next = (if window_count next = 0
                      then next\<lparr>last_charge_ticks := now, last_charge_valid := True\<rparr> else next)
          in result\<lparr>td_next := next\<lparr>window_count := window_count next + 1,
                                     lifetime_count := lifetime_count next + 1\<rparr>,
                    td_action := Restart_resume\<rparr>)"

section \<open>The test-only notification layout\<close>

record root_channel_layout =
  debug_first :: u32
  fault_first :: u32
  group_count :: u32

definition root_channel_group_fits :: "u32 \<Rightarrow> u32 \<Rightarrow> u32 \<Rightarrow> bool" where
  "root_channel_group_fits first count max_channels \<longleftrightarrow>
     first < max_channels \<and> count \<le> max_channels - first"

definition root_channel_wired :: "u64 \<Rightarrow> root_channel \<Rightarrow> bool" where
  "root_channel_wired wired ch \<longleftrightarrow>
     channel_value ch < root_child_mask_bits \<and> drop_bit (unat (channel_value ch)) wired AND 1 \<noteq> 0"

definition root_channel_in_group :: "u32 \<Rightarrow> u32 \<Rightarrow> u32 \<Rightarrow> bool" where
  "root_channel_in_group ch first count \<longleftrightarrow> ch \<ge> first \<and> ch - first < count"

definition root_channel_layout_valid :: "root_channel_layout \<Rightarrow> u32 \<Rightarrow> u32 \<Rightarrow> bool" where
  "root_channel_layout_valid l max_channels gone \<longleftrightarrow>
     (if group_count l = 0 \<or>
         \<not> root_channel_group_fits (debug_first l) (group_count l) max_channels \<or>
         \<not> root_channel_group_fits (fault_first l) (group_count l) max_channels
      then False
      else
        let debug_end = debug_first l + group_count l;
            fault_end = fault_first l + group_count l
        in if debug_first l < fault_end \<and> fault_first l < debug_end then False
           else \<not> root_channel_in_group gone (debug_first l) (group_count l) \<and>
                \<not> root_channel_in_group gone (fault_first l) (group_count l))"

datatype root_notify_kind =
    Notify_debug_restart (notify_index: nat)
  | Notify_fault_inject (notify_index: nat)
  | Notify_unexpected

definition root_notify_route :: "root_channel \<Rightarrow> root_channel_layout \<Rightarrow> root_notify_kind" where
  "root_notify_route ch l =
     (if root_channel_in_group (channel_value ch) (debug_first l) (group_count l)
      then Notify_debug_restart (unat (channel_value ch - debug_first l))
      else if root_channel_in_group (channel_value ch) (fault_first l) (group_count l)
      then Notify_fault_inject (unat (channel_value ch - fault_first l))
      else Notify_unexpected)"

section \<open>Lemmas\<close>

lemma root_child_from_raw_iff:
  "root_child_from_raw raw n m = Some c \<longleftrightarrow>
     c = Root_child raw \<and> unat raw < n \<and> unat raw < 64 \<and> bit m (unat raw)"
  by (auto simp: root_child_from_raw_def root_child_mask_bits_def drop_bit_and_one
      word_le_nat_alt not_le)

lemma root_channel_wired_iff:
  "root_channel_wired m ch \<longleftrightarrow> unat (channel_value ch) < 64 \<and> bit m (unat (channel_value ch))"
  by (auto simp: root_channel_wired_def root_child_mask_bits_def drop_bit_and_one word_less_nat_alt)

lemma root_channel_in_group_nat:
  "root_channel_in_group ch first count \<longleftrightarrow>
     unat first \<le> unat ch \<and> unat ch < unat first + unat count"
  by (auto simp: root_channel_in_group_def wordpos)

lemma root_channel_group_fits_nat:
  "root_channel_group_fits first count n \<longleftrightarrow>
     unat first < unat n \<and> unat first + unat count \<le> unat n"
  by (auto simp: root_channel_group_fits_def wordpos)

lemma decide_gone [simp]:
  "child_state r = Child_gone \<Longrightarrow> root_restart_decide r budget entry = Restart_ignore_gone"
  by (simp add: root_restart_decide_def)

lemma decide_at_gone [simp]:
  "child_state r = Child_gone \<Longrightarrow>
   root_restart_decide_at r p entry now =
     \<lparr>td_error = Timed_valid, td_action = Restart_ignore_gone, td_next = r\<rparr>"
  by (simp add: root_restart_decide_at_def)

lemma decide_resume_iff:
  "root_restart_decide r budget entry = Restart_resume \<longleftrightarrow>
     child_state r = Child_live \<and> lifetime_count r < budget \<and> entry \<noteq> 0"
  by (cases "child_state r") (auto simp: root_restart_decide_def not_le)

section \<open>The restart window as a rate limiter\<close>

definition window_policy_ok :: "root_budget_policy \<Rightarrow> bool" where
  "window_policy_ok p \<longleftrightarrow> capacity p \<noteq> 0 \<and> lifetime_limit p \<noteq> 0 \<and> leak_interval_ticks p \<noteq> 0"

text \<open>A record the timed decision accepts at a time that is not before its last charge.\<close>

definition window_ok :: "root_budget_policy \<Rightarrow> root_child_record \<Rightarrow> u64 \<Rightarrow> bool" where
  "window_ok p r now \<longleftrightarrow>
     window_policy_ok p \<and> window_count r \<le> capacity p \<and>
     (last_charge_valid r \<longleftrightarrow> window_count r \<noteq> 0) \<and>
     (last_charge_valid r \<longrightarrow> last_charge_ticks r \<le> now)"

text \<open>The ticks that must still pass until the window is empty.\<close>

definition window_debt :: "root_budget_policy \<Rightarrow> root_child_record \<Rightarrow> u64 \<Rightarrow> nat" where
  "window_debt p r now =
     (if last_charge_valid r
      then unat (window_count r) * unat (leak_interval_ticks p)
           - (unat now - unat (last_charge_ticks r))
      else 0)"

definition window_burst :: "root_budget_policy \<Rightarrow> nat" where
  "window_burst p = unat (capacity p) * unat (leak_interval_ticks p)"

definition window_credit :: "root_budget_policy \<Rightarrow> root_child_record \<Rightarrow> u64 \<Rightarrow> nat" where
  "window_credit p r now = window_burst p - window_debt p r now"

text \<open>One request: the caller commits the decision's record only on a resume.\<close>

definition window_admit ::
  "root_budget_policy \<Rightarrow> root_child_record \<Rightarrow> u64 \<times> u64 \<Rightarrow> bool \<times> root_child_record" where
  "window_admit p r req =
     (let d = root_restart_decide_at r p (fst req) (snd req)
      in if td_error d = Timed_valid \<and> td_action d = Restart_resume then (True, td_next d)
         else (False, r))"

lemma elapsed_unat:
  "last_charge_ticks r \<le> now \<Longrightarrow>
   unat (now - last_charge_ticks r) = unat now - unat (last_charge_ticks r)"
  by (simp add: wordpos)

lemma leaked_unat:
  "last_charge_ticks r \<le> now \<Longrightarrow>
   unat ((now - last_charge_ticks r) div i) = (unat now - unat (last_charge_ticks r)) div unat i"
  by (simp add: unat_div elapsed_unat)

lemma leaked_ge_iff:
  "(leaked \<ge> (ucast w :: u64)) = (unat leaked \<ge> unat w)" for w :: u32
  by (simp add: word_le_nat_alt unat_ucast_up)

text \<open>What the leak leaves: the count loses one per whole interval, the stamp moves with it.\<close>

lemma window_leak_empty:
  assumes "last_charge_valid r" "last_charge_ticks r \<le> now"
    "unat (window_count r) \<le> (unat now - unat (last_charge_ticks r)) div unat (leak_interval_ticks p)"
  shows "window_leak r p now = r\<lparr>window_count := 0, last_charge_valid := False\<rparr>"
  using assms by (simp add: window_leak_def Let_def leaked_ge_iff leaked_unat)

lemma window_leak_partial:
  assumes v: "last_charge_valid r" and le: "last_charge_ticks r \<le> now"
    and lt: "(unat now - unat (last_charge_ticks r)) div unat (leak_interval_ticks p)
      < unat (window_count r)"
  defines "k \<equiv> (unat now - unat (last_charge_ticks r)) div unat (leak_interval_ticks p)"
  shows "unat (window_count (window_leak r p now)) = unat (window_count r) - k"
    and "unat (last_charge_ticks (window_leak r p now)) =
      unat (last_charge_ticks r) + k * unat (leak_interval_ticks p)"
    and "last_charge_valid (window_leak r p now)"
proof -
  define leaked where "leaked = (now - last_charge_ticks r) div leak_interval_ticks p"
  have ul: "unat leaked = k" unfolding leaked_def k_def by (rule leaked_unat [OF le])
  have k: "k < unat (window_count r)" using lt by (simp add: k_def)
  then have k32: "k < 2 ^ 32" using unat_lt [of "window_count r"] by simp
  have wl: "window_leak r p now =
      (if leaked \<noteq> 0
       then r\<lparr>window_count := window_count r - ucast leaked,
              last_charge_ticks := last_charge_ticks r + leaked * leak_interval_ticks p\<rparr>
       else r)"
    using v k by (simp add: window_leak_def Let_def leaked_ge_iff ul leaked_def [symmetric])
  have uc: "unat (ucast leaked :: u32) = k"
    using k32 by (simp add: unat_ucast_down ul)
  have km: "k * unat (leak_interval_ticks p) \<le> unat now - unat (last_charge_ticks r)"
    by (simp add: k_def)
  have um: "unat (leaked * leak_interval_ticks p) = k * unat (leak_interval_ticks p)"
    using km unat_lt [of now] by (simp add: unat_mult_fits ul)
  have "unat (window_count r - ucast leaked) = unat (window_count r) - k"
    using k by (simp add: unat_minus_le uc)
  moreover have "unat (last_charge_ticks r + leaked * leak_interval_ticks p) =
      unat (last_charge_ticks r) + k * unat (leak_interval_ticks p)"
    using km le unat_lt [of now]
    by (subst unat_add_fits) (simp_all add: um word_le_nat_alt)
  moreover have "k = 0 \<longleftrightarrow> leaked = 0" using ul by (metis unat_eq_zero)
  ultimately show "unat (window_count (window_leak r p now)) = unat (window_count r) - k"
    and "unat (last_charge_ticks (window_leak r p now)) =
      unat (last_charge_ticks r) + k * unat (leak_interval_ticks p)"
    and "last_charge_valid (window_leak r p now)"
    using v by (auto simp: wl)
qed

lemma window_leak_frame [frame, simp]:
  "lifetime_count (window_leak r p now) = lifetime_count r"
  "child_state (window_leak r p now) = child_state r"
  by (simp_all add: window_leak_def Let_def)

lemma small_diff: "w < w - e + i \<Longrightarrow> i \<le> w \<Longrightarrow> e \<le> w" for w :: nat
  by simp

lemma shift_diff: "k \<le> e \<Longrightarrow> w - k - (e - k) = w - e" for w :: nat
  by simp

lemma window_leak_debt:
  assumes "window_ok p r t0" "t0 \<le> now"
  shows "window_debt p (window_leak r p now) now = window_debt p r now"
    and "window_ok p (window_leak r p now) now"
    and "unat (window_count (window_leak r p now)) * unat (leak_interval_ticks p)
      < window_debt p r now + unat (leak_interval_ticks p)"
proof -
  let ?I = "unat (leak_interval_ticks p)" and ?e = "unat now - unat (last_charge_ticks r)"
  have I: "0 < ?I" using assms(1) by (simp add: window_ok_def window_policy_ok_def unat_gt_0)
  have "window_debt p (window_leak r p now) now = window_debt p r now \<and>
    window_ok p (window_leak r p now) now \<and>
    unat (window_count (window_leak r p now)) * ?I < window_debt p r now + ?I"
  proof (cases "last_charge_valid r")
    case False
    then show ?thesis using assms I by (simp add: window_leak_def window_ok_def window_debt_def)
  next
    case True
    then have le: "last_charge_ticks r \<le> now" using assms by (auto simp: window_ok_def)
    show ?thesis
    proof (cases "unat (window_count r) \<le> ?e div ?I")
      case empty: True
      then have "unat (window_count r) * ?I \<le> ?e"
        using mult_le_mono1 [OF empty, of ?I] div_times_less_eq_dividend [of ?e ?I] by linarith
      then show ?thesis
        using assms(1) I True by (simp add: window_leak_empty [OF True le empty]
            window_debt_def window_ok_def)
    next
      case False
      then have lt: "?e div ?I < unat (window_count r)" by simp
      note lk = window_leak_partial [OF True le lt]
      have km: "?e div ?I * ?I \<le> ?e" and kr: "?e < ?e div ?I * ?I + ?I"
        using I by (simp, metis dividend_less_times_div mult.commute add.commute mult_Suc)
      have n0: "window_count (window_leak r p now) \<noteq> 0"
        using lk(1) lt by (auto simp: unat_eq_zero [symmetric])
      have lastle: "last_charge_ticks (window_leak r p now) \<le> now"
        using km le unfolding word_le_nat_alt lk(2) by linarith
      have cap: "window_count (window_leak r p now) \<le> capacity p"
        using assms(1) unfolding word_le_nat_alt lk(1) window_ok_def by linarith
      have debt: "window_debt p (window_leak r p now) now = window_debt p r now"
        by (simp only: window_debt_def lk diff_mult_distrib True if_True diff_diff_left [symmetric])
          (rule shift_diff [OF km])
      have "window_ok p (window_leak r p now) now"
        using assms(1) lk(3) n0 lastle cap by (simp add: window_ok_def)
      moreover have "unat (window_count (window_leak r p now)) * ?I < window_debt p r now + ?I"
        using True kr km lt mult_less_mono1 [OF lt I]
        by (simp add: window_debt_def lk(1) diff_mult_distrib)
      ultimately show ?thesis using debt by simp
    qed
  qed
  then show "window_debt p (window_leak r p now) now = window_debt p r now"
    and "window_ok p (window_leak r p now) now"
    and "unat (window_count (window_leak r p now)) * ?I < window_debt p r now + ?I"
    by auto
qed

text \<open>A decision on an accepted record is never an error, and what it decides.\<close>

lemma decide_at_accepted:
  assumes "window_ok p r now"
  shows "root_restart_decide_at r p entry now =
    (let l = window_leak r p now;
         result = \<lparr>td_error = Timed_valid, td_action = Restart_ignore_gone, td_next = r\<rparr>
     in if child_state r = Child_gone then result
        else if lifetime_count r \<ge> lifetime_limit p
        then result\<lparr>td_action := Giveup_lifetime_exhausted\<rparr>
        else if window_count l \<ge> capacity p
        then result\<lparr>td_action := Giveup_window_exhausted, td_next := l\<rparr>
        else if entry = 0 then result\<lparr>td_action := Giveup_no_entry, td_next := l\<rparr>
        else result\<lparr>td_next := l\<lparr>window_count := window_count l + 1,
                                    lifetime_count := lifetime_count r + 1,
                                    last_charge_ticks :=
                                      (if window_count l = 0 then now else last_charge_ticks l),
                                    last_charge_valid := True\<rparr>,
                    td_action := Restart_resume\<rparr>)"
proof -
  have c: "(capacity p = 0 \<or> lifetime_limit p = 0 \<or> leak_interval_ticks p = 0) = False"
    "(window_count r > capacity p \<or> last_charge_valid r \<noteq> (window_count r \<noteq> 0)) = False"
    "(last_charge_valid r \<and> now < last_charge_ticks r) = False"
    using assms by (auto simp: window_ok_def window_policy_ok_def)
  have v: "last_charge_valid (window_leak r p now) = (window_count (window_leak r p now) \<noteq> 0)"
    using window_leak_debt(2) [OF assms order.refl] by (simp add: window_ok_def)
  show ?thesis
    unfolding root_restart_decide_at_def Let_def c if_False
    by (cases "window_count (window_leak r p now) = 0") (simp_all add: v)
qed

lemma decide_at_resume_iff:
  assumes "window_ok p r now"
  shows "td_error (root_restart_decide_at r p entry now) = Timed_valid"
    and "td_action (root_restart_decide_at r p entry now) = Restart_resume \<longleftrightarrow>
      child_state r = Child_live \<and> lifetime_count r < lifetime_limit p \<and> entry \<noteq> 0 \<and>
      window_count (window_leak r p now) < capacity p"
  by (simp_all add: decide_at_accepted [OF assms] Let_def not_le not_less, cases "child_state r", auto)

lemma decide_at_resume_next:
  assumes "window_ok p r now" "td_action (root_restart_decide_at r p entry now) = Restart_resume"
  defines "l \<equiv> window_leak r p now"
  shows "td_next (root_restart_decide_at r p entry now) =
    l\<lparr>window_count := window_count l + 1, lifetime_count := lifetime_count r + 1,
      last_charge_ticks := (if window_count l = 0 then now else last_charge_ticks l),
      last_charge_valid := True\<rparr>"
  using assms(2) by (auto simp: decide_at_accepted [OF assms(1)] Let_def l_def split: if_splits)

lemma window_charge_ok:
  fixes x :: u32
  assumes ok: "window_ok p l now" and c: "window_count l < capacity p"
  defines "n \<equiv> l\<lparr>window_count := window_count l + 1, lifetime_count := x,
      last_charge_ticks := (if window_count l = 0 then now else last_charge_ticks l),
      last_charge_valid := True\<rparr>"
  shows "window_ok p n now"
    and "unat (window_count l) * unat (leak_interval_ticks p)
          < window_debt p l now + unat (leak_interval_ticks p) \<Longrightarrow>
        window_debt p n now = window_debt p l now + unat (leak_interval_ticks p)"
proof -
  have s: "unat (window_count l + 1) = Suc (unat (window_count l))" using c by (rule unat_inc_below)
  then have nz: "window_count l + 1 \<noteq> 0" by (metis Suc_neq_Zero unat_0)
  show "window_ok p n now"
    using ok c s nz by (auto simp: n_def window_ok_def word_le_nat_alt word_less_nat_alt)
  assume "unat (window_count l) * unat (leak_interval_ticks p)
          < window_debt p l now + unat (leak_interval_ticks p)"
  note lt = this
  show "window_debt p n now = window_debt p l now + unat (leak_interval_ticks p)"
  proof (cases "window_count l = 0")
    case True
    then show ?thesis using ok by (simp add: n_def window_debt_def window_ok_def)
  next
    case False
    then have v: "last_charge_valid l" and "0 < unat (window_count l)"
      using ok by (auto simp: window_ok_def unat_gt_0)
    then have "unat (leak_interval_ticks p) \<le> unat (window_count l) * unat (leak_interval_ticks p)"
      by simp
    then have "unat now - unat (last_charge_ticks l)
        \<le> unat (window_count l) * unat (leak_interval_ticks p)"
      using lt v unfolding window_debt_def by (auto intro: small_diff)
    then show ?thesis using v False s unfolding n_def window_debt_def by simp
  qed
qed

lemma window_debt_le_burst: "window_ok p r t \<Longrightarrow> window_debt p r t \<le> window_burst p"
proof -
  assume "window_ok p r t"
  then have "unat (window_count r) * unat (leak_interval_ticks p) \<le> window_burst p"
    unfolding window_burst_def by (intro mult_le_mono1) (simp add: window_ok_def word_le_nat_alt)
  then show ?thesis unfolding window_debt_def by (auto intro: order.trans [OF diff_le_self])
qed

lemma window_debt_decays:
  "window_ok p r t0 \<Longrightarrow> t0 \<le> t \<Longrightarrow>
   window_debt p r t0 \<le> window_debt p r t + (unat t - unat t0)"
  by (auto simp: window_debt_def window_ok_def word_le_nat_alt)

lemma window_ok_later [keeps]: "window_ok p r t0 \<Longrightarrow> t0 \<le> t \<Longrightarrow> window_ok p r t"
  by (auto simp: window_ok_def)

text \<open>What one admission does to the accounting: one interval of debt, within the burst.\<close>

lemma window_admit_True:
  assumes ok: "window_ok p r now" and a: "fst (window_admit p r (entry, now))"
  shows "window_ok p (snd (window_admit p r (entry, now))) now"
    and "window_debt p (snd (window_admit p r (entry, now))) now =
      window_debt p r now + unat (leak_interval_ticks p)"
    and "lifetime_count r < lifetime_limit p"
    and "lifetime_count (snd (window_admit p r (entry, now))) = lifetime_count r + 1"
proof -
  have res: "td_action (root_restart_decide_at r p entry now) = Restart_resume"
    using a by (auto simp: window_admit_def Let_def split: if_splits)
  note nx = decide_at_resume_next [OF ok res]
  note lk = window_leak_debt [OF ok order.refl]
  have c: "window_count (window_leak r p now) < capacity p"
    and life: "lifetime_count r < lifetime_limit p"
    using res decide_at_resume_iff(2) [OF ok] by auto
  have sn: "snd (window_admit p r (entry, now)) = td_next (root_restart_decide_at r p entry now)"
    using a by (auto simp: window_admit_def Let_def split: if_splits)
  show "window_ok p (snd (window_admit p r (entry, now))) now"
    unfolding sn nx by (rule window_charge_ok(1) [OF lk(2) c])
  show "window_debt p (snd (window_admit p r (entry, now))) now =
      window_debt p r now + unat (leak_interval_ticks p)"
    unfolding sn nx using window_charge_ok(2) [OF lk(2) c] lk(1,3) by simp
  show "lifetime_count r < lifetime_limit p" by (rule life)
  show "lifetime_count (snd (window_admit p r (entry, now))) = lifetime_count r + 1"
    unfolding sn nx by simp
qed

lemma window_admit_False:
  "\<not> fst (window_admit p r req) \<Longrightarrow> snd (window_admit p r req) = r"
  by (auto simp: window_admit_def Let_def split: if_splits)

interpretation win: rate_limiter "window_admit p" "\<lambda>req. unat (snd req)"
  "\<lambda>r req. window_ok p r (snd req)" "\<lambda>r req. window_credit p r (snd req)"
  "unat (leak_interval_ticks p)" for p
proof (unfold_locales, goal_cases)
  case (1 r t0 t)
  then have ok: "window_ok p r (snd t)" by (auto simp: word_le_nat_alt intro: keeps)
  then show ?case
    using window_admit_True(1) [OF ok, of "fst t"] window_admit_False [of p r t]
    by (cases "fst (window_admit p r t)") auto
next
  case (2 r t0 t)
  then have ok: "window_ok p r (snd t)" by (auto simp: word_le_nat_alt intro: keeps)
  then show ?case
    using window_admit_True(1,2) [OF ok, of "fst t"] 2(3)
      window_debt_le_burst [OF window_admit_True(1) [OF ok, of "fst t"]]
    by (simp add: window_credit_def)
next
  case (3 r t0 t)
  then show ?case by (simp add: window_admit_False)
next
  case (4 r t0 t)
  then show ?case
    using window_debt_decays [of p r "snd t0" "snd t"]
    by (simp add: window_credit_def word_le_nat_alt)
qed

lemma window_count_debt:
  assumes "window_ok p r now"
  shows "window_count (window_leak r p now) < capacity p \<longleftrightarrow>
    unat (leak_interval_ticks p) \<le> window_credit p r now"
proof -
  let ?I = "unat (leak_interval_ticks p)" and ?w = "unat (window_count (window_leak r p now))"
  let ?D = "window_debt p r now" and ?C = "unat (capacity p)"
  have lt: "?w * ?I < ?D + ?I" and eq: "window_debt p (window_leak r p now) now = ?D"
    using window_leak_debt [OF assms order.refl] by auto
  have D: "?D \<le> ?w * ?I" by (subst eq [symmetric]) (simp add: window_debt_def)
  have B: "?D \<le> ?C * ?I" using window_debt_le_burst [OF assms] by (simp add: window_burst_def)
  have "?w < ?C \<longleftrightarrow> ?D + ?I \<le> ?C * ?I"
  proof
    assume "?w < ?C"
    then have "Suc ?w * ?I \<le> ?C * ?I" by (intro mult_le_mono1) simp
    then show "?D + ?I \<le> ?C * ?I" using D by simp
  next
    assume "?D + ?I \<le> ?C * ?I"
    then have "?w * ?I < ?C * ?I" using lt by linarith
    then show "?w < ?C" by simp
  qed
  then show ?thesis using B by (auto simp: window_credit_def window_burst_def word_less_nat_alt)
qed

section \<open>Properties\<close>

text \<open>
  C25.  The restart window is a rate limit: from any record the timed decision accepts, whatever
  the sequence of requests at times that do not go back, the restarts it grants are at most the
  window's capacity plus one per whole leak interval that passed.
\<close>

theorem restart_window_rate:
  assumes "window_ok p r t0" "sorted (map (\<lambda>req. unat (snd req)) ((e0, t0) # reqs))"
  shows "admissions (window_admit p) r reqs
    \<le> unat (capacity p) +
       (unat (snd (last ((e0, t0) # reqs))) - unat t0) div unat (leak_interval_ticks p)"
  using win.admissions_bound [where ?t0.0 = "(e0, t0)" and ?s = r and ts = reqs
      and burst = "unat (capacity p)" and p = p] assms
  by (simp add: window_credit_def window_burst_def window_ok_def window_policy_ok_def unat_gt_0)

definition window_sample_policy :: root_budget_policy where
  "window_sample_policy = \<lparr>capacity = 2, lifetime_limit = 100, leak_interval_ticks = 10\<rparr>"

theorem restart_window_rate_witness:
  "admissions (window_admit window_sample_policy) root_child_record_zero
     [(1, 0), (1, 5), (1, 7), (1, 12)] \<le> 2 + (12 - 0) div 10"
  using restart_window_rate [of window_sample_policy root_child_record_zero 0 0
      "[(1, 0), (1, 5), (1, 7), (1, 12)]"]
  by (simp add: window_ok_def window_policy_ok_def window_sample_policy_def
      root_child_record_zero_def)

text \<open>
  The timed decision resumes exactly when the child is live, below its lifetime limit, has
  an entry point, and the window has room for one more interval of debt; it never reports an
  error on a record in the window's invariant, and a resume keeps the invariant and charges
  exactly one lifetime token and one interval of debt.
\<close>

theorem restart_window_decision:
  assumes "window_ok p r now"
  shows "td_error (root_restart_decide_at r p entry now) = Timed_valid \<and>
    (td_action (root_restart_decide_at r p entry now) = Restart_resume \<longleftrightarrow>
       child_state r = Child_live \<and> lifetime_count r < lifetime_limit p \<and> entry \<noteq> 0 \<and>
       unat (leak_interval_ticks p) \<le> window_credit p r now) \<and>
    (td_action (root_restart_decide_at r p entry now) = Restart_resume \<longrightarrow>
       (let n = td_next (root_restart_decide_at r p entry now)
        in window_ok p n now \<and> child_state n = Child_live \<and>
           unat (lifetime_count n) = Suc (unat (lifetime_count r)) \<and>
           window_debt p n now = window_debt p r now + unat (leak_interval_ticks p)))"
proof -
  note iff = decide_at_resume_iff [OF assms, of entry]
  have "td_action (root_restart_decide_at r p entry now) = Restart_resume \<Longrightarrow>
    (let n = td_next (root_restart_decide_at r p entry now)
     in window_ok p n now \<and> child_state n = Child_live \<and>
        unat (lifetime_count n) = Suc (unat (lifetime_count r)) \<and>
        window_debt p n now = window_debt p r now + unat (leak_interval_ticks p))"
  proof -
    assume res: "td_action (root_restart_decide_at r p entry now) = Restart_resume"
    then have ad: "window_admit p r (entry, now) = (True, td_next (root_restart_decide_at r p entry now))"
      by (simp add: window_admit_def iff(1))
    have a: "fst (window_admit p r (entry, now))" by (simp add: ad)
    show ?thesis
      using window_admit_True [OF assms a] res iff(2) unat_inc_below
      by (simp add: ad Let_def decide_at_resume_next [OF assms res])
  qed
  then show ?thesis using iff window_count_debt [OF assms] by auto
qed

theorem restart_window_decision_witness:
  "td_action (root_restart_decide_at root_child_record_zero window_sample_policy 1 7) = Restart_resume"
proof -
  have "window_ok window_sample_policy root_child_record_zero 7"
    by (simp add: window_ok_def window_policy_ok_def window_sample_policy_def
        root_child_record_zero_def)
  from restart_window_decision [OF this, of 1] show ?thesis
    by (simp add: window_credit_def window_debt_def window_burst_def window_sample_policy_def
        root_child_record_zero_def)
qed

lemma clock_init_ok:
  "root_clock_init f lo hi = (Clock_ok, c) \<Longrightarrow>
   clock_available c \<and> \<not> clock_seen c \<and> 1000 \<le> f \<and>
   ticks_per_ms c = f div 1000 + (if f mod 1000 \<noteq> 0 then 1 else 0)"
  by (auto simp: root_clock_init_def root_clock_zero_def not_less split: if_splits)

lemma ticks_per_ms_ceiling:
  fixes f :: u64
  shows "unat (f div 1000 + (if f mod 1000 \<noteq> 0 then 1 else 0)) =
    unat f div 1000 + (if unat f mod 1000 \<noteq> 0 then 1 else 0)"
proof -
  have q: "unat (f div 1000) = unat f div 1000" by (simp add: unat_div)
  have m: "f mod 1000 = 0 \<longleftrightarrow> unat f mod 1000 = 0"
    by (simp add: unat_eq_zero [symmetric] unat_mod)
  have b: "unat f div 1000 < 18446744073709551615" using unat_u64_lt [of f] by linarith
  have s: "unat (f div 1000 + 1) = Suc (unat (f div 1000))"
    using b by (intro unat_inc_fits [where n = 18446744073709551615]) (simp_all add: q)
  show ?thesis by (cases "unat f mod 1000 = 0") (simp_all only: m s q not_True_eq_False
        not_False_eq_True if_True if_False add_0_right Suc_eq_plus1 simp_thms)
qed

text \<open>
  A policy interval is never shorter than asked: once the clock is initialised with a
  frequency in range, the ticks of an interval of some milliseconds cover that long at the given
  frequency, and the conversion fails, rather than wraps, exactly when the product does not fit.
\<close>

theorem root_clock_interval_covers:
  assumes "root_clock_init f lo hi = (Clock_ok, c)" "ms \<noteq> 0"
  shows "case root_clock_interval c ms of
      Inr t \<Rightarrow> unat t = unat ms * unat (ticks_per_ms c) \<and> unat ms * unat f \<le> 1000 * unat t
    | Inl e \<Rightarrow> e = Clock_interval_overflow \<and> 2 ^ 64 \<le> unat ms * unat (ticks_per_ms c)"
proof -
  note i = clock_init_ok [OF assms(1)]
  let ?t = "unat (ticks_per_ms c)"
  have t: "?t = unat f div 1000 + (if unat f mod 1000 \<noteq> 0 then 1 else 0)"
    using i ticks_per_ms_ceiling by simp
  have f1000: "1000 \<le> unat f" using i by (simp add: word_le_nat_alt)
  have pos: "0 < ?t" and cover: "unat f \<le> 1000 * ?t"
    using f1000 by (auto simp: t)
  have nz: "ticks_per_ms c \<noteq> 0" using pos by (metis unat_0 less_irrefl)
  have gt: "ms > UINT64_MAX div ticks_per_ms c \<longleftrightarrow> 2 ^ 64 \<le> unat ms * ?t"
    using pos by (simp add: word_less_nat_alt unat_div div_less_iff_less_mult) linarith
  have fit: "\<not> 2 ^ 64 \<le> unat ms * ?t \<Longrightarrow> unat (ms * ticks_per_ms c) = unat ms * ?t"
    by (rule unat_mult_fits) simp
  have "unat ms * unat f \<le> 1000 * (unat ms * ?t)"
    using mult_le_mono2 [OF cover, of "unat ms"] by (simp add: algebra_simps)
  then show ?thesis
    using i nz assms(2) gt fit by (simp add: root_clock_interval_def)
qed

theorem root_clock_interval_covers_witness:
  "case root_clock_interval (snd (root_clock_init 62500500 1000000 1000000000)) 5 of
      Inr t \<Rightarrow> 5 * 62500500 \<le> 1000 * unat t | Inl e \<Rightarrow> False"
proof -
  have i: "root_clock_init 62500500 1000000 1000000000 =
    (Clock_ok, snd (root_clock_init 62500500 1000000 1000000000))"
    by (simp add: root_clock_init_def)
  have n: "root_clock_interval (snd (root_clock_init 62500500 1000000 1000000000)) 5 = Inr 312505"
    by code_simp
  show ?thesis using root_clock_interval_covers [OF i, of 5] by (simp add: n)
qed

lemma layout_valid_nat:
  "root_channel_layout_valid l n gone \<longleftrightarrow>
     group_count l \<noteq> 0 \<and>
     unat (debug_first l) + unat (group_count l) \<le> unat n \<and>
     unat (fault_first l) + unat (group_count l) \<le> unat n \<and>
     (unat (debug_first l) + unat (group_count l) \<le> unat (fault_first l) \<or>
      unat (fault_first l) + unat (group_count l) \<le> unat (debug_first l)) \<and>
     \<not> root_channel_in_group gone (debug_first l) (group_count l) \<and>
     \<not> root_channel_in_group gone (fault_first l) (group_count l)"
proof -
  have d: "unat (debug_first l) + unat (group_count l) \<le> unat n \<Longrightarrow>
      unat (debug_first l + group_count l) = unat (debug_first l) + unat (group_count l)"
    using unat_u32_lt [of n] by (intro unat_add_fits) simp
  have f: "unat (fault_first l) + unat (group_count l) \<le> unat n \<Longrightarrow>
      unat (fault_first l + group_count l) = unat (fault_first l) + unat (group_count l)"
    using unat_u32_lt [of n] by (intro unat_add_fits) simp
  have "group_count l \<noteq> 0 \<longleftrightarrow> 0 < unat (group_count l)" by (simp add: unat_gt_0)
  then show ?thesis
    by (auto simp: root_channel_layout_valid_def root_channel_group_fits_nat Let_def
        word_less_nat_alt d f)
qed

text \<open>
  Channel routing: under a layout the validity check accepts, a notification is routed to a
  driver class exactly when its channel lies in that group, the index it gives is below the
  group's count and determines the channel, no channel belongs to both groups, and the give-up
  channel is never routed.
\<close>

theorem root_notify_route_correct:
  assumes "root_channel_layout_valid l max_channels gone"
  shows "case root_notify_route ch l of
      Notify_debug_restart i \<Rightarrow> i < unat (group_count l) \<and>
        unat (channel_value ch) = unat (debug_first l) + i \<and>
        \<not> root_channel_in_group (channel_value ch) (fault_first l) (group_count l) \<and>
        channel_value ch \<noteq> gone
    | Notify_fault_inject i \<Rightarrow> i < unat (group_count l) \<and>
        unat (channel_value ch) = unat (fault_first l) + i \<and> channel_value ch \<noteq> gone
    | Notify_unexpected \<Rightarrow>
        \<not> root_channel_in_group (channel_value ch) (debug_first l) (group_count l) \<and>
        \<not> root_channel_in_group (channel_value ch) (fault_first l) (group_count l)"
  using assms
  by (auto simp: root_notify_route_def layout_valid_nat root_channel_in_group_nat unat_minus_le)

theorem root_notify_route_correct_witness:
  "root_notify_route (Root_channel 6) \<lparr>debug_first = 0, fault_first = 4, group_count = 4\<rparr>
     = Notify_fault_inject 2"
proof -
  have "root_channel_layout_valid \<lparr>debug_first = 0, fault_first = 4, group_count = 4\<rparr> 62 10"
    by code_simp
  from root_notify_route_correct [OF this, of "Root_channel 6"] show ?thesis
    by (auto simp: root_channel_in_group_nat split: root_notify_kind.splits)
qed

end
