(* ===== verification/Abi.thy ===== *)
theory Abi
  imports Chryso_Prelude
begin

text \<open>
  The wire contract Root and the BEAM share: the constants and enums of
  \<open>interfaces/orchestrator_abi.zig\<close>, the byte helpers every generated header carries
  (\<open>writeCommon\<close> in \<open>tools/abi/generate_c.zig\<close>), and the record checkers, whose rules are the
  tables of \<open>tools/abi/checks.zig\<close> read by its reference interpreter \<open>verdict\<close>.

  Memory shared as raw bytes is a \<open>u8 list\<close>; a field is read or written at a byte offset.
\<close>

section \<open>Constants\<close>

abbreviation (input) chryso_abi_version :: u32 where "chryso_abi_version \<equiv> 1"
abbreviation (input) chryso_child_count :: nat where "chryso_child_count \<equiv> 62"
abbreviation (input) chryso_event_count :: nat where "chryso_event_count \<equiv> 128"
abbreviation (input) chryso_root_event_no_child :: u8 where "chryso_root_event_no_child \<equiv> 255"
abbreviation (input) chryso_fault_mr0_valid :: u16 where "chryso_fault_mr0_valid \<equiv> 1"
abbreviation (input) chryso_fault_mr1_valid :: u16 where "chryso_fault_mr1_valid \<equiv> 2"
abbreviation (input) chryso_down_interval_open :: u16 where "chryso_down_interval_open \<equiv> 4"

text \<open>\<open>wireMagic "CHRYSTA1"\<close> and \<open>wireMagic "CHRYSPE1"\<close>.\<close>

abbreviation (input) chryso_magic_status :: u64 where "chryso_magic_status \<equiv> 0x3141545359524843"
abbreviation (input) chryso_magic_spec :: u64 where "chryso_magic_spec \<equiv> 0x3145505359524843"

text \<open>Enums that are stored on a page keep their wire value.\<close>

abbreviation (input) wire_state_unset :: u8 where "wire_state_unset \<equiv> 0"
abbreviation (input) wire_state_live :: u8 where "wire_state_live \<equiv> 1"
abbreviation (input) wire_state_gone :: u8 where "wire_state_gone \<equiv> 3"
abbreviation (input) desired_unset :: u8 where "desired_unset \<equiv> 0"
abbreviation (input) desired_running :: u8 where "desired_running \<equiv> 1"
abbreviation (input) desired_stopped :: u8 where "desired_stopped \<equiv> 2"
abbreviation (input) event_kind_boot :: u8 where "event_kind_boot \<equiv> 1"
abbreviation (input) event_kind_fault :: u8 where "event_kind_fault \<equiv> 2"
abbreviation (input) event_kind_restart :: u8 where "event_kind_restart \<equiv> 3"
abbreviation (input) event_kind_giveup :: u8 where "event_kind_giveup \<equiv> 5"
abbreviation (input) event_kind_control :: u8 where "event_kind_control \<equiv> 8"
abbreviation (input) event_kind_spec_reject :: u8 where "event_kind_spec_reject \<equiv> 9"
abbreviation (input) control_kind_fault_inject :: u32 where "control_kind_fault_inject \<equiv> 1"
abbreviation (input) control_kind_restart_child :: u32 where "control_kind_restart_child \<equiv> 2"

datatype spec_reject =
    Reject_unset
  | Reject_header
  | Reject_bank_torn
  | Reject_bank_checksum
  | Reject_bank_malformed
  | Reject_undeclared_child
  | Reject_regressed
  | Reject_conflict
  | Reject_unstable_copy

fun spec_reject_wire :: "spec_reject \<Rightarrow> u32" where
  "spec_reject_wire Reject_unset = 0"
| "spec_reject_wire Reject_header = 1"
| "spec_reject_wire Reject_bank_torn = 2"
| "spec_reject_wire Reject_bank_checksum = 3"
| "spec_reject_wire Reject_bank_malformed = 4"
| "spec_reject_wire Reject_undeclared_child = 5"
| "spec_reject_wire Reject_regressed = 6"
| "spec_reject_wire Reject_conflict = 7"
| "spec_reject_wire Reject_unstable_copy = 8"

datatype ctl_result =
    Ctl_unset
  | Ctl_ok
  | Ctl_refused
  | Ctl_ignored
  | Ctl_rate_limited
  | Ctl_bad_arg
  | Ctl_bad_version
  | Ctl_internal_error
  | Ctl_already_done
  | Ctl_stale

fun ctl_result_wire :: "ctl_result \<Rightarrow> u64" where
  "ctl_result_wire Ctl_unset = 0"
| "ctl_result_wire Ctl_ok = 1"
| "ctl_result_wire Ctl_refused = 2"
| "ctl_result_wire Ctl_ignored = 3"
| "ctl_result_wire Ctl_rate_limited = 4"
| "ctl_result_wire Ctl_bad_arg = 5"
| "ctl_result_wire Ctl_bad_version = 6"
| "ctl_result_wire Ctl_internal_error = 7"
| "ctl_result_wire Ctl_already_done = 8"
| "ctl_result_wire Ctl_stale = 9"

abbreviation (input) pp_opcode_hello :: u16 where "pp_opcode_hello \<equiv> 1"
abbreviation (input) pp_opcode_restart_child :: u16 where "pp_opcode_restart_child \<equiv> 2"
abbreviation (input) pp_opcode_start_slot :: u16 where "pp_opcode_start_slot \<equiv> 3"
abbreviation (input) pp_opcode_stop_child :: u16 where "pp_opcode_stop_child \<equiv> 4"
abbreviation (input) pp_opcode_resume_child :: u16 where "pp_opcode_resume_child \<equiv> 5"
abbreviation (input) pp_opcode_reclaim_slot :: u16 where "pp_opcode_reclaim_slot \<equiv> 6"
abbreviation (input) pp_opcode_sync :: u16 where "pp_opcode_sync \<equiv> 7"

datatype abi_reject =
    Abi_ok
  | Abi_magic
  | Abi_version
  | Abi_size
  | Abi_checksum
  | Abi_reserved
  | Abi_unknown_kind
  | Abi_range
  | Abi_torn

section \<open>Little-endian loads and stores\<close>

definition load_u8 :: "u8 list \<Rightarrow> nat \<Rightarrow> u8" where
  "load_u8 bs at = bs ! at"

definition load_u32le :: "u8 list \<Rightarrow> nat \<Rightarrow> u32" where
  "load_u32le bs at =
     ucast (bs ! at) OR push_bit 8 (ucast (bs ! (at + 1))) OR
     push_bit 16 (ucast (bs ! (at + 2))) OR push_bit 24 (ucast (bs ! (at + 3)))"

definition load_u64le :: "u8 list \<Rightarrow> nat \<Rightarrow> u64" where
  "load_u64le bs at =
     ucast (load_u32le bs at) OR push_bit 32 (ucast (load_u32le bs (at + 4)))"

definition all_zero :: "u8 list \<Rightarrow> nat \<Rightarrow> bool" where
  "all_zero bs count = list_all (\<lambda>b. b = 0) (take count bs)"

text \<open>The two store loops write byte \<open>i\<close> of the value at offset \<open>i\<close>.\<close>

definition le_bytes :: "nat \<Rightarrow> 'a::len word \<Rightarrow> u8 list" where
  "le_bytes n v = map (\<lambda>i. ucast (drop_bit (8 * i) v)) [0..<n]"

definition store_u32le :: "u8 list \<Rightarrow> nat \<Rightarrow> u32 \<Rightarrow> u8 list" where
  "store_u32le bs at v = write_list bs at (le_bytes 4 v)"

definition store_u64le :: "u8 list \<Rightarrow> nat \<Rightarrow> u64 \<Rightarrow> u8 list" where
  "store_u64le bs at v = write_list bs at (le_bytes 8 v)"

lemma length_le_bytes [simp]: "length (le_bytes n v) = n"
  by (simp add: le_bytes_def)

lemma nth_le_bytes: "i < n \<Longrightarrow> le_bytes n v ! i = ucast (drop_bit (8 * i) v)"
  by (simp add: le_bytes_def)

lemma length_store [simp]:
  "length (store_u32le bs at v) = length bs" "length (store_u64le bs at w) = length bs"
  by (simp_all add: store_u32le_def store_u64le_def)

text \<open>What a fixed-width little-endian field promises: a store is read back, and touches and
  is read from its own bytes only.\<close>

locale le_field =
  fixes load :: "u8 list \<Rightarrow> nat \<Rightarrow> 'v"
    and store :: "u8 list \<Rightarrow> nat \<Rightarrow> 'v \<Rightarrow> u8 list"
    and width :: nat
  assumes store_length: "length (store bs at v) = length bs"
    and load_store: "at + width \<le> length bs \<Longrightarrow> load (store bs at v) at = v"
    and store_frame: "at + width \<le> length bs \<Longrightarrow> i < at \<or> at + width \<le> i \<Longrightarrow>
      store bs at v ! i = bs ! i"
    and load_shift: "(\<And>i. i < width \<Longrightarrow> bs ! (at + i) = bs' ! (at' + i)) \<Longrightarrow>
      load bs at = load bs' at'"
begin

lemma load_store_other:
  "at + width \<le> length bs \<Longrightarrow> b + width \<le> at \<or> at + width \<le> b \<Longrightarrow>
   load (store bs at v) b = load bs b"
  by (rule load_shift) (auto intro!: store_frame)

lemma load_append_left: "at + width \<le> length xs \<Longrightarrow> load (xs @ ys) at = load xs at"
  by (rule load_shift) (simp add: nth_append)

lemma load_append_right: "load (xs @ ys) (length xs + b) = load ys b"
  by (rule load_shift) (simp add: nth_append)

lemma load_drop: "n \<le> length bs \<Longrightarrow> load (drop n bs) at = load bs (n + at)"
  by (rule load_shift) (simp add: add.assoc)

lemma load_update_other: "i < at \<or> at + width \<le> i \<Longrightarrow> load (bs[i := v]) at = load bs at"
  by (rule load_shift) auto

lemma load_list_eq:
  "drop at (take (at + width) bs) = drop at (take (at + width) bs') \<Longrightarrow> at + width \<le> length bs \<Longrightarrow>
   at + width \<le> length bs' \<Longrightarrow> load bs at = load bs' at"
proof (rule load_shift)
  fix i
  assume a: "drop at (take (at + width) bs) = drop at (take (at + width) bs')" "at + width \<le> length bs"
    "at + width \<le> length bs'" "i < width"
  then have "drop at (take (at + width) bs) ! i = drop at (take (at + width) bs') ! i" by simp
  then show "bs ! (at + i) = bs' ! (at + i)" using a(2,3,4) by simp
qed

end

lemma store_bytes:
  "at + n \<le> length bs \<Longrightarrow> i < n \<Longrightarrow>
   write_list bs at (le_bytes n v) ! (at + i) = ucast (drop_bit (8 * i) v)"
  by (simp add: write_list_nth nth_le_bytes)

lemma store_bytes0:
  "at + n \<le> length bs \<Longrightarrow> 0 < n \<Longrightarrow> write_list bs at (le_bytes n v) ! at = ucast v"
  using store_bytes [of at n bs 0 v] by simp

lemma le32_split:
  "ucast (ucast v :: u8) OR push_bit 8 (ucast (ucast (drop_bit 8 v) :: u8)) OR
   push_bit 16 (ucast (ucast (drop_bit 16 v) :: u8)) OR push_bit 24 (ucast (ucast (drop_bit 24 v) :: u8))
   = v" for v :: u32
proof (rule bit_word_eqI)
  fix n
  assume "n < LENGTH(32)"
  then have "n < 8 \<or> (8 \<le> n \<and> n < 16) \<or> (16 \<le> n \<and> n < 24) \<or> (24 \<le> n \<and> n < 32)" by auto
  then show "bit ((ucast (ucast v :: u8) :: u32) OR push_bit 8 (ucast (ucast (drop_bit 8 v) :: u8)) OR
     push_bit 16 (ucast (ucast (drop_bit 16 v) :: u8)) OR
     push_bit 24 (ucast (ucast (drop_bit 24 v) :: u8))) n = bit v n"
    by (elim disjE) (auto simp: bit_simps)
qed

lemma load_store_u32le:
  "at + 4 \<le> length bs \<Longrightarrow> load_u32le (store_u32le bs at v) at = v"
  using store_bytes [of at 4 bs 1 v] store_bytes [of at 4 bs 2 v] store_bytes [of at 4 bs 3 v]
  by (simp add: load_u32le_def store_u32le_def store_bytes0 le32_split)

lemma le64_split:
  "ucast (ucast v :: u32) OR push_bit 32 (ucast (ucast (drop_bit 32 v) :: u32)) = v" for v :: u64
proof (rule bit_word_eqI)
  fix n
  assume "n < LENGTH(64)"
  then have "n < 32 \<or> (32 \<le> n \<and> n < 64)" by auto
  then show "bit ((ucast (ucast v :: u32) :: u64) OR
      push_bit 32 (ucast (ucast (drop_bit 32 v) :: u32))) n = bit v n"
    by (elim disjE) (auto simp: bit_simps)
qed

lemma ucast_low_byte: "i < 4 \<Longrightarrow> ucast (drop_bit (8 * i) v) =
    (ucast (drop_bit (8 * i) (ucast v :: u32)) :: u8)" for v :: u64
  by (rule bit_word_eqI) (auto simp: bit_simps)

lemma ucast_high_byte: "i < 4 \<Longrightarrow> ucast (drop_bit (8 * (4 + i)) v) =
    (ucast (drop_bit (8 * i) (ucast (drop_bit 32 v) :: u32)) :: u8)" for v :: u64
  by (rule bit_word_eqI) (auto simp: bit_simps algebra_simps)

text \<open>A 64-bit store is the two 32-bit stores of its halves.\<close>

lemma le_bytes_split: "le_bytes 8 v = le_bytes 4 (ucast v :: u32) @ le_bytes 4 (ucast (drop_bit 32 v) :: u32)"
  for v :: u64
proof (rule nth_equalityI)
  fix i
  assume i: "i < length (le_bytes 8 v)"
  show "le_bytes 8 v ! i =
      (le_bytes 4 (ucast v :: u32) @ le_bytes 4 (ucast (drop_bit 32 v) :: u32)) ! i"
  proof (cases "i < 4")
    case True
    then show ?thesis by (simp add: nth_append nth_le_bytes ucast_low_byte)
  next
    case False
    then show ?thesis
      using i ucast_high_byte [of "i - 4" v] by (simp add: nth_append nth_le_bytes)
  qed
qed simp

lemma write_list_append:
  "write_list bs at (xs @ ys) = write_list (write_list bs at xs) (at + length xs) ys"
  by (induction bs at xs rule: write_list.induct) simp_all

lemma store_u64le_halves:
  "store_u64le bs at v =
   store_u32le (store_u32le bs at (ucast v)) (at + 4) (ucast (drop_bit 32 v))"
  by (simp add: store_u64le_def store_u32le_def le_bytes_split write_list_append)

lemma store_u32le_frame:
  "at + 4 \<le> length bs \<Longrightarrow> i < at \<or> at + 4 \<le> i \<Longrightarrow> store_u32le bs at v ! i = bs ! i"
  by (auto simp: store_u32le_def write_list_nth)

interpretation le32: le_field load_u32le store_u32le 4
proof (unfold_locales, goal_cases)
  case (4 bs at bs' at')
  then show ?case using 4 [of 0] 4 [of 1] 4 [of 2] 4 [of 3] by (simp add: load_u32le_def)
qed (auto simp: load_store_u32le store_u32le_frame)

lemma load_store_u64le: "at + 8 \<le> length bs \<Longrightarrow> load_u64le (store_u64le bs at v) at = v"
  by (simp add: store_u64le_halves load_u64le_def le32.load_store_other load_store_u32le le64_split)

interpretation le64: le_field load_u64le store_u64le 8
proof (unfold_locales, goal_cases)
  case (4 bs at bs' at')
  have "load_u32le bs at = load_u32le bs' at'" "load_u32le bs (at + 4) = load_u32le bs' (at' + 4)"
    using 4 by (auto intro!: le32.load_shift simp: add.assoc)
  then show ?case by (simp add: load_u64le_def)
next
  case (2 at bs v)
  then show ?case by (rule load_store_u64le)
qed (auto simp: store_u64le_halves store_u32le_frame)

section \<open>CRC-32\<close>

definition crc32_bit :: "u32 \<Rightarrow> u32" where
  "crc32_bit crc = drop_bit 1 crc XOR (0xEDB88320 AND (0 - (crc AND 1)))"

definition crc32_update :: "u32 \<Rightarrow> u8 list \<Rightarrow> u32" where
  "crc32_update crc bytes = foldl (\<lambda>c b. (crc32_bit ^^ 8) (c XOR ucast b)) crc bytes"

definition crc32_zeros :: "u32 \<Rightarrow> nat \<Rightarrow> u32" where
  "crc32_zeros crc count = ((crc32_bit ^^ 8) ^^ count) crc"

definition crc32_final :: "u32 \<Rightarrow> u32" where
  "crc32_final crc = crc XOR 0xFFFFFFFF"

lemma crc32_update_append:
  "crc32_update crc (xs @ ys) = crc32_update (crc32_update crc xs) ys"
  by (simp add: crc32_update_def)

lemma crc32_update_zeros: "crc32_update crc (replicate n 0) = crc32_zeros crc n"
  by (induction n arbitrary: crc)
    (simp_all add: crc32_update_def crc32_zeros_def funpow_swap1)

section \<open>Checkers\<close>

text \<open>\<open>verdict\<close>: the class of the first rule that does not hold.\<close>

fun first_violation :: "(abi_reject \<times> bool) list \<Rightarrow> abi_reject" where
  "first_violation [] = Abi_ok"
| "first_violation ((c, holds) # rules) = (if holds then first_violation rules else c)"

abbreviation (input) spec_page_size :: nat where "spec_page_size \<equiv> 4096"
abbreviation (input) spec_header_size :: nat where "spec_header_size \<equiv> 64"
abbreviation (input) spec_bank_size :: nat where "spec_bank_size \<equiv> 2016"

text \<open>Offsets in the header and, relative to a bank, in the bank.\<close>

abbreviation (input) active_at :: nat where "active_at \<equiv> 12"
abbreviation (input) generation_at :: nat where "generation_at \<equiv> 0"
abbreviation (input) length_at :: nat where "length_at \<equiv> 8"
abbreviation (input) crc_at :: nat where "crc_at \<equiv> 12"
abbreviation (input) count_at :: nat where "count_at \<equiv> 16"
abbreviation (input) seq_at :: nat where "seq_at \<equiv> 20"
abbreviation (input) budget_at :: nat where "budget_at \<equiv> 24"
abbreviation (input) desired_at :: nat where "desired_at \<equiv> 272"
abbreviation (input) tail_at :: nat where "tail_at \<equiv> 334"

definition bank_at :: "nat \<Rightarrow> nat" where
  "bank_at bank = spec_header_size + bank * spec_bank_size"

definition zero_span :: "u8 list \<Rightarrow> nat \<Rightarrow> nat \<Rightarrow> bool" where
  "zero_span bs at n = list_all (\<lambda>b. b = 0) (take n (drop at bs))"

definition spec_header_rules :: "u8 list \<Rightarrow> (abi_reject \<times> bool) list" where
  "spec_header_rules bs =
     [(Abi_magic, load_u64le bs 0 = chryso_magic_spec),
      (Abi_version, load_u32le bs 8 = chryso_abi_version),
      (Abi_reserved, zero_span bs 16 48),
      (Abi_range, load_u32le bs active_at \<le> 1)]"

definition check_spec_header :: "u8 list \<Rightarrow> abi_reject" where
  "check_spec_header bs =
     (if length bs \<noteq> spec_page_size then Abi_size else first_violation (spec_header_rules bs))"

text \<open>The checksum of a bank reads its own \<open>crc32\<close> and its \<open>bank_seq\<close> as zero.\<close>

definition bank_crc :: "u8 list \<Rightarrow> u32" where
  "bank_crc b =
     crc32_final
       (crc32_update
         (crc32_zeros
           (crc32_update
             (crc32_zeros (crc32_update 0xFFFFFFFF (take crc_at b)) 4)
             (take (seq_at - count_at) (drop count_at b)))
           4)
         (take (spec_bank_size - budget_at) (drop budget_at b)))"

definition spec_bank_rules :: "u8 list \<Rightarrow> (abi_reject \<times> bool) list" where
  "spec_bank_rules b =
     [(Abi_torn, load_u32le b seq_at \<noteq> 0 \<and> load_u32le b seq_at AND 1 = 0),
      (Abi_checksum, bank_crc b = load_u32le b crc_at),
      (Abi_reserved, zero_span b tail_at (spec_bank_size - tail_at)),
      (Abi_range, load_u32le b length_at = of_nat spec_bank_size),
      (Abi_range, load_u32le b count_at = of_nat chryso_child_count)]"

definition check_spec_bank :: "u8 list \<Rightarrow> nat \<Rightarrow> abi_reject" where
  "check_spec_bank bs bank =
     (if length bs \<noteq> spec_page_size then Abi_size
      else if bank \<ge> 2 then Abi_range
      else first_violation (spec_bank_rules (drop (bank_at bank) bs)))"

end
