(* ===== verification/Root_Command.thy ===== *)
theory Root_Command
  imports Root_Policy Rate_Limiter Abi
begin

text \<open>
  Root's PPC command decisions: \<open>src/src/pd/root/command.{h,c}\<close> - the transport check, the token
  bucket, the retry fence and the reply.  Four-word arrays are four-element lists.
\<close>

abbreviation (input) root_command_words :: nat where "root_command_words \<equiv> 4"

section \<open>State\<close>

datatype root_command_action = Command_none | Command_restart

datatype root_command_refill = Refill_running | Refill_off

datatype root_command_fence = Fence_empty | Fence_completed

record root_command_state =
  cs_refill :: root_command_refill
  cs_capacity :: u32
  cs_tokens :: u32
  cs_interval_ticks :: u64
  cs_last_ticks :: u64
  cs_fence :: root_command_fence
  cs_memo_opcode :: u16
  cs_memo_args :: "u64 list"
  cs_memo_values :: "u64 list"
  cs_accepted :: u64
  cs_rate_limited :: u64
  cs_rejected :: u64

record root_command_view =
  vw_abi_version :: u32
  vw_root_generation :: u64
  vw_beam_incarnation :: u64
  vw_cntfrq :: u64
  vw_seq :: u64
  vw_publishing :: bool
  vw_present_mask :: u64
  vw_driver_mask :: u64
  vw_child_count :: nat
  vw_records :: "root_child_record list"

record root_command_decision =
  cd_result :: ctl_result
  cd_action :: root_command_action
  cd_child :: root_child
  cd_opcode :: u16
  cd_args :: "u64 list"
  cd_values :: "u64 list"

datatype opcode_class =
    Class_invalid
  | Class_handshake
  | Class_barrier
  | Class_preconditioned
  | Class_slot

text \<open>A row of the opcode table: the class and the words a well-formed request leaves zero.\<close>

definition row_of :: "u64 \<Rightarrow> opcode_class \<times> u8" where
  "row_of label =
     (if label = ucast pp_opcode_hello then (Class_handshake, 0xe)
      else if label = ucast pp_opcode_restart_child then (Class_preconditioned, 0)
      else if label = ucast pp_opcode_start_slot then (Class_slot, 0)
      else if label = ucast pp_opcode_stop_child then (Class_slot, 0)
      else if label = ucast pp_opcode_resume_child then (Class_slot, 0)
      else if label = ucast pp_opcode_reclaim_slot then (Class_slot, 0)
      else if label = ucast pp_opcode_sync then (Class_barrier, 0xf)
      else (Class_invalid, 0))"

section \<open>Operations\<close>

definition root_command_init :: "u32 \<Rightarrow> u64 \<Rightarrow> u64 \<Rightarrow> bool \<Rightarrow> root_command_state" where
  "root_command_init cap refill_ticks now now_valid =
     (let st = \<lparr>cs_refill = Refill_off, cs_capacity = cap, cs_tokens = cap,
                cs_interval_ticks = 0, cs_last_ticks = now, cs_fence = Fence_empty,
                cs_memo_opcode = 0, cs_memo_args = replicate root_command_words 0,
                cs_memo_values = replicate root_command_words 0,
                cs_accepted = 0, cs_rate_limited = 0, cs_rejected = 0\<rparr>
      in if cap \<noteq> 0 \<and> refill_ticks \<noteq> 0 \<and> now_valid
         then st\<lparr>cs_interval_ticks :=
                   refill_ticks div ucast cap +
                   (if refill_ticks mod ucast cap \<noteq> 0 then 1 else 0),
                 cs_refill := Refill_running\<rparr>
         else st)"

definition root_command_frame ::
  "root_command_state \<Rightarrow> u32 \<Rightarrow> u32 \<Rightarrow> u64 \<Rightarrow> u64 \<Rightarrow> ctl_result \<times> root_command_state" where
  "root_command_frame st channel pp_channel label count =
     (let result = (if channel \<noteq> pp_channel then Ctl_refused
                    else if count \<noteq> of_nat root_command_words \<or> fst (row_of label) = Class_invalid
                    then Ctl_bad_arg else Ctl_ok)
      in (result, if result \<noteq> Ctl_ok then st\<lparr>cs_rejected := cs_rejected st + 1\<rparr> else st))"

definition refill_step :: "root_command_state \<Rightarrow> u64 \<Rightarrow> bool \<Rightarrow> root_command_state" where
  "refill_step st now now_valid =
     (case cs_refill st of
        Refill_off \<Rightarrow> st
      | Refill_running \<Rightarrow>
          if \<not> now_valid \<or> now < cs_last_ticks st then st\<lparr>cs_refill := Refill_off\<rparr>
          else
            let due = (now - cs_last_ticks st) div cs_interval_ticks st
            in if due = 0 then st
               else
                 let room = ucast (cs_capacity st - cs_tokens st)
                 in if due \<ge> room
                    then st\<lparr>cs_tokens := cs_capacity st, cs_last_ticks := now\<rparr>
                    else st\<lparr>cs_tokens := cs_tokens st + ucast due,
                            cs_last_ticks := cs_last_ticks st + due * cs_interval_ticks st\<rparr>)"

definition fence_repeats :: "root_command_state \<Rightarrow> u16 \<Rightarrow> u64 list \<Rightarrow> bool" where
  "fence_repeats st opcode args =
     (case cs_fence st of
        Fence_empty \<Rightarrow> False
      | Fence_completed \<Rightarrow>
          cs_memo_opcode st = opcode \<and>
          list_all (\<lambda>i. cs_memo_args st ! i = args ! i) [0..<root_command_words])"

definition decide_restart ::
  "root_command_state \<Rightarrow> root_command_view \<Rightarrow> root_command_decision \<Rightarrow> root_command_decision" where
  "decide_restart st view d =
     (if fence_repeats st (cd_opcode d) (cd_args d)
      then d\<lparr>cd_result := Ctl_already_done, cd_values := cs_memo_values st\<rparr>
      else
        case (if cd_args d ! 0 > ucast UINT32_MAX then None
              else root_child_from_raw (ucast (cd_args d ! 0)) (vw_child_count view)
                     (vw_present_mask view)) of
          None \<Rightarrow> d\<lparr>cd_result := Ctl_bad_arg\<rparr>
        | Some child \<Rightarrow>
            let r = vw_records view ! unat (child_value child)
            in if drop_bit (unat (child_value child)) (vw_driver_mask view) AND 1 = 0 \<or>
                  child_state r = Child_gone \<or> \<not> vw_publishing view
               then d\<lparr>cd_result := Ctl_refused\<rparr>
               else if cd_args d ! 1 \<noteq> vw_root_generation view \<or> cd_args d ! 2 \<noteq> vw_seq view \<or>
                       cd_args d ! 3 \<noteq> ucast (lifetime_count r)
               then d\<lparr>cd_result := Ctl_stale,
                      cd_values := [vw_root_generation view, vw_seq view, ucast (lifetime_count r),
                                    cd_values d ! 3]\<rparr>
               else d\<lparr>cd_result := Ctl_ok, cd_action := Command_restart, cd_child := child\<rparr>)"

fun tally :: "root_command_state \<Rightarrow> ctl_result \<Rightarrow> root_command_state" where
  "tally st Ctl_ok = st\<lparr>cs_accepted := cs_accepted st + 1\<rparr>"
| "tally st Ctl_already_done = st\<lparr>cs_accepted := cs_accepted st + 1\<rparr>"
| "tally st Ctl_rate_limited = st\<lparr>cs_rate_limited := cs_rate_limited st + 1\<rparr>"
| "tally st _ = st\<lparr>cs_rejected := cs_rejected st + 1\<rparr>"

definition malformed :: "opcode_class \<times> u8 \<Rightarrow> u64 list \<Rightarrow> bool" where
  "malformed row args \<longleftrightarrow>
     fst row = Class_invalid \<or>
     list_ex (\<lambda>i. drop_bit i (snd row) AND 1 \<noteq> 0 \<and> args ! i \<noteq> 0) [0..<root_command_words]"

definition decision_zero :: "u16 \<Rightarrow> u64 list \<Rightarrow> root_command_decision" where
  "decision_zero opcode args =
     \<lparr>cd_result = Ctl_unset, cd_action = Command_none, cd_child = Root_child 0, cd_opcode = opcode,
      cd_args = args, cd_values = replicate root_command_words 0\<rparr>"

definition root_command_decide ::
  "root_command_state \<Rightarrow> root_command_view \<Rightarrow> u16 \<Rightarrow> u64 list \<Rightarrow> u64 \<Rightarrow> bool \<Rightarrow>
   root_command_decision \<times> root_command_state" where
  "root_command_decide st view opcode args now now_valid =
     (let d = decision_zero opcode args;
          row = row_of (ucast opcode)
      in if malformed row args then (d\<lparr>cd_result := Ctl_bad_arg\<rparr>, tally st Ctl_bad_arg)
         else
           let st = refill_step st now now_valid
           in if cs_tokens st = 0 then (d\<lparr>cd_result := Ctl_rate_limited\<rparr>, tally st Ctl_rate_limited)
              else
                let st = st\<lparr>cs_tokens := cs_tokens st - 1\<rparr>
                in case fst row of
                     Class_handshake \<Rightarrow>
                       let result = (if args ! 0 = ucast (vw_abi_version view) then Ctl_ok
                                     else Ctl_bad_version)
                       in (d\<lparr>cd_result := result,
                             cd_values := [ucast (vw_abi_version view), vw_root_generation view,
                                           vw_beam_incarnation view, vw_cntfrq view]\<rparr>,
                           tally st result)
                   | Class_barrier \<Rightarrow>
                       if \<not> vw_publishing view
                       then (d\<lparr>cd_result := Ctl_refused\<rparr>, tally st Ctl_refused)
                       else
                         let st = tally st Ctl_ok
                         in (d\<lparr>cd_result := Ctl_ok,
                               cd_values := [vw_seq view, cs_accepted st, cs_rate_limited st,
                                             cs_rejected st]\<rparr>, st)
                   | Class_preconditioned \<Rightarrow>
                       let d = decide_restart st view d in (d, tally st (cd_result d))
                   | Class_slot \<Rightarrow> (d\<lparr>cd_result := Ctl_refused\<rparr>, tally st Ctl_refused)
                   | Class_invalid \<Rightarrow> (d\<lparr>cd_result := Ctl_refused\<rparr>, tally st Ctl_refused))"

definition root_command_complete ::
  "root_command_state \<Rightarrow> root_command_decision \<Rightarrow> root_command_state" where
  "root_command_complete st d =
     (case cd_action d of
        Command_none \<Rightarrow> st
      | Command_restart \<Rightarrow>
          st\<lparr>cs_fence := Fence_completed, cs_memo_opcode := cd_opcode d,
             cs_memo_args := cd_args d, cs_memo_values := cd_values d\<rparr>)"

section \<open>Lemmas\<close>

lemma tally_frame [simp]:
  "cs_refill (tally st r) = cs_refill st" "cs_capacity (tally st r) = cs_capacity st"
  "cs_tokens (tally st r) = cs_tokens st" "cs_interval_ticks (tally st r) = cs_interval_ticks st"
  "cs_last_ticks (tally st r) = cs_last_ticks st" "cs_fence (tally st r) = cs_fence st"
  "cs_memo_opcode (tally st r) = cs_memo_opcode st" "cs_memo_args (tally st r) = cs_memo_args st"
  "cs_memo_values (tally st r) = cs_memo_values st"
  by (cases r; simp)+

declare tally.simps [simp del]

lemma refill_frame [simp]:
  "cs_capacity (refill_step st now v) = cs_capacity st"
  "cs_interval_ticks (refill_step st now v) = cs_interval_ticks st"
  "cs_fence (refill_step st now v) = cs_fence st"
  "cs_memo_opcode (refill_step st now v) = cs_memo_opcode st"
  "cs_memo_args (refill_step st now v) = cs_memo_args st"
  "cs_memo_values (refill_step st now v) = cs_memo_values st"
  "cs_accepted (refill_step st now v) = cs_accepted st"
  "cs_rate_limited (refill_step st now v) = cs_rate_limited st"
  "cs_rejected (refill_step st now v) = cs_rejected st"
  by (simp_all add: refill_step_def Let_def split: root_command_refill.split)

text \<open>What one decision does to the state, whatever the opcode.\<close>

lemma decide_malformed:
  "malformed (row_of (ucast opcode)) args \<Longrightarrow>
   root_command_decide st view opcode args now v =
     ((decision_zero opcode args)\<lparr>cd_result := Ctl_bad_arg\<rparr>, tally st Ctl_bad_arg)"
  by (simp add: root_command_decide_def Let_def)

lemma decide_limited:
  "\<not> malformed (row_of (ucast opcode)) args \<Longrightarrow> cs_tokens (refill_step st now v) = 0 \<Longrightarrow>
   root_command_decide st view opcode args now v =
     ((decision_zero opcode args)\<lparr>cd_result := Ctl_rate_limited\<rparr>,
      tally (refill_step st now v) Ctl_rate_limited)"
  by (simp add: root_command_decide_def Let_def)

definition spend :: "root_command_state \<Rightarrow> root_command_state" where
  "spend st = st\<lparr>cs_tokens := cs_tokens st - 1\<rparr>"

lemma decide_spent:
  assumes "\<not> malformed (row_of (ucast opcode)) args" "cs_tokens (refill_step st now v) \<noteq> 0"
  shows "snd (root_command_decide st view opcode args now v) =
    tally (spend (refill_step st now v))
      (cd_result (fst (root_command_decide st view opcode args now v)))"
    and "cd_result (fst (root_command_decide st view opcode args now v)) \<noteq> Ctl_rate_limited"
proof -
  have r: "cd_result (decide_restart s view d) \<noteq> Ctl_rate_limited" for s d
    by (auto simp: decide_restart_def Let_def split: option.split)
  show "snd (root_command_decide st view opcode args now v) =
    tally (spend (refill_step st now v))
      (cd_result (fst (root_command_decide st view opcode args now v)))"
    using assms by (simp add: root_command_decide_def Let_def spend_def split: opcode_class.split)
  show "cd_result (fst (root_command_decide st view opcode args now v)) \<noteq> Ctl_rate_limited"
    using assms r by (simp add: root_command_decide_def Let_def split: opcode_class.split)
qed

lemma decide_action:
  assumes "cd_action (fst (root_command_decide st view opcode args now v)) = Command_restart"
  shows "cd_result (fst (root_command_decide st view opcode args now v)) = Ctl_ok"
    and "opcode = pp_opcode_restart_child"
    and "fst (root_command_decide st view opcode args now v) =
      decide_restart (spend (refill_step st now v)) view (decision_zero opcode args)"
    and "\<not> malformed (row_of (ucast opcode)) args" and "cs_tokens (refill_step st now v) \<noteq> 0"
proof -
  have z: "cd_action (decision_zero opcode args) = Command_none" by (simp add: decision_zero_def)
  have m: "\<not> malformed (row_of (ucast opcode)) args"
    using assms z by (auto simp: root_command_decide_def Let_def)
  have t: "cs_tokens (refill_step st now v) \<noteq> 0"
    using assms z m by (auto simp: root_command_decide_def Let_def)
  have c: "fst (row_of (ucast opcode)) = Class_preconditioned"
    using assms z m t by (auto simp: root_command_decide_def Let_def split: opcode_class.splits if_splits)
  show e: "fst (root_command_decide st view opcode args now v) =
      decide_restart (spend (refill_step st now v)) view (decision_zero opcode args)"
    using m t c by (simp add: root_command_decide_def Let_def spend_def)
  show "cd_result (fst (root_command_decide st view opcode args now v)) = Ctl_ok"
    using assms z unfolding e by (auto simp: decide_restart_def Let_def split: option.splits if_splits)
  show "opcode = pp_opcode_restart_child"
  proof -
    have "ucast opcode = (ucast pp_opcode_restart_child :: u64)"
      using c by (auto simp: row_of_def split: if_splits)
    then have "unat (ucast opcode :: u64) = unat (ucast pp_opcode_restart_child :: u64)" by simp
    then show ?thesis by (simp add: unat_ucast_up word_unat_eq_iff)
  qed
  show "\<not> malformed (row_of (ucast opcode)) args" by (rule m)
  show "cs_tokens (refill_step st now v) \<noteq> 0" by (rule t)
qed

section \<open>The token bucket as a rate limiter\<close>

definition bucket_ok :: "u64 \<Rightarrow> root_command_state \<Rightarrow> u64 \<Rightarrow> bool" where
  "bucket_ok i st now \<longleftrightarrow>
     cs_interval_ticks st = i \<and> i \<noteq> 0 \<and> cs_tokens st \<le> cs_capacity st \<and>
     (cs_refill st = Refill_running \<longrightarrow> cs_last_ticks st \<le> now)"

text \<open>Tokens held, in ticks, and while the refill runs the time since the last one was due.\<close>

definition bucket_credit :: "u64 \<Rightarrow> root_command_state \<Rightarrow> u64 \<Rightarrow> nat" where
  "bucket_credit i st now =
     unat (cs_tokens st) * unat i +
     (case cs_refill st of Refill_off \<Rightarrow> 0 | Refill_running \<Rightarrow> unat now - unat (cs_last_ticks st))"

record command_request =
  rq_view :: root_command_view
  rq_opcode :: u16
  rq_args :: "u64 list"
  rq_now :: u64
  rq_now_valid :: bool

text \<open>A request that is served rather than rejected as malformed or answered rate-limited.\<close>

definition bucket_admit :: "root_command_state \<Rightarrow> command_request \<Rightarrow> bool \<times> root_command_state" where
  "bucket_admit st rq =
     (case root_command_decide st (rq_view rq) (rq_opcode rq) (rq_args rq) (rq_now rq)
             (rq_now_valid rq) of
        (d, st') \<Rightarrow> (\<not> malformed (row_of (ucast (rq_opcode rq))) (rq_args rq) \<and>
                     cd_result d \<noteq> Ctl_rate_limited, st'))"

lemma refill_credit:
  assumes "bucket_ok i st t0" "t0 \<le> now"
  shows "bucket_ok i (refill_step st now v) now"
    and "bucket_credit i (refill_step st now v) now \<le> bucket_credit i st now"
proof -
  have "bucket_ok i (refill_step st now v) now \<and>
    bucket_credit i (refill_step st now v) now \<le> bucket_credit i st now"
  proof (cases "cs_refill st = Refill_running \<and> v")
    case False
    then show ?thesis
      using assms by (cases "cs_refill st") (auto simp: refill_step_def bucket_ok_def bucket_credit_def)
  next
    case True
    have le: "cs_last_ticks st \<le> now" and tc: "cs_tokens st \<le> cs_capacity st" and i: "cs_interval_ticks st = i"
      using assms True by (auto simp: bucket_ok_def)
    define e where "e = unat now - unat (cs_last_ticks st)"
    define due where "due = (now - cs_last_ticks st) div i"
    have ud: "unat due = e div unat i"
      using le by (simp add: due_def unat_div e_def wordpos)
    have dm: "unat due * unat i \<le> e" by (simp add: ud)
    have ur: "unat (ucast (cs_capacity st - cs_tokens st) :: u64) = unat (cs_capacity st) - unat (cs_tokens st)"
      using tc by (simp add: unat_ucast_up wordpos)
    have st': "refill_step st now v =
        (if due = 0 then st
         else if due \<ge> ucast (cs_capacity st - cs_tokens st)
         then st\<lparr>cs_tokens := cs_capacity st, cs_last_ticks := now\<rparr>
         else st\<lparr>cs_tokens := cs_tokens st + ucast due, cs_last_ticks := cs_last_ticks st + due * i\<rparr>)"
      using True le by (simp add: refill_step_def Let_def due_def i)
    show ?thesis
    proof (cases "due = 0")
      case True
      then show ?thesis unfolding st' using assms by (auto simp: bucket_ok_def)
    next
      case nz: False
      show ?thesis
      proof (cases "due \<ge> ucast (cs_capacity st - cs_tokens st)")
        case full: True
        then have "unat (cs_capacity st) \<le> unat (cs_tokens st) + unat due"
          by (simp add: word_le_nat_alt ur)
        then have "unat (cs_capacity st) * unat i \<le> (unat (cs_tokens st) + unat due) * unat i"
          by (rule mult_le_mono1)
        then have "unat (cs_capacity st) * unat i \<le> unat (cs_tokens st) * unat i + e"
          using dm by (simp add: add_mult_distrib)
        then show ?thesis
          unfolding st' using assms True nz full by (simp add: bucket_ok_def bucket_credit_def e_def)
      next
        case False
        then have room: "unat due < unat (cs_capacity st) - unat (cs_tokens st)"
          by (simp add: word_le_nat_alt ur)
        have d32: "unat (ucast due :: u32) = unat due"
          using room unat_u32_lt [of "cs_capacity st"] by (intro unat_ucast_down) simp
        have t: "unat (cs_tokens st + ucast due) = unat (cs_tokens st) + unat due"
          using room d32 unat_u32_lt [of "cs_capacity st"] by (subst unat_add_fits) simp_all
        have m: "unat (due * i) = unat due * unat i"
          using dm unat_u64_lt [of now] by (intro unat_mult_fits) (simp add: e_def)
        have l: "unat (cs_last_ticks st + due * i) = unat (cs_last_ticks st) + unat due * unat i"
          using dm le m unat_u64_lt [of now]
          by (subst unat_add_fits) (simp_all add: e_def word_le_nat_alt)
        show ?thesis
          unfolding st' using assms True nz False room dm le
          by (simp add: bucket_ok_def bucket_credit_def t l word_le_nat_alt e_def add_mult_distrib;
              intro conjI; linarith)
      qed
    qed
  qed
  then show "bucket_ok i (refill_step st now v) now"
    and "bucket_credit i (refill_step st now v) now \<le> bucket_credit i st now" by auto
qed

lemma spend_credit:
  assumes "bucket_ok i st now" "cs_tokens st \<noteq> 0"
  shows "bucket_ok i (spend st) now"
    and "bucket_credit i (spend st) now + unat i = bucket_credit i st now"
proof -
  have u: "unat (cs_tokens st - 1) = unat (cs_tokens st) - 1" and p: "0 < unat (cs_tokens st)"
    using assms(2) by (simp_all add: unat_gt_0 unat_minus_one)
  show "bucket_ok i (spend st) now"
    using assms u by (auto simp: bucket_ok_def spend_def word_le_nat_alt)
  have "(unat (cs_tokens st) - 1) * unat i + unat i = unat (cs_tokens st) * unat i"
    using p by (cases "unat (cs_tokens st)") auto
  then show "bucket_credit i (spend st) now + unat i = bucket_credit i st now"
    by (simp add: bucket_credit_def spend_def u split: root_command_refill.split)
qed

lemma bucket_tally [simp]:
  "bucket_ok i (tally st r) now = bucket_ok i st now"
  "bucket_credit i (tally st r) now = bucket_credit i st now"
  by (simp_all add: bucket_ok_def bucket_credit_def split: root_command_refill.split)

lemma bucket_grows:
  "bucket_ok i st t0 \<Longrightarrow> t0 \<le> t \<Longrightarrow> bucket_credit i st t \<le> bucket_credit i st t0 + (unat t - unat t0)"
  by (auto simp: bucket_credit_def bucket_ok_def word_le_nat_alt split: root_command_refill.splits)

lemma bucket_ok_later: "bucket_ok i st t0 \<Longrightarrow> t0 \<le> t \<Longrightarrow> bucket_ok i st t"
  by (auto simp: bucket_ok_def)

lemma bucket_admit_step:
  assumes ok: "bucket_ok i st (rq_now rq)"
  shows "bucket_ok i (snd (bucket_admit st rq)) (rq_now rq)"
    and "(if fst (bucket_admit st rq) then unat i else 0) +
      bucket_credit i (snd (bucket_admit st rq)) (rq_now rq) \<le> bucket_credit i st (rq_now rq)"
proof -
  let ?r = "refill_step st (rq_now rq) (rq_now_valid rq)"
  let ?dec = "root_command_decide st (rq_view rq) (rq_opcode rq) (rq_args rq) (rq_now rq) (rq_now_valid rq)"
  note rc = refill_credit [OF ok order.refl, of "rq_now_valid rq"]
  have "bucket_ok i (snd (bucket_admit st rq)) (rq_now rq) \<and>
    (if fst (bucket_admit st rq) then unat i else 0) +
      bucket_credit i (snd (bucket_admit st rq)) (rq_now rq) \<le> bucket_credit i st (rq_now rq)"
  proof (cases "malformed (row_of (ucast (rq_opcode rq))) (rq_args rq)")
    case True
    then show ?thesis using ok by (simp add: bucket_admit_def decide_malformed)
  next
    case nm: False
    show ?thesis
    proof (cases "cs_tokens ?r = 0")
      case True
      then show ?thesis using nm rc by (simp add: bucket_admit_def decide_limited)
    next
      case False
      note sp = decide_spent [OF nm False, of "rq_view rq"]
      note sc = spend_credit [OF rc(1) False]
      have ad: "bucket_admit st rq = (True, tally (spend ?r) (cd_result (fst ?dec)))"
        using nm sp by (simp add: bucket_admit_def split: prod.split) (metis fst_conv snd_conv)
      show ?thesis unfolding ad using sc rc(2) by simp
    qed
  qed
  then show "bucket_ok i (snd (bucket_admit st rq)) (rq_now rq)"
    and "(if fst (bucket_admit st rq) then unat i else 0) +
      bucket_credit i (snd (bucket_admit st rq)) (rq_now rq) \<le> bucket_credit i st (rq_now rq)"
    by auto
qed

interpretation bucket: rate_limiter bucket_admit "\<lambda>rq. unat (rq_now rq)"
  "\<lambda>st rq. bucket_ok i st (rq_now rq)" "\<lambda>st rq. bucket_credit i st (rq_now rq)" "unat i" for i
proof (unfold_locales, goal_cases)
  case (1 st t0 t)
  then show ?case
    using bucket_admit_step(1) bucket_ok_later [of i st "rq_now t0" "rq_now t"]
    by (simp add: word_le_nat_alt)
next
  case (2 st t0 t)
  then show ?case
    using bucket_admit_step(2) [of i st t] bucket_ok_later [of i st "rq_now t0" "rq_now t"]
    by (simp add: word_le_nat_alt)
next
  case (3 st t0 t)
  then show ?case
    using bucket_admit_step(2) [of i st t] bucket_ok_later [of i st "rq_now t0" "rq_now t"]
    by (simp add: word_le_nat_alt)
next
  case (4 st t0 t)
  then show ?case using bucket_grows [of i st "rq_now t0" "rq_now t"] by (simp add: word_le_nat_alt)
qed

lemma init_bucket:
  fixes now :: u64
  assumes "cap \<noteq> 0" "refill \<noteq> 0"
  defines "st \<equiv> root_command_init cap refill now True"
  shows "bucket_ok (cs_interval_ticks st) st now"
    and "bucket_credit (cs_interval_ticks st) st now = unat cap * unat (cs_interval_ticks st)"
    and "unat refill \<le> unat cap * unat (cs_interval_ticks st)"
proof -
  let ?c = "ucast cap :: u64"
  have uc: "unat ?c = unat cap" by (simp add: unat_ucast_up)
  have cp: "0 < unat cap" using assms(1) by (simp add: unat_gt_0)
  have iv: "cs_interval_ticks st = refill div ?c + (if refill mod ?c \<noteq> 0 then 1 else 0)"
    using assms by (simp add: root_command_init_def)
  have q: "unat (refill div ?c) = unat refill div unat cap" by (simp add: unat_div uc)
  have m: "refill mod ?c = 0 \<longleftrightarrow> unat refill mod unat cap = 0"
    by (simp add: word_unat_eq_iff unat_mod uc)
  have u: "unat (cs_interval_ticks st) = unat refill div unat cap +
      (if unat refill mod unat cap \<noteq> 0 then 1 else 0)"
  proof (cases "unat refill mod unat cap = 0")
    case True
    then show ?thesis using m q by (simp add: iv)
  next
    case False
    have "unat cap \<noteq> 1" using False by auto
    then have "2 * (unat refill div unat cap) \<le> unat cap * (unat refill div unat cap)"
      using cp by (intro mult_le_mono1) simp
    also have "\<dots> \<le> unat refill" by simp
    finally have "unat (refill div ?c) < 18446744073709551615"
      using unat_u64_lt [of refill] q by linarith
    then have "unat (refill div ?c + 1) = Suc (unat (refill div ?c))"
      by (rule unat_inc_fits) simp
    then show ?thesis using False m q by (simp add: iv)
  qed
  show ge: "unat refill \<le> unat cap * unat (cs_interval_ticks st)"
  proof -
    note e = mult_div_mod_eq [of "unat cap" "unat refill"]
    have l: "unat refill mod unat cap < unat cap" using cp by simp
    show ?thesis
    proof (cases "unat refill mod unat cap = 0")
      case True
      then show ?thesis using e by (simp add: u)
    next
      case False
      have "unat cap * (unat refill div unat cap + 1) = unat cap * (unat refill div unat cap) + unat cap"
        by simp
      then show ?thesis using e l False by (simp only: u if_True not_False_eq_True)
    qed
  qed
  have "0 < unat refill" using assms(2) by (simp add: unat_gt_0)
  then have nz: "cs_interval_ticks st \<noteq> 0" using ge by (cases "cs_interval_ticks st = 0") auto
  have f: "cs_tokens st = cap" "cs_capacity st = cap" "cs_refill st = Refill_running" "cs_last_ticks st = now"
    using assms by (simp_all add: root_command_init_def)
  show "bucket_ok (cs_interval_ticks st) st now" using nz f by (simp add: bucket_ok_def)
  show "bucket_credit (cs_interval_ticks st) st now = unat cap * unat (cs_interval_ticks st)"
    using f by (simp add: bucket_credit_def)
qed

lemma decide_keeps_fence [simp]:
  "cs_fence (snd (root_command_decide st view opcode args now v)) = cs_fence st"
  "cs_memo_opcode (snd (root_command_decide st view opcode args now v)) = cs_memo_opcode st"
  "cs_memo_args (snd (root_command_decide st view opcode args now v)) = cs_memo_args st"
  "cs_memo_values (snd (root_command_decide st view opcode args now v)) = cs_memo_values st"
proof -
  have "cs_fence s = cs_fence st \<and> cs_memo_opcode s = cs_memo_opcode st \<and>
      cs_memo_args s = cs_memo_args st \<and> cs_memo_values s = cs_memo_values st"
    if "s = snd (root_command_decide st view opcode args now v)" for s
  proof (cases "malformed (row_of (ucast opcode)) args")
    case True
    then show ?thesis by (simp add: that decide_malformed)
  next
    case False
    then show ?thesis
      by (cases "cs_tokens (refill_step st now v) = 0")
        (simp_all add: that decide_limited decide_spent(1) spend_def)
  qed
  then show "cs_fence (snd (root_command_decide st view opcode args now v)) = cs_fence st"
    "cs_memo_opcode (snd (root_command_decide st view opcode args now v)) = cs_memo_opcode st"
    "cs_memo_args (snd (root_command_decide st view opcode args now v)) = cs_memo_args st"
    "cs_memo_values (snd (root_command_decide st view opcode args now v)) = cs_memo_values st"
    by blast+
qed

definition decided :: "root_command_state \<Rightarrow> command_request \<Rightarrow> root_command_state" where
  "decided st rq = snd (root_command_decide st (rq_view rq) (rq_opcode rq) (rq_args rq) (rq_now rq)
     (rq_now_valid rq))"

lemma decided_all_fence:
  "cs_fence (foldl decided st rqs) = cs_fence st \<and>
   cs_memo_opcode (foldl decided st rqs) = cs_memo_opcode st \<and>
   cs_memo_args (foldl decided st rqs) = cs_memo_args st \<and>
   cs_memo_values (foldl decided st rqs) = cs_memo_values st"
  by (induction rqs arbitrary: st) (simp_all add: decided_def)

definition served_total :: "root_command_state \<Rightarrow> u64" where
  "served_total st = cs_accepted st + cs_rate_limited st + cs_rejected st"

lemma tally_total: "served_total (tally st r) = served_total st + 1"
  by (cases r) (simp_all add: served_total_def tally.simps)

lemma restart_row: "row_of (ucast pp_opcode_restart_child) = (Class_preconditioned, 0)"
  by (simp add: row_of_def)

section \<open>Properties\<close>

text \<open>
  C27.  The command token bucket is a rate limit: from initialisation with a refill period, over
  any requests at times that do not go back, whatever their opcodes and arguments and whether
  or not each clock sample was valid, the requests served are at most the capacity plus one per
  whole refill interval that passed, and the capacity's worth of intervals is no shorter than
  the configured period.
\<close>

theorem root_command_rate:
  assumes "cap \<noteq> 0" "refill_ticks \<noteq> 0" "rq_now rq0 = now"
    "sorted (map (\<lambda>rq. unat (rq_now rq)) (rq0 # rqs))"
  shows "case root_command_init cap refill_ticks now True of st \<Rightarrow>
    admissions bucket_admit st rqs
      \<le> unat cap + (unat (rq_now (last (rq0 # rqs))) - unat now) div unat (cs_interval_ticks st) \<and>
    unat refill_ticks \<le> unat cap * unat (cs_interval_ticks st)"
proof -
  note ib = init_bucket [OF assms(1,2), of now]
  let ?st = "root_command_init cap refill_ticks now True"
  have pos: "0 < unat (cs_interval_ticks ?st)"
    using ib(1) by (simp add: bucket_ok_def unat_gt_0)
  show ?thesis
    using bucket.admissions_bound [where ?t0.0 = rq0 and s = ?st and ts = rqs and burst = "unat cap"
        and i = "cs_interval_ticks ?st"] ib assms(3,4) pos
    by simp
qed

definition sample_view :: root_command_view where
  "sample_view =
     \<lparr>vw_abi_version = 1, vw_root_generation = 1, vw_beam_incarnation = 1, vw_cntfrq = 1000000,
      vw_seq = 6, vw_publishing = True, vw_present_mask = 47, vw_driver_mask = 15,
      vw_child_count = 62, vw_records = replicate 62 root_child_record_zero\<rparr>"

definition sample_request :: "u16 \<Rightarrow> u64 list \<Rightarrow> u64 \<Rightarrow> command_request" where
  "sample_request opcode args now =
     \<lparr>rq_view = sample_view, rq_opcode = opcode, rq_args = args, rq_now = now, rq_now_valid = True\<rparr>"

theorem root_command_rate_witness:
  "admissions bucket_admit (root_command_init 2 100 5 True)
     [sample_request 7 [0, 0, 0, 0] 6, sample_request 7 [0, 0, 0, 0] 7,
      sample_request 7 [0, 0, 0, 0] 60] \<le> 2 + (60 - 5) div 50"
proof -
  have iv: "cs_interval_ticks (root_command_init 2 100 5 True) = 50"
    by (simp add: root_command_init_def)
  show ?thesis
    using root_command_rate [of 2 100 "sample_request 7 [0, 0, 0, 0] 5" 5
        "[sample_request 7 [0, 0, 0, 0] 6, sample_request 7 [0, 0, 0, 0] 7,
          sample_request 7 [0, 0, 0, 0] 60]"]
    by (simp add: sample_request_def iv)
qed

lemma decide_guarded:
  "case fst (root_command_decide st view opcode args now v) of d \<Rightarrow>
     cd_action d = Command_none \<or>
     (cd_result d = Ctl_ok \<and> opcode = pp_opcode_restart_child \<and>
      (\<exists>c. cd_child d = Root_child c \<and> args ! 0 = ucast c \<and> unat c < vw_child_count view \<and>
         unat c < 64 \<and> bit (vw_present_mask view) (unat c) \<and> bit (vw_driver_mask view) (unat c) \<and>
         child_state (vw_records view ! unat c) \<noteq> Child_gone \<and> vw_publishing view \<and>
         args ! 1 = vw_root_generation view \<and> args ! 2 = vw_seq view \<and>
         args ! 3 = ucast (lifetime_count (vw_records view ! unat c))))"
proof (cases "cd_action (fst (root_command_decide st view opcode args now v))")
  case Command_restart
  note da = decide_action [OF Command_restart]
  let ?dr = "decide_restart (spend (refill_step st now v)) view (decision_zero opcode args)"
  have "cd_action ?dr = Command_restart" using Command_restart da(3) by simp
  then obtain c where c: "\<not> args ! 0 > ucast UINT32_MAX"
    "root_child_from_raw (ucast (args ! 0)) (vw_child_count view) (vw_present_mask view) = Some c"
    "cd_child ?dr = c" "\<not> drop_bit (unat (child_value c)) (vw_driver_mask view) AND 1 = 0"
    "child_state (vw_records view ! unat (child_value c)) \<noteq> Child_gone" "vw_publishing view"
    "args ! 1 = vw_root_generation view" "args ! 2 = vw_seq view"
    "args ! 3 = ucast (lifetime_count (vw_records view ! unat (child_value c)))"
    by (auto simp: decide_restart_def decision_zero_def Let_def split: option.splits if_splits)
  have "unat (args ! 0) < 2 ^ 32" using c(1) by (simp add: word_less_nat_alt)
  then have "ucast (ucast (args ! 0) :: u32) = args ! 0"
    by (simp add: word_unat_eq_iff unat_ucast_up unat_ucast_down)
  then show ?thesis
    using c da(1,2) unfolding da(3) by (auto simp: root_child_from_raw_iff drop_bit_and_one)
qed simp

text \<open>
  A command reaches a capability only when every precondition holds: a decision carries the
  restart action only with result ok, for RESTART_CHILD, with an argument that names a present
  driver child that is not gone, while publication runs, and with the caller's generation,
  sequence and lifetime count all current; every other decision carries no action.
\<close>

theorem root_command_action_guarded:
  "case fst (root_command_decide st view opcode args now v) of d \<Rightarrow>
     cd_action d = Command_none \<or>
     (cd_result d = Ctl_ok \<and> opcode = pp_opcode_restart_child \<and>
      (\<exists>c. cd_child d = Root_child c \<and> args ! 0 = ucast c \<and> unat c < vw_child_count view \<and>
         unat c < 64 \<and> bit (vw_present_mask view) (unat c) \<and> bit (vw_driver_mask view) (unat c) \<and>
         child_state (vw_records view ! unat c) \<noteq> Child_gone \<and> vw_publishing view \<and>
         args ! 1 = vw_root_generation view \<and> args ! 2 = vw_seq view \<and>
         args ! 3 = ucast (lifetime_count (vw_records view ! unat c))))"
  by (rule decide_guarded)

text \<open>
  Retries are idempotent: once a restart command has completed, repeating it word for word -
  whatever requests were decided in between, at any time and under any view of Root - is never
  acted on again; it is answered already_done with the recorded values whenever a token is
  left, and rate-limited otherwise.
\<close>

theorem root_command_retry_idempotent:
  fixes st d rqs view now v
  assumes "cd_action d = Command_restart" "cd_opcode d = pp_opcode_restart_child"
  defines "st' \<equiv> foldl decided (root_command_complete st d) rqs"
  shows "case fst (root_command_decide st' view (cd_opcode d) (cd_args d) now v) of r \<Rightarrow>
    cd_action r = Command_none \<and>
    (if cs_tokens (refill_step st' now v) = 0 then cd_result r = Ctl_rate_limited
     else cd_result r = Ctl_already_done \<and> cd_values r = cd_values d)"
proof -
  have f: "cs_fence st' = Fence_completed" "cs_memo_opcode st' = cd_opcode d"
    "cs_memo_args st' = cd_args d" "cs_memo_values st' = cd_values d"
    using assms(1) decided_all_fence [of "root_command_complete st d" rqs]
    by (simp_all add: st'_def root_command_complete_def)
  have nm: "\<not> malformed (row_of (ucast (cd_opcode d))) (cd_args d)"
    unfolding assms(2) restart_row by (simp add: malformed_def list_ex_iff)
  show ?thesis
  proof (cases "cs_tokens (refill_step st' now v) = 0")
    case True
    then show ?thesis by (simp add: decide_limited [OF nm True] decision_zero_def)
  next
    case False
    have c: "row_of (ucast (cd_opcode d)) = (Class_preconditioned, 0)"
      unfolding assms(2) by (rule restart_row)
    have "fst (root_command_decide st' view (cd_opcode d) (cd_args d) now v) =
        decide_restart (spend (refill_step st' now v)) view (decision_zero (cd_opcode d) (cd_args d))"
      using nm False unfolding root_command_decide_def Let_def c by (simp add: spend_def)
    then show ?thesis
      using f False by (simp add: decide_restart_def fence_repeats_def decision_zero_def spend_def list_all_iff)
  qed
qed

theorem root_command_retry_idempotent_witness:
  "cd_action (fst (root_command_decide
     (root_command_complete (root_command_init 32 1000 0 True)
       ((decision_zero 2 [1, 1, 6, 0])\<lparr>cd_action := Command_restart, cd_values := [3, 0, 1, 8]\<rparr>))
     sample_view 2 [1, 1, 6, 0] 9 True)) = Command_none"
  using root_command_retry_idempotent [of
      "(decision_zero 2 [1, 1, 6, 0])\<lparr>cd_action := Command_restart, cd_values := [3, 0, 1, 8]\<rparr>"
      "root_command_init 32 1000 0 True" "[]" sample_view 9 True]
  by (simp add: decision_zero_def)

text \<open>
  The reply tallies account for every call: a frame that is rejected, and a decision on a
  framed command whatever it answers, add exactly one to the accepted, rate-limited and rejected
  counts together, an accepted frame adds none, and a malformed request spends no token and
  leaves the refill alone.
\<close>

theorem root_command_tallies:
  "served_total (snd (root_command_frame st ch pp label count)) =
     served_total st + (if fst (root_command_frame st ch pp label count) = Ctl_ok then 0 else 1) \<and>
   served_total (snd (root_command_decide st view opcode args now v)) = served_total st + 1 \<and>
   (if malformed (row_of (ucast opcode)) args
    then snd (root_command_decide st view opcode args now v) = st\<lparr>cs_rejected := cs_rejected st + 1\<rparr>
    else cs_tokens (snd (root_command_decide st view opcode args now v)) =
      (let t = cs_tokens (refill_step st now v) in if t = 0 then 0 else t - 1))"
proof -
  have r: "served_total (refill_step st now v) = served_total st" by (simp add: served_total_def)
  have s: "served_total (spend s) = served_total s" for s by (simp add: served_total_def spend_def)
  have f: "served_total (snd (root_command_frame st ch pp label count)) =
     served_total st + (if fst (root_command_frame st ch pp label count) = Ctl_ok then 0 else 1)"
    by (simp add: root_command_frame_def Let_def served_total_def)
  show ?thesis
  proof (cases "malformed (row_of (ucast opcode)) args")
    case True
    then show ?thesis using f by (simp add: decide_malformed tally.simps) (simp add: served_total_def)
  next
    case False
    then show ?thesis
      using f r s by (cases "cs_tokens (refill_step st now v) = 0")
        (simp_all add: decide_limited decide_spent(1) tally_total spend_def Let_def)
  qed
qed

end
