(* ===== verification/Root_Spec.thy ===== *)
theory Root_Spec
  imports Abi
begin

text \<open>
  Root's consumer of the policy page the BEAM owns: \<open>src/src/pd/root/spec.{h,c}\<close>.

  The page is another protection domain's memory, so one call sees what its loads returned, not
  a value of the page: the three marker words before the copy, the copied bytes, and the marker
  words after it (\<open>page_reads\<close>).  \<open>quiet_reads\<close> is what those loads return when nothing writes
  the page meanwhile.  The retained policy keeps the raw bank bytes; children are the indexes
  of 62-element lists.
\<close>

section \<open>State\<close>

record root_spec_policy =
  sp_generation :: u64
  sp_bank :: u32
  sp_crc32 :: u32
  sp_budget :: "u32 list"
  sp_desired :: "u8 list"

definition root_spec_policy_zero :: root_spec_policy where
  "root_spec_policy_zero =
     \<lparr>sp_generation = 0, sp_bank = 0, sp_crc32 = 0,
      sp_budget = replicate chryso_child_count 0, sp_desired = replicate chryso_child_count 0\<rparr>"

datatype root_spec_outcome = Spec_absent | Spec_applied | Spec_unchanged | Spec_kept

record root_spec_result =
  sr_outcome :: root_spec_outcome
  sr_record :: bool
  sr_reason :: spec_reject
  sr_generation :: u64
  sr_bank :: u32

record root_spec_state =
  ss_retained :: root_spec_policy
  ss_last_reason :: spec_reject
  ss_last_generation :: u64
  ss_last_bank :: u32

definition root_spec_init :: root_spec_state where
  "root_spec_init =
     \<lparr>ss_retained = root_spec_policy_zero, ss_last_reason = Reject_unset,
      ss_last_generation = 0, ss_last_bank = 0\<rparr>"

datatype candidate_kind =
    Candidate_empty
  | Candidate_rejected
  | Candidate_same
  | Candidate_newer
  | Candidate_skipped

datatype choice = Choose_none | Choose_active | Choose_other

fun selections :: "candidate_kind \<Rightarrow> candidate_kind \<Rightarrow> root_spec_outcome \<times> choice" where
  "selections Candidate_empty Candidate_empty = (Spec_absent, Choose_none)"
| "selections Candidate_empty Candidate_rejected = (Spec_absent, Choose_none)"
| "selections Candidate_empty Candidate_same = (Spec_unchanged, Choose_other)"
| "selections Candidate_empty Candidate_newer = (Spec_applied, Choose_other)"
| "selections Candidate_empty Candidate_skipped = (Spec_absent, Choose_none)"
| "selections Candidate_rejected Candidate_empty = (Spec_kept, Choose_none)"
| "selections Candidate_rejected Candidate_rejected = (Spec_kept, Choose_none)"
| "selections Candidate_rejected Candidate_same = (Spec_unchanged, Choose_other)"
| "selections Candidate_rejected Candidate_newer = (Spec_applied, Choose_other)"
| "selections Candidate_rejected Candidate_skipped = (Spec_kept, Choose_none)"
| "selections Candidate_same _ = (Spec_unchanged, Choose_active)"
| "selections Candidate_newer _ = (Spec_applied, Choose_active)"
| "selections Candidate_skipped _ = (Spec_kept, Choose_none)"

record candidate =
  ca_kind :: candidate_kind
  ca_reason :: spec_reject
  ca_generation :: u64
  ca_policy :: root_spec_policy

definition candidate_of :: "candidate_kind \<Rightarrow> candidate" where
  "candidate_of k =
     \<lparr>ca_kind = k, ca_reason = Reject_unset, ca_generation = 0, ca_policy = root_spec_policy_zero\<rparr>"

section \<open>One read of the page\<close>

definition bank_bytes :: "u8 list \<Rightarrow> nat \<Rightarrow> u8 list" where
  "bank_bytes page bank = drop (bank_at bank) page"

record page_reads =
  pr_active :: u32
  pr_seq0 :: u32
  pr_seq1 :: u32
  pr_copy :: "u8 list"
  pr_active_after :: u32
  pr_seq0_after :: u32
  pr_seq1_after :: u32

definition page_active :: "u8 list \<Rightarrow> u32" where
  "page_active page = load_u32le page active_at"

definition page_seq :: "u8 list \<Rightarrow> nat \<Rightarrow> u32" where
  "page_seq page bank = load_u32le (bank_bytes page bank) seq_at"

definition quiet_reads :: "u8 list \<Rightarrow> page_reads" where
  "quiet_reads page =
     \<lparr>pr_active = page_active page, pr_seq0 = page_seq page 0, pr_seq1 = page_seq page 1,
      pr_copy = page,
      pr_active_after = page_active page, pr_seq0_after = page_seq page 0,
      pr_seq1_after = page_seq page 1\<rparr>"

text \<open>The value of \<open>snapshot()\<close>: the copy is usable.\<close>

definition snapshot :: "page_reads \<Rightarrow> bool" where
  "snapshot rd \<longleftrightarrow>
     pr_active_after rd = pr_active rd \<and>
     pr_seq0_after rd = pr_seq0 rd \<and>
     pr_seq1_after rd = pr_seq1 rd \<and>
     load_u32le (pr_copy rd) active_at = pr_active rd \<and>
     load_u32le (bank_bytes (pr_copy rd) 0) seq_at = pr_seq0 rd \<and>
     load_u32le (bank_bytes (pr_copy rd) 1) seq_at = pr_seq1 rd"

section \<open>Judging a bank\<close>

definition same_content :: "root_spec_policy \<Rightarrow> root_spec_policy \<Rightarrow> bool" where
  "same_content a b \<longleftrightarrow>
     list_all (\<lambda>c. sp_budget a ! c = sp_budget b ! c \<and> sp_desired a ! c = sp_desired b ! c)
       [0..<chryso_child_count]"

definition rejected :: "spec_reject \<Rightarrow> u64 \<Rightarrow> candidate" where
  "rejected reason generation =
     (candidate_of Candidate_rejected)\<lparr>ca_reason := reason, ca_generation := generation\<rparr>"

fun bank_reason :: "abi_reject \<Rightarrow> spec_reject" where
  "bank_reason Abi_torn = Reject_bank_torn"
| "bank_reason Abi_checksum = Reject_bank_checksum"
| "bank_reason _ = Reject_bank_malformed"

definition bank_budget :: "u8 list \<Rightarrow> nat \<Rightarrow> u32" where
  "bank_budget b c = load_u32le b (budget_at + c * 4)"

definition bank_desired :: "u8 list \<Rightarrow> nat \<Rightarrow> u8" where
  "bank_desired b c = load_u8 b (desired_at + c)"

definition bank_policy :: "u8 list \<Rightarrow> nat \<Rightarrow> root_spec_policy" where
  "bank_policy b bank =
     \<lparr>sp_generation = load_u64le b generation_at, sp_bank = of_nat bank,
      sp_crc32 = load_u32le b crc_at,
      sp_budget = map (bank_budget b) [0..<chryso_child_count],
      sp_desired = map (bank_desired b) [0..<chryso_child_count]\<rparr>"

definition undeclared_child :: "u8 list \<Rightarrow> u64 \<Rightarrow> nat \<Rightarrow> bool" where
  "undeclared_child b present_mask c \<longleftrightarrow>
     \<not> (drop_bit c present_mask AND 1 \<noteq> 0) \<and> (bank_budget b c \<noteq> 0 \<or> bank_desired b c \<noteq> 0)"

definition evaluate :: "u8 list \<Rightarrow> nat \<Rightarrow> u64 \<Rightarrow> root_spec_policy \<Rightarrow> candidate" where
  "evaluate page bank present_mask retained =
     (let b = bank_bytes page bank;
          verdict = check_spec_bank page bank;
          generation = load_u64le b generation_at;
          policy = bank_policy b bank
      in if load_u32le b seq_at = 0 then candidate_of Candidate_empty
         else if verdict \<noteq> Abi_ok then rejected (bank_reason verdict) 0
         else if generation = 0 then candidate_of Candidate_empty
         else if list_ex (undeclared_child b present_mask) [0..<chryso_child_count]
         then rejected Reject_undeclared_child generation
         else if generation < sp_generation retained then rejected Reject_regressed generation
         else if generation = sp_generation retained
         then (if \<not> same_content policy retained then rejected Reject_conflict generation
               else (candidate_of Candidate_same)\<lparr>ca_generation := generation, ca_policy := policy\<rparr>)
         else (candidate_of Candidate_newer)\<lparr>ca_generation := generation, ca_policy := policy\<rparr>)"

definition finish ::
  "root_spec_state \<Rightarrow> root_spec_outcome \<Rightarrow> spec_reject \<Rightarrow> u64 \<Rightarrow> u32 \<Rightarrow>
   root_spec_result \<times> root_spec_state" where
  "finish st outcome reason generation bank =
     (let result = \<lparr>sr_outcome = outcome, sr_record = False, sr_reason = reason,
                    sr_generation = generation, sr_bank = bank\<rparr>
      in if reason = Reject_unset
         then (result, st\<lparr>ss_last_reason := Reject_unset, ss_last_generation := 0, ss_last_bank := 0\<rparr>)
         else (result\<lparr>sr_record := reason \<noteq> ss_last_reason st \<or>
                                   generation \<noteq> ss_last_generation st \<or>
                                   bank \<noteq> ss_last_bank st\<rparr>,
               st\<lparr>ss_last_reason := reason, ss_last_generation := generation,
                  ss_last_bank := bank\<rparr>))"

section \<open>Consuming the page\<close>

text \<open>\<open>root_spec_consume\<close> past its null checks; \<open>None\<close> is a page that is not mapped.\<close>

definition consume_page ::
  "root_spec_state \<Rightarrow> page_reads option \<Rightarrow> u64 \<Rightarrow> root_spec_result \<times> root_spec_state" where
  "consume_page st shared present_mask =
     (case shared of
        None \<Rightarrow> finish st Spec_absent Reject_unset 0 0
      | Some rd \<Rightarrow>
          if \<not> snapshot rd then finish st Spec_kept Reject_unstable_copy 0 0
          else if all_zero (pr_copy rd) spec_header_size then finish st Spec_absent Reject_unset 0 0
          else if check_spec_header (pr_copy rd) \<noteq> Abi_ok then finish st Spec_kept Reject_header 0 0
          else
            let active = unat (load_u32le (pr_copy rd) active_at);
                first = evaluate (pr_copy rd) active present_mask (ss_retained st);
                fallback = (ca_kind first = Candidate_empty \<or> ca_kind first = Candidate_rejected);
                second = (if fallback
                          then evaluate (pr_copy rd) (1 - active) present_mask (ss_retained st)
                          else candidate_of Candidate_skipped);
                (outcome, chosen) = selections (ca_kind first) (ca_kind second);
                rejected_active = (ca_kind first = Candidate_rejected);
                reason = (if rejected_active then ca_reason first else Reject_unset);
                generation = (if rejected_active then ca_generation first else 0);
                st = (if outcome = Spec_applied
                      then st\<lparr>ss_retained :=
                                (if chosen = Choose_active then ca_policy first
                                 else ca_policy second)\<rparr>
                      else st)
            in finish st outcome reason generation (of_nat active))"

definition root_spec_consume ::
  "root_spec_state option \<Rightarrow> page_reads option \<Rightarrow> bool \<Rightarrow> u64 \<Rightarrow>
   root_spec_result \<times> root_spec_state option" where
  "root_spec_consume st shared scratch present_mask =
     (case st of
        None \<Rightarrow> (\<lparr>sr_outcome = Spec_absent, sr_record = False, sr_reason = Reject_unset,
                  sr_generation = 0, sr_bank = 0\<rparr>, None)
      | Some s \<Rightarrow>
          if \<not> scratch
          then (\<lparr>sr_outcome = Spec_absent, sr_record = False, sr_reason = Reject_unset,
                 sr_generation = 0, sr_bank = 0\<rparr>, Some s)
          else (case consume_page s shared present_mask of (r, s') \<Rightarrow> (r, Some s')))"

section \<open>Use of the retained policy\<close>

definition root_spec_budget :: "root_spec_state \<Rightarrow> u32 \<Rightarrow> u32 \<Rightarrow> u32 \<Rightarrow> u32" where
  "root_spec_budget st child compiled hard_max =
     (if unat child \<ge> chryso_child_count \<or> sp_generation (ss_retained st) = 0 then compiled
      else let budget = sp_budget (ss_retained st) ! unat child
           in if budget = 0 then compiled else if budget < hard_max then budget else hard_max)"

definition root_spec_desired :: "root_spec_state \<Rightarrow> u32 \<Rightarrow> u64 \<Rightarrow> u8" where
  "root_spec_desired st child slot_mask =
     (if unat child \<ge> chryso_child_count \<or> drop_bit (unat child) slot_mask AND 1 = 0 \<or>
         sp_generation (ss_retained st) = 0
      then desired_running
      else if sp_desired (ss_retained st) ! unat child = desired_stopped then desired_stopped
      else desired_running)"

fun root_spec_reject_name :: "spec_reject \<Rightarrow> string" where
  "root_spec_reject_name Reject_unset = ''unset''"
| "root_spec_reject_name Reject_header = ''header''"
| "root_spec_reject_name Reject_bank_torn = ''bank-torn''"
| "root_spec_reject_name Reject_bank_checksum = ''bank-checksum''"
| "root_spec_reject_name Reject_bank_malformed = ''bank-malformed''"
| "root_spec_reject_name Reject_undeclared_child = ''undeclared-child''"
| "root_spec_reject_name Reject_regressed = ''regressed''"
| "root_spec_reject_name Reject_conflict = ''conflict''"
| "root_spec_reject_name Reject_unstable_copy = ''unstable-copy''"

section \<open>Lemmas\<close>

lemma candidate_of_simps [simp]:
  "ca_kind (candidate_of k) = k" "ca_reason (candidate_of k) = Reject_unset"
  "ca_generation (candidate_of k) = 0" "ca_policy (candidate_of k) = root_spec_policy_zero"
  by (simp_all add: candidate_of_def)

lemma rejected_simps [simp]:
  "ca_kind (rejected r g) = Candidate_rejected" "ca_reason (rejected r g) = r"
  "ca_generation (rejected r g) = g"
  by (simp_all add: rejected_def)

lemma bank_policy_generation [simp]:
  "sp_generation (bank_policy b bank) = load_u64le b generation_at"
  by (simp add: bank_policy_def)

lemma bank_policy_length [simp]:
  "length (sp_budget (bank_policy b bank)) = chryso_child_count"
  "length (sp_desired (bank_policy b bank)) = chryso_child_count"
  by (simp_all add: bank_policy_def)

text \<open>What every bank Root may apply satisfies: the checker accepts it, it is published, and it
  declares nothing for a child outside the present mask.\<close>

definition bank_acceptable :: "u8 list \<Rightarrow> nat \<Rightarrow> u64 \<Rightarrow> bool" where
  "bank_acceptable page bank present_mask \<longleftrightarrow>
     check_spec_bank page bank = Abi_ok \<and> load_u64le (bank_bytes page bank) generation_at \<noteq> 0 \<and>
     (\<forall>c < chryso_child_count. \<not> bit present_mask c \<longrightarrow>
        bank_budget (bank_bytes page bank) c = 0 \<and> bank_desired (bank_bytes page bank) c = 0)"

lemma undeclared_all:
  "list_ex (undeclared_child b m) [0..<n] \<longleftrightarrow>
   \<not> (\<forall>c < n. \<not> bit m c \<longrightarrow> bank_budget b c = 0 \<and> bank_desired b c = 0)"
  by (auto simp: list_ex_iff undeclared_child_def drop_bit_and_one)

lemma evaluate_newer_iff:
  "ca_kind (evaluate page bank m ret) = Candidate_newer \<longleftrightarrow>
   load_u32le (bank_bytes page bank) seq_at \<noteq> 0 \<and> bank_acceptable page bank m \<and>
   sp_generation ret < load_u64le (bank_bytes page bank) generation_at"
  by (auto simp: evaluate_def Let_def bank_acceptable_def undeclared_all)

lemma evaluate_same_iff:
  "ca_kind (evaluate page bank m ret) = Candidate_same \<longleftrightarrow>
   load_u32le (bank_bytes page bank) seq_at \<noteq> 0 \<and> bank_acceptable page bank m \<and>
   sp_generation ret = load_u64le (bank_bytes page bank) generation_at \<and>
   same_content (bank_policy (bank_bytes page bank) bank) ret"
  by (auto simp: evaluate_def Let_def bank_acceptable_def undeclared_all)

lemma evaluate_empty_iff:
  "ca_kind (evaluate page bank m ret) = Candidate_empty \<longleftrightarrow>
   load_u32le (bank_bytes page bank) seq_at = 0 \<or>
   (check_spec_bank page bank = Abi_ok \<and> load_u64le (bank_bytes page bank) generation_at = 0)"
  by (auto simp: evaluate_def Let_def)

lemma evaluate_not_skipped [simp]: "ca_kind (evaluate page bank m ret) \<noteq> Candidate_skipped"
  by (auto simp: evaluate_def Let_def)

lemma evaluate_newer_policy:
  "ca_kind (evaluate page bank m ret) = Candidate_newer \<Longrightarrow>
   ca_policy (evaluate page bank m ret) = bank_policy (bank_bytes page bank) bank"
  by (auto simp: evaluate_def Let_def split: if_splits)

lemma finish_outcome [simp]:
  "sr_outcome (fst (finish st oc r g b)) = oc" "sr_reason (fst (finish st oc r g b)) = r"
  "sr_generation (fst (finish st oc r g b)) = g" "sr_bank (fst (finish st oc r g b)) = b"
  "ss_retained (snd (finish st oc r g b)) = ss_retained st"
  by (simp_all add: finish_def Let_def)

lemma finish_again:
  "sr_record (fst (finish (snd (finish st oc r g b)) oc' r g b)) = False"
  "snd (finish (snd (finish st oc r g b)) oc' r g b) = snd (finish st oc r g b)"
  by (simp_all add: finish_def Let_def)

lemma finish_retained_upd [simp]:
  "(snd (finish st oc r g b))\<lparr>ss_retained := ss_retained st\<rparr> = snd (finish st oc r g b)"
  by (simp add: finish_def Let_def)

lemma same_content_refl [simp]: "same_content p p"
  by (simp add: same_content_def list_all_iff)

text \<open>\<open>consume_page\<close> in two parts: what it decides, and \<open>finish\<close>.\<close>

definition consume_decide ::
  "root_spec_policy \<Rightarrow> page_reads option \<Rightarrow> u64 \<Rightarrow>
   root_spec_outcome \<times> spec_reject \<times> u64 \<times> u32 \<times> root_spec_policy" where
  "consume_decide ret shared m =
     (case shared of
        None \<Rightarrow> (Spec_absent, Reject_unset, 0, 0, ret)
      | Some rd \<Rightarrow>
          if \<not> snapshot rd then (Spec_kept, Reject_unstable_copy, 0, 0, ret)
          else if all_zero (pr_copy rd) spec_header_size then (Spec_absent, Reject_unset, 0, 0, ret)
          else if check_spec_header (pr_copy rd) \<noteq> Abi_ok then (Spec_kept, Reject_header, 0, 0, ret)
          else
            let active = unat (load_u32le (pr_copy rd) active_at);
                first = evaluate (pr_copy rd) active m ret;
                second = (if ca_kind first = Candidate_empty \<or> ca_kind first = Candidate_rejected
                          then evaluate (pr_copy rd) (1 - active) m ret
                          else candidate_of Candidate_skipped);
                pick = selections (ca_kind first) (ca_kind second)
            in (fst pick,
                (if ca_kind first = Candidate_rejected then ca_reason first else Reject_unset),
                (if ca_kind first = Candidate_rejected then ca_generation first else 0),
                of_nat active,
                (if fst pick = Spec_applied
                 then (if snd pick = Choose_active then ca_policy first else ca_policy second)
                 else ret)))"

lemma consume_page_eq:
  "consume_page st shared m =
   (case consume_decide (ss_retained st) shared m of
      (oc, r, g, b, p) \<Rightarrow> finish (st\<lparr>ss_retained := p\<rparr>) oc r g b)"
  by (cases shared)
    (auto simp: consume_page_def consume_decide_def Let_def split: prod.splits)

lemma root_spec_consume_eq [simp]:
  "root_spec_consume (Some st) shared True m =
   (fst (consume_page st shared m), Some (snd (consume_page st shared m)))"
  by (simp add: root_spec_consume_def split: prod.splits)

lemma header_ok_active:
  "check_spec_header bs = Abi_ok \<Longrightarrow> load_u32le bs active_at \<le> 1"
  by (auto simp: check_spec_header_def spec_header_rules_def split: if_splits)

lemma bank_ok_seq:
  "check_spec_bank bs bank = Abi_ok \<Longrightarrow>
   bank < 2 \<and> load_u32le (bank_bytes bs bank) seq_at \<noteq> 0 \<and>
   load_u32le (bank_bytes bs bank) seq_at AND 1 = 0"
  by (auto simp: check_spec_bank_def spec_bank_rules_def bank_bytes_def split: if_splits)

text \<open>The eight magic bytes of an accepted header are not all zero.\<close>

lemma header_ok_not_zero:
  assumes "check_spec_header bs = Abi_ok"
  shows "\<not> all_zero bs spec_header_size"
proof
  assume z: "all_zero bs spec_header_size"
  have len: "length bs = 4096" and m: "load_u64le bs 0 = chryso_magic_spec"
    using assms by (auto simp: check_spec_header_def spec_header_rules_def split: if_splits)
  have "bs ! i = 0" if "i < 64" for i
    using z that len by (auto simp: all_zero_def list_all_length)
  then have "load_u64le bs 0 = 0" by (simp add: load_u64le_def load_u32le_def)
  with m show False by simp
qed

section \<open>The policy a page asks for\<close>

definition eligible :: "u8 list \<Rightarrow> nat \<Rightarrow> u64 \<Rightarrow> root_spec_policy \<Rightarrow> bool" where
  "eligible page bank m ret \<longleftrightarrow>
     bank_acceptable page bank m \<and>
     (let g = load_u64le (bank_bytes page bank) generation_at
      in sp_generation ret < g \<or>
         sp_generation ret = g \<and> same_content (bank_policy (bank_bytes page bank) bank) ret)"

definition adopt :: "u8 list \<Rightarrow> nat \<Rightarrow> root_spec_policy \<Rightarrow> root_spec_policy" where
  "adopt page bank ret =
     (if sp_generation ret < load_u64le (bank_bytes page bank) generation_at
      then bank_policy (bank_bytes page bank) bank else ret)"

definition page_policy :: "root_spec_policy \<Rightarrow> page_reads option \<Rightarrow> u64 \<Rightarrow> root_spec_policy" where
  "page_policy ret shared m =
     (case shared of
        None \<Rightarrow> ret
      | Some rd \<Rightarrow>
          let page = pr_copy rd; active = unat (page_active page) in
          if snapshot rd \<and> check_spec_header page = Abi_ok then
            if eligible page active m ret then adopt page active ret
            else if eligible page (1 - active) m ret then adopt page (1 - active) ret
            else ret
          else ret)"

lemma eligible_kind:
  "eligible page bank m ret \<longleftrightarrow>
   ca_kind (evaluate page bank m ret) = Candidate_newer \<or>
   ca_kind (evaluate page bank m ret) = Candidate_same"
  using bank_ok_seq [of page bank]
  by (auto simp: eligible_def evaluate_newer_iff evaluate_same_iff Let_def bank_acceptable_def)

lemma evaluate_kinds:
  "\<not> eligible page bank m ret \<Longrightarrow>
   ca_kind (evaluate page bank m ret) = Candidate_empty \<or>
   ca_kind (evaluate page bank m ret) = Candidate_rejected"
  using evaluate_not_skipped [of page bank m ret]
  by (cases "ca_kind (evaluate page bank m ret)") (auto simp: eligible_kind)

lemma adopt_kind:
  "ca_kind (evaluate page bank m ret) = Candidate_newer \<Longrightarrow>
   adopt page bank ret = ca_policy (evaluate page bank m ret)"
  "ca_kind (evaluate page bank m ret) = Candidate_same \<Longrightarrow> adopt page bank ret = ret"
  by (simp_all add: adopt_def evaluate_newer_policy)
    (auto simp: evaluate_newer_iff evaluate_same_iff)

lemma adopt_newer:
  "ca_kind (evaluate page bank m ret) = Candidate_newer \<Longrightarrow>
   sp_generation ret < sp_generation (ca_policy (evaluate page bank m ret))"
  by (simp add: evaluate_newer_policy) (simp add: evaluate_newer_iff)

lemma adopt_generation:
  "sp_generation ret \<le> sp_generation (adopt page bank ret)"
  "adopt page bank ret = ret \<or>
   adopt page bank ret = bank_policy (bank_bytes page bank) bank \<and>
   sp_generation ret < sp_generation (adopt page bank ret)"
  by (auto simp: adopt_def)

lemma consume_decide_policy:
  "snd (snd (snd (snd (consume_decide ret shared m)))) = page_policy ret shared m \<and>
   (fst (consume_decide ret shared m) = Spec_applied \<longleftrightarrow>
    sp_generation ret < sp_generation (page_policy ret shared m))"
proof (cases shared)
  case None
  then show ?thesis by (simp add: consume_decide_def page_policy_def)
next
  case (Some rd)
  let ?p = "pr_copy rd"
  define a where "a = unat (load_u32le ?p active_at)"
  have pa: "unat (page_active ?p) = a" by (simp add: page_active_def a_def)
  show ?thesis
  proof (cases "snapshot rd \<and> check_spec_header ?p = Abi_ok")
    case False
    then show ?thesis using Some by (auto simp: consume_decide_def page_policy_def Let_def)
  next
    case True
    then have nz: "\<not> all_zero ?p spec_header_size" by (simp add: header_ok_not_zero)
    define b where "b = 1 - a"
    let ?f = "evaluate ?p a m ret" and ?s = "evaluate ?p (1 - a) m ret"
    have dec: "consume_decide ret shared m =
        (let second = (if ca_kind ?f = Candidate_empty \<or> ca_kind ?f = Candidate_rejected
                       then ?s else candidate_of Candidate_skipped);
             pick = selections (ca_kind ?f) (ca_kind second)
         in (fst pick, (if ca_kind ?f = Candidate_rejected then ca_reason ?f else Reject_unset),
             (if ca_kind ?f = Candidate_rejected then ca_generation ?f else 0), of_nat a,
             (if fst pick = Spec_applied
              then (if snd pick = Choose_active then ca_policy ?f else ca_policy second) else ret)))"
      using True nz Some by (simp add: consume_decide_def Let_def a_def)
    have pp: "page_policy ret shared m =
        (if eligible ?p a m ret then adopt ?p a ret
         else if eligible ?p (1 - a) m ret then adopt ?p (1 - a) ret else ret)"
      using True Some by (simp add: page_policy_def Let_def pa)
    show ?thesis
      unfolding dec pp b_def [symmetric]
      using evaluate_kinds [of ?p a m ret] evaluate_kinds [of ?p b m ret]
        adopt_newer [of ?p a m ret] adopt_newer [of ?p b m ret]
      by (cases "ca_kind ?f"; cases "ca_kind (evaluate ?p b m ret)")
        (simp_all add: Let_def eligible_kind adopt_kind)
  qed
qed

lemma page_policy_cases:
  obtains "page_policy ret shared m = ret"
  | rd bank where "shared = Some rd" "snapshot rd" "check_spec_header (pr_copy rd) = Abi_ok"
      "bank = unat (page_active (pr_copy rd)) \<or> bank = 1 - unat (page_active (pr_copy rd))"
      "bank_acceptable (pr_copy rd) bank m"
      "page_policy ret shared m = bank_policy (bank_bytes (pr_copy rd) bank) bank"
      "sp_generation ret < sp_generation (page_policy ret shared m)"
proof (cases "page_policy ret shared m = ret")
  case True
  then show ?thesis using that(1) by blast
next
  case False
  then obtain rd where rd: "shared = Some rd" "snapshot rd" "check_spec_header (pr_copy rd) = Abi_ok"
    by (cases shared) (auto simp: page_policy_def Let_def split: if_splits)
  let ?a = "unat (page_active (pr_copy rd))"
  obtain bank where b: "bank = ?a \<or> bank = 1 - ?a" "eligible (pr_copy rd) bank m ret"
    "page_policy ret shared m = adopt (pr_copy rd) bank ret"
    using False rd by (auto simp: page_policy_def Let_def split: if_splits)
  have "adopt (pr_copy rd) bank ret = bank_policy (bank_bytes (pr_copy rd) bank) bank"
    "sp_generation ret < sp_generation (adopt (pr_copy rd) bank ret)"
    using False b(3) by (auto simp: adopt_def split: if_splits)
  then show ?thesis using that(2) [OF rd b(1)] b by (simp add: eligible_def)
qed

lemma eligible_antimono:
  "eligible page bank m ret' \<Longrightarrow> sp_generation ret < sp_generation ret' \<Longrightarrow>
   eligible page bank m ret"
  by (auto simp: eligible_def Let_def)

lemma eligible_adopted:
  assumes "eligible page bank m ret"
  shows "eligible page bank m (adopt page bank ret)"
    and "adopt page bank (adopt page bank ret) = adopt page bank ret"
  using assms by (auto simp: eligible_def adopt_def Let_def)

lemma page_policy_idem:
  "page_policy (page_policy ret shared m) shared m = page_policy ret shared m"
proof (cases shared)
  case None
  then show ?thesis by (simp add: page_policy_def)
next
  case (Some rd)
  let ?p = "pr_copy rd"
  define a where "a = unat (page_active ?p)"
  define b where "b = 1 - a"
  show ?thesis
  proof (cases "snapshot rd \<and> check_spec_header ?p = Abi_ok")
    case False
    then show ?thesis using Some by (auto simp: page_policy_def Let_def)
  next
    case True
    have pp: "page_policy r shared m =
        (if eligible ?p a m r then adopt ?p a r
         else if eligible ?p b m r then adopt ?p b r else r)" for r
      using True Some by (simp add: page_policy_def Let_def a_def b_def)
    have "eligible ?p a m (adopt ?p b ret) \<Longrightarrow> \<not> eligible ?p a m ret \<Longrightarrow> adopt ?p b ret = ret"
      using eligible_antimono [of ?p a m "adopt ?p b ret" ret] adopt_generation(2) [of ?p b ret]
      by auto
    then show ?thesis
      using eligible_adopted [of ?p a m ret] eligible_adopted [of ?p b m ret] by (auto simp: pp)
  qed
qed

section \<open>Properties\<close>

text \<open>
  C23.  Consuming the page adopts exactly the policy the page asks for: from a stable copy with an
  accepted header, the active bank if it is eligible, otherwise the other bank if that is, and
  in every other case the retained policy stays; \<open>applied\<close> is reported exactly when the
  generation grew.
\<close>

theorem root_spec_consume_refines:
  "case root_spec_consume (Some st) shared True m of (r, st') \<Rightarrow>
     map_option ss_retained st' = Some (page_policy (ss_retained st) shared m) \<and>
     (sr_outcome r = Spec_applied \<longleftrightarrow>
        sp_generation (ss_retained st) < sp_generation (page_policy (ss_retained st) shared m))"
  using consume_decide_policy [of "ss_retained st" shared m]
  by (auto simp: consume_page_eq split: prod.splits)

lemma consume_retained: "ss_retained (snd (consume_page st shared m)) = page_policy (ss_retained st) shared m"
  using consume_decide_policy [of "ss_retained st" shared m]
  by (auto simp: consume_page_eq split: prod.splits)

lemma consume_applied:
  "sr_outcome (fst (consume_page st shared m)) = Spec_applied \<longleftrightarrow>
   sp_generation (ss_retained st) < sp_generation (page_policy (ss_retained st) shared m)"
  using consume_decide_policy [of "ss_retained st" shared m]
  by (auto simp: consume_page_eq split: prod.splits)

fun consume_all :: "root_spec_state \<Rightarrow> page_reads option list \<Rightarrow> u64 \<Rightarrow> root_spec_state" where
  "consume_all st [] m = st"
| "consume_all st (rd # rds) m = consume_all (snd (consume_page st rd m)) rds m"

lemma page_policy_generation: "sp_generation ret \<le> sp_generation (page_policy ret shared m)"
  by (rule page_policy_cases [of ret shared m]) auto

lemma consume_all_generation:
  "sp_generation (ss_retained st) \<le> sp_generation (ss_retained (consume_all st rds m))"
proof (induction rds arbitrary: st)
  case (Cons rd rds)
  have "sp_generation (ss_retained st) \<le> sp_generation (ss_retained (snd (consume_page st rd m)))"
    by (simp add: consume_retained page_policy_generation)
  also have "\<dots> \<le> sp_generation (ss_retained (consume_all st (rd # rds) m))"
    using Cons.IH by simp
  finally show ?case .
qed simp

text \<open>
  C24.  Whatever the sequence of page contents, and whatever is written while Root copies, the
  generation Root decides with never decreases, and the policy it retains is the compiled-in
  one or a bank of one of the copies it took: a bank the checker accepts, with a nonzero
  generation and nothing declared for a child outside the image.
\<close>

theorem root_spec_retained_checked:
  assumes "consume_all root_spec_init rds m = st"
  shows "(ss_retained st = root_spec_policy_zero \<or>
     (\<exists>rd bank. Some rd \<in> set rds \<and> bank < 2 \<and> bank_acceptable (pr_copy rd) bank m \<and>
        ss_retained st = bank_policy (bank_bytes (pr_copy rd) bank) bank)) \<and>
    (\<forall>n. sp_generation (ss_retained (consume_all root_spec_init (take n rds) m))
        \<le> sp_generation (ss_retained st))"
proof
  have "P (ss_retained (consume_all st0 rds m))"
    if "P (ss_retained st0)"
      "\<And>rd bank. Some rd \<in> set rds \<Longrightarrow> bank < 2 \<Longrightarrow> bank_acceptable (pr_copy rd) bank m \<Longrightarrow>
        P (bank_policy (bank_bytes (pr_copy rd) bank) bank)" for P st0
    using that
  proof (induction rds arbitrary: st0)
    case (Cons x rds)
    have "P (page_policy (ss_retained st0) x m)"
      by (rule page_policy_cases [of "ss_retained st0" x m])
        (use Cons.prems bank_ok_seq in \<open>auto simp: bank_acceptable_def\<close>)
    then show ?case using Cons by (auto simp: consume_retained)
  qed simp
  from this [of "\<lambda>p. p = root_spec_policy_zero \<or> (\<exists>rd bank. Some rd \<in> set rds \<and> bank < 2 \<and>
      bank_acceptable (pr_copy rd) bank m \<and> p = bank_policy (bank_bytes (pr_copy rd) bank) bank)"
      root_spec_init] assms
  show "ss_retained st = root_spec_policy_zero \<or>
     (\<exists>rd bank. Some rd \<in> set rds \<and> bank < 2 \<and> bank_acceptable (pr_copy rd) bank m \<and>
        ss_retained st = bank_policy (bank_bytes (pr_copy rd) bank) bank)"
    by (auto simp: root_spec_init_def)
next
  have app: "consume_all s (xs @ ys) m = consume_all (consume_all s xs m) ys m" for s xs ys
    by (induction xs arbitrary: s) auto
  show "\<forall>n. sp_generation (ss_retained (consume_all root_spec_init (take n rds) m))
        \<le> sp_generation (ss_retained st)"
  proof
    fix n
    have "st = consume_all (consume_all root_spec_init (take n rds) m) (drop n rds) m"
      using assms by (simp add: app [symmetric])
    then show "sp_generation (ss_retained (consume_all root_spec_init (take n rds) m))
        \<le> sp_generation (ss_retained st)"
      by (simp add: consume_all_generation)
  qed
qed

theorem root_spec_retained_checked_witness:
  "ss_retained (consume_all root_spec_init [None] 0) = root_spec_policy_zero"
  using root_spec_retained_checked [of "[None]" 0 "consume_all root_spec_init [None] 0"] by auto

text \<open>
  A page that stays the same is applied once and reported once: a second read of the same
  copy applies nothing, a third changes nothing at all and reports nothing, and when the first
  read applied nothing the second is already silent.
\<close>

theorem root_spec_reported_once:
  fixes st shared m
  defines "st1 \<equiv> snd (consume_page st shared m)"
  defines "st2 \<equiv> snd (consume_page st1 shared m)"
  shows "sr_outcome (fst (consume_page st1 shared m)) \<noteq> Spec_applied \<and>
    ss_retained st2 = ss_retained st1 \<and>
    snd (consume_page st2 shared m) = st2 \<and> \<not> sr_record (fst (consume_page st2 shared m)) \<and>
    (sr_outcome (fst (consume_page st shared m)) \<noteq> Spec_applied \<longrightarrow>
       st2 = st1 \<and> \<not> sr_record (fst (consume_page st1 shared m)))"
proof -
  have r1: "ss_retained st1 = page_policy (ss_retained st) shared m"
    by (simp add: st1_def consume_retained)
  have r2: "ss_retained st2 = ss_retained st1"
    by (simp add: st2_def consume_retained r1 page_policy_idem)
  have again: "snd (consume_page (snd (consume_page s shared m)) shared m) = snd (consume_page s shared m) \<and>
      \<not> sr_record (fst (consume_page (snd (consume_page s shared m)) shared m))"
    if "page_policy (ss_retained s) shared m = ss_retained s" for s
    using that consume_decide_policy [of "ss_retained s" shared m]
    by (auto simp: consume_page_eq finish_again split: prod.splits)
  have a2: "snd (consume_page st2 shared m) = st2 \<and> \<not> sr_record (fst (consume_page st2 shared m))"
    unfolding st2_def by (rule again) (simp add: r1 page_policy_idem)
  have "sr_outcome (fst (consume_page st shared m)) \<noteq> Spec_applied \<Longrightarrow>
      page_policy (ss_retained st) shared m = ss_retained st"
    unfolding consume_applied by (rule page_policy_cases [of "ss_retained st" shared m]) auto
  then have a1: "sr_outcome (fst (consume_page st shared m)) \<noteq> Spec_applied \<longrightarrow>
       st2 = st1 \<and> \<not> sr_record (fst (consume_page st1 shared m))"
    using again [of st] by (simp add: st1_def st2_def)
  have "sr_outcome (fst (consume_page st1 shared m)) \<noteq> Spec_applied"
    by (simp add: consume_applied r1 page_policy_idem)
  then show ?thesis using r2 a2 a1 by blast
qed

theorem root_spec_reported_once_witness:
  "sr_outcome (fst (consume_page (snd (consume_page root_spec_init None 0)) None 0)) \<noteq> Spec_applied"
  using root_spec_reported_once [of root_spec_init None 0] by blast

end
