(* ===== verification/Restart_Plan.thy ===== *)
theory Restart_Plan
  imports Root_Policy Root_Spec
begin

text \<open>
  The decision half of Root's restart path: \<open>src/src/pd/root/restart_plan.{h,c}\<close>.  It chooses
  the selector and the ceiling, asks \<open>root_policy.h\<close>, and gives the record to commit.
\<close>

record root_restart_timed =
  timed_enabled :: bool
  timed_policy :: root_budget_policy
  timed_lifetime_limit :: u32

record root_restart_inputs =
  in_child :: u32
  in_compiled :: u32
  in_hard_max :: u32
  in_entry :: u64
  in_timed :: root_restart_timed
  in_clock_available :: bool
  in_now_ticks :: u64

record root_restart_plan_result =
  plan_action :: root_restart_action
  plan_next :: root_child_record
  plan_policy_invalid :: bool

datatype outcome = Outcome_none | Outcome_charge | Outcome_stop

fun child_next :: "root_child_state \<Rightarrow> outcome \<Rightarrow> root_child_state" where
  "child_next Child_live Outcome_none = Child_live"
| "child_next Child_live Outcome_charge = Child_live"
| "child_next Child_live Outcome_stop = Child_gone"
| "child_next Child_gone Outcome_none = Child_gone"
| "child_next Child_gone Outcome_charge = Child_gone"
| "child_next Child_gone Outcome_stop = Child_gone"

fun outcome_of :: "root_restart_action \<Rightarrow> outcome" where
  "outcome_of Restart_resume = Outcome_charge"
| "outcome_of Giveup_budget_exhausted = Outcome_stop"
| "outcome_of Giveup_window_exhausted = Outcome_stop"
| "outcome_of Giveup_lifetime_exhausted = Outcome_stop"
| "outcome_of Giveup_no_entry = Outcome_stop"
| "outcome_of Restart_ignore_gone = Outcome_none"

definition min_u :: "u32 \<Rightarrow> u32 \<Rightarrow> u32" where
  "min_u a b = (if a < b then a else b)"

datatype selector = Selector_lifetime | Selector_timed | Selector_lifetime_fallback

definition select_of :: "root_restart_inputs \<Rightarrow> selector" where
  "select_of i =
     (if \<not> timed_enabled (in_timed i) then Selector_lifetime
      else if in_clock_available i \<and> capacity (timed_policy (in_timed i)) \<noteq> 0
      then Selector_timed else Selector_lifetime_fallback)"

definition spec_ceiling :: "root_spec_state \<Rightarrow> root_restart_inputs \<Rightarrow> u32" where
  "spec_ceiling spec i = root_spec_budget spec (in_child i) (in_compiled i) (in_hard_max i)"

definition root_restart_ceiling :: "root_spec_state \<Rightarrow> root_restart_inputs \<Rightarrow> u32" where
  "root_restart_ceiling spec i =
     (let budget = spec_ceiling spec i
      in if \<not> timed_enabled (in_timed i) then budget
         else min_u budget
           (if capacity (timed_policy (in_timed i)) \<noteq> 0
            then lifetime_limit (timed_policy (in_timed i))
            else timed_lifetime_limit (in_timed i)))"

text \<open>The switch of \<open>root_restart_plan\<close>: action, record so far, policy_invalid, charged.\<close>

definition plan_select ::
  "root_spec_state \<Rightarrow> root_child_record \<Rightarrow> root_restart_inputs \<Rightarrow>
   root_restart_action \<times> root_child_record \<times> bool \<times> bool" where
  "plan_select spec r i =
     (let budget = spec_ceiling spec i
      in case select_of i of
           Selector_lifetime \<Rightarrow> (root_restart_decide r budget (in_entry i), r, False, False)
         | Selector_lifetime_fallback \<Rightarrow>
             (root_restart_decide r (min_u budget (timed_lifetime_limit (in_timed i))) (in_entry i),
              r, False, False)
         | Selector_timed \<Rightarrow>
             let policy = timed_policy (in_timed i);
                 policy = policy\<lparr>lifetime_limit := min_u (lifetime_limit policy) budget\<rparr>;
                 decision = root_restart_decide_at r policy (in_entry i) (in_now_ticks i)
             in if td_error decision \<noteq> Timed_valid
                then (Giveup_budget_exhausted, r, True, False)
                else if td_action decision = Restart_resume
                then (td_action decision, td_next decision, False, True)
                else (td_action decision, r, False, False))"

definition root_restart_plan ::
  "root_spec_state \<Rightarrow> root_child_record \<Rightarrow> root_restart_inputs \<Rightarrow> root_restart_plan_result" where
  "root_restart_plan spec r i =
     (case plan_select spec r i of (action, next, policy_invalid, charged) \<Rightarrow>
        let effect = outcome_of action;
            next = (if effect = Outcome_charge \<and> \<not> charged then root_record_charge next else next);
            from = (if child_state r = Child_live then Child_live else Child_gone)
        in \<lparr>plan_action = action, plan_next = next\<lparr>child_state := child_next from effect\<rparr>,
            plan_policy_invalid = policy_invalid\<rparr>)"

section \<open>Lemmas\<close>

lemma min_u_nat [wordpos]: "unat (min_u a b) = min (unat a) (unat b)"
  by (simp add: min_u_def word_less_nat_alt min_def)

text \<open>The ceiling the selected decision holds the count against.\<close>

definition plan_ceiling :: "root_spec_state \<Rightarrow> root_restart_inputs \<Rightarrow> u32" where
  "plan_ceiling spec i =
     (case select_of i of
        Selector_lifetime \<Rightarrow> spec_ceiling spec i
      | Selector_lifetime_fallback \<Rightarrow>
          min_u (spec_ceiling spec i) (timed_lifetime_limit (in_timed i))
      | Selector_timed \<Rightarrow>
          min_u (lifetime_limit (timed_policy (in_timed i))) (spec_ceiling spec i))"

lemma plan_ceiling_le: "plan_ceiling spec i \<le> spec_ceiling spec i"
  by (auto simp: plan_ceiling_def wordpos split: selector.splits)

lemma root_spec_budget_le:
  "unat (root_spec_budget st c compiled hard) \<le> max (unat compiled) (unat hard)"
  by (auto simp: root_spec_budget_def Let_def wordpos)

lemma decide_at_resume_limits:
  assumes "td_error (root_restart_decide_at r p e now) = Timed_valid"
    "td_action (root_restart_decide_at r p e now) = Restart_resume"
  shows "child_state r = Child_live" "lifetime_count r < lifetime_limit p" "e \<noteq> 0"
    "lifetime_count (td_next (root_restart_decide_at r p e now)) = lifetime_count r + 1"
    "child_state (td_next (root_restart_decide_at r p e now)) = Child_live"
  using assms
  by (cases "child_state r";
      auto simp: root_restart_decide_at_def Let_def not_le split: if_splits)+

lemma plan_select_resume:
  assumes "plan_select spec r i = (Restart_resume, next, bad, charged)"
  shows "child_state r = Child_live \<and> lifetime_count r < plan_ceiling spec i \<and> in_entry i \<noteq> 0 \<and>
    lifetime_count (if charged then next else root_record_charge next) = lifetime_count r + 1"
proof (cases "select_of i")
  case Selector_timed
  then show ?thesis
    using assms
    by (auto simp: plan_select_def Let_def plan_ceiling_def dest: decide_at_resume_limits
        split: if_splits)
qed (use assms in \<open>auto simp: plan_select_def Let_def plan_ceiling_def decide_resume_iff
      root_record_charge_def\<close>)

lemma plan_select_not_resume:
  "plan_select spec r i = (a, next, bad, charged) \<Longrightarrow> a \<noteq> Restart_resume \<Longrightarrow> next = r \<and> \<not> charged"
  by (auto simp: plan_select_def Let_def split: selector.splits if_splits)

lemma plan_gone [simp]:
  "child_state r = Child_gone \<Longrightarrow>
   root_restart_plan spec r i =
     \<lparr>plan_action = Restart_ignore_gone, plan_next = r, plan_policy_invalid = False\<rparr>"
  by (auto simp: root_restart_plan_def plan_select_def Let_def split: selector.splits)

lemma plan_next_eqs:
  assumes "child_state r = Child_live"
  shows "plan_action (root_restart_plan spec r i) = Restart_resume \<Longrightarrow>
      lifetime_count r < plan_ceiling spec i \<and> in_entry i \<noteq> 0 \<and>
      lifetime_count (plan_next (root_restart_plan spec r i)) = lifetime_count r + 1 \<and>
      child_state (plan_next (root_restart_plan spec r i)) = Child_live"
    and "plan_action (root_restart_plan spec r i) \<noteq> Restart_resume \<Longrightarrow>
      plan_next (root_restart_plan spec r i) =
        r\<lparr>child_state := child_next Child_live (outcome_of (plan_action (root_restart_plan spec r i)))\<rparr>"
proof -
  obtain a n b c where ps: "plan_select spec r i = (a, n, b, c)" by (metis prod_cases4)
  show "plan_action (root_restart_plan spec r i) = Restart_resume \<Longrightarrow>
      lifetime_count r < plan_ceiling spec i \<and> in_entry i \<noteq> 0 \<and>
      lifetime_count (plan_next (root_restart_plan spec r i)) = lifetime_count r + 1 \<and>
      child_state (plan_next (root_restart_plan spec r i)) = Child_live"
    using plan_select_resume [of spec r i n b c] ps assms
    by (auto simp: root_restart_plan_def Let_def split: if_splits)
  show "plan_action (root_restart_plan spec r i) \<noteq> Restart_resume \<Longrightarrow>
      plan_next (root_restart_plan spec r i) =
        r\<lparr>child_state := child_next Child_live (outcome_of (plan_action (root_restart_plan spec r i)))\<rparr>"
    using plan_select_not_resume [OF ps] ps assms
    by (cases a) (auto simp: root_restart_plan_def Let_def)
qed

lemma decide_not_ignored:
  "child_state r = Child_live \<Longrightarrow> root_restart_decide r b e \<noteq> Restart_ignore_gone"
  by (simp add: root_restart_decide_def)

lemma decide_at_not_ignored:
  "child_state r = Child_live \<Longrightarrow> td_error (root_restart_decide_at r p e now) = Timed_valid \<Longrightarrow>
   td_action (root_restart_decide_at r p e now) \<noteq> Restart_ignore_gone"
  by (auto simp: root_restart_decide_at_def Let_def split: if_splits)

lemma plan_not_ignored:
  "child_state r = Child_live \<Longrightarrow> plan_action (root_restart_plan spec r i) \<noteq> Restart_ignore_gone"
  using decide_not_ignored [of r] decide_at_not_ignored [of r]
  by (auto simp: root_restart_plan_def plan_select_def Let_def split: selector.splits prod.splits)

lemma plan_giveup_stops:
  "child_state r = Child_live \<Longrightarrow> plan_action (root_restart_plan spec r i) \<noteq> Restart_resume \<Longrightarrow>
   plan_next (root_restart_plan spec r i) = r\<lparr>child_state := Child_gone\<rparr>"
  using plan_next_eqs(2) [of r spec i] plan_not_ignored [of r spec i]
  by (cases "plan_action (root_restart_plan spec r i)") auto

section \<open>The contract of a restart decision\<close>

text \<open>
  What the fault and command paths rely on: a decision on a record either restarts it, charging
  one unit of a count held below a limit, or leaves it, or stops it for good; a stopped record
  stays as it is.
\<close>

fun granted :: "('c \<Rightarrow> 'r \<Rightarrow> bool \<times> 'r) \<Rightarrow> 'r \<Rightarrow> 'c list \<Rightarrow> nat" where
  "granted decide r [] = 0"
| "granted decide r (c # cs) =
     (case decide c r of (b, r') \<Rightarrow> (if b then 1 else 0) + granted decide r' cs)"

fun decide_all :: "('c \<Rightarrow> 'r \<Rightarrow> bool \<times> 'r) \<Rightarrow> 'r \<Rightarrow> 'c list \<Rightarrow> 'r" where
  "decide_all decide r [] = r"
| "decide_all decide r (c # cs) = decide_all decide (snd (decide c r)) cs"

locale restart_decider =
  fixes decide :: "'c \<Rightarrow> 'r \<Rightarrow> bool \<times> 'r"
    and count :: "'r \<Rightarrow> nat"
    and stopped :: "'r \<Rightarrow> bool"
    and limit :: "'c \<Rightarrow> nat"
  assumes granted_below: "fst (decide c r) \<Longrightarrow> count r < limit c"
    and granted_charges: "fst (decide c r) \<Longrightarrow> count (snd (decide c r)) = Suc (count r)"
    and refused_keeps: "\<not> fst (decide c r) \<Longrightarrow> count (snd (decide c r)) = count r"
    and refused_stops: "\<not> fst (decide c r) \<Longrightarrow> stopped (snd (decide c r))"
    and stopped_absorbs: "stopped r \<Longrightarrow> decide c r = (False, r)"
begin

lemma count_total: "count (decide_all decide r cs) = count r + granted decide r cs"
proof (induction cs arbitrary: r)
  case (Cons c cs)
  then show ?case
    using granted_charges [of c r] refused_keeps [of c r] by (auto split: prod.splits)
qed simp

lemma stopped_granted: "stopped r \<Longrightarrow> granted decide r cs = 0 \<and> decide_all decide r cs = r"
  by (induction cs) (auto simp: stopped_absorbs)

lemma granted_limit:
  "(\<And>c. c \<in> set cs \<Longrightarrow> limit c \<le> n) \<Longrightarrow> granted decide r cs \<le> n - count r"
proof (induction cs arbitrary: r)
  case (Cons c cs)
  have ih: "granted decide (snd (decide c r)) cs \<le> n - count (snd (decide c r))"
    using Cons by simp
  show ?case
  proof (cases "fst (decide c r)")
    case True
    have "count r < n" using granted_below [OF True] Cons.prems [of c] by simp
    then show ?thesis using True ih granted_charges [OF True] by (cases "decide c r") simp
  next
    case False
    then show ?thesis
      using False stopped_granted [OF refused_stops [OF False]] by (cases "decide c r") simp
  qed
qed simp

text \<open>A refusal is the last word: nothing after it is granted.\<close>

lemma refused_final:
  assumes "\<not> fst (decide c r)"
  shows "granted decide r (c # cs) = 0" and "decide_all decide r (c # cs) = snd (decide c r)"
  using assms stopped_granted [OF refused_stops [OF assms], of cs] by (auto split: prod.splits)

end

definition plan_decide ::
  "root_spec_state \<times> root_restart_inputs \<Rightarrow> root_child_record \<Rightarrow> bool \<times> root_child_record" where
  "plan_decide si r =
     (let d = root_restart_plan (fst si) r (snd si)
      in (plan_action d = Restart_resume, plan_next d))"

lemma plan_resume_live:
  "plan_action (root_restart_plan spec r i) = Restart_resume \<Longrightarrow> child_state r = Child_live"
  by (cases "child_state r") auto

lemma plan_resume_count:
  assumes "plan_action (root_restart_plan spec r i) = Restart_resume"
  shows "unat (lifetime_count (plan_next (root_restart_plan spec r i))) = Suc (unat (lifetime_count r))"
  using plan_next_eqs(1) [OF plan_resume_live [OF assms] assms] unat_inc_below by metis

interpretation plan: restart_decider plan_decide "\<lambda>r. unat (lifetime_count r)"
  "\<lambda>r. child_state r = Child_gone" "\<lambda>si. unat (plan_ceiling (fst si) (snd si))"
proof (unfold_locales, goal_cases)
  case (1 c r)
  then show ?case
    using plan_next_eqs(1) [OF plan_resume_live]
    by (auto simp: plan_decide_def Let_def word_less_nat_alt)
next
  case (2 c r)
  then show ?case by (simp add: plan_decide_def Let_def plan_resume_count)
next
  case (3 c r)
  then show ?case
    by (cases "child_state r") (auto simp: plan_decide_def Let_def plan_giveup_stops)
next
  case (4 c r)
  then show ?case
    by (cases "child_state r") (auto simp: plan_decide_def Let_def plan_giveup_stops)
next
  case (5 r c)
  then show ?case by (simp add: plan_decide_def Let_def)
qed

lemma plan_ceiling_compiled:
  "unat (plan_ceiling spec i) \<le> max (unat (in_compiled i)) (unat (in_hard_max i))"
  using plan_ceiling_le [of spec i] root_spec_budget_le [of spec "in_child i" "in_compiled i" "in_hard_max i"]
  unfolding spec_ceiling_def word_le_nat_alt by simp

section \<open>Properties\<close>

text \<open>
  The restart plan's laws.  A gone child is ignored and its record untouched.  A live child
  is either resumed - only below the ceiling and with an entry point, its lifetime count
  charged by exactly one and its state live - or stopped for good with its counters kept; no
  other outcome exists, and a rejected policy or record always stops.
\<close>

theorem root_restart_plan_laws:
  "case root_restart_plan spec r i of d \<Rightarrow>
     (child_state r = Child_gone \<longrightarrow>
        plan_action d = Restart_ignore_gone \<and> plan_next d = r \<and> \<not> plan_policy_invalid d) \<and>
     (child_state r = Child_live \<longrightarrow>
        (if plan_action d = Restart_resume
         then lifetime_count r < plan_ceiling spec i \<and> in_entry i \<noteq> 0 \<and>
              unat (lifetime_count (plan_next d)) = Suc (unat (lifetime_count r)) \<and>
              child_state (plan_next d) = Child_live \<and> \<not> plan_policy_invalid d
         else plan_action d \<noteq> Restart_ignore_gone \<and>
              plan_next d = r\<lparr>child_state := Child_gone\<rparr>))"
proof -
  have inv: "plan_policy_invalid (root_restart_plan spec r i) \<Longrightarrow>
      plan_action (root_restart_plan spec r i) = Giveup_budget_exhausted"
    by (auto simp: root_restart_plan_def plan_select_def Let_def
        split: selector.splits prod.splits if_splits)
  show ?thesis
    using plan_next_eqs(1) [of r spec i] plan_giveup_stops [of r spec i]
      plan_not_ignored [of r spec i] plan_resume_count [of spec r i] inv
    by auto
qed

definition sample_inputs :: root_restart_inputs where
  "sample_inputs =
     \<lparr>in_child = 1, in_compiled = 8, in_hard_max = 64, in_entry = 2097152,
      in_timed = \<lparr>timed_enabled = False,
                  timed_policy = \<lparr>capacity = 0, lifetime_limit = 0, leak_interval_ticks = 0\<rparr>,
                  timed_lifetime_limit = 0\<rparr>,
      in_clock_available = True, in_now_ticks = 0\<rparr>"

theorem root_restart_plan_laws_witness:
  "plan_action (root_restart_plan root_spec_init root_child_record_zero sample_inputs) = Restart_resume
   \<and> unat (lifetime_count (plan_next
       (root_restart_plan root_spec_init root_child_record_zero sample_inputs))) = 1"
proof -
  have "child_state root_child_record_zero = Child_live" "lifetime_count root_child_record_zero = 0"
    by (simp_all add: root_child_record_zero_def)
  moreover have "plan_action (root_restart_plan root_spec_init root_child_record_zero sample_inputs)
      = Restart_resume"
    by code_simp
  ultimately show ?thesis
    using root_restart_plan_laws [where spec = root_spec_init and r = root_child_record_zero
        and i = sample_inputs]
    by simp
qed

text \<open>
  Crash loops end: over any sequence of restart requests - under any spec states, any
  selectors, clocks and entry points, as long as each compiled budget and hard maximum is at
  most some bound - the plan grants at most that bound minus the restarts already charged, the
  lifetime count is the number granted, and once it refuses a live child nothing is granted
  again.
\<close>

theorem root_restart_bounded:
  assumes "\<And>s i. (s, i) \<in> set requests \<Longrightarrow>
      unat (in_compiled i) \<le> n \<and> unat (in_hard_max i) \<le> n"
  shows "granted plan_decide r requests \<le> n - unat (lifetime_count r) \<and>
    unat (lifetime_count (decide_all plan_decide r requests)) =
      unat (lifetime_count r) + granted plan_decide r requests \<and>
    (\<forall>q. child_state r = Child_gone \<or> \<not> fst (plan_decide q r) \<longrightarrow>
       granted plan_decide r (q # requests) = 0 \<and>
       child_state (decide_all plan_decide r (q # requests)) = Child_gone)"
proof -
  have lim: "unat (plan_ceiling (fst q) (snd q)) \<le> n" if "q \<in> set requests" for q
    using that assms [of "fst q" "snd q"]
      order.trans [OF plan_ceiling_compiled [of "fst q" "snd q"] max.boundedI, of n] by simp
  have "child_state r = Child_gone \<or> \<not> fst (plan_decide q r) \<Longrightarrow>
      granted plan_decide r (q # requests) = 0 \<and>
      child_state (decide_all plan_decide r (q # requests)) = Child_gone" for q
    using plan.refused_final [of q r requests] plan.refused_stops [of q r]
      plan.stopped_granted [of r "q # requests"] by auto
  then show ?thesis using plan.granted_limit [OF lim] plan.count_total by blast
qed

theorem root_restart_bounded_witness:
  "granted plan_decide root_child_record_zero (replicate 100 (root_spec_init, sample_inputs)) \<le> 64"
  using root_restart_bounded [of "replicate 100 (root_spec_init, sample_inputs)" 64
      root_child_record_zero]
  by (simp add: sample_inputs_def root_child_record_zero_def)

section \<open>Where the documented laws differ from the code\<close>

text \<open>
  \<open>restart_plan.h\<close> states the law "cap: the effective budget is min(spec ?: compiled,
  hard_max)".  The code caps the spec's value only: with no spec the compiled budget is used as
  it is, above the hard maximum too.
\<close>

lemma cap_law_uncapped:
  "in_hard_max (sample_inputs\<lparr>in_compiled := 100\<rparr>)
     < plan_ceiling root_spec_init (sample_inputs\<lparr>in_compiled := 100\<rparr>)"
  by code_simp

text \<open>
  \<open>root_restart_ceiling\<close> is documented as the ceiling the plan applies.  After the clock is lost
  the plan holds the count against \<open>timed.lifetime_limit\<close>, while the reported ceiling still reads
  the timed policy's limit.  They agree whenever the two limits are the same.
\<close>

lemma ceiling_differs_after_clock_loss:
  "root_restart_ceiling root_spec_init
     (sample_inputs\<lparr>in_timed := \<lparr>timed_enabled = True,
        timed_policy = \<lparr>capacity = 2, lifetime_limit = 8, leak_interval_ticks = 5\<rparr>,
        timed_lifetime_limit = 3\<rparr>, in_clock_available := False\<rparr>) = 8 \<and>
   plan_ceiling root_spec_init
     (sample_inputs\<lparr>in_timed := \<lparr>timed_enabled = True,
        timed_policy = \<lparr>capacity = 2, lifetime_limit = 8, leak_interval_ticks = 5\<rparr>,
        timed_lifetime_limit = 3\<rparr>, in_clock_available := False\<rparr>) = 3"
  by code_simp

lemma ceiling_agrees:
  "lifetime_limit (timed_policy (in_timed i)) = timed_lifetime_limit (in_timed i) \<Longrightarrow>
   root_restart_ceiling spec i = plan_ceiling spec i"
  by (auto simp: root_restart_ceiling_def plan_ceiling_def select_of_def min_u_def Let_def)

end
