(* ===== verification/Status_Page.thy ===== *)
theory Status_Page
  imports Abi
begin

text \<open>
  Root's status page as both sides see it: the records of \<open>interfaces/orchestrator_abi.zig\<close> and
  the page checker, the rule table \<open>root_status_rules\<close> of \<open>tools/abi/checks.zig\<close> read by its
  interpreter.  A reserved byte span is a field of its own, so the checker can look at it.
\<close>

section \<open>The records\<close>

record root_status_header =
  hd_magic :: u64
  hd_abi_version :: u32
  hd_child_count :: u32
  hd_seq :: u64
  hd_root_generation :: u64
  hd_beam_incarnation :: u64
  hd_now_ticks :: u64
  hd_cntfrq :: u64
  hd_event_head :: u64
  hd_event_dropped :: u64
  hd_applied_spec_generation :: u64
  hd_applied_bank :: u32
  hd_reserved0 :: u32

record root_child_status =
  row_state :: u8
  row_desired :: u8
  row_flags :: u16
  row_lifetime_count :: u32
  row_effective_budget :: u32
  row_fault_label :: u32
  row_fault_mr0 :: u64
  row_fault_mr1 :: u64
  row_last_fault_ticks :: u64
  row_last_restart_ticks :: u64
  row_boot_ticks :: u64
  row_cumulative_down_ticks :: u64
  row_slot_generation :: u64
  row_window_count :: u32
  row_reserved :: u32

record root_event =
  ev_ticks :: u64
  ev_kind :: u8
  ev_child :: u8
  ev_flags :: u16
  ev_detail :: u32
  ev_a :: u64
  ev_b :: u64

record root_status_page =
  pg_header :: root_status_header
  pg_children :: "root_child_status list"
  pg_events :: "root_event list"
  pg_reserved_tail :: "u8 list"

definition header_zero :: root_status_header where
  "header_zero =
     \<lparr>hd_magic = 0, hd_abi_version = 0, hd_child_count = 0, hd_seq = 0, hd_root_generation = 0,
      hd_beam_incarnation = 0, hd_now_ticks = 0, hd_cntfrq = 0, hd_event_head = 0,
      hd_event_dropped = 0, hd_applied_spec_generation = 0, hd_applied_bank = 0, hd_reserved0 = 0\<rparr>"

definition row_zero :: root_child_status where
  "row_zero =
     \<lparr>row_state = 0, row_desired = 0, row_flags = 0, row_lifetime_count = 0,
      row_effective_budget = 0, row_fault_label = 0, row_fault_mr0 = 0, row_fault_mr1 = 0,
      row_last_fault_ticks = 0, row_last_restart_ticks = 0, row_boot_ticks = 0,
      row_cumulative_down_ticks = 0, row_slot_generation = 0, row_window_count = 0,
      row_reserved = 0\<rparr>"

definition event_zero :: root_event where
  "event_zero =
     \<lparr>ev_ticks = 0, ev_kind = 0, ev_child = 0, ev_flags = 0, ev_detail = 0, ev_a = 0, ev_b = 0\<rparr>"

section \<open>The checker\<close>

text \<open>The live slots of the event ring: \<open>[head - min(head, cap), head)\<close>, slot \<open>i % cap\<close>.\<close>

definition live_slots :: "u64 \<Rightarrow> nat list" where
  "live_slots head =
     (let live = min (unat head) chryso_event_count
      in map (\<lambda>n. (unat head - live + n) mod chryso_event_count) [0..<live])"

text \<open>\<open>event_child\<close>: a global kind carries the sentinel, every other kind a child that is set.\<close>

definition event_child_ok :: "root_child_status list \<Rightarrow> root_event \<Rightarrow> bool" where
  "event_child_ok rows e \<longleftrightarrow>
     (if ev_kind e = event_kind_boot \<or> ev_kind e = event_kind_spec_reject
      then ev_child e = chryso_root_event_no_child
      else unat (ev_child e) < chryso_child_count \<and> row_state (rows ! unat (ev_child e)) \<noteq> 0)"

definition event_kind_ok :: "root_event \<Rightarrow> bool" where
  "event_kind_ok e \<longleftrightarrow> 1 \<le> ev_kind e \<and> ev_kind e \<le> 9"

definition event_detail_ok :: "u8 \<Rightarrow> u32 \<Rightarrow> root_event \<Rightarrow> bool" where
  "event_detail_ok kind hi e \<longleftrightarrow> ev_kind e \<noteq> kind \<or> (1 \<le> ev_detail e \<and> ev_detail e \<le> hi)"

definition flags_implies :: "u16 \<Rightarrow> bool" where
  "flags_implies f \<longleftrightarrow>
     f AND chryso_fault_mr1_valid = 0 \<or> f AND chryso_fault_mr0_valid = chryso_fault_mr0_valid"

definition root_status_rules :: "root_status_page \<Rightarrow> (abi_reject \<times> bool) list" where
  "root_status_rules pg =
     (let hd = pg_header pg; rows = pg_children pg;
          events = map (\<lambda>slot. pg_events pg ! slot) (live_slots (hd_event_head hd))
      in [(Abi_magic, hd_magic hd = chryso_magic_status),
          (Abi_version, hd_abi_version hd = chryso_abi_version),
          (Abi_torn, hd_seq hd \<noteq> 0 \<and> hd_seq hd AND 1 = 0),
          (Abi_reserved, hd_reserved0 hd = 0),
          (Abi_reserved, list_all (\<lambda>row. row_reserved row = 0) rows),
          (Abi_reserved, list_all (\<lambda>b. b = 0) (pg_reserved_tail pg)),
          (Abi_unknown_kind, list_all (\<lambda>row. row_state row \<le> 4) rows),
          (Abi_unknown_kind, list_all (\<lambda>row. row_desired row \<le> 2) rows),
          (Abi_unknown_kind, list_all event_kind_ok events),
          (Abi_unknown_kind, list_all (event_detail_ok event_kind_giveup 4) events),
          (Abi_unknown_kind, list_all (event_detail_ok event_kind_control 2) events),
          (Abi_unknown_kind, list_all (event_detail_ok event_kind_spec_reject 8) events),
          (Abi_range, hd_child_count hd = of_nat chryso_child_count),
          (Abi_range, hd_applied_bank hd \<le> 1),
          (Abi_range, list_all (\<lambda>row. row_flags row \<le> 7) rows),
          (Abi_range, list_all (\<lambda>row. flags_implies (row_flags row)) rows),
          (Abi_range, list_all (\<lambda>row. row_state row \<noteq> 0 \<or> row = row_zero) rows),
          (Abi_range, list_all (\<lambda>e. ev_flags e \<le> 3) events),
          (Abi_range, list_all (\<lambda>e. flags_implies (ev_flags e)) events),
          (Abi_range, list_all (\<lambda>e. ev_flags e = 0 \<or> ev_kind e = event_kind_fault) events),
          (Abi_range, list_all (event_child_ok rows) events),
          (Abi_range, hd_event_dropped hd =
             (if hd_event_head hd > of_nat chryso_event_count
              then hd_event_head hd - of_nat chryso_event_count else 0))])"

text \<open>The length check of \<open>verdict\<close> is the shape of the record: its arrays have their lengths.\<close>

definition check_root_status_page :: "root_status_page \<Rightarrow> abi_reject" where
  "check_root_status_page pg =
     (if length (pg_children pg) \<noteq> chryso_child_count \<or>
         length (pg_events pg) \<noteq> chryso_event_count \<or> length (pg_reserved_tail pg) \<noteq> 7240
      then Abi_size else first_violation (root_status_rules pg))"

lemma set_live_slots:
  "set (live_slots head) = {i. i < min (unat head) chryso_event_count}"
proof (cases "unat head \<le> chryso_event_count")
  case True
  then show ?thesis by (force simp: live_slots_def Let_def min_def)
next
  case False
  have ex: "\<exists>n < 128. i = (unat head - 128 + n) mod 128" if "i < 128" for i
  proof -
    define q r where "q = (unat head - 128) div 128" and "r = (unat head - 128) mod 128"
    have h: "unat head - 128 = 128 * q + r" and r: "r < 128" by (simp_all add: q_def r_def)
    show ?thesis
    proof (cases "r \<le> i")
      case True
      then have "i = (128 * q + r + (i - r)) mod 128" using that by simp
      then show ?thesis using that by (intro exI [of _ "i - r"]) (simp add: h)
    next
      case False
      then have "128 * q + r + (i + 128 - r) = 128 * (q + 1) + i" using r by simp
      then have "i = (128 * q + r + (i + 128 - r)) mod 128" using that by (simp only: mod_mult_self4 mod_less)
      then show ?thesis using False r by (intro exI [of _ "i + 128 - r"]) (simp add: h)
    qed
  qed
  have "set (live_slots head) = (\<lambda>n. (unat head - 128 + n) mod 128) ` {0..<128}"
    using False by (simp add: live_slots_def Let_def min_def)
  also have "\<dots> = {i. i < 128}"
    using ex by (auto simp: image_iff Bex_def)
  finally show ?thesis using False by (simp add: min_def)
qed

end
