(* ===== verification/Root_Status.thy ===== *)
theory Root_Status
  imports Root_Policy Status_Page
begin

text \<open>
  The writer of Root's status page: \<open>src/src/pd/root/status.{h,c}\<close>.  A null page is \<open>None\<close>.  \<open>root_status_publish\<close> is the
  composition of its three store groups - the odd sequence, the payload, the even sequence - so
  that a reader can be placed between them.
\<close>

text \<open>\<open>clear_page\<close>: every byte but those of \<open>header.seq\<close> becomes zero.\<close>

definition clear_page :: "root_status_page \<Rightarrow> root_status_page" where
  "clear_page page =
     \<lparr>pg_header = header_zero\<lparr>hd_seq := hd_seq (pg_header page)\<rparr>,
      pg_children = replicate chryso_child_count row_zero,
      pg_events = replicate chryso_event_count event_zero,
      pg_reserved_tail = replicate 7240 0\<rparr>"

section \<open>The writer's state\<close>

record root_status_observation =
  ob_fault_label :: u32
  ob_fault_flags :: u16
  ob_fault_mr0 :: u64
  ob_fault_mr1 :: u64
  ob_last_fault_ticks :: u64
  ob_last_restart_ticks :: u64
  ob_boot_ticks :: u64
  ob_cumulative_down_ticks :: u64
  ob_down_since_ticks :: u64
  ob_down_open :: bool

definition observation_zero :: root_status_observation where
  "observation_zero =
     \<lparr>ob_fault_label = 0, ob_fault_flags = 0, ob_fault_mr0 = 0, ob_fault_mr1 = 0,
      ob_last_fault_ticks = 0, ob_last_restart_ticks = 0, ob_boot_ticks = 0,
      ob_cumulative_down_ticks = 0, ob_down_since_ticks = 0, ob_down_open = False\<rparr>"

record root_status_state =
  st_observations :: "root_status_observation list"
  st_present_mask :: u64
  st_seq :: u64
  st_event_head :: u64
  st_root_generation :: u64
  st_beam_incarnation :: u64
  st_frequency :: u64
  st_effective_budget :: "u32 list"
  st_desired :: "u8 list"
  st_applied_generation :: u64
  st_applied_bank :: u32
  st_policy_dirty :: bool
  st_enabled :: bool
  st_exhausted :: bool
  st_misused :: bool

definition root_status_state_zero :: root_status_state where
  "root_status_state_zero =
     \<lparr>st_observations = replicate chryso_child_count observation_zero, st_present_mask = 0,
      st_seq = 0, st_event_head = 0, st_root_generation = 0, st_beam_incarnation = 0,
      st_frequency = 0, st_effective_budget = replicate chryso_child_count 0,
      st_desired = replicate chryso_child_count 0, st_applied_generation = 0, st_applied_bank = 0,
      st_policy_dirty = False, st_enabled = False, st_exhausted = False, st_misused = False\<rparr>"

definition present :: "root_status_state \<Rightarrow> nat \<Rightarrow> bool" where
  "present st child \<longleftrightarrow>
     child < chryso_child_count \<and> st_present_mask st AND push_bit child 1 \<noteq> 0"

definition fault_word_flags :: "nat \<Rightarrow> u16" where
  "fault_word_flags count =
     (if count \<ge> 1 then chryso_fault_mr0_valid else 0) OR
     (if count \<ge> 2 then chryso_fault_mr1_valid else 0)"

definition root_status_init ::
  "root_status_page option \<Rightarrow> u64 \<Rightarrow> u64 \<Rightarrow> u64 \<Rightarrow> u32 list \<Rightarrow>
   root_status_state \<times> root_status_page option" where
  "root_status_init page present_mask now frequency budget =
     (let st = root_status_state_zero\<lparr>st_present_mask := present_mask\<rparr>;
          st = st\<lparr>st_effective_budget :=
                    map (\<lambda>i. if present st i then budget ! i else 0) [0..<chryso_child_count],
                  st_desired :=
                    map (\<lambda>i. if present st i then desired_running else desired_unset)
                      [0..<chryso_child_count],
                  st_root_generation := 1,
                  st_beam_incarnation := 1,
                  st_frequency := frequency\<rparr>
      in case page of
           None \<Rightarrow> (st, None)
         | Some pg \<Rightarrow>
             let stamp = (if frequency \<noteq> 0 then now else 0);
                 pg = clear_page (pg\<lparr>pg_header := (pg_header pg)\<lparr>hd_seq := 0\<rparr>\<rparr>);
                 hd = (pg_header pg)
                        \<lparr>hd_magic := chryso_magic_status, hd_abi_version := chryso_abi_version,
                         hd_child_count := of_nat chryso_child_count,
                         hd_root_generation := st_root_generation st,
                         hd_beam_incarnation := st_beam_incarnation st,
                         hd_now_ticks := stamp, hd_cntfrq := frequency\<rparr>;
                 rows = map (\<lambda>i. if present st i
                                  then (pg_children pg ! i)
                                         \<lparr>row_state := wire_state_live,
                                          row_desired := st_desired st ! i,
                                          row_effective_budget := st_effective_budget st ! i,
                                          row_boot_ticks := stamp\<rparr>
                                  else pg_children pg ! i) [0..<chryso_child_count];
                 obs = map (\<lambda>i. if present st i
                                 then (st_observations st ! i)\<lparr>ob_boot_ticks := stamp\<rparr>
                                 else st_observations st ! i) [0..<chryso_child_count];
                 boot = event_zero\<lparr>ev_ticks := stamp, ev_kind := event_kind_boot,
                                   ev_child := chryso_root_event_no_child,
                                   ev_a := st_root_generation st, ev_b := st_beam_incarnation st\<rparr>;
                 hd = hd\<lparr>hd_event_head := 1, hd_seq := 2\<rparr>
             in (st\<lparr>st_observations := obs, st_event_head := 1, st_seq := 2, st_enabled := True\<rparr>,
                 Some (pg\<lparr>pg_header := hd, pg_children := rows,
                          pg_events := (pg_events pg)[0 := boot]\<rparr>)))"

section \<open>Observations\<close>

definition root_status_note_fault ::
  "root_status_state \<Rightarrow> nat \<Rightarrow> u64 \<Rightarrow> nat \<Rightarrow> u64 \<Rightarrow> u64 \<Rightarrow> u64 \<Rightarrow> bool \<Rightarrow> root_status_state" where
  "root_status_note_fault st child label count mr0 mr1 now clock_valid =
     (if \<not> present st child then st
      else
        let obs = (st_observations st ! child)
                    \<lparr>ob_fault_label := (if label \<le> ucast UINT32_MAX then ucast label else 0),
                     ob_fault_flags := fault_word_flags count,
                     ob_fault_mr0 := (if count \<ge> 1 then mr0 else 0),
                     ob_fault_mr1 := (if count \<ge> 2 then mr1 else 0),
                     ob_last_fault_ticks := (if clock_valid then now else 0)\<rparr>;
            obs = (if clock_valid \<and> \<not> ob_down_open obs
                   then obs\<lparr>ob_down_since_ticks := now, ob_down_open := True\<rparr> else obs)
        in st\<lparr>st_observations := (st_observations st)[child := obs]\<rparr>)"

definition root_status_note_restart ::
  "root_status_state \<Rightarrow> nat \<Rightarrow> u64 \<Rightarrow> bool \<Rightarrow> bool \<Rightarrow> root_status_state" where
  "root_status_note_restart st child now clock_valid beam_restart =
     (if \<not> present st child then st
      else
        let obs = (st_observations st ! child)
                    \<lparr>ob_last_restart_ticks := (if clock_valid then now else 0)\<rparr>;
            obs = (if ob_down_open obs then
                     let obs = (if clock_valid \<and> now \<ge> ob_down_since_ticks obs then
                                  let elapsed = now - ob_down_since_ticks obs
                                  in obs\<lparr>ob_cumulative_down_ticks :=
                                          (if elapsed > UINT64_MAX - ob_cumulative_down_ticks obs
                                           then UINT64_MAX
                                           else ob_cumulative_down_ticks obs + elapsed)\<rparr>
                                else obs)
                     in obs\<lparr>ob_down_open := False\<rparr>
                   else obs);
            st = st\<lparr>st_observations := (st_observations st)[child := obs]\<rparr>
        in if beam_restart then
             (if st_beam_incarnation st = UINT64_MAX
              then st\<lparr>st_enabled := False, st_exhausted := True\<rparr>
              else st\<lparr>st_beam_incarnation := st_beam_incarnation st + 1\<rparr>)
           else st)"

definition root_status_note_gone ::
  "root_status_state \<Rightarrow> nat \<Rightarrow> u64 \<Rightarrow> bool \<Rightarrow> root_status_state" where
  "root_status_note_gone st child now clock_valid =
     (if \<not> present st child then st
      else
        let obs = st_observations st ! child;
            obs = (if clock_valid \<and> \<not> ob_down_open obs
                   then obs\<lparr>ob_down_since_ticks := now, ob_down_open := True\<rparr> else obs)
        in st\<lparr>st_observations := (st_observations st)[child := obs]\<rparr>)"

definition root_status_note_policy ::
  "root_status_state \<Rightarrow> u64 \<Rightarrow> u32 \<Rightarrow> u32 list \<Rightarrow> u8 list \<Rightarrow> root_status_state" where
  "root_status_note_policy st generation bank budget desired =
     st\<lparr>st_effective_budget :=
          map (\<lambda>i. if present st i then budget ! i else 0) [0..<chryso_child_count],
        st_desired :=
          map (\<lambda>i. if present st i then desired ! i else desired_unset) [0..<chryso_child_count],
        st_applied_generation := generation, st_applied_bank := bank, st_policy_dirty := True\<rparr>"

section \<open>Publication\<close>

definition set_seq :: "u64 \<Rightarrow> root_status_page \<Rightarrow> root_status_page" where
  "set_seq seq page = page\<lparr>pg_header := (pg_header page)\<lparr>hd_seq := seq\<rparr>\<rparr>"

definition publish_row ::
  "root_status_state \<Rightarrow> nat \<Rightarrow> root_child_record \<Rightarrow> root_child_status \<Rightarrow> root_child_status" where
  "publish_row st child r row =
     (let obs = st_observations st ! child
      in row\<lparr>row_state := (if child_state r = Child_gone then wire_state_gone else wire_state_live),
             row_desired := st_desired st ! child,
             row_flags := ob_fault_flags obs OR
                          (if ob_down_open obs then chryso_down_interval_open else 0),
             row_lifetime_count := lifetime_count r,
             row_effective_budget := st_effective_budget st ! child,
             row_fault_label := ob_fault_label obs,
             row_fault_mr0 := ob_fault_mr0 obs,
             row_fault_mr1 := ob_fault_mr1 obs,
             row_last_fault_ticks := ob_last_fault_ticks obs,
             row_last_restart_ticks := ob_last_restart_ticks obs,
             row_cumulative_down_ticks := ob_cumulative_down_ticks obs,
             row_window_count := window_count r\<rparr>)"

definition publish_policy_rows ::
  "root_status_state \<Rightarrow> root_child_status list \<Rightarrow> root_child_status list" where
  "publish_policy_rows st rows =
     map (\<lambda>i. if present st i
              then (rows ! i)\<lparr>row_effective_budget := st_effective_budget st ! i,
                              row_desired := st_desired st ! i\<rparr>
              else rows ! i) [0..<chryso_child_count]"

fun push_events :: "root_event list \<Rightarrow> u64 \<Rightarrow> root_event list \<Rightarrow> root_event list \<times> u64" where
  "push_events ring head [] = (ring, head)"
| "push_events ring head (e # es) =
     push_events (ring[unat head mod chryso_event_count := e]) (head + 1) es"

definition publish_payload ::
  "root_status_state \<Rightarrow> nat \<Rightarrow> root_child_record option \<Rightarrow> u64 \<Rightarrow> bool \<Rightarrow> root_event list \<Rightarrow>
   root_status_page \<Rightarrow> root_status_state \<times> root_status_page" where
  "publish_payload st child record now clock_valid events page =
     (let rows = (case record of
                    None \<Rightarrow> pg_children page
                  | Some r \<Rightarrow> (pg_children page)
                                [child := publish_row st child r (pg_children page ! child)]);
          hd = pg_header page;
          (rows, hd, st) =
            (if st_policy_dirty st
             then (publish_policy_rows st rows,
                   hd\<lparr>hd_applied_spec_generation := st_applied_generation st,
                      hd_applied_bank := st_applied_bank st\<rparr>,
                   st\<lparr>st_policy_dirty := False\<rparr>)
             else (rows, hd, st));
          (ring, head) = push_events (pg_events page) (st_event_head st) events;
          hd = hd\<lparr>hd_event_head := head,
                  hd_event_dropped := (if head > of_nat chryso_event_count
                                       then head - of_nat chryso_event_count else 0),
                  hd_beam_incarnation := st_beam_incarnation st,
                  hd_now_ticks := (if clock_valid then now else 0),
                  hd_cntfrq := (if clock_valid then st_frequency st else 0)\<rparr>
      in (st\<lparr>st_event_head := head\<rparr>,
          page\<lparr>pg_header := hd, pg_children := rows, pg_events := ring\<rparr>))"

text \<open>A null \<open>events\<close> pointer is \<open>None\<close>; with one, the count is the length of the array.\<close>

definition root_status_publish ::
  "root_status_state \<Rightarrow> root_status_page option \<Rightarrow> nat \<Rightarrow> root_child_record option \<Rightarrow> u64 \<Rightarrow>
   bool \<Rightarrow> root_event list option \<Rightarrow> nat \<Rightarrow> bool \<times> root_status_state \<times> root_status_page option" where
  "root_status_publish st page child record now clock_valid events event_count =
     (case page of
        None \<Rightarrow> (False, st, None)
      | Some pg \<Rightarrow>
          if \<not> st_enabled st then (False, st, page)
          else if event_count > 3 \<or> (event_count \<noteq> 0 \<and> events = None) \<or>
                  (record \<noteq> None \<and> \<not> present st child)
          then (False, st\<lparr>st_enabled := False, st_misused := True\<rparr>, page)
          else if st_seq st > UINT64_MAX - 2 \<or>
                  of_nat event_count > UINT64_MAX - st_event_head st
          then (False, st\<lparr>st_enabled := False, st_exhausted := True\<rparr>, page)
          else
            let evs = take event_count (case events of None \<Rightarrow> [] | Some es \<Rightarrow> es);
                pg = set_seq (st_seq st + 1) pg;
                (st, pg) = publish_payload st child record now clock_valid evs pg;
                pg = set_seq (st_seq st + 2) pg
            in (True, st\<lparr>st_seq := st_seq st + 2\<rparr>, Some pg))"

section \<open>The event ring as a window on a log\<close>

text \<open>The ring holds the last 128 events of everything ever pushed.\<close>

definition ring_holds :: "root_event list \<Rightarrow> root_event list \<Rightarrow> u64 \<Rightarrow> bool" where
  "ring_holds log ring head \<longleftrightarrow>
     length ring = chryso_event_count \<and> unat head = length log \<and>
     (\<forall>i < length log. length log \<le> i + chryso_event_count \<longrightarrow>
        ring ! (i mod chryso_event_count) = log ! i)"

lemma push_events_length [simp]: "length (fst (push_events ring head es)) = length ring"
  by (induction ring head es rule: push_events.induct) simp_all

lemma push_events_head: "snd (push_events ring head es) = head + of_nat (length es)"
  by (induction ring head es rule: push_events.induct) simp_all

lemma window_slots_differ:
  "i < n \<Longrightarrow> n \<le> i + 127 \<Longrightarrow> i mod 128 \<noteq> n mod (128::nat)"
proof
  assume a: "i < n" "n \<le> i + 127" "i mod 128 = n mod 128"
  then have "(n - i) mod 128 = 0" using mod_eq_dvd_iff_nat [of i n 128] by simp
  moreover have "n - i < 128" "n - i \<noteq> 0" using a by auto
  ultimately show False by simp
qed

lemma ring_holds_push1:
  assumes "ring_holds log ring head" "Suc (length log) < 2 ^ 64"
  shows "ring_holds (log @ [e]) (ring[unat head mod chryso_event_count := e]) (head + 1)"
proof -
  have len: "length ring = 128" and h: "unat head = length log"
    using assms(1) by (auto simp: ring_holds_def)
  have h1: "unat (head + 1) = Suc (length log)"
    using unat_inc_fits [of head "Suc (length log)"] assms(2) h by simp
  have "ring[unat head mod 128 := e] ! (i mod 128) = (log @ [e]) ! i"
    if "i < Suc (length log)" "Suc (length log) \<le> i + 128" for i
  proof (cases "i = length log")
    case True
    then show ?thesis using len h by simp
  next
    case False
    then have "i mod 128 \<noteq> unat head mod 128"
      using that window_slots_differ [of i "length log"] h by simp
    then show ?thesis using that False assms(1) by (simp add: ring_holds_def nth_append)
  qed
  then show ?thesis using len h1 by (simp add: ring_holds_def)
qed

lemma ring_holds_push:
  "ring_holds log ring head \<Longrightarrow> length log + length es < 2 ^ 64 \<Longrightarrow>
   push_events ring head es = (ring', head') \<Longrightarrow> ring_holds (log @ es) ring' head'"
proof (induction ring head es arbitrary: log rule: push_events.induct)
  case (2 ring head e es)
  have "ring_holds (log @ [e]) (ring[unat head mod chryso_event_count := e]) (head + 1)"
    using 2(2,3) by (intro ring_holds_push1) auto
  from 2(1) [OF this] 2(3,4) show ?case by simp
qed simp

lemma ring_holds_slot:
  assumes "ring_holds log ring head" "slot < min (unat head) chryso_event_count"
  shows "ring ! slot \<in> set log"
proof -
  let ?n = "length log"
  have h: "unat head = ?n" using assms(1) by (simp add: ring_holds_def)
  have "slot \<in> set (live_slots head)" using assms(2) by (simp add: set_live_slots)
  then obtain k where k: "k < min ?n 128" "slot = (?n - min ?n 128 + k) mod 128"
    by (auto simp: live_slots_def Let_def h)
  then have "ring ! slot = log ! (?n - min ?n 128 + k)"
    using assms(1) by (simp add: ring_holds_def min_def split: if_splits)
  moreover have "?n - min ?n 128 + k < ?n" using k(1) by auto
  ultimately show ?thesis by simp
qed

section \<open>The invariant of the writer and its page\<close>

definition fault_flags_ok :: "u16 \<Rightarrow> bool" where
  "fault_flags_ok f \<longleftrightarrow> f = 0 \<or> f = 1 \<or> f = 3"

definition row_ok :: "root_child_status \<Rightarrow> bool" where
  "row_ok row \<longleftrightarrow>
     (row_state row = wire_state_live \<or> row_state row = wire_state_gone) \<and>
     (row_desired row = desired_running \<or> row_desired row = desired_stopped) \<and>
     row_flags row \<le> 7 \<and> flags_implies (row_flags row) \<and> row_reserved row = 0"

definition event_ok :: "root_status_state \<Rightarrow> root_event \<Rightarrow> bool" where
  "event_ok st e \<longleftrightarrow>
     event_kind_ok e \<and> event_detail_ok event_kind_giveup 4 e \<and>
     event_detail_ok event_kind_control 2 e \<and> event_detail_ok event_kind_spec_reject 8 e \<and>
     ev_flags e \<le> 3 \<and> flags_implies (ev_flags e) \<and>
     (ev_flags e = 0 \<or> ev_kind e = event_kind_fault) \<and>
     (if ev_kind e = event_kind_boot \<or> ev_kind e = event_kind_spec_reject
      then ev_child e = chryso_root_event_no_child else present st (unat (ev_child e)))"

definition status_state_ok :: "root_status_state \<Rightarrow> bool" where
  "status_state_ok st \<longleftrightarrow>
     length (st_observations st) = chryso_child_count \<and>
     length (st_effective_budget st) = chryso_child_count \<and>
     length (st_desired st) = chryso_child_count \<and>
     (\<forall>i < chryso_child_count. fault_flags_ok (ob_fault_flags (st_observations st ! i))) \<and>
     (\<forall>i. present st i \<longrightarrow> st_desired st ! i = desired_running \<or> st_desired st ! i = desired_stopped) \<and>
     st_applied_bank st \<le> 1"

definition status_page_ok :: "root_status_state \<Rightarrow> root_event list \<Rightarrow> root_status_page \<Rightarrow> bool" where
  "status_page_ok st log pg \<longleftrightarrow>
     hd_magic (pg_header pg) = chryso_magic_status \<and>
     hd_abi_version (pg_header pg) = chryso_abi_version \<and>
     hd_child_count (pg_header pg) = of_nat chryso_child_count \<and>
     hd_seq (pg_header pg) = st_seq st \<and> st_seq st \<noteq> 0 \<and> st_seq st AND 1 = 0 \<and>
     hd_event_head (pg_header pg) = st_event_head st \<and>
     hd_event_dropped (pg_header pg) =
       (if st_event_head st > of_nat chryso_event_count
        then st_event_head st - of_nat chryso_event_count else 0) \<and>
     hd_applied_bank (pg_header pg) \<le> 1 \<and> hd_reserved0 (pg_header pg) = 0 \<and>
     length (pg_children pg) = chryso_child_count \<and>
     (\<forall>i < chryso_child_count.
        if present st i then row_ok (pg_children pg ! i) else pg_children pg ! i = row_zero) \<and>
     ring_holds log (pg_events pg) (st_event_head st) \<and> (\<forall>e \<in> set log. event_ok st e) \<and>
     pg_reserved_tail pg = replicate 7240 0"

definition status_ok :: "root_status_state \<Rightarrow> root_event list \<Rightarrow> root_status_page \<Rightarrow> bool" where
  "status_ok st log pg \<longleftrightarrow> status_state_ok st \<and> status_page_ok st log pg"

lemma present_mask [simp]:
  "present st i = (i < chryso_child_count \<and> bit (st_present_mask st) i)"
  using push_bit_and [of i "st_present_mask st"] by (auto simp: present_def)

lemma row_zero_simps [simp]:
  "row_state row_zero = 0" "row_desired row_zero = 0" "row_flags row_zero = 0"
  "row_reserved row_zero = 0"
  by (simp_all add: row_zero_def)

lemma flags_implies_small:
  "flags_implies 0" "flags_implies 1" "flags_implies 3" "flags_implies 4" "flags_implies 5"
  "flags_implies 7"
  by (simp_all add: flags_implies_def)

lemma row_okE:
  assumes "row_ok row"
  shows "row_state row \<le> 4" "row_state row \<noteq> 0" "row_desired row \<le> 2" "row_flags row \<le> 7"
    "flags_implies (row_flags row)" "row_reserved row = 0"
  using assms by (auto simp: row_ok_def)

text \<open>A page in the invariant is one every reader's checker accepts.\<close>

lemma status_page_checks:
  assumes "status_page_ok st log pg"
  shows "check_root_status_page pg = Abi_ok"
proof -
  note a = assms [unfolded status_page_ok_def]
  have len: "length (pg_children pg) = 62" "length (pg_events pg) = 128"
    using a by (auto simp: ring_holds_def)
  have rows: "row \<in> set (pg_children pg) \<Longrightarrow> row_ok row \<or> row = row_zero" for row
    using a len by (auto simp: in_set_conv_nth split: if_splits)
  have rs: "row_state (pg_children pg ! i) \<noteq> 0" if "present st i" for i
    using a that row_okE(2) by auto
  define evs where
    "evs = map (\<lambda>slot. pg_events pg ! slot) (live_slots (hd_event_head (pg_header pg)))"
  have ev: "event_ok st e" if "e \<in> set evs" for e
    using that a evs_def ring_holds_slot [of log "pg_events pg" "st_event_head st"]
    by (auto simp: set_live_slots)
  have ch: "event_child_ok (pg_children pg) e" if "event_ok st e" for e
    using that rs by (auto simp: event_ok_def event_child_ok_def split: if_splits)
  have R: "list_all P (pg_children pg)" if "\<And>row. row_ok row \<Longrightarrow> P row" "P row_zero" for P
    using rows that by (auto simp: list_all_iff)
  have E: "list_all P evs" if "\<And>e. event_ok st e \<Longrightarrow> P e" for P
    using ev that by (auto simp: list_all_iff)
  have r: "list_all (\<lambda>row. row_reserved row = 0) (pg_children pg)"
    "list_all (\<lambda>row. row_state row \<le> 4) (pg_children pg)"
    "list_all (\<lambda>row. row_desired row \<le> 2) (pg_children pg)"
    "list_all (\<lambda>row. row_flags row \<le> 7) (pg_children pg)"
    "list_all (\<lambda>row. flags_implies (row_flags row)) (pg_children pg)"
    "list_all (\<lambda>row. row_state row \<noteq> 0 \<or> row = row_zero) (pg_children pg)"
    by (rule R; simp add: row_okE flags_implies_small)+
  have e: "list_all event_kind_ok evs" "list_all (event_detail_ok event_kind_giveup 4) evs"
    "list_all (event_detail_ok event_kind_control 2) evs"
    "list_all (event_detail_ok event_kind_spec_reject 8) evs"
    "list_all (\<lambda>e. ev_flags e \<le> 3) evs" "list_all (\<lambda>e. flags_implies (ev_flags e)) evs"
    "list_all (\<lambda>e. ev_flags e = 0 \<or> ev_kind e = event_kind_fault) evs"
    by (rule E; simp add: event_ok_def; fail)+
  note e = e E [where P = "event_child_ok (pg_children pg)", OF ch]
  have "hd_seq (pg_header pg) \<noteq> 0 \<and> hd_seq (pg_header pg) AND 1 = 0" using a by simp
  moreover have "length (pg_reserved_tail pg) = 7240" using a by simp
  ultimately show ?thesis
    unfolding check_root_status_page_def root_status_rules_def Let_def evs_def [symmetric]
    using a len by (simp only: first_violation.simps r e if_True if_False simp_thms)
      (simp add: list_all_iff)
qed

section \<open>Every operation keeps the invariant\<close>

lemma fault_word_flags_ok: "fault_flags_ok (fault_word_flags n)"
  by (simp add: fault_word_flags_def fault_flags_ok_def)

lemma note_frame [simp]:
  "st_seq (root_status_note_fault st c l n a b now v) = st_seq st"
  "st_event_head (root_status_note_fault st c l n a b now v) = st_event_head st"
  "st_present_mask (root_status_note_fault st c l n a b now v) = st_present_mask st"
  "st_enabled (root_status_note_fault st c l n a b now v) = st_enabled st"
  "st_seq (root_status_note_restart st c now v br) = st_seq st"
  "st_event_head (root_status_note_restart st c now v br) = st_event_head st"
  "st_present_mask (root_status_note_restart st c now v br) = st_present_mask st"
  "st_seq (root_status_note_gone st c now v) = st_seq st"
  "st_event_head (root_status_note_gone st c now v) = st_event_head st"
  "st_present_mask (root_status_note_gone st c now v) = st_present_mask st"
  "st_enabled (root_status_note_gone st c now v) = st_enabled st"
  "st_seq (root_status_note_policy st g bk bu de) = st_seq st"
  "st_event_head (root_status_note_policy st g bk bu de) = st_event_head st"
  "st_present_mask (root_status_note_policy st g bk bu de) = st_present_mask st"
  "st_enabled (root_status_note_policy st g bk bu de) = st_enabled st"
  by (simp_all add: root_status_note_fault_def root_status_note_restart_def
      root_status_note_gone_def root_status_note_policy_def Let_def)

lemma event_ok_mask: "st_present_mask st' = st_present_mask st \<Longrightarrow> event_ok st' e = event_ok st e"
  by (simp add: event_ok_def)

lemma status_page_ok_same:
  assumes "st_seq st' = st_seq st" "st_event_head st' = st_event_head st"
    "st_present_mask st' = st_present_mask st"
  shows "status_page_ok st' log pg = status_page_ok st log pg"
  using assms by (simp add: status_page_ok_def event_ok_mask [OF assms(3)])

lemma state_ok_obs:
  assumes "status_state_ok st" "fault_flags_ok (ob_fault_flags obs)"
  shows "status_state_ok (st\<lparr>st_observations := (st_observations st)[c := obs]\<rparr>)"
  using assms by (simp add: status_state_ok_def nth_list_update_if)

lemma note_fault_ok [keeps]:
  "status_state_ok st \<Longrightarrow> status_state_ok (root_status_note_fault st c l n a b now v)"
  by (auto simp: root_status_note_fault_def Let_def fault_word_flags_ok simp del: present_mask
      intro!: state_ok_obs)

lemma note_gone_ok [keeps]:
  "status_state_ok st \<Longrightarrow> status_state_ok (root_status_note_gone st c now v)"
  by (auto simp: root_status_note_gone_def Let_def intro!: state_ok_obs)
    (auto simp: status_state_ok_def)

lemma state_ok_flags:
  "status_state_ok st \<Longrightarrow> status_state_ok (st\<lparr>st_enabled := e, st_exhausted := x\<rparr>)"
  "status_state_ok st \<Longrightarrow> status_state_ok (st\<lparr>st_beam_incarnation := i\<rparr>)"
  "status_state_ok st \<Longrightarrow> status_state_ok (st\<lparr>st_enabled := e, st_misused := x\<rparr>)"
  "status_state_ok st \<Longrightarrow> status_state_ok (st\<lparr>st_seq := s\<rparr>)"
  "status_state_ok st \<Longrightarrow> status_state_ok (st\<lparr>st_event_head := h\<rparr>)"
  "status_state_ok st \<Longrightarrow> status_state_ok (st\<lparr>st_policy_dirty := d\<rparr>)"
  by (simp_all add: status_state_ok_def)

lemma obs_flags_nth:
  "status_state_ok st \<Longrightarrow> c < chryso_child_count \<Longrightarrow>
   fault_flags_ok (ob_fault_flags (st_observations st ! c))"
  by (simp add: status_state_ok_def)

lemma note_restart_ok [keeps]:
  "status_state_ok st \<Longrightarrow> status_state_ok (root_status_note_restart st c now v br)"
  using obs_flags_nth [of st c]
  by (auto simp: root_status_note_restart_def Let_def intro!: state_ok_obs state_ok_flags)

lemma note_policy_ok [keeps]:
  assumes "status_state_ok st" "bank \<le> 1"
    "\<And>i. present st i \<Longrightarrow> desired ! i = desired_running \<or> desired ! i = desired_stopped"
  shows "status_state_ok (root_status_note_policy st g bank budget desired)"
  using assms by (auto simp: root_status_note_policy_def status_state_ok_def)

lemma flags_or_open:
  "fault_flags_ok f \<Longrightarrow> f OR (if d then chryso_down_interval_open else 0) \<le> 7 \<and>
   flags_implies (f OR (if d then chryso_down_interval_open else 0))"
  by (auto simp: fault_flags_ok_def flags_implies_def)

lemma publish_row_ok:
  assumes "status_state_ok st" "present st c" "row_ok row"
  shows "row_ok (publish_row st c r row)"
  using assms flags_or_open [of "ob_fault_flags (st_observations st ! c)"
      "ob_down_open (st_observations st ! c)"] obs_flags_nth [of st c]
  by (auto simp: row_ok_def publish_row_def Let_def status_state_ok_def)

lemma publish_payload_ok:
  assumes ok: "status_state_ok st" "status_page_ok st log pg"
    and ev: "\<forall>e \<in> set evs. event_ok st e" and fit: "unat (st_event_head st) + length evs < 2 ^ 64"
    and rec: "record \<noteq> None \<Longrightarrow> present st c"
    and p: "publish_payload st c record now v evs pg = (st', pg')"
  shows "status_state_ok st'" and "status_page_ok st' (log @ evs) pg'"
    and "st_seq st' = st_seq st" and "st_present_mask st' = st_present_mask st"
    and "st_enabled st' = st_enabled st"
proof -
  obtain ring head where pe: "push_events (pg_events pg) (st_event_head st) evs = (ring, head)"
    by (cases "push_events (pg_events pg) (st_event_head st) evs")
  have rh: "ring_holds log (pg_events pg) (st_event_head st)" using ok(2) by (simp add: status_page_ok_def)
  then have "length log + length evs < 2 ^ 64" using fit by (simp add: ring_holds_def)
  from ring_holds_push [OF rh this pe] have rh': "ring_holds (log @ evs) ring head" .
  have bank: "st_applied_bank st \<le> 1" using ok(1) by (simp add: status_state_ok_def)
  define rows where "rows = (case record of None \<Rightarrow> pg_children pg
      | Some r \<Rightarrow> (pg_children pg)[c := publish_row st c r (pg_children pg ! c)])"
  have rows: "length rows = 62"
    "\<And>i. i < 62 \<Longrightarrow> if present st i then row_ok (rows ! i) else rows ! i = row_zero"
    using ok rec publish_row_ok [of st c "pg_children pg ! c"]
    by (auto simp: rows_def status_page_ok_def nth_list_update split: option.splits)
  have prow: "row_ok row \<Longrightarrow> present st i \<Longrightarrow>
      row_ok (row\<lparr>row_effective_budget := b, row_desired := st_desired st ! i\<rparr>)" for row i b
    using ok(1) by (auto simp: row_ok_def status_state_ok_def)
  have rows': "length (publish_policy_rows st rows) = 62"
    "\<And>i. i < 62 \<Longrightarrow> if present st i then row_ok (publish_policy_rows st rows ! i)
      else publish_policy_rows st rows ! i = row_zero"
    using rows prow by (auto simp: publish_policy_rows_def)
  have st': "st' = st\<lparr>st_policy_dirty := False, st_event_head := head\<rparr>"
    using p pe by (cases "st_policy_dirty st") (auto simp: publish_payload_def Let_def)
  have pg': "pg_children pg' = (if st_policy_dirty st then publish_policy_rows st rows else rows)"
    "pg_events pg' = ring" "pg_reserved_tail pg' = pg_reserved_tail pg"
    "hd_magic (pg_header pg') = hd_magic (pg_header pg)"
    "hd_abi_version (pg_header pg') = hd_abi_version (pg_header pg)"
    "hd_child_count (pg_header pg') = hd_child_count (pg_header pg)"
    "hd_seq (pg_header pg') = hd_seq (pg_header pg)" "hd_event_head (pg_header pg') = head"
    "hd_reserved0 (pg_header pg') = hd_reserved0 (pg_header pg)"
    "hd_applied_bank (pg_header pg') =
      (if st_policy_dirty st then st_applied_bank st else hd_applied_bank (pg_header pg))"
    "hd_event_dropped (pg_header pg') = (if head > of_nat chryso_event_count
       then head - of_nat chryso_event_count else 0)"
    using p pe by (cases "st_policy_dirty st"; auto simp: publish_payload_def Let_def rows_def)+
  show "status_state_ok st'" "st_seq st' = st_seq st" and m: "st_present_mask st' = st_present_mask st"
    and "st_enabled st' = st_enabled st"
    using ok(1) by (simp_all add: st' status_state_ok_def)
  have e': "\<forall>e \<in> set (log @ evs). event_ok st' e"
    using ok(2) ev by (auto simp: event_ok_mask [OF m] status_page_ok_def)
  show "status_page_ok st' (log @ evs) pg'"
    using ok(2) e' rh' bank rows rows' unfolding status_page_ok_def pg'
    by (simp add: st')
qed

lemma and_one_plus_two: "(x + 2) AND 1 = (x AND 1)" for x :: u64
  by (simp add: and_one_eq mod_2_eq_odd)

lemma seq_plus_two:
  assumes "\<not> (x > UINT64_MAX - 2)" "x AND 1 = (0::u64)"
  shows "x + 2 \<noteq> 0" "unat (x + 2) = unat x + 2"
proof -
  have "unat x \<le> unat (UINT64_MAX - 2 :: u64)" using assms(1) by (simp add: word_less_nat_alt)
  then have "unat x + 2 < 2 ^ 64" by simp
  then show u: "unat (x + 2) = unat x + 2" by (subst unat_add_fits) simp_all
  then show "x + 2 \<noteq> 0" by (metis add_2_eq_Suc' nat.simps(3) unat_0)
qed

text \<open>What a successful publication is: the payload between an odd and the next even sequence.\<close>

lemma publish_cases:
  assumes "root_status_publish st (Some pg) c rec now v evs n = (b, st', pgo)"
  obtains (refused) "\<not> b" "pgo = Some pg"
      "st' = st \<or> st' = st\<lparr>st_enabled := False, st_exhausted := True\<rparr> \<or>
       st' = st\<lparr>st_enabled := False, st_misused := True\<rparr>"
  | (published) st1 pg1 where "b" "st_enabled st" "n \<le> 3" "rec \<noteq> None \<Longrightarrow> present st c"
      "\<not> st_seq st > UINT64_MAX - 2" "\<not> of_nat n > UINT64_MAX - st_event_head st"
      "publish_payload st c rec now v (take n (case evs of None \<Rightarrow> [] | Some es \<Rightarrow> es))
         (set_seq (st_seq st + 1) pg) = (st1, pg1)"
      "st' = st1\<lparr>st_seq := st_seq st1 + 2\<rparr>" "pgo = Some (set_seq (st_seq st1 + 2) pg1)"
proof (cases b)
  case True
  let ?evs = "take n (case evs of None \<Rightarrow> [] | Some es \<Rightarrow> es)"
  obtain st1 pg1 where pp: "publish_payload st c rec now v ?evs (set_seq (st_seq st + 1) pg) = (st1, pg1)"
    by (cases "publish_payload st c rec now v ?evs (set_seq (st_seq st + 1) pg)")
  have g: "st_enabled st" "\<not> (n > 3 \<or> (n \<noteq> 0 \<and> evs = None) \<or> (rec \<noteq> None \<and> \<not> present st c))"
    "\<not> (st_seq st > UINT64_MAX - 2 \<or> of_nat n > UINT64_MAX - st_event_head st)"
    using assms True by (auto simp: root_status_publish_def Let_def simp del: present_mask split: if_splits)
  have sq: "st_seq st1 = st_seq st"
    using pp by (auto simp: publish_payload_def Let_def split: if_splits prod.splits)
  have "(b, st', pgo) =
      (True, st1\<lparr>st_seq := st_seq st1 + 2\<rparr>, Some (set_seq (st_seq st1 + 2) pg1))"
    unfolding assms [symmetric] root_status_publish_def option.case Let_def pp prod.case
    using g by (simp only: if_False not_True_eq_False sq)
  then have "st' = st1\<lparr>st_seq := st_seq st1 + 2\<rparr>" "pgo = Some (set_seq (st_seq st1 + 2) pg1)"
    by simp_all
  moreover have "rec \<noteq> None \<Longrightarrow> present st c" "n \<le> 3" "\<not> st_seq st > UINT64_MAX - 2"
    "\<not> of_nat n > UINT64_MAX - st_event_head st"
    using g(2,3) by (simp_all only: de_Morgan_disj de_Morgan_conj not_not not_less simp_thms)
  ultimately show ?thesis using g(1) pp published [of st1 pg1] True by blast
next
  case False
  show ?thesis
    by (rule refused [OF False])
      (use assms False in \<open>auto simp: root_status_publish_def Let_def simp del: present_mask
        split: if_splits prod.splits\<close>)
qed

lemma publish_payload_seq:
  "publish_payload st c rec now v evs pg = (st', pg') \<Longrightarrow> st_seq st' = st_seq st"
  by (auto simp: publish_payload_def Let_def split: if_splits prod.splits)

lemma publish_payload_set_seq:
  "publish_payload st c rec now v evs (set_seq s pg) =
   (case publish_payload st c rec now v evs pg of (st', pg') \<Rightarrow> (st', set_seq s pg'))"
  by (cases rec; cases "push_events (pg_events pg) (st_event_head st) evs"; cases "st_policy_dirty st")
    (simp_all add: publish_payload_def Let_def set_seq_def)

lemma set_seq_set_seq [simp]: "set_seq a (set_seq b pg) = set_seq a pg"
  by (simp add: set_seq_def)

lemma set_seq_same [simp]: "hd_seq (pg_header (set_seq a pg)) = a"
  by (simp add: set_seq_def)

lemma set_seq_page_ok:
  assumes "status_page_ok st log pg" "s \<noteq> 0" "s AND 1 = 0"
  shows "status_page_ok (st\<lparr>st_seq := s\<rparr>) log (set_seq s pg)"
  using assms event_ok_mask [of "st\<lparr>st_seq := s\<rparr>" st]
  by (simp add: status_page_ok_def set_seq_def)

lemma event_room:
  assumes "n \<le> 3" "\<not> of_nat n > UINT64_MAX - head"
  shows "unat (head :: u64) + n < 2 ^ 64"
proof -
  have n: "n < 2 ^ LENGTH(64)" using assms(1) by simp
  have "unat (of_nat n :: u64) = n" using n by (simp add: unsigned_of_nat take_bit_nat_eq_self)
  then have "n \<le> unat (UINT64_MAX - head)" using assms(2) by (simp add: word_less_nat_alt)
  also have "\<dots> = unat (UINT64_MAX :: u64) - unat head"
    using unat_u64_lt [of head] by (intro unat_minus_le) simp
  finally show ?thesis using unat_u64_lt [of head] by simp
qed

lemma refused_ok:
  "status_ok st log pg \<Longrightarrow> status_ok (st\<lparr>st_enabled := False, st_exhausted := True\<rparr>) log pg"
  "status_ok st log pg \<Longrightarrow> status_ok (st\<lparr>st_enabled := False, st_misused := True\<rparr>) log pg"
  by (auto simp: status_ok_def state_ok_flags elim!: status_page_ok_same [THEN iffD2, rotated 3])

text \<open>Publication keeps the invariant; the log grows by exactly the published events.\<close>

lemma publish_ok [keeps]:
  assumes ok: "status_ok st log pg"
    and p: "root_status_publish st (Some pg) c rec now v (Some evs) (length evs) = (b, st', pgo)"
    and ev: "\<forall>e \<in> set evs. event_ok st e"
  shows "\<exists>pg'. pgo = Some pg' \<and> status_ok st' (if b then log @ evs else log) pg' \<and>
    st_present_mask st' = st_present_mask st \<and> (\<not> b \<longrightarrow> pg' = pg) \<and>
    (b \<longrightarrow> unat (st_seq st') = unat (st_seq st) + 2)"
  using p
proof (cases rule: publish_cases)
  case refused
  have "status_ok st' log pg \<and> st_present_mask st' = st_present_mask st"
    using refused(3) ok refused_ok by (elim disjE) simp_all
  then show ?thesis using refused(1,2) by simp
next
  case (published st1 pg1)
  obtain pg0 where pl: "publish_payload st c rec now v evs pg = (st1, pg0)" "pg1 = set_seq (st_seq st + 1) pg0"
    using published(7) by (auto simp: publish_payload_set_seq split: prod.splits)
  have fit: "unat (st_event_head st) + length evs < 2 ^ 64"
    by (rule event_room [OF published(3,6)])
  have ok1: "status_state_ok st" "status_page_ok st log pg" using ok by (simp_all only: status_ok_def)
  note pp = publish_payload_ok [OF ok1 ev fit published(4) pl(1)]
  have even: "st_seq st AND 1 = 0" using ok by (simp add: status_ok_def status_page_ok_def)
  have s2: "st_seq st + 2 \<noteq> 0" "unat (st_seq st + 2) = unat (st_seq st) + 2"
    using seq_plus_two [OF published(5) even] by auto
  have "status_page_ok (st1\<lparr>st_seq := st_seq st + 2\<rparr>) (log @ evs) (set_seq (st_seq st + 2) pg0)"
    using set_seq_page_ok [OF pp(2) s2(1)] even by (simp add: and_one_plus_two)
  then have "status_ok st' (log @ evs) (set_seq (st_seq st + 2) pg0)"
    using pp(1) by (simp add: status_ok_def state_ok_flags published(8) pp(3))
  moreover have "pgo = Some (set_seq (st_seq st + 2) pg0)"
    by (simp add: published(9) pp(3) pl(2))
  ultimately show ?thesis
    using published(1) s2(2) by (simp add: published(8) pp(3,4))
qed

section \<open>Initialisation\<close>

lemma status_zero_simps [simp]:
  "st_observations root_status_state_zero = replicate chryso_child_count observation_zero"
  "st_applied_bank root_status_state_zero = 0" "st_seq root_status_state_zero = 0"
  "st_enabled root_status_state_zero = False"
  "ob_fault_flags observation_zero = 0" "ob_cumulative_down_ticks observation_zero = 0"
  "hd_reserved0 header_zero = 0" "hd_applied_bank header_zero = 0" "hd_event_dropped header_zero = 0"
  "pg_reserved_tail (clear_page p) = replicate 7240 0"
  "pg_events (clear_page p) = replicate chryso_event_count event_zero"
  "pg_children (clear_page p) = replicate chryso_child_count row_zero"
  "pg_header (clear_page p) = header_zero\<lparr>hd_seq := hd_seq (pg_header p)\<rparr>"
  by (simp_all add: root_status_state_zero_def observation_zero_def header_zero_def clear_page_def)

text \<open>The page and state \<open>root_status_init\<close> leaves, field by field.\<close>

lemma init_fields:
  assumes "root_status_init (Some pg) pm now freq budget = (st, pgo)"
  defines "stamp \<equiv> if freq \<noteq> 0 then now else 0"
  shows "st_present_mask st = pm" "st_enabled st" "st_seq st = 2" "st_event_head st = 1"
    "st_applied_bank st = 0" "st_root_generation st = 1" "st_beam_incarnation st = 1"
    "st_observations st = map (\<lambda>i. if present st i then observation_zero\<lparr>ob_boot_ticks := stamp\<rparr>
       else observation_zero) [0..<chryso_child_count]"
    "st_desired st = map (\<lambda>i. if present st i then desired_running else desired_unset)
       [0..<chryso_child_count]"
    "st_effective_budget st = map (\<lambda>i. if present st i then budget ! i else 0) [0..<chryso_child_count]"
    "\<exists>pg'. pgo = Some pg' \<and>
       pg_children pg' = map (\<lambda>i. if present st i
         then row_zero\<lparr>row_state := wire_state_live, row_desired := desired_running,
                       row_effective_budget := budget ! i, row_boot_ticks := stamp\<rparr>
         else row_zero) [0..<chryso_child_count] \<and>
       pg_events pg' = (replicate chryso_event_count event_zero)
         [0 := event_zero\<lparr>ev_ticks := stamp, ev_kind := event_kind_boot,
                         ev_child := chryso_root_event_no_child, ev_a := 1, ev_b := 1\<rparr>] \<and>
       pg_reserved_tail pg' = replicate 7240 0 \<and>
       pg_header pg' = header_zero\<lparr>hd_magic := chryso_magic_status, hd_abi_version := 1,
         hd_child_count := 62, hd_seq := 2, hd_root_generation := 1, hd_beam_incarnation := 1,
         hd_now_ticks := stamp, hd_cntfrq := freq, hd_event_head := 1\<rparr>"
  using assms(1) by (auto simp: root_status_init_def Let_def stamp_def)

lemma init_status_ok:
  assumes "root_status_init (Some pg) pm now freq budget = (st, pgo)"
  shows "\<exists>pg' boot. pgo = Some pg' \<and> status_ok st [boot] pg' \<and> ev_kind boot = event_kind_boot \<and>
    hd_root_generation (pg_header pg') = 1 \<and> hd_beam_incarnation (pg_header pg') = 1 \<and>
    (\<forall>i < chryso_child_count. row_cumulative_down_ticks (pg_children pg' ! i) = 0)"
proof -
  note f = init_fields [OF assms]
  obtain pg' where pg': "pgo = Some pg'" and rows: "pg_children pg' = map (\<lambda>i. if present st i
         then row_zero\<lparr>row_state := wire_state_live, row_desired := desired_running,
                       row_effective_budget := budget ! i,
                       row_boot_ticks := (if freq \<noteq> 0 then now else 0)\<rparr>
         else row_zero) [0..<chryso_child_count]"
    and evs: "pg_events pg' = (replicate chryso_event_count event_zero)
         [0 := event_zero\<lparr>ev_ticks := (if freq \<noteq> 0 then now else 0), ev_kind := event_kind_boot,
                         ev_child := chryso_root_event_no_child, ev_a := 1, ev_b := 1\<rparr>]"
    and tl: "pg_reserved_tail pg' = replicate 7240 0"
    and hd: "pg_header pg' = header_zero\<lparr>hd_magic := chryso_magic_status, hd_abi_version := 1,
         hd_child_count := 62, hd_seq := 2, hd_root_generation := 1, hd_beam_incarnation := 1,
         hd_now_ticks := (if freq \<noteq> 0 then now else 0), hd_cntfrq := freq, hd_event_head := 1\<rparr>"
    using f(11) by blast
  define boot where "boot = event_zero\<lparr>ev_ticks := (if freq \<noteq> 0 then now else 0), ev_kind := 1,
      ev_child := 255, ev_a := 1, ev_b := 1\<rparr>"
  have "status_state_ok st"
    unfolding status_state_ok_def f by (simp add: fault_flags_ok_def)
  moreover have "ring_holds [boot] (pg_events pg') 1" by (simp add: ring_holds_def evs boot_def)
  moreover have "event_ok st boot"
    by (simp add: event_ok_def boot_def event_zero_def event_kind_ok_def event_detail_ok_def
        flags_implies_small)
  moreover have "length (pg_children pg') = 62 \<and> (\<forall>i < 62.
      if present st i then row_ok (pg_children pg' ! i) else pg_children pg' ! i = row_zero)"
    by (simp add: rows row_ok_def flags_implies_small)
  ultimately have "status_ok st [boot] pg'"
    unfolding status_ok_def status_page_ok_def by (simp add: hd tl f(3,4))
  moreover have "\<forall>i < 62. row_cumulative_down_ticks (pg_children pg' ! i) = 0"
    by (simp add: rows row_zero_def)
  ultimately show ?thesis
    using pg' by (intro exI [of _ pg'] exI [of _ boot]) (simp add: boot_def hd)
qed

section \<open>What a reader sees over time\<close>

definition page_le :: "root_status_page \<Rightarrow> root_status_page \<Rightarrow> bool" where
  "page_le p q \<longleftrightarrow>
     hd_root_generation (pg_header q) = hd_root_generation (pg_header p) \<and>
     hd_seq (pg_header p) \<le> hd_seq (pg_header q) \<and>
     (hd_seq (pg_header p) = hd_seq (pg_header q) \<longrightarrow> p = q) \<and>
     hd_event_head (pg_header p) \<le> hd_event_head (pg_header q) \<and>
     hd_beam_incarnation (pg_header p) \<le> hd_beam_incarnation (pg_header q) \<and>
     (\<forall>i < chryso_child_count.
        row_lifetime_count (pg_children p ! i) \<le> row_lifetime_count (pg_children q ! i) \<and>
        row_cumulative_down_ticks (pg_children p ! i) \<le>
          row_cumulative_down_ticks (pg_children q ! i))"

lemma page_le_refl [simp]: "page_le p p"
  by (simp add: page_le_def)

lemma page_leD:
  assumes "page_le p q"
  shows "hd_root_generation (pg_header q) = hd_root_generation (pg_header p)"
    and "hd_seq (pg_header p) \<le> hd_seq (pg_header q)"
    and "hd_seq (pg_header p) = hd_seq (pg_header q) \<Longrightarrow> p = q"
    and "hd_event_head (pg_header p) \<le> hd_event_head (pg_header q)"
    and "hd_beam_incarnation (pg_header p) \<le> hd_beam_incarnation (pg_header q)"
    and "i < chryso_child_count \<Longrightarrow>
      row_lifetime_count (pg_children p ! i) \<le> row_lifetime_count (pg_children q ! i)"
    and "i < chryso_child_count \<Longrightarrow>
      row_cumulative_down_ticks (pg_children p ! i) \<le> row_cumulative_down_ticks (pg_children q ! i)"
  using assms by (simp_all add: page_le_def)

lemma page_le_trans:
  assumes pq: "page_le p q" and qr: "page_le q r" shows "page_le p r"
  unfolding page_le_def
proof (intro conjI allI impI)
  assume e: "hd_seq (pg_header p) = hd_seq (pg_header r)"
  have "hd_seq (pg_header p) = hd_seq (pg_header q)"
    by (rule order.antisym [OF page_leD(2) [OF pq]]) (subst e, rule page_leD(2) [OF qr])
  then have "p = q" by (rule page_leD(3) [OF pq])
  moreover from this e have "q = r" by (intro page_leD(3) [OF qr]) simp
  ultimately show "p = r" by (rule trans)
qed (simp add: page_leD(1) [OF pq] page_leD(1) [OF qr],
    (rule order.trans [OF page_leD(2) [OF pq] page_leD(2) [OF qr]]
      order.trans [OF page_leD(4) [OF pq] page_leD(4) [OF qr]]
      order.trans [OF page_leD(5) [OF pq] page_leD(5) [OF qr]]
      order.trans [OF page_leD(6) [OF pq] page_leD(6) [OF qr]]
      order.trans [OF page_leD(7) [OF pq] page_leD(7) [OF qr]]; assumption?)+)

text \<open>The observations never lag behind what was published of them.\<close>

definition ahead :: "root_status_state \<Rightarrow> root_status_page \<Rightarrow> bool" where
  "ahead st pg \<longleftrightarrow>
     hd_beam_incarnation (pg_header pg) \<le> st_beam_incarnation st \<and>
     (\<forall>i < chryso_child_count.
        row_cumulative_down_ticks (pg_children pg ! i) \<le>
          ob_cumulative_down_ticks (st_observations st ! i))"

lemma ahead_obs:
  assumes "ahead st pg" "length (st_observations st) = chryso_child_count"
    "ob_cumulative_down_ticks (st_observations st ! c) \<le> ob_cumulative_down_ticks obs"
    "st_beam_incarnation st \<le> inc"
  shows "ahead (st\<lparr>st_observations := (st_observations st)[c := obs],
    st_beam_incarnation := inc\<rparr>) pg"
  using assms by (auto simp: ahead_def nth_list_update_if)

lemma saturating_le:
  "(c :: u64) \<le> (if e > UINT64_MAX - c then UINT64_MAX else c + e)"
proof (cases "e > UINT64_MAX - c")
  case False
  have "unat e \<le> unat (UINT64_MAX - c)" using False by (simp add: word_less_nat_alt)
  also have "\<dots> = unat (UINT64_MAX :: u64) - unat c"
    using unat_u64_lt [of c] by (intro unat_minus_le) simp
  finally have "unat (c + e) = unat c + unat e"
    using unat_u64_lt [of c] by (intro unat_add_fits) simp
  then show ?thesis using False by (simp add: word_le_nat_alt)
qed (use unat_u64_lt [of c] in \<open>simp add: word_le_nat_alt\<close>)

lemma inc_le: "x \<noteq> UINT64_MAX \<Longrightarrow> x \<le> x + 1" for x :: u64
proof -
  assume "x \<noteq> UINT64_MAX"
  then have "unat x \<noteq> unat (UINT64_MAX :: u64)" by (simp add: word_unat_eq_iff)
  then have "unat x < 18446744073709551615" using unat_u64_lt [of x] by simp
  then have "unat (x + 1) = Suc (unat x)" by (rule unat_inc_fits) simp
  then show ?thesis by (simp add: word_le_nat_alt)
qed

lemma note_fault_obs:
  "root_status_note_fault st c l n a b now v = st \<or>
   (\<exists>obs. root_status_note_fault st c l n a b now v =
      st\<lparr>st_observations := (st_observations st)[c := obs]\<rparr> \<and>
      ob_cumulative_down_ticks obs = ob_cumulative_down_ticks (st_observations st ! c))"
  by (auto simp: root_status_note_fault_def Let_def)

lemma note_gone_obs:
  "root_status_note_gone st c now v = st \<or>
   (\<exists>obs. root_status_note_gone st c now v =
      st\<lparr>st_observations := (st_observations st)[c := obs]\<rparr> \<and>
      ob_cumulative_down_ticks obs = ob_cumulative_down_ticks (st_observations st ! c))"
  by (auto simp: root_status_note_gone_def Let_def)

lemma note_restart_obs:
  "root_status_note_restart st c now v br = st \<or>
   (\<exists>obs inc en ex. root_status_note_restart st c now v br =
      st\<lparr>st_observations := (st_observations st)[c := obs], st_beam_incarnation := inc,
         st_enabled := en, st_exhausted := ex\<rparr> \<and>
      ob_cumulative_down_ticks (st_observations st ! c) \<le> ob_cumulative_down_ticks obs \<and>
      st_beam_incarnation st \<le> inc)"
proof (cases "present st c")
  case True
  define o1 where "o1 = (st_observations st ! c)\<lparr>ob_last_restart_ticks := (if v then now else 0)\<rparr>"
  define o2 where "o2 = (if ob_down_open o1 then
      (if v \<and> now \<ge> ob_down_since_ticks o1
       then o1\<lparr>ob_cumulative_down_ticks :=
         (if now - ob_down_since_ticks o1 > UINT64_MAX - ob_cumulative_down_ticks o1
          then UINT64_MAX else ob_cumulative_down_ticks o1 + (now - ob_down_since_ticks o1))\<rparr>
       else o1)\<lparr>ob_down_open := False\<rparr> else o1)"
  have le: "ob_cumulative_down_ticks (st_observations st ! c) \<le> ob_cumulative_down_ticks o2"
    using saturating_le [of "ob_cumulative_down_ticks (st_observations st ! c)"
        "now - ob_down_since_ticks (st_observations st ! c)"]
    by (auto simp: o2_def o1_def split: if_splits)
  note inc = inc_le [of "st_beam_incarnation st"]
  define out where "out = root_status_note_restart st c now v br"
  have out: "out = (let s = st\<lparr>st_observations := (st_observations st)[c := o2]\<rparr>
      in if br then (if st_beam_incarnation st = UINT64_MAX
                     then s\<lparr>st_enabled := False, st_exhausted := True\<rparr>
                     else s\<lparr>st_beam_incarnation := st_beam_incarnation st + 1\<rparr>) else s)"
    unfolding out_def root_status_note_restart_def o2_def o1_def Let_def using True by simp
  have "out = st\<lparr>st_observations := (st_observations st)[c := o2],
      st_beam_incarnation := st_beam_incarnation out, st_enabled := st_enabled out,
      st_exhausted := st_exhausted out\<rparr>"
    by (simp add: out Let_def)
  moreover have "st_beam_incarnation st \<le> st_beam_incarnation out"
    using inc by (simp add: out Let_def)
  ultimately show ?thesis unfolding out_def [symmetric] using le by blast
next
  case False
  then show ?thesis by (simp only: root_status_note_restart_def if_True not_False_eq_True) simp
qed

lemma publish_payload_rows:
  assumes "publish_payload st c rec now v evs pg = (st', pg')"
    "length (pg_children pg) = chryso_child_count" "i < chryso_child_count"
  shows "row_lifetime_count (pg_children pg' ! i) =
      (if rec \<noteq> None \<and> i = c then lifetime_count (the rec)
       else row_lifetime_count (pg_children pg ! i)) \<and>
    row_cumulative_down_ticks (pg_children pg' ! i) =
      (if rec \<noteq> None \<and> i = c then ob_cumulative_down_ticks (st_observations st ! c)
       else row_cumulative_down_ticks (pg_children pg ! i))"
  using assms
  by (cases rec; cases "st_policy_dirty st")
    (auto simp: publish_payload_def Let_def publish_policy_rows_def publish_row_def
      nth_list_update_if split: prod.splits)

lemma publish_payload_header:
  assumes "publish_payload st c rec now v evs pg = (st', pg')"
  shows "hd_beam_incarnation (pg_header pg') = st_beam_incarnation st"
    "hd_root_generation (pg_header pg') = hd_root_generation (pg_header pg)"
    "hd_event_head (pg_header pg') = st_event_head st + of_nat (length evs)"
    "st_observations st' = st_observations st" "st_beam_incarnation st' = st_beam_incarnation st"
  using assms push_events_head [of "pg_events pg" "st_event_head st" evs]
  by (cases "st_policy_dirty st"; auto simp: publish_payload_def Let_def split: prod.splits)+

lemma event_head_grows:
  assumes "n \<le> 3" "\<not> of_nat n > UINT64_MAX - head"
  shows "(head :: u64) \<le> head + of_nat n"
proof -
  have "unat (of_nat n :: u64) = n"
    using assms(1) by (simp add: unsigned_of_nat take_bit_nat_eq_self)
  then have "unat (head + of_nat n) = unat head + n"
    using event_room [OF assms] by (subst unat_add_fits) simp_all
  then show ?thesis by (simp add: word_le_nat_alt)
qed

lemma publish_page_le:
  assumes ok: "status_ok st log pg" and ah: "ahead st pg"
    and p: "root_status_publish st (Some pg) c rec now v (Some evs) (length evs) = (b, st', Some pg')"
    and life: "\<And>r. rec = Some r \<Longrightarrow> row_lifetime_count (pg_children pg ! c) \<le> lifetime_count r"
  shows "page_le pg pg' \<and> ahead st' pg'"
  using p
proof (cases rule: publish_cases)
  case refused
  then show ?thesis using ah by (auto simp: ahead_def)
next
  case (published st1 pg1)
  obtain pg0 where pl: "publish_payload st c rec now v evs pg = (st1, pg0)"
      "pg1 = set_seq (st_seq st + 1) pg0"
    using published(7) by (auto simp: publish_payload_set_seq split: prod.splits)
  have pok: "status_page_ok st log pg" using ok by (simp only: status_ok_def)
  then have len: "length (pg_children pg) = 62" and sq: "hd_seq (pg_header pg) = st_seq st"
    and hh: "hd_event_head (pg_header pg) = st_event_head st" and even: "st_seq st AND 1 = 0"
    by (simp_all add: status_page_ok_def)
  have pg': "pg' = set_seq (st_seq st + 2) pg0"
    using published(9) pl publish_payload_seq [OF pl(1)] by simp
  note rows = publish_payload_rows [OF pl(1) len]
  note hd = publish_payload_header [OF pl(1)]
  have u2: "unat (st_seq st + 2) = unat (st_seq st) + 2"
    using seq_plus_two(2) [OF published(5) even] .
  then have lt: "st_seq st < st_seq st + 2" by (simp add: word_less_nat_alt)
  have "page_le pg pg'"
    unfolding page_le_def
    using lt sq hh hd rows ah life event_head_grows [OF published(3,6)]
    by (auto simp: pg' set_seq_def ahead_def)
  moreover have "ahead st' pg'"
    using rows hd ah by (auto simp: ahead_def published(8) pg' set_seq_def)
  ultimately show ?thesis ..
qed

text \<open>One use of the writer's interface by Root, on its state, the events it has published, and
  the page.\<close>

inductive status_init :: "root_status_state \<times> root_event list \<times> root_status_page \<Rightarrow> bool" where
  "root_status_init (Some pg0) pm now freq budget = (st, Some pg) \<Longrightarrow>
   status_init (st, [pg_events pg ! 0], pg)"

inductive status_step ::
  "root_status_state \<times> root_event list \<times> root_status_page \<Rightarrow>
   root_status_state \<times> root_event list \<times> root_status_page \<Rightarrow> bool" where
  step_fault: "status_step (st, log, pg) (root_status_note_fault st c l n a b now v, log, pg)"
| step_restart: "status_step (st, log, pg) (root_status_note_restart st c now v br, log, pg)"
| step_gone: "status_step (st, log, pg) (root_status_note_gone st c now v, log, pg)"
| step_policy: "bank \<le> 1 \<Longrightarrow>
    (\<And>i. present st i \<Longrightarrow> desired ! i = desired_running \<or> desired ! i = desired_stopped) \<Longrightarrow>
    status_step (st, log, pg) (root_status_note_policy st g bank budget desired, log, pg)"
| step_publish: "(\<And>r. rec = Some r \<Longrightarrow> row_lifetime_count (pg_children pg ! c) \<le> lifetime_count r) \<Longrightarrow>
    (\<forall>e \<in> set evs. event_ok st e) \<Longrightarrow>
    root_status_publish st (Some pg) c rec now v (Some evs) (length evs) = (b, st', Some pg') \<Longrightarrow>
    status_step (st, log, pg) (st', if b then log @ evs else log, pg')"

definition status_inv :: "root_status_state \<times> root_event list \<times> root_status_page \<Rightarrow> bool" where
  "status_inv c \<longleftrightarrow> (case c of (st, log, pg) \<Rightarrow> status_ok st log pg \<and> ahead st pg)"

lemma status_ok_note:
  "status_ok st log pg \<Longrightarrow> status_state_ok st' \<Longrightarrow> st_seq st' = st_seq st \<Longrightarrow>
   st_event_head st' = st_event_head st \<Longrightarrow> st_present_mask st' = st_present_mask st \<Longrightarrow>
   status_ok st' log pg"
  using status_page_ok_same [of st' st log pg] by (simp only: status_ok_def)

lemma ahead_note:
  assumes "ahead st pg" "length (st_observations st) = chryso_child_count"
    "st' = st \<or> (\<exists>obs inc en ex. st' = st\<lparr>st_observations := (st_observations st)[c := obs],
         st_beam_incarnation := inc, st_enabled := en, st_exhausted := ex\<rparr> \<and>
       ob_cumulative_down_ticks (st_observations st ! c) \<le> ob_cumulative_down_ticks obs \<and>
       st_beam_incarnation st \<le> inc)"
  shows "ahead st' pg"
  using assms(3)
proof (elim disjE exE conjE)
  fix obs inc en ex
  assume a: "st' = st\<lparr>st_observations := (st_observations st)[c := obs],
         st_beam_incarnation := inc, st_enabled := en, st_exhausted := ex\<rparr>"
    "ob_cumulative_down_ticks (st_observations st ! c) \<le> ob_cumulative_down_ticks obs"
    "st_beam_incarnation st \<le> inc"
  show ?thesis using ahead_obs [OF assms(1,2) a(2,3)] by (simp add: a(1) ahead_def)
qed (use assms(1) in simp)

lemma status_step_inv:
  "status_step c d \<Longrightarrow> status_inv c \<Longrightarrow> status_inv d \<and> page_le (snd (snd c)) (snd (snd d))"
proof (induction rule: status_step.induct)
  case (step_fault st log pg c l n a b now v)
  then have ok: "status_ok st log pg" "status_state_ok st" and ah: "ahead st pg"
    and len: "length (st_observations st) = 62"
    by (simp_all add: status_inv_def status_ok_def status_state_ok_def)
  have "ahead (root_status_note_fault st c l n a b now v) pg"
    using note_fault_obs [of st c l n a b now v] ah ahead_obs [OF ah len, of c _ "st_beam_incarnation st"]
    by (auto simp: ahead_def)
  then show ?case
    using status_ok_note [OF ok(1) note_fault_ok [OF ok(2)]] by (simp add: status_inv_def)
next
  case (step_restart st log pg c now v br)
  then have ok: "status_ok st log pg" "status_state_ok st" and ah: "ahead st pg"
    and len: "length (st_observations st) = 62"
    by (simp_all add: status_inv_def status_ok_def status_state_ok_def)
  have "ahead (root_status_note_restart st c now v br) pg"
    by (rule ahead_note [OF ah len note_restart_obs])
  then show ?case
    using status_ok_note [OF ok(1) note_restart_ok [OF ok(2)]] by (simp add: status_inv_def)
next
  case (step_gone st log pg c now v)
  then have ok: "status_ok st log pg" "status_state_ok st" and ah: "ahead st pg"
    and len: "length (st_observations st) = 62"
    by (simp_all add: status_inv_def status_ok_def status_state_ok_def)
  have "ahead (root_status_note_gone st c now v) pg"
    using note_gone_obs [of st c now v] ah ahead_obs [OF ah len, of c _ "st_beam_incarnation st"]
    by (auto simp: ahead_def)
  then show ?case
    using status_ok_note [OF ok(1) note_gone_ok [OF ok(2)]] by (simp add: status_inv_def)
next
  case (step_policy bank st desired log pg g budget)
  then have ok: "status_ok st log pg" "status_state_ok st" and ah: "ahead st pg"
    by (simp_all add: status_inv_def status_ok_def)
  have "ahead (root_status_note_policy st g bank budget desired) pg"
    using ah by (simp add: ahead_def root_status_note_policy_def)
  then show ?case
    using status_ok_note [OF ok(1) note_policy_ok [OF ok(2) step_policy(1,2)]]
    by (simp add: status_inv_def)
next
  case (step_publish rec pg c evs st now v b st' pg' log)
  then have ok: "status_ok st log pg" and ah: "ahead st pg" by (simp_all add: status_inv_def)
  from publish_ok [OF ok step_publish(3,2)] publish_page_le [OF ok ah step_publish(3,1)]
  show ?case by (auto simp: status_inv_def)
qed

lemma status_init_inv: "status_init c \<Longrightarrow> status_inv c"
proof (induction rule: status_init.induct)
  case (1 pg0 pm now freq budget st pg)
  from init_status_ok [OF 1] obtain boot where
    b: "status_ok st [boot] pg" "hd_beam_incarnation (pg_header pg) = 1"
    "\<forall>i < 62. row_cumulative_down_ticks (pg_children pg ! i) = 0"
    by auto
  have "ring_holds [boot] (pg_events pg) (st_event_head st)"
    using b(1) by (simp add: status_ok_def status_page_ok_def)
  then have "pg_events pg ! 0 = boot" by (auto simp: ring_holds_def)
  moreover have "ahead st pg"
    using b init_fields(7) [OF 1] by (simp add: ahead_def)
  ultimately show ?case using b(1) by (simp add: status_inv_def)
qed

lemma status_steps_inv:
  "status_step\<^sup>*\<^sup>* c d \<Longrightarrow> status_inv c \<Longrightarrow> status_inv d \<and> page_le (snd (snd c)) (snd (snd d))"
proof (induction rule: rtranclp_induct)
  case (step d e)
  then show ?case using status_step_inv [of d e] page_le_trans by blast
qed simp

lemma disabled_step:
  "status_step c d \<Longrightarrow> \<not> st_enabled (fst c) \<Longrightarrow> \<not> st_enabled (fst d) \<and> snd (snd d) = snd (snd c)"
proof (induction rule: status_step.induct)
  case (step_restart st log pg c now v br)
  then show ?case by (simp add: root_status_note_restart_def Let_def)
next
  case (step_publish rec pg c evs st now v b st' pg' log)
  then show ?case by (simp add: root_status_publish_def)
qed simp_all

lemma disabled_steps:
  "status_step\<^sup>*\<^sup>* c d \<Longrightarrow> \<not> st_enabled (fst c) \<Longrightarrow> snd (snd d) = snd (snd c)"
proof -
  assume "status_step\<^sup>*\<^sup>* c d" "\<not> st_enabled (fst c)"
  then have "\<not> st_enabled (fst d) \<and> snd (snd d) = snd (snd c)"
    by (induction rule: rtranclp_induct) (use disabled_step in auto)
  then show ?thesis ..
qed

lemma note_fault_again:
  assumes "present st c" "length (st_observations st) = chryso_child_count"
    "ob_down_open (st_observations st ! c)"
  shows "ob_down_open (st_observations (root_status_note_fault st c l n a b t v) ! c)"
    "ob_down_since_ticks (st_observations (root_status_note_fault st c l n a b t v) ! c) =
      ob_down_since_ticks (st_observations st ! c)"
    "ob_cumulative_down_ticks (st_observations (root_status_note_fault st c l n a b t v) ! c) =
      ob_cumulative_down_ticks (st_observations st ! c)"
    "length (st_observations (root_status_note_fault st c l n a b t v)) = chryso_child_count"
    "present (root_status_note_fault st c l n a b t v) c"
  using assms by (simp_all add: root_status_note_fault_def Let_def)

lemma note_faults_again:
  fixes c :: nat
  defines "again \<equiv> \<lambda>(l, n, a, b, t, v) st. root_status_note_fault st c l n a b t v"
  assumes "present st c" "length (st_observations st) = chryso_child_count"
    "ob_down_open (st_observations st ! c)"
  shows "ob_down_open (st_observations (fold again faults st) ! c) \<and>
    ob_down_since_ticks (st_observations (fold again faults st) ! c) =
      ob_down_since_ticks (st_observations st ! c) \<and>
    ob_cumulative_down_ticks (st_observations (fold again faults st) ! c) =
      ob_cumulative_down_ticks (st_observations st ! c) \<and>
    length (st_observations (fold again faults st)) = chryso_child_count \<and>
    present (fold again faults st) c"
  using assms(2-)
proof (induction faults arbitrary: st)
  case (Cons f faults)
  obtain l n a b t v where f: "f = (l, n, a, b, t, v)" by (metis prod_cases6)
  from note_fault_again [OF Cons.prems, of l n a b t v]
    Cons.IH [of "root_status_note_fault st c l n a b t v"]
  show ?case by (simp add: f again_def del: present_mask)
qed simp

section \<open>Properties\<close>


definition sample_status :: "root_status_state \<times> root_status_page option" where
  "sample_status =
     root_status_init
       (Some \<lparr>pg_header = header_zero, pg_children = [], pg_events = [], pg_reserved_tail = []\<rparr>)
       3 7 1000 (replicate chryso_child_count 8)"

lemma sample_status_some: "\<exists>pg. snd sample_status = Some pg"
  by (simp add: sample_status_def root_status_init_def Let_def)


text \<open>
  A refused publication changes nothing a reader can see and is final: when
  \<open>root_status_publish\<close> fails on a mapped page, the page, the sequence and the event head are
  as they were and publication is off, and whatever Root does afterwards the page stays as it
  is.
\<close>

theorem root_status_refusal_final:
  assumes "root_status_publish st (Some pg) c rec now v evs n = (False, st', pgo)"
  shows "pgo = Some pg \<and> st_seq st' = st_seq st \<and> st_event_head st' = st_event_head st \<and>
    \<not> st_enabled st' \<and>
    (\<forall>log st2 log2 pg2. status_step\<^sup>*\<^sup>* (st', log, pg) (st2, log2, pg2) \<longrightarrow> pg2 = pg)"
proof -
  have en: "\<not> st_enabled st'"
    using assms by (auto simp: root_status_publish_def Let_def split: if_splits prod.splits)
  have "pgo = Some pg \<and> st_seq st' = st_seq st \<and> st_event_head st' = st_event_head st"
    using assms by (cases rule: publish_cases) auto
  then show ?thesis using en disabled_steps [of "(st', _, pg)"] by fastforce
qed

theorem root_status_refusal_final_witness:
  "snd (snd (root_status_publish (fst sample_status) (snd sample_status) 40 (Some root_child_record_zero)
     9 True None 0)) = snd sample_status"
proof -
  obtain pg where pg: "snd sample_status = Some pg" using sample_status_some ..
  have m: "st_present_mask (fst sample_status) = 3" "st_enabled (fst sample_status)"
    by (simp_all add: sample_status_def root_status_init_def Let_def)
  have "root_status_publish (fst sample_status) (Some pg) 40 (Some root_child_record_zero) 9 True None 0
      = (False, (fst sample_status)\<lparr>st_enabled := False, st_misused := True\<rparr>, Some pg)"
    by (simp add: root_status_publish_def m bit_numeral_rec)
  from root_status_refusal_final [OF this] show ?thesis
    by (simp add: pg root_status_publish_def m bit_numeral_rec)
qed

text \<open>
  Down time is exact: from the fault that takes a child down to the restart that brings it
  back, with any number of further faults reported in between, the published down time grows by
  the time between the two, saturating at the maximum, and the interval is closed.
\<close>

theorem root_status_down_time:
  fixes faults :: "(u64 \<times> nat \<times> u64 \<times> u64 \<times> u64 \<times> bool) list" and l a b :: u64 and n :: nat
  assumes "present st c" "length (st_observations st) = chryso_child_count"
    "\<not> ob_down_open (st_observations st ! c)" "t1 \<le> t2"
  defines "again \<equiv> \<lambda>(l, n, a, b, t, v) st. root_status_note_fault st c l n a b t v"
  defines "st1 \<equiv> fold again faults (root_status_note_fault st c l n a b t1 True)"
  shows "let obs = st_observations (root_status_note_restart st1 c t2 True br) ! c
    in \<not> ob_down_open obs \<and> ob_last_restart_ticks obs = t2 \<and>
       unat (ob_cumulative_down_ticks obs) =
         min (2 ^ 64 - 1)
           (unat (ob_cumulative_down_ticks (st_observations st ! c)) + (unat t2 - unat t1))"
proof -
  let ?s = "root_status_note_fault st c l n a b t1 True"
  let ?cum = "ob_cumulative_down_ticks (st_observations st ! c)"
  have s: "present ?s c" "length (st_observations ?s) = 62" "ob_down_open (st_observations ?s ! c)"
    "ob_down_since_ticks (st_observations ?s ! c) = t1"
    "ob_cumulative_down_ticks (st_observations ?s ! c) = ?cum"
    using assms(1-3) by (simp_all add: root_status_note_fault_def Let_def)
  have st1: "present st1 c" "length (st_observations st1) = 62" "ob_down_open (st_observations st1 ! c)"
    "ob_down_since_ticks (st_observations st1 ! c) = t1"
    "ob_cumulative_down_ticks (st_observations st1 ! c) = ?cum"
    using note_faults_again [OF s(1-3), of faults] s(4,5) by (simp_all add: st1_def again_def)
  have sub: "unat (t2 - t1) = unat t2 - unat t1" using assms(4) by (simp add: wordpos)
  have room: "unat (UINT64_MAX - ?cum) = 18446744073709551615 - unat ?cum"
    using unat_u64_lt [of ?cum] by (subst unat_minus_le) simp_all
  have add: "\<not> t2 - t1 > UINT64_MAX - ?cum \<Longrightarrow>
      unat (?cum + (t2 - t1)) = unat ?cum + (unat t2 - unat t1)"
    using sub room unat_u64_lt [of ?cum] by (subst unat_add_fits) (auto simp: word_less_nat_alt)
  show ?thesis
    using st1 assms(4) add sub room unat_u64_lt [of ?cum]
    by (auto simp: root_status_note_restart_def Let_def word_less_nat_alt)
qed

theorem root_status_down_time_witness:
  "unat (ob_cumulative_down_ticks (st_observations
     (root_status_note_restart (root_status_note_fault (fst sample_status) 1 5 2 0 0 100 True)
       1 130 True False) ! 1)) = 30"
proof -
  have p: "present (fst sample_status) 1" "length (st_observations (fst sample_status)) = 62"
    "\<not> ob_down_open (st_observations (fst sample_status) ! 1)"
    "ob_cumulative_down_ticks (st_observations (fst sample_status) ! 1) = 0"
    by (simp_all add: sample_status_def root_status_init_def Let_def bit_numeral_rec
        root_status_state_zero_def observation_zero_def)
  show ?thesis
    using root_status_down_time [OF p(1-3), of 100 130 "[]" 5 2 0 0 False] p(4)
    by (simp add: Let_def)
qed

end
