(* ===== verification/Root_Main.thy ===== *)
theory Root_Main
  imports Root_Command Restart_Plan Root_Status
begin

text \<open>
  The Root protection domain's entry points: \<open>src/src/pd/root/main.c\<close>.

  What the kernel and the image give Root is \<open>root_env\<close>: the three words of \<open>.restart_config\<close>,
  the two region addresses the Microkit tool patches, the wired notification channels, the
  counter's frequency and the values successive reads of the counter return, and whether this is
  the \<open>ROOT_TEST_BUDGET\<close> build.  \<open>root_state\<close> holds Root's static variables, how many counter reads
  it has made, and the calls it has made that others can observe, oldest first.
\<close>

section \<open>Constants\<close>

abbreviation (input) root_max_children :: nat where "root_max_children \<equiv> 62"
abbreviation (input) root_child_serial :: u32 where "root_child_serial \<equiv> 0"
abbreviation (input) root_child_timer :: u32 where "root_child_timer \<equiv> 1"
abbreviation (input) root_child_blk :: u32 where "root_child_blk \<equiv> 2"
abbreviation (input) root_child_eth :: u32 where "root_child_eth \<equiv> 3"
abbreviation (input) root_child_crasher :: u32 where "root_child_crasher \<equiv> 4"
abbreviation (input) root_child_beam :: u32 where "root_child_beam \<equiv> 5"
abbreviation (input) root_gone_ch_blk :: u32 where "root_gone_ch_blk \<equiv> 10"
abbreviation (input) root_gone_ch_beam :: u32 where "root_gone_ch_beam \<equiv> 12"
abbreviation (input) root_gone_ch_none :: u32 where "root_gone_ch_none \<equiv> 255"
abbreviation (input) root_driver_budget :: u32 where "root_driver_budget \<equiv> 8"
abbreviation (input) root_beam_budget :: u32 where "root_beam_budget \<equiv> 64"
abbreviation (input) root_clock_min_hz :: u64 where "root_clock_min_hz \<equiv> 1000000"
abbreviation (input) root_clock_max_hz :: u64 where "root_clock_max_hz \<equiv> 1000000000"
abbreviation (input) control_hard_budget_max :: u32 where "control_hard_budget_max \<equiv> 64"
abbreviation (input) control_status_root_vaddr :: u64 where "control_status_root_vaddr \<equiv> 0x40000000"
abbreviation (input) control_spec_root_vaddr :: u64 where "control_spec_root_vaddr \<equiv> 0x40004000"
abbreviation (input) control_pp_channel_root :: u32 where "control_pp_channel_root \<equiv> 11"
abbreviation (input) control_command_rate_tokens :: u32 where "control_command_rate_tokens \<equiv> 32"
abbreviation (input) control_command_rate_refill_ms :: u64 where "control_command_rate_refill_ms \<equiv> 1000"
abbreviation (input) root_test_leak_ms :: u64 where "root_test_leak_ms \<equiv> 2000"
abbreviation (input) root_test_window_capacity :: u32 where "root_test_window_capacity \<equiv> 1"
abbreviation (input) root_test_lifetime_limit :: u32 where "root_test_lifetime_limit \<equiv> 3"

definition root_known_children :: u64 where
  "root_known_children =
     push_bit (unat root_child_serial) 1 OR push_bit (unat root_child_timer) 1 OR
     push_bit (unat root_child_blk) 1 OR push_bit (unat root_child_eth) 1 OR
     push_bit (unat root_child_crasher) 1 OR push_bit (unat root_child_beam) 1"

definition root_base_children :: u64 where
  "root_base_children = root_known_children AND NOT (push_bit (unat root_child_crasher) 1)"

definition root_driver_children :: u64 where
  "root_driver_children =
     push_bit (unat root_child_serial) 1 OR push_bit (unat root_child_timer) 1 OR
     push_bit (unat root_child_blk) 1 OR push_bit (unat root_child_eth) 1"

definition root_channels :: root_channel_layout where
  "root_channels = \<lparr>debug_first = 0, fault_first = 4, group_count = 4\<rparr>"

definition root_class_child :: "root_child list" where
  "root_class_child =
     [Root_child root_child_serial, Root_child root_child_timer, Root_child root_child_blk,
      Root_child root_child_eth]"

section \<open>Environment, effects and state\<close>

record root_env =
  env_restart_entry :: u64
  env_beam_reset_entry :: u64
  env_present_children_mask :: u64
  env_status_start :: u64
  env_spec_view :: u64
  env_notifications :: u64
  env_frequency :: u64
  env_counter :: "nat \<Rightarrow> u64"
  env_test_budget :: bool

datatype root_effect =
    Pd_restart u32 u64
  | Pd_stop u32
  | Notify u32
  | Puts string

record root_state =
  rs_records :: "root_child_record list"
  rs_clock :: root_clock
  rs_command :: root_command_state
  rs_status :: root_status_state
  rs_status_page :: "root_status_page option"
  rs_spec :: root_spec_state
  rs_spec_mapped :: bool
  rs_test_budget :: root_budget_policy
  rs_reads :: nat
  rs_trace :: "root_effect list"

definition emit :: "root_effect \<Rightarrow> root_state \<Rightarrow> root_state" where
  "emit e s = s\<lparr>rs_trace := rs_trace s @ [e]\<rparr>"

definition puts :: "string \<Rightarrow> root_state \<Rightarrow> root_state" where
  "puts t = emit (Puts t)"

section \<open>Presence, channels, budgets, entries\<close>

definition root_presence_valid :: "root_env \<Rightarrow> bool" where
  "root_presence_valid env \<longleftrightarrow>
     (let patched = env_present_children_mask env
      in patched AND root_base_children = root_base_children \<and>
         patched AND NOT root_known_children = 0)"

definition root_present_children :: "root_env \<Rightarrow> u64" where
  "root_present_children env =
     (if \<not> root_presence_valid env then root_base_children else env_present_children_mask env)"

definition root_gone_channel :: "root_child \<Rightarrow> root_channel" where
  "root_gone_channel child =
     (if child_value child = root_child_blk then Root_channel root_gone_ch_blk
      else if child_value child = root_child_beam then Root_channel root_gone_ch_beam
      else Root_channel root_gone_ch_none)"

definition root_restart_budget :: "root_child \<Rightarrow> u32" where
  "root_restart_budget child =
     (if child_value child = root_child_beam then root_beam_budget else root_driver_budget)"

definition root_restart_entry :: "root_env \<Rightarrow> root_child \<Rightarrow> u64" where
  "root_restart_entry env child =
     (if child_value child = root_child_beam then env_beam_reset_entry env
      else env_restart_entry env)"

section \<open>The counter\<close>

definition root_now_ticks :: "root_env \<Rightarrow> root_state \<Rightarrow> u64 \<times> root_state" where
  "root_now_ticks env s = (env_counter env (rs_reads s), s\<lparr>rs_reads := Suc (rs_reads s)\<rparr>)"

definition root_status_ticks :: "root_env \<Rightarrow> root_state \<Rightarrow> u64 \<times> root_state" where
  "root_status_ticks env s =
     (if clock_available (rs_clock s) then root_now_ticks env s else (0, s))"

section \<open>Inputs of the restart plan and of the status page\<close>

definition root_restart_inputs_for :: "root_env \<Rightarrow> root_state \<Rightarrow> root_child \<Rightarrow> root_restart_inputs" where
  "root_restart_inputs_for env s child =
     \<lparr>in_child = child_value child, in_compiled = root_restart_budget child,
      in_hard_max = control_hard_budget_max, in_entry = root_restart_entry env child,
      in_timed = (if env_test_budget env
                  then \<lparr>timed_enabled = True, timed_policy = rs_test_budget s,
                        timed_lifetime_limit = root_test_lifetime_limit\<rparr>
                  else \<lparr>timed_enabled = False,
                        timed_policy = \<lparr>capacity = 0, lifetime_limit = 0, leak_interval_ticks = 0\<rparr>,
                        timed_lifetime_limit = 0\<rparr>),
      in_clock_available = clock_available (rs_clock s), in_now_ticks = last_ticks (rs_clock s)\<rparr>"

definition root_status_budget :: "root_env \<Rightarrow> root_state \<Rightarrow> root_child \<Rightarrow> u32" where
  "root_status_budget env s child =
     root_restart_ceiling (rs_spec s) (root_restart_inputs_for env s child)"

definition root_status_policy :: "root_env \<Rightarrow> root_state \<Rightarrow> u32 list \<times> u8 list" where
  "root_status_policy env s =
     (map (\<lambda>i. root_status_budget env s (Root_child (of_nat i))) [0..<chryso_child_count],
      map (\<lambda>i. root_spec_desired (rs_spec s) (of_nat i) 0) [0..<chryso_child_count])"

text \<open>The values of \<open>chryso_root_giveup_reason\<close>.\<close>

fun root_status_giveup :: "root_restart_action \<Rightarrow> u32" where
  "root_status_giveup Giveup_budget_exhausted = 1"
| "root_status_giveup Giveup_window_exhausted = 2"
| "root_status_giveup Giveup_lifetime_exhausted = 3"
| "root_status_giveup Giveup_no_entry = 4"
| "root_status_giveup Restart_resume = 0"
| "root_status_giveup Restart_ignore_gone = 0"

definition root_status_outcome :: "root_state \<Rightarrow> root_child \<Rightarrow> root_restart_action \<Rightarrow> root_event" where
  "root_status_outcome s child action =
     (let r = rs_records s ! unat (child_value child);
          resumed = (action = Restart_resume)
      in \<lparr>ev_ticks = (if clock_available (rs_clock s) then last_ticks (rs_clock s) else 0),
          ev_kind = (if resumed then event_kind_restart else event_kind_giveup),
          ev_child = ucast (child_value child), ev_flags = 0,
          ev_detail = (if resumed then 0 else root_status_giveup action),
          ev_a = ucast (lifetime_count r), ev_b = ucast (window_count r)\<rparr>)"

definition root_publish :: "root_env \<Rightarrow> root_child \<Rightarrow> root_event list \<Rightarrow> root_state \<Rightarrow> root_state" where
  "root_publish env child events s =
     (let s = (if rs_status_page s \<noteq> None \<and> st_enabled (rs_status s) then
                 (case root_status_ticks env s of (now, s) \<Rightarrow>
                  case root_status_publish (rs_status s) (rs_status_page s)
                         (unat (child_value child))
                         (Some (rs_records s ! unat (child_value child))) now
                         (clock_available (rs_clock s)) (Some events) (length events) of
                    (_, st, page) \<Rightarrow> s\<lparr>rs_status := st, rs_status_page := page\<rparr>)
               else s);
          s = (if st_exhausted (rs_status s)
               then (puts ''ROOT|status|exhausted\<newline>'' s)
                      \<lparr>rs_status := (rs_status s)\<lparr>st_exhausted := False\<rparr>\<rparr>
               else s)
      in if st_misused (rs_status s)
         then (puts ''ROOT|status|invalid-publish\<newline>'' s)
                \<lparr>rs_status := (rs_status s)\<lparr>st_misused := False\<rparr>\<rparr>
         else s)"

section \<open>Formatters\<close>

text \<open>The digits \<open>put_dec\<close> writes from the end of its buffer, before those in \<open>buf\<close>.\<close>

function dec_digits :: "u32 \<Rightarrow> string \<Rightarrow> string" where
  "dec_digits v buf =
     (let buf = char_of (48 + unat (v mod 10)) # buf; v = v div 10
      in if v \<noteq> 0 then dec_digits v buf else buf)"
  by pat_completeness auto

termination dec_digits
proof (relation "measure (\<lambda>(v, buf). unat v)")
  fix v :: u32 and buf x y
  assume "y = v div 10" "y \<noteq> 0"
  then have "unat v div 10 \<noteq> 0" by (simp add: word_unat_eq_iff unat_div)
  then show "((y, x), v, buf) \<in> measure (\<lambda>(v, buf). unat v)"
    using \<open>y = v div 10\<close> by (simp add: unat_div)
qed simp

definition put_dec :: "u32 \<Rightarrow> root_state \<Rightarrow> root_state" where
  "put_dec v = puts (dec_digits v [])"

definition hex_string :: "u64 \<Rightarrow> string" where
  "hex_string v =
     ''0x'' @ map (\<lambda>i. ''0123456789abcdef'' ! unat (drop_bit ((15 - i) * 4) v AND 0xf)) [0..<16]"

definition put_hex :: "u64 \<Rightarrow> root_state \<Rightarrow> root_state" where
  "put_hex v = puts (hex_string v)"

section \<open>The policy page\<close>

definition root_spec_refresh ::
  "root_env \<Rightarrow> page_reads \<Rightarrow> root_state \<Rightarrow> root_spec_result \<times> root_state" where
  "root_spec_refresh env rd s =
     (case consume_page (rs_spec s) (if rs_spec_mapped s then Some rd else None)
             (root_present_children env) of
        (result, spec) \<Rightarrow>
          let s = s\<lparr>rs_spec := spec\<rparr>;
              s = (if sr_outcome result = Spec_applied then
                     (case root_status_policy env s of (budget, desired) \<Rightarrow>
                        let s = s\<lparr>rs_status := root_status_note_policy (rs_status s)
                                    (sp_generation (ss_retained spec)) (sp_bank (ss_retained spec))
                                    budget desired\<rparr>;
                            s = puts ''ROOT|spec|applied|generation='' s;
                            s = put_hex (sp_generation (ss_retained spec)) s;
                            s = puts ''|bank='' s;
                            s = put_dec (sp_bank (ss_retained spec)) s
                        in puts ''\<newline>'' s)
                   else s);
              s = (if sr_record result then
                     let s = puts ''ROOT|spec|reject|reason='' s;
                         s = puts (root_spec_reject_name (sr_reason result)) s;
                         s = puts ''|generation='' s;
                         s = put_hex (sr_generation result) s;
                         s = puts ''|bank='' s;
                         s = put_dec (sr_bank result) s
                     in puts ''\<newline>'' s
                   else s)
          in (result, s))"

definition root_spec_event :: "root_env \<Rightarrow> root_spec_result \<Rightarrow> root_state \<Rightarrow> root_event \<times> root_state" where
  "root_spec_event env result s =
     (case root_status_ticks env s of (now, s) \<Rightarrow>
        (\<lparr>ev_ticks = now, ev_kind = event_kind_spec_reject, ev_child = chryso_root_event_no_child,
          ev_flags = 0, ev_detail = spec_reject_wire (sr_reason result),
          ev_a = sr_generation result, ev_b = ucast (sr_bank result)\<rparr>, s))"

section \<open>Initialisation\<close>

text \<open>\<open>root_clock_observe (\<dots>, root_now_ticks ())\<close>, a read of the counter and its observation.\<close>

definition observe_now :: "root_env \<Rightarrow> root_state \<Rightarrow> root_clock_result \<times> root_state" where
  "observe_now env s =
     (case root_now_ticks env s of (now, s) \<Rightarrow>
      case root_clock_observe (rs_clock s) now of (r, clock) \<Rightarrow> (r, s\<lparr>rs_clock := clock\<rparr>))"

definition root_state_zero :: root_state where
  "root_state_zero =
     \<lparr>rs_records = replicate root_max_children root_child_record_zero, rs_clock = root_clock_zero,
      rs_command = root_command_init 0 0 0 False, rs_status = root_status_state_zero,
      rs_status_page = None, rs_spec = root_spec_init, rs_spec_mapped = False,
      rs_test_budget = \<lparr>capacity = 0, lifetime_limit = 0, leak_interval_ticks = 0\<rparr>,
      rs_reads = 0, rs_trace = []\<rparr>"

text \<open>\<open>init\<close> in three parts: the clock, the test policy and the log line, and the rest.\<close>

definition init_clock :: "root_env \<Rightarrow> root_state \<Rightarrow> root_state" where
  "init_clock env s =
     (let frequency = env_frequency env;
          (r, clock) = root_clock_init frequency root_clock_min_hz root_clock_max_hz;
          s = s\<lparr>rs_clock := clock\<rparr>;
          (r, s) = (if r \<noteq> Clock_ok then (r, s) else observe_now env s)
      in if r \<noteq> Clock_ok then puts ''ROOT|clock|unavailable\<newline>'' s
         else puts ''\<newline>'' (put_hex frequency (puts ''ROOT|clock|freq='' s)))"

definition init_policy :: "root_env \<Rightarrow> root_state \<Rightarrow> root_state" where
  "init_policy env s =
     (let s = (if env_test_budget env then
                 s\<lparr>rs_test_budget :=
                    (case root_clock_interval (rs_clock s) root_test_leak_ms of
                       Inr interval \<Rightarrow> \<lparr>capacity = root_test_window_capacity,
                                         lifetime_limit = root_test_lifetime_limit,
                                         leak_interval_ticks = interval\<rparr>
                     | Inl _ \<Rightarrow> \<lparr>capacity = 0, lifetime_limit = 0, leak_interval_ticks = 0\<rparr>)\<rparr>
               else s);
          s = put_dec root_driver_budget (puts ''ROOT|init|budget='' s);
          s = put_dec root_beam_budget (puts ''|beam-budget='' s);
          s = put_hex (env_restart_entry env) (puts ''|entry='' s);
          s = put_hex (env_beam_reset_entry env) (puts ''|beam-entry='' s)
      in puts ''\<newline>'' s)"

definition root_init :: "root_env \<Rightarrow> root_status_page \<Rightarrow> root_state" where
  "root_init env page =
     (let s = init_policy env (init_clock env root_state_zero);
          s = s\<lparr>rs_status_page := (if root_presence_valid env \<and>
                                       env_status_start env = control_status_root_vaddr
                                    then Some page else None),
                 rs_spec_mapped := (env_spec_view env = control_spec_root_vaddr),
                 rs_spec := root_spec_init\<rparr>;
          present = root_present_children env;
          budget = fst (root_status_policy env s);
          (now, s) = root_status_ticks env s;
          (st, pg) = root_status_init (rs_status_page s) present now
                       (if clock_available (rs_clock s) then env_frequency env else 0) budget;
          s = s\<lparr>rs_status := st, rs_status_page := pg\<rparr>;
          refill_ticks = (case root_clock_interval (rs_clock s) control_command_rate_refill_ms of
                            Inr ticks \<Rightarrow> ticks | Inl _ \<Rightarrow> 0);
          (now, s) = root_status_ticks env s
      in s\<lparr>rs_command := root_command_init control_command_rate_tokens refill_ticks now
                           (clock_available (rs_clock s))\<rparr>)"

section \<open>Restarting and giving up\<close>

definition root_log_ignored :: "root_child \<Rightarrow> string \<Rightarrow> root_state \<Rightarrow> root_state" where
  "root_log_ignored child request s =
     (let s = puts ''ROOT|gone|child='' s;
          s = put_dec (child_value child) s;
          s = puts ''|ignored='' s;
          s = puts request s
      in puts ''\<newline>'' s)"

definition root_giveup :: "root_env \<Rightarrow> root_child \<Rightarrow> string \<Rightarrow> root_state \<Rightarrow> root_state" where
  "root_giveup env child reason s =
     (let i = unat (child_value child);
          s = s\<lparr>rs_records := (rs_records s)[i := root_record_give_up (rs_records s ! i)]\<rparr>;
          s = emit (Pd_stop (child_value child)) s;
          (now, s) = root_status_ticks env s;
          s = s\<lparr>rs_status := root_status_note_gone (rs_status s) i now (clock_available (rs_clock s))\<rparr>;
          gone = root_gone_channel child;
          s = (if root_channel_wired (env_notifications env) gone
               then emit (Notify (channel_value gone)) s else s);
          s = puts ''ROOT|giveup|child='' s;
          s = put_dec (child_value child) s;
          s = puts ''|reason='' s;
          s = puts reason s
      in puts ''\<newline>'' s)"

text \<open>The clock sample \<open>root_restart_child\<close> takes before it plans, and what it does to resume.\<close>

definition sample_clock :: "root_env \<Rightarrow> root_state \<Rightarrow> root_state" where
  "sample_clock env s =
     (if clock_available (rs_clock s) then
        (case observe_now env s of (r, s) \<Rightarrow>
           if r \<noteq> Clock_ok then puts ''ROOT|clock|unavailable\<newline>'' s else s)
      else s)"

definition resume_child ::
  "root_env \<Rightarrow> root_child \<Rightarrow> string \<Rightarrow> root_child_record \<Rightarrow> u64 \<Rightarrow> root_state \<Rightarrow> root_state" where
  "resume_child env child request next entry s =
     (let i = unat (child_value child);
          s = s\<lparr>rs_records := (rs_records s)[i := next]\<rparr>;
          s = emit (Pd_restart (child_value child) entry) s;
          (now, s) = root_status_ticks env s;
          s = s\<lparr>rs_status := root_status_note_restart (rs_status s) i now
                   (clock_available (rs_clock s)) (child_value child = root_child_beam)\<rparr>;
          s = puts ''ROOT|'' s;
          s = puts request s;
          s = puts ''|child='' s;
          s = put_dec (child_value child) s;
          s = puts ''|count='' s;
          s = put_dec (lifetime_count (rs_records s ! i)) s;
          s = (if env_test_budget env
               then put_dec (window_count (rs_records s ! i)) (puts ''|window='' s) else s)
      in puts ''\<newline>'' s)"

definition root_restart_child ::
  "root_env \<Rightarrow> page_reads \<Rightarrow> root_child \<Rightarrow> string \<Rightarrow> root_state \<Rightarrow>
   root_restart_action \<times> root_spec_result \<times> root_state" where
  "root_restart_child env rd child request s =
     (let (spec, s) = root_spec_refresh env rd s;
          s = sample_clock env s;
          inputs = root_restart_inputs_for env s child;
          plan = root_restart_plan (rs_spec s) (rs_records s ! unat (child_value child)) inputs;
          s = (if plan_policy_invalid plan
               then puts ''ROOT|policy|invalid\<newline>''
                      (s\<lparr>rs_clock := (rs_clock s)\<lparr>clock_available := False\<rparr>\<rparr>)
               else s);
          action = plan_action plan
      in (action, spec,
          case action of
            Restart_ignore_gone \<Rightarrow> root_log_ignored child request s
          | Restart_resume \<Rightarrow> resume_child env child request (plan_next plan) (in_entry inputs) s
          | _ \<Rightarrow> root_giveup env child (root_restart_giveup_reason action) s))"

section \<open>Notifications\<close>

text \<open>A \<open>spec_reject\<close> event when the refresh before a decision recorded a rejection.\<close>

definition spec_events :: "root_env \<Rightarrow> root_spec_result \<Rightarrow> root_state \<Rightarrow> root_event list \<times> root_state" where
  "spec_events env spec s =
     (if sr_record spec then (case root_spec_event env spec s of (e, s) \<Rightarrow> ([e], s)) else ([], s))"

definition notified :: "root_env \<Rightarrow> page_reads \<Rightarrow> u32 \<Rightarrow> root_state \<Rightarrow> root_state" where
  "notified env rd ch s =
     (case root_notify_route (Root_channel ch) root_channels of
        Notify_debug_restart index \<Rightarrow>
          let child = root_class_child ! index;
              (action, spec, s) = root_restart_child env rd child ''debug-restart'' s;
              (events, s) = spec_events env spec s;
              events = events @ (if action \<noteq> Restart_ignore_gone
                                 then [root_status_outcome s child action] else [])
          in root_publish env child events s
      | Notify_fault_inject index \<Rightarrow>
          let child = root_class_child ! index
          in if child_state (rs_records s ! unat (child_value child)) = Child_gone
             then root_log_ignored child ''fault-inject'' s
             else
               let s = puts ''ROOT|fault-inject|child='' s;
                   s = put_dec (child_value child) s;
                   s = puts ''\<newline>'' s;
                   s = emit (Pd_restart (child_value child) 0) s;
                   (now, s) = root_status_ticks env s
               in root_publish env child
                    [\<lparr>ev_ticks = now, ev_kind = event_kind_control, ev_child = ucast (child_value child),
                      ev_flags = 0, ev_detail = control_kind_fault_inject, ev_a = 0, ev_b = 0\<rparr>] s
      | Notify_unexpected \<Rightarrow>
          let s = puts ''ROOT|notify|unexpected-channel='' s;
              s = put_dec ch s
          in puts ''\<newline>'' s)"

section \<open>Commands\<close>

definition root_command_restart_child ::
  "root_env \<Rightarrow> page_reads \<Rightarrow> root_command_decision \<Rightarrow> root_state \<Rightarrow>
   root_command_decision \<times> root_state" where
  "root_command_restart_child env rd decision s =
     (let child = cd_child decision;
          (now, s) = root_status_ticks env s;
          event = \<lparr>ev_ticks = now, ev_kind = event_kind_control, ev_child = ucast (child_value child),
                   ev_flags = 0, ev_detail = control_kind_restart_child, ev_a = cd_args decision ! 2,
                   ev_b = 0\<rparr>;
          (action, spec, s) = root_restart_child env rd child ''ctl-restart'' s
      in if action = Restart_ignore_gone then (decision\<lparr>cd_result := Ctl_refused\<rparr>, s)
         else
           let (events, s) = spec_events env spec s;
               s = root_publish env child
                     (event # events @ [root_status_outcome s child action]) s;
               decision = decision\<lparr>cd_values :=
                 [ucast (if action = Restart_resume then event_kind_restart else event_kind_giveup),
                  ucast (root_status_giveup action),
                  ucast (lifetime_count (rs_records s ! unat (child_value child))),
                  st_seq (rs_status s)]\<rparr>
           in (decision, s\<lparr>rs_command := root_command_complete (rs_command s) decision\<rparr>))"

definition root_command_reply :: "ctl_result \<Rightarrow> u64 list \<Rightarrow> u64 \<times> u64 list" where
  "root_command_reply result values = (ctl_result_wire result, take root_command_words values)"

definition command_view :: "root_env \<Rightarrow> root_state \<Rightarrow> root_command_view" where
  "command_view env s =
     \<lparr>vw_abi_version = chryso_abi_version, vw_root_generation = st_root_generation (rs_status s),
      vw_beam_incarnation = st_beam_incarnation (rs_status s), vw_cntfrq = st_frequency (rs_status s),
      vw_seq = st_seq (rs_status s),
      vw_publishing = (rs_status_page s \<noteq> None \<and> st_enabled (rs_status s)),
      vw_present_mask = root_present_children env, vw_driver_mask = root_driver_children,
      vw_child_count = root_max_children, vw_records = rs_records s\<rparr>"

text \<open>The message registers are a function; \<open>microkit_mr_get i\<close> reads the \<open>i\<close>-th.\<close>

definition decide_command ::
  "root_env \<Rightarrow> u64 \<Rightarrow> (nat \<Rightarrow> u64) \<Rightarrow> root_state \<Rightarrow> root_command_decision \<times> root_state" where
  "decide_command env label mr s =
     (let args = map mr [0..<root_command_words];
          view = command_view env s;
          (now, s) = root_status_ticks env s;
          (decision, command) = root_command_decide (rs_command s) view (ucast label) args now
                                  (clock_available (rs_clock s))
      in (decision, s\<lparr>rs_command := command\<rparr>))"

definition protected ::
  "root_env \<Rightarrow> page_reads \<Rightarrow> u32 \<Rightarrow> u64 \<Rightarrow> u64 \<Rightarrow> (nat \<Rightarrow> u64) \<Rightarrow> root_state \<Rightarrow>
   (u64 \<times> u64 list) \<times> root_state" where
  "protected env rd ch label count mr s =
     (case root_command_frame (rs_command s) ch control_pp_channel_root label count of
        (framed, command) \<Rightarrow>
          let s = s\<lparr>rs_command := command\<rparr>
          in if framed \<noteq> Ctl_ok then (root_command_reply framed (replicate root_command_words 0), s)
             else
               let (decision, s) = decide_command env label mr s;
                   (decision, s) = (case cd_action decision of
                                      Command_restart \<Rightarrow> root_command_restart_child env rd decision s
                                    | Command_none \<Rightarrow> (decision, s))
               in (root_command_reply (cd_result decision) (cd_values decision), s))"

section \<open>Faults\<close>

definition fault_log ::
  "u32 \<Rightarrow> u64 \<Rightarrow> u64 \<Rightarrow> (nat \<Rightarrow> u64) \<Rightarrow> root_state \<Rightarrow> root_state" where
  "fault_log raw_child label count mr s =
     (let s = puts ''ROOT|fault|child='' s;
          s = put_dec raw_child s;
          s = puts ''|label='' s;
          s = put_hex label s;
          s = (if count \<ge> 1 then put_hex (mr 0) (puts ''|mr0='' s) else s);
          s = (if count \<ge> 2 then put_hex (mr 1) (puts ''|mr1='' s) else s)
      in puts ''\<newline>'' s)"

text \<open>\<open>fault\<close> past its admission of the child.\<close>

definition fault_child ::
  "root_env \<Rightarrow> page_reads \<Rightarrow> root_child \<Rightarrow> u64 \<Rightarrow> u64 \<Rightarrow> (nat \<Rightarrow> u64) \<Rightarrow> root_state \<Rightarrow> root_state" where
  "fault_child env rd child label count mr s =
     (let (fault_ticks, s) = root_status_ticks env s;
          mr0 = (if count \<ge> 1 then mr 0 else 0);
          mr1 = (if count \<ge> 2 then mr 1 else 0);
          s = s\<lparr>rs_status := root_status_note_fault (rs_status s) (unat (child_value child))
                   label (unat count) mr0 mr1 fault_ticks (clock_available (rs_clock s))\<rparr>;
          (action, spec, s) = root_restart_child env rd child ''restart'' s;
          event = \<lparr>ev_ticks = fault_ticks, ev_kind = event_kind_fault,
                   ev_child = ucast (child_value child),
                   ev_flags = (if count \<ge> 1 then chryso_fault_mr0_valid else 0) OR
                              (if count \<ge> 2 then chryso_fault_mr1_valid else 0),
                   ev_detail = (if label \<le> ucast UINT32_MAX then ucast label else 0),
                   ev_a = mr0, ev_b = mr1\<rparr>;
          (events, s) = spec_events env spec s;
          events = event # events @ (if action \<noteq> Restart_ignore_gone
                                     then [root_status_outcome s child action] else [])
      in root_publish env child events s)"

definition fault ::
  "root_env \<Rightarrow> page_reads \<Rightarrow> u32 \<Rightarrow> u64 \<Rightarrow> u64 \<Rightarrow> (nat \<Rightarrow> u64) \<Rightarrow> root_state \<Rightarrow> root_state" where
  "fault env rd raw_child label count mr s =
     (let s = fault_log raw_child label count mr s
      in case root_child_from_raw raw_child root_max_children (root_present_children env) of
           None \<Rightarrow>
             let s = puts ''ROOT|reject|child='' s;
                 s = put_dec raw_child s
             in puts ''|reason=out-of-range\<newline>'' s
         | Some child \<Rightarrow> fault_child env rd child label count mr s)"

text \<open>The calls Microkit makes into Root after \<open>init\<close>, with what each observes.\<close>

datatype root_call =
    Call_notified page_reads u32
  | Call_protected page_reads u32 u64 u64 "nat \<Rightarrow> u64"
  | Call_fault page_reads u32 u64 u64 "nat \<Rightarrow> u64"

fun serve :: "root_env \<Rightarrow> root_call \<Rightarrow> root_state \<Rightarrow> root_state" where
  "serve env (Call_notified rd ch) s = notified env rd ch s"
| "serve env (Call_protected rd ch label count mr) s = snd (protected env rd ch label count mr s)"
| "serve env (Call_fault rd raw label count mr) s = fault env rd raw label count mr s"

definition root_run :: "root_env \<Rightarrow> root_status_page \<Rightarrow> root_call list \<Rightarrow> root_state" where
  "root_run env page calls = foldl (\<lambda>s c. serve env c s) (root_init env page) calls"

section \<open>Lemmas: what each function leaves alone\<close>

fun is_puts :: "root_effect \<Rightarrow> bool" where
  "is_puts (Puts t) \<longleftrightarrow> True"
| "is_puts _ \<longleftrightarrow> False"

text \<open>The capability invocations Root has made, oldest first.\<close>

definition caps :: "root_state \<Rightarrow> root_effect list" where
  "caps s = filter (\<lambda>e. \<not> is_puts e) (rs_trace s)"

lemma emit_frame [simp]:
  "rs_records (emit e s) = rs_records s" "rs_clock (emit e s) = rs_clock s"
  "rs_command (emit e s) = rs_command s" "rs_status (emit e s) = rs_status s"
  "rs_status_page (emit e s) = rs_status_page s" "rs_spec (emit e s) = rs_spec s"
  "rs_spec_mapped (emit e s) = rs_spec_mapped s" "rs_test_budget (emit e s) = rs_test_budget s"
  "rs_reads (emit e s) = rs_reads s" "caps (emit e s) = (if is_puts e then caps s else caps s @ [e])"
  by (simp_all add: emit_def caps_def)

lemma puts_frame [simp]:
  "rs_records (puts t s) = rs_records s" "rs_clock (puts t s) = rs_clock s"
  "rs_command (puts t s) = rs_command s" "rs_status (puts t s) = rs_status s"
  "rs_status_page (puts t s) = rs_status_page s" "rs_spec (puts t s) = rs_spec s"
  "rs_spec_mapped (puts t s) = rs_spec_mapped s" "rs_test_budget (puts t s) = rs_test_budget s"
  "rs_reads (puts t s) = rs_reads s" "caps (puts t s) = caps s"
  by (simp_all add: puts_def)

lemma put_dec_frame [simp]:
  "rs_records (put_dec v s) = rs_records s" "rs_clock (put_dec v s) = rs_clock s"
  "rs_command (put_dec v s) = rs_command s" "rs_status (put_dec v s) = rs_status s"
  "rs_status_page (put_dec v s) = rs_status_page s" "rs_spec (put_dec v s) = rs_spec s"
  "rs_spec_mapped (put_dec v s) = rs_spec_mapped s" "rs_test_budget (put_dec v s) = rs_test_budget s"
  "rs_reads (put_dec v s) = rs_reads s" "caps (put_dec v s) = caps s"
  by (simp_all add: put_dec_def)

lemma put_hex_frame [simp]:
  "rs_records (put_hex v s) = rs_records s" "rs_clock (put_hex v s) = rs_clock s"
  "rs_command (put_hex v s) = rs_command s" "rs_status (put_hex v s) = rs_status s"
  "rs_status_page (put_hex v s) = rs_status_page s" "rs_spec (put_hex v s) = rs_spec s"
  "rs_spec_mapped (put_hex v s) = rs_spec_mapped s" "rs_test_budget (put_hex v s) = rs_test_budget s"
  "rs_reads (put_hex v s) = rs_reads s" "caps (put_hex v s) = caps s"
  by (simp_all add: put_hex_def)

lemma caps_update [simp]:
  "caps (s\<lparr>rs_records := a\<rparr>) = caps s" "caps (s\<lparr>rs_clock := b\<rparr>) = caps s"
  "caps (s\<lparr>rs_command := c\<rparr>) = caps s" "caps (s\<lparr>rs_status := d\<rparr>) = caps s"
  "caps (s\<lparr>rs_status_page := e\<rparr>) = caps s" "caps (s\<lparr>rs_spec := f\<rparr>) = caps s"
  "caps (s\<lparr>rs_spec_mapped := g\<rparr>) = caps s" "caps (s\<lparr>rs_test_budget := h\<rparr>) = caps s"
  "caps (s\<lparr>rs_reads := i\<rparr>) = caps s"
  by (simp_all add: caps_def)

text \<open>Reading the counter changes nothing but how often it was read.\<close>

lemma status_ticks_frame [simp]:
  "rs_records (snd (root_status_ticks env s)) = rs_records s"
  "rs_clock (snd (root_status_ticks env s)) = rs_clock s"
  "rs_command (snd (root_status_ticks env s)) = rs_command s"
  "rs_status (snd (root_status_ticks env s)) = rs_status s"
  "rs_status_page (snd (root_status_ticks env s)) = rs_status_page s"
  "rs_spec (snd (root_status_ticks env s)) = rs_spec s"
  "rs_spec_mapped (snd (root_status_ticks env s)) = rs_spec_mapped s"
  "rs_test_budget (snd (root_status_ticks env s)) = rs_test_budget s"
  "caps (snd (root_status_ticks env s)) = caps s"
  by (simp_all add: root_status_ticks_def root_now_ticks_def)

lemma observe_now_frame [simp]:
  "rs_records (snd (observe_now env s)) = rs_records s"
  "rs_command (snd (observe_now env s)) = rs_command s"
  "rs_status (snd (observe_now env s)) = rs_status s"
  "rs_status_page (snd (observe_now env s)) = rs_status_page s"
  "rs_spec (snd (observe_now env s)) = rs_spec s"
  "rs_spec_mapped (snd (observe_now env s)) = rs_spec_mapped s"
  "rs_test_budget (snd (observe_now env s)) = rs_test_budget s"
  "caps (snd (observe_now env s)) = caps s"
  by (simp_all add: observe_now_def root_now_ticks_def case_prod_unfold)

lemma state_zero [simp]:
  "rs_records root_state_zero = replicate root_max_children root_child_record_zero"
  "rs_spec root_state_zero = root_spec_init" "caps root_state_zero = []"
  by (simp_all add: root_state_zero_def caps_def)

lemma init_clock_frame [simp]:
  "rs_records (init_clock env s) = rs_records s" "rs_spec (init_clock env s) = rs_spec s"
  "caps (init_clock env s) = caps s"
  by (simp_all add: init_clock_def case_prod_unfold Let_def)

lemma init_policy_frame [simp]:
  "rs_records (init_policy env s) = rs_records s" "rs_clock (init_policy env s) = rs_clock s"
  "rs_spec (init_policy env s) = rs_spec s" "caps (init_policy env s) = caps s"
  by (simp_all add: init_policy_def Let_def)

definition refreshed :: "root_env \<Rightarrow> page_reads \<Rightarrow> root_state \<Rightarrow> root_spec_result \<times> root_spec_state" where
  "refreshed env rd s = consume_page (rs_spec s) (if rs_spec_mapped s then Some rd else None)
     (root_present_children env)"

lemma spec_refresh_frame [simp]:
  "rs_records (snd (root_spec_refresh env rd s)) = rs_records s"
  "rs_clock (snd (root_spec_refresh env rd s)) = rs_clock s"
  "rs_command (snd (root_spec_refresh env rd s)) = rs_command s"
  "rs_status_page (snd (root_spec_refresh env rd s)) = rs_status_page s"
  "rs_spec (snd (root_spec_refresh env rd s)) = snd (refreshed env rd s)"
  "rs_spec_mapped (snd (root_spec_refresh env rd s)) = rs_spec_mapped s"
  "rs_test_budget (snd (root_spec_refresh env rd s)) = rs_test_budget s"
  "rs_reads (snd (root_spec_refresh env rd s)) = rs_reads s"
  "caps (snd (root_spec_refresh env rd s)) = caps s"
  "fst (root_spec_refresh env rd s) = fst (refreshed env rd s)"
  by (simp_all add: root_spec_refresh_def refreshed_def case_prod_unfold Let_def)

lemma spec_events_frame [simp]:
  "rs_records (snd (spec_events env spec s)) = rs_records s"
  "rs_clock (snd (spec_events env spec s)) = rs_clock s"
  "rs_command (snd (spec_events env spec s)) = rs_command s"
  "rs_status (snd (spec_events env spec s)) = rs_status s"
  "rs_status_page (snd (spec_events env spec s)) = rs_status_page s"
  "rs_spec (snd (spec_events env spec s)) = rs_spec s"
  "rs_spec_mapped (snd (spec_events env spec s)) = rs_spec_mapped s"
  "rs_test_budget (snd (spec_events env spec s)) = rs_test_budget s"
  "caps (snd (spec_events env spec s)) = caps s"
  by (simp_all add: spec_events_def root_spec_event_def case_prod_unfold)

lemma publish_frame [simp]:
  "rs_records (root_publish env child es s) = rs_records s"
  "rs_clock (root_publish env child es s) = rs_clock s"
  "rs_command (root_publish env child es s) = rs_command s"
  "rs_spec (root_publish env child es s) = rs_spec s"
  "rs_spec_mapped (root_publish env child es s) = rs_spec_mapped s"
  "rs_test_budget (root_publish env child es s) = rs_test_budget s"
  "caps (root_publish env child es s) = caps s"
  by (simp_all add: root_publish_def case_prod_unfold Let_def)

lemma log_ignored_frame [simp]:
  "rs_records (root_log_ignored c q s) = rs_records s" "rs_clock (root_log_ignored c q s) = rs_clock s"
  "rs_command (root_log_ignored c q s) = rs_command s" "rs_status (root_log_ignored c q s) = rs_status s"
  "rs_status_page (root_log_ignored c q s) = rs_status_page s"
  "rs_spec (root_log_ignored c q s) = rs_spec s"
  "rs_spec_mapped (root_log_ignored c q s) = rs_spec_mapped s"
  "rs_test_budget (root_log_ignored c q s) = rs_test_budget s"
  "caps (root_log_ignored c q s) = caps s"
  by (simp_all add: root_log_ignored_def Let_def)

lemma fault_log_frame [simp]:
  "rs_records (fault_log c l n mr s) = rs_records s" "rs_clock (fault_log c l n mr s) = rs_clock s"
  "rs_command (fault_log c l n mr s) = rs_command s" "rs_status (fault_log c l n mr s) = rs_status s"
  "rs_status_page (fault_log c l n mr s) = rs_status_page s"
  "rs_spec (fault_log c l n mr s) = rs_spec s"
  "rs_spec_mapped (fault_log c l n mr s) = rs_spec_mapped s"
  "rs_test_budget (fault_log c l n mr s) = rs_test_budget s"
  "rs_reads (fault_log c l n mr s) = rs_reads s" "caps (fault_log c l n mr s) = caps s"
  by (simp_all add: fault_log_def Let_def)

lemma giveup_frame [simp]:
  "rs_records (root_giveup env c q s) =
     (rs_records s)[unat (child_value c) := root_record_give_up (rs_records s ! unat (child_value c))]"
  "rs_clock (root_giveup env c q s) = rs_clock s" "rs_command (root_giveup env c q s) = rs_command s"
  "rs_status_page (root_giveup env c q s) = rs_status_page s" "rs_spec (root_giveup env c q s) = rs_spec s"
  "rs_spec_mapped (root_giveup env c q s) = rs_spec_mapped s"
  "rs_test_budget (root_giveup env c q s) = rs_test_budget s"
  "caps (root_giveup env c q s) = caps s @ Pd_stop (child_value c) #
     (if root_channel_wired (env_notifications env) (root_gone_channel c)
      then [Notify (channel_value (root_gone_channel c))] else [])"
  by (simp_all add: root_giveup_def case_prod_unfold Let_def)

section \<open>Lemmas: one decision\<close>

lemma sample_clock_frame [simp]:
  "rs_records (sample_clock env s) = rs_records s" "rs_command (sample_clock env s) = rs_command s"
  "rs_status (sample_clock env s) = rs_status s"
  "rs_status_page (sample_clock env s) = rs_status_page s" "rs_spec (sample_clock env s) = rs_spec s"
  "rs_spec_mapped (sample_clock env s) = rs_spec_mapped s"
  "rs_test_budget (sample_clock env s) = rs_test_budget s" "caps (sample_clock env s) = caps s"
  by (simp_all add: sample_clock_def case_prod_unfold)

lemma resume_child_frame [simp]:
  "rs_records (resume_child env c q r e s) = (rs_records s)[unat (child_value c) := r]"
  "rs_clock (resume_child env c q r e s) = rs_clock s"
  "rs_command (resume_child env c q r e s) = rs_command s"
  "rs_status_page (resume_child env c q r e s) = rs_status_page s"
  "rs_spec (resume_child env c q r e s) = rs_spec s"
  "rs_spec_mapped (resume_child env c q r e s) = rs_spec_mapped s"
  "rs_test_budget (resume_child env c q r e s) = rs_test_budget s"
  "caps (resume_child env c q r e s) = caps s @ [Pd_restart (child_value c) e]"
  by (simp_all add: resume_child_def case_prod_unfold Let_def)

text \<open>The plan \<open>root_restart_child\<close> acts on, and the state in which it acts.\<close>

definition plan_of :: "root_env \<Rightarrow> page_reads \<Rightarrow> root_child \<Rightarrow> root_state \<Rightarrow> root_restart_plan_result" where
  "plan_of env rd child s =
     root_restart_plan (snd (refreshed env rd s)) (rs_records s ! unat (child_value child))
       (root_restart_inputs_for env (sample_clock env (snd (root_spec_refresh env rd s))) child)"

definition planned :: "root_env \<Rightarrow> page_reads \<Rightarrow> root_child \<Rightarrow> root_state \<Rightarrow> root_state" where
  "planned env rd child s =
     (let s1 = sample_clock env (snd (root_spec_refresh env rd s))
      in if plan_policy_invalid (plan_of env rd child s)
         then puts ''ROOT|policy|invalid\<newline>''
                (s1\<lparr>rs_clock := (rs_clock s1)\<lparr>clock_available := False\<rparr>\<rparr>)
         else s1)"

lemma planned_frame [simp]:
  "rs_records (planned env rd c s) = rs_records s" "rs_command (planned env rd c s) = rs_command s"
  "rs_status (planned env rd c s) = rs_status (snd (root_spec_refresh env rd s))"
  "rs_status_page (planned env rd c s) = rs_status_page s"
  "rs_spec (planned env rd c s) = snd (refreshed env rd s)"
  "rs_spec_mapped (planned env rd c s) = rs_spec_mapped s"
  "rs_test_budget (planned env rd c s) = rs_test_budget s" "caps (planned env rd c s) = caps s"
  by (simp_all add: planned_def Let_def)

lemma inputs_for_entry [simp]: "in_entry (root_restart_inputs_for env s c) = root_restart_entry env c"
  by (simp add: root_restart_inputs_for_def)

lemma root_restart_child_eq:
  "root_restart_child env rd child request s =
     (plan_action (plan_of env rd child s), fst (refreshed env rd s),
      case plan_action (plan_of env rd child s) of
        Restart_ignore_gone \<Rightarrow> root_log_ignored child request (planned env rd child s)
      | Restart_resume \<Rightarrow>
          resume_child env child request (plan_next (plan_of env rd child s))
            (root_restart_entry env child) (planned env rd child s)
      | _ \<Rightarrow> root_giveup env child
               (root_restart_giveup_reason (plan_action (plan_of env rd child s)))
               (planned env rd child s))"
  by (simp add: root_restart_child_def case_prod_unfold Let_def plan_of_def planned_def
      split: root_restart_action.split)

text \<open>The capability invocations of a decision, and the record it leaves.\<close>

definition decision_caps :: "root_env \<Rightarrow> root_child \<Rightarrow> root_restart_action \<Rightarrow> root_effect list" where
  "decision_caps env child action =
     (case action of
        Restart_ignore_gone \<Rightarrow> []
      | Restart_resume \<Rightarrow> [Pd_restart (child_value child) (root_restart_entry env child)]
      | _ \<Rightarrow> Pd_stop (child_value child) #
              (if root_channel_wired (env_notifications env) (root_gone_channel child)
               then [Notify (channel_value (root_gone_channel child))] else []))"

definition decision_record :: "root_restart_plan_result \<Rightarrow> root_child_record \<Rightarrow> root_child_record" where
  "decision_record plan r =
     (case plan_action plan of
        Restart_ignore_gone \<Rightarrow> r
      | Restart_resume \<Rightarrow> plan_next plan
      | _ \<Rightarrow> root_record_give_up r)"

lemma restart_child_frame [simp]:
  "fst (root_restart_child env rd c q s) = plan_action (plan_of env rd c s)"
  "fst (snd (root_restart_child env rd c q s)) = fst (refreshed env rd s)"
  "rs_records (snd (snd (root_restart_child env rd c q s))) =
     (rs_records s)[unat (child_value c) :=
        decision_record (plan_of env rd c s) (rs_records s ! unat (child_value c))]"
  "caps (snd (snd (root_restart_child env rd c q s))) =
     caps s @ decision_caps env c (plan_action (plan_of env rd c s))"
  "rs_status_page (snd (snd (root_restart_child env rd c q s))) = rs_status_page s"
  "rs_command (snd (snd (root_restart_child env rd c q s))) = rs_command s"
  "rs_spec_mapped (snd (snd (root_restart_child env rd c q s))) = rs_spec_mapped s"
  "rs_test_budget (snd (snd (root_restart_child env rd c q s))) = rs_test_budget s"
  "rs_spec (snd (snd (root_restart_child env rd c q s))) = snd (refreshed env rd s)"
  by (simp_all add: root_restart_child_eq decision_record_def decision_caps_def
      split: root_restart_action.split)

lemma decide_command_frame [simp]:
  "rs_records (snd (decide_command env l mr s)) = rs_records s"
  "rs_clock (snd (decide_command env l mr s)) = rs_clock s"
  "rs_status (snd (decide_command env l mr s)) = rs_status s"
  "rs_status_page (snd (decide_command env l mr s)) = rs_status_page s"
  "rs_spec (snd (decide_command env l mr s)) = rs_spec s"
  "rs_spec_mapped (snd (decide_command env l mr s)) = rs_spec_mapped s"
  "rs_test_budget (snd (decide_command env l mr s)) = rs_test_budget s"
  "caps (snd (decide_command env l mr s)) = caps s"
  by (simp_all add: decide_command_def case_prod_unfold Let_def)

text \<open>The state in which an accepted restart command decides about its child.\<close>

definition commanded :: "root_env \<Rightarrow> root_state \<Rightarrow> root_state" where
  "commanded env s = snd (root_status_ticks env s)"

lemma commanded_frame [simp]:
  "rs_records (commanded env s) = rs_records s" "rs_clock (commanded env s) = rs_clock s"
  "rs_command (commanded env s) = rs_command s" "rs_status (commanded env s) = rs_status s"
  "rs_status_page (commanded env s) = rs_status_page s" "rs_spec (commanded env s) = rs_spec s"
  "rs_spec_mapped (commanded env s) = rs_spec_mapped s"
  "rs_test_budget (commanded env s) = rs_test_budget s" "caps (commanded env s) = caps s"
  by (simp_all add: commanded_def)

lemma command_restart_frame [simp]:
  "rs_records (snd (root_command_restart_child env rd d s)) =
     (rs_records s)[unat (child_value (cd_child d)) :=
        decision_record (plan_of env rd (cd_child d) (commanded env s))
          (rs_records s ! unat (child_value (cd_child d)))]"
  "caps (snd (root_command_restart_child env rd d s)) =
     caps s @ decision_caps env (cd_child d) (plan_action (plan_of env rd (cd_child d) (commanded env s)))"
  by (simp_all add: root_command_restart_child_def case_prod_unfold Let_def commanded_def [symmetric])

end
