(* ===== verification/Root_Lifecycle.thy ===== *)
theory Root_Lifecycle
  imports Root_Main
begin

text \<open>
  The child lifecycle Root's entry points implement: an abstract machine on the child records and
  the capability invocations, that every call into Root refines, and what the machine guarantees
  about which children are restarted, stopped and announced, and how often.
\<close>

section \<open>The abstract machine\<close>

type_synonym lifecycle_state = "root_child_record list \<times> root_effect list"

text \<open>A call into Root does one of three things to the records and the capabilities: nothing; one
  decision of the restart plan about a present child, within the compiled and hard budgets and
  with the entry the image configured; or one fault injection into a live driver.\<close>

inductive lifecycle :: "root_env \<Rightarrow> lifecycle_state \<Rightarrow> lifecycle_state \<Rightarrow> bool" for env where
  quiet: "lifecycle env x x"
| decided: "unat c < root_max_children \<Longrightarrow> bit (root_present_children env) (unat c) \<Longrightarrow>
    plan = root_restart_plan spec (rs ! unat c) inputs \<Longrightarrow>
    in_compiled inputs = root_restart_budget (Root_child c) \<Longrightarrow>
    in_hard_max inputs = control_hard_budget_max \<Longrightarrow>
    in_entry inputs = root_restart_entry env (Root_child c) \<Longrightarrow>
    lifecycle env (rs, cs)
      (rs[unat c := decision_record plan (rs ! unat c)],
       cs @ decision_caps env (Root_child c) (plan_action plan))"
| injected: "unat c < 4 \<Longrightarrow> child_state (rs ! unat c) = Child_live \<Longrightarrow>
    lifecycle env (rs, cs) (rs, cs @ [Pd_restart c 0])"

inductive_cases lifecycleE: "lifecycle env (rs, cs) (rs', cs')"

section \<open>Lemmas: present children\<close>

lemma child_masks [simp]:
  "root_known_children = 63" "root_base_children = 47" "root_driver_children = 15"
  by (simp_all add: root_known_children_def root_base_children_def root_driver_children_def)

lemma bits_known: "bit (63 :: u64) n \<longleftrightarrow> n < 6"
  using bit_mask_iff [where 'a = u64, of 6 n] by (auto simp: mask_eq_exp_minus_1 dest: bit_imp_le_length)

lemma present_known:
  assumes "bit (root_present_children env) n"
  shows "n < 6"
proof -
  have "(root_present_children env) AND NOT 63 = 0"
    by (simp add: root_present_children_def root_presence_valid_def Let_def)
  then have "\<not> bit (root_present_children env AND NOT 63) n" by simp
  moreover have "n < 64" using bit_imp_le_length [OF assms] by simp
  ultimately show ?thesis using assms bits_known [of n] by (simp add: bit_simps)
qed

lemma present_base:
  assumes "n < 6" "n \<noteq> 4"
  shows "bit (root_present_children env) n"
proof -
  have "(root_present_children env) AND 47 = 47"
    by (auto simp: root_present_children_def root_presence_valid_def Let_def)
  then have "bit (root_present_children env AND 47) n = bit (47 :: u64) n" by simp
  moreover have "n = 0 \<or> n = 1 \<or> n = 2 \<or> n = 3 \<or> n = 5" using assms by auto
  then have "bit (47 :: u64) n" by (elim disjE) simp_all
  ultimately show ?thesis by (simp add: bit_simps)
qed

lemma present_small [simp]: "unat c < 4 \<Longrightarrow> bit (root_present_children env) (unat c)"
  by (rule present_base) simp_all

lemma class_child:
  "i < 4 \<Longrightarrow> root_class_child ! i = Root_child (of_nat i)"
  by (cases "i = 0"; cases "i = 1"; cases "i = 2"; cases "i = 3") (simp_all add: root_class_child_def)

section \<open>Every call refines the machine\<close>

lemma decide_refines:
  assumes "unat (child_value c) < root_max_children"
    "bit (root_present_children env) (unat (child_value c))" "rs_records s = rs" "caps s = cs"
  shows "lifecycle env (rs, cs)
    (rs[unat (child_value c) := decision_record (plan_of env rd c s) (rs ! unat (child_value c))],
     cs @ decision_caps env c (plan_action (plan_of env rd c s)))"
  using decided [OF assms(1,2), of "plan_of env rd c s" "snd (refreshed env rd s)" "rs_records s"
      "root_restart_inputs_for env (sample_clock env (snd (root_spec_refresh env rd s))) c"] assms(3,4)
  by (simp add: plan_of_def root_restart_inputs_for_def)

lemma route_class:
  assumes "root_notify_route (Root_channel ch) root_channels = Notify_debug_restart i \<or>
    root_notify_route (Root_channel ch) root_channels = Notify_fault_inject i"
  shows "i < 4"
  using assms
  by (auto simp: root_notify_route_def root_channels_def root_channel_in_group_def word_less_nat_alt
      split: if_splits)

lemma unat_small: "i < 4 \<Longrightarrow> unat (of_nat i :: u32) = i"
  by (simp add: unat_of_nat)

lemma notified_refines:
  "lifecycle env (rs_records s, caps s)
     (rs_records (notified env rd ch s), caps (notified env rd ch s))"
proof (cases "root_notify_route (Root_channel ch) root_channels")
  case (Notify_debug_restart i)
  have i: "i < 4" using route_class Notify_debug_restart by blast
  have c: "unat (child_value (root_class_child ! i)) = i"
    by (simp add: class_child [OF i] unat_small [OF i])
  show ?thesis
    using decide_refines [of "root_class_child ! i" env s] i c present_base [of i env]
    by (simp add: notified_def Notify_debug_restart case_prod_unfold Let_def)
next
  case (Notify_fault_inject i)
  have i: "i < 4" using route_class Notify_fault_inject by blast
  have c: "root_class_child ! i = Root_child (of_nat i)" "unat (of_nat i :: u32) = i"
    by (simp_all add: class_child [OF i] unat_small [OF i])
  show ?thesis
  proof (cases "child_state (rs_records s ! i)")
    case Child_live
    then show ?thesis
      using injected [of "of_nat i" "rs_records s" env "caps s"] i c
      by (simp add: notified_def Notify_fault_inject case_prod_unfold Let_def)
  next
    case Child_gone
    then show ?thesis
      using c by (simp add: notified_def Notify_fault_inject case_prod_unfold Let_def quiet)
  qed
next
  case Notify_unexpected
  then show ?thesis by (simp add: notified_def Let_def quiet)
qed

lemma fault_refines:
  "lifecycle env (rs_records s, caps s)
     (rs_records (fault env rd raw l n mr s), caps (fault env rd raw l n mr s))"
proof (cases "root_child_from_raw raw root_max_children (root_present_children env)")
  case None
  then show ?thesis by (simp add: fault_def Let_def quiet)
next
  case (Some c)
  then have c: "unat (child_value c) < 62" "bit (root_present_children env) (unat (child_value c))"
    by (simp_all add: root_child_from_raw_iff)
  show ?thesis
    unfolding fault_def Some Let_def option.case fault_child_def case_prod_unfold
    by (simp add: decide_refines [OF c])
qed

lemma protected_refines:
  "lifecycle env (rs_records s, caps s)
     (rs_records (snd (protected env rd ch l n mr s)), caps (snd (protected env rd ch l n mr s)))"
proof -
  define s1 where "s1 = s\<lparr>rs_command := snd (root_command_frame (rs_command s) ch
    control_pp_channel_root l n)\<rparr>"
  define dec where "dec = decide_command env l mr s1"
  have s1: "rs_records s1 = rs_records s" "caps s1 = caps s" by (simp_all add: s1_def)
  have s2: "rs_records (snd dec) = rs_records s" "caps (snd dec) = caps s"
    by (simp_all add: dec_def s1_def)
  note unf = protected_def case_prod_unfold Let_def s1_def [symmetric] dec_def [symmetric]
  show ?thesis
  proof (cases "fst (root_command_frame (rs_command s) ch control_pp_channel_root l n) = Ctl_ok \<and>
      cd_action (fst dec) = Command_restart")
    case False
    then show ?thesis
      by (cases "cd_action (fst dec)"; cases "fst (root_command_frame (rs_command s) ch 11 l n) = Ctl_ok")
        (simp_all add: unf s1 s2 quiet)
  next
    case True
    let ?c = "cd_child (fst dec)"
    have g: "unat (child_value ?c) < 62" "bit (root_present_children env) (unat (child_value ?c))"
      using decide_guarded [of "rs_command s1" "command_view env s1" "ucast l"
          "map mr [0..<4]" "fst (root_status_ticks env s1)" "clock_available (rs_clock s1)"] True
      by (auto simp: dec_def command_view_def decide_command_def case_prod_unfold Let_def)
    show ?thesis
      using True decide_refines [OF g, of "commanded env (snd dec)" "rs_records s" "caps s"]
      by (simp add: unf s2)
  qed
qed

lemma serve_refines:
  "lifecycle env (rs_records s, caps s) (rs_records (serve env call s), caps (serve env call s))"
  by (cases call) (simp_all add: notified_refines protected_refines fault_refines)

section \<open>What the machine keeps\<close>

text \<open>The invocations that give child \<open>c\<close> a restart the policy granted: a resume at its entry.
  Fault injection resumes at address zero.\<close>

definition granted_restarts :: "u32 \<Rightarrow> root_effect list \<Rightarrow> nat" where
  "granted_restarts c cs = length (filter (\<lambda>e. \<exists>a. e = Pd_restart c a \<and> a \<noteq> 0) cs)"

text \<open>Every invocation is on a present child, resumes it at its own entry or at zero, or announces
  on a wired give-up channel.\<close>

fun effect_allowed :: "root_env \<Rightarrow> root_effect \<Rightarrow> bool" where
  "effect_allowed env (Pd_restart c a) \<longleftrightarrow>
     unat c < root_max_children \<and> bit (root_present_children env) (unat c) \<and>
     (a = root_restart_entry env (Root_child c) \<or> a = 0 \<and> unat c < 4)"
| "effect_allowed env (Pd_stop c) \<longleftrightarrow>
     unat c < root_max_children \<and> bit (root_present_children env) (unat c)"
| "effect_allowed env (Notify ch) \<longleftrightarrow>
     root_channel_wired (env_notifications env) (Root_channel ch) \<and>
     (ch = root_gone_ch_blk \<or> ch = root_gone_ch_beam)"
| "effect_allowed env (Puts t) \<longleftrightarrow> True"

text \<open>Nothing is restarted or stopped after its stop.\<close>

definition after_stop :: "root_effect \<Rightarrow> root_effect \<Rightarrow> bool" where
  "after_stop e e' \<longleftrightarrow> (\<forall>c. e = Pd_stop c \<longrightarrow> e' \<noteq> Pd_stop c \<and> (\<forall>a. e' \<noteq> Pd_restart c a))"

definition gone_announced :: "root_env \<Rightarrow> root_effect list \<Rightarrow> u32 \<Rightarrow> bool" where
  "gone_announced env cs c \<longleftrightarrow>
     (root_channel_wired (env_notifications env) (root_gone_channel (Root_child c)) \<longrightarrow>
      count_list cs (Notify (channel_value (root_gone_channel (Root_child c)))) =
        (if Pd_stop c \<in> set cs then 1 else 0))"

definition lifecycle_inv :: "root_env \<Rightarrow> lifecycle_state \<Rightarrow> bool" where
  "lifecycle_inv env x \<longleftrightarrow>
     (case x of (rs, cs) \<Rightarrow>
        length rs = root_max_children \<and>
        (\<forall>e \<in> set cs. effect_allowed env e) \<and>
        sorted_wrt after_stop cs \<and>
        (\<forall>c. unat c < root_max_children \<longrightarrow>
           (child_state (rs ! unat c) = Child_gone \<longleftrightarrow> Pd_stop c \<in> set cs) \<and>
           granted_restarts c cs = unat (lifetime_count (rs ! unat c)) \<and>
           granted_restarts c cs \<le> unat control_hard_budget_max \<and>
           gone_announced env cs c))"

lemma granted_append [simp]:
  "granted_restarts c (xs @ ys) = granted_restarts c xs + granted_restarts c ys"
  by (simp add: granted_restarts_def)

lemma decision_cases:
  assumes "plan = root_restart_plan spec r inputs"
    "in_compiled inputs = root_restart_budget (Root_child c)"
    "in_hard_max inputs = control_hard_budget_max"
    "in_entry inputs = root_restart_entry env (Root_child c)"
  obtains (gone) "child_state r = Child_gone" "plan_action plan = Restart_ignore_gone"
  | (resume) "child_state r = Child_live" "plan_action plan = Restart_resume"
      "root_restart_entry env (Root_child c) \<noteq> 0" "unat (lifetime_count r) < 64"
      "unat (lifetime_count (plan_next plan)) = Suc (unat (lifetime_count r))"
      "child_state (plan_next plan) = Child_live"
  | (stop) "child_state r = Child_live" "plan_action plan \<noteq> Restart_resume"
      "plan_action plan \<noteq> Restart_ignore_gone"
proof (cases "child_state r")
  case Child_gone
  then show ?thesis using gone by (simp add: assms(1))
next
  case Child_live
  have "in_compiled inputs \<le> 64" by (simp add: assms(2) root_restart_budget_def)
  then have "unat (plan_ceiling spec inputs) \<le> 64"
    using plan_ceiling_compiled [of spec inputs] assms(3) by (simp add: word_le_nat_alt)
  then show ?thesis
    using plan_next_eqs(1) [OF Child_live, of spec inputs] plan_not_ignored [OF Child_live, of spec inputs]
      plan_resume_count [of spec r inputs] Child_live assms resume stop
    by (cases "plan_action plan = Restart_resume") (auto simp: word_less_nat_alt)
qed

lemma stop_caps:
  assumes "plan_action plan \<noteq> Restart_resume" "plan_action plan \<noteq> Restart_ignore_gone"
  shows "decision_caps env child (plan_action plan) = Pd_stop (child_value child) #
      (if root_channel_wired (env_notifications env) (root_gone_channel child)
       then [Notify (channel_value (root_gone_channel child))] else [])"
    and "decision_record plan r = root_record_give_up r"
  using assms by (cases "plan_action plan"; simp add: decision_caps_def decision_record_def)+

lemma wired_gone:
  assumes "root_channel_wired m (root_gone_channel (Root_child c))"
  shows "c = 2 \<and> channel_value (root_gone_channel (Root_child c)) = 10 \<or>
    c = 5 \<and> channel_value (root_gone_channel (Root_child c)) = 12"
  using assms by (auto simp: root_gone_channel_def root_channel_wired_iff split: if_splits)

lemma wired_gone_distinct:
  "root_channel_wired m (root_gone_channel (Root_child c)) \<Longrightarrow>
   root_channel_wired m (root_gone_channel (Root_child d)) \<Longrightarrow> c \<noteq> d \<Longrightarrow>
   channel_value (root_gone_channel (Root_child c)) \<noteq> channel_value (root_gone_channel (Root_child d))"
  using wired_gone [of m c] wired_gone [of m d] by auto

lemma give_up_fields:
  "child_state (root_record_give_up r) = Child_gone"
  "lifetime_count (root_record_give_up r) = lifetime_count r"
  by (simp_all add: root_record_give_up_def)

lemma inv_injected:
  assumes "lifecycle_inv env (rs, cs)" "unat c < 4" "child_state (rs ! unat c) = Child_live"
  shows "lifecycle_inv env (rs, cs @ [Pd_restart c 0])"
proof -
  have "unat c < 62" using assms(2) by simp
  then have "Pd_stop c \<notin> set cs" using assms(1,3) unfolding lifecycle_inv_def by auto
  then show ?thesis
    using assms(1,2)
    by (auto simp: lifecycle_inv_def sorted_wrt_append after_stop_def gone_announced_def
        granted_restarts_def)
qed

lemma inv_resume:
  assumes "lifecycle_inv env (rs, cs)" "unat c < root_max_children"
    "bit (root_present_children env) (unat c)" "child_state (rs ! unat c) = Child_live"
    "root_restart_entry env (Root_child c) \<noteq> 0" "unat (lifetime_count (rs ! unat c)) < 64"
    "unat (lifetime_count r) = Suc (unat (lifetime_count (rs ! unat c)))" "child_state r = Child_live"
  shows "lifecycle_inv env (rs[unat c := r], cs @ [Pd_restart c (root_restart_entry env (Root_child c))])"
proof -
  have n: "Pd_stop c \<notin> set cs" using assms(1,2,4) by (auto simp: lifecycle_inv_def)
  have nth: "rs[unat c := r] ! unat d = (if d = c then r else rs ! unat d)" for d
    using assms(1,2) by (auto simp: lifecycle_inv_def nth_list_update word_unat_eq_iff)
  have g: "granted_restarts d [Pd_restart c (root_restart_entry env (Root_child c))] =
      (if d = c then 1 else 0)" for d
    using assms(5) by (simp add: granted_restarts_def)
  show ?thesis
    using assms n
    by (auto simp: lifecycle_inv_def sorted_wrt_append after_stop_def gone_announced_def nth g)
qed

definition announcement :: "root_env \<Rightarrow> u32 \<Rightarrow> root_effect list" where
  "announcement env c =
     (if root_channel_wired (env_notifications env) (root_gone_channel (Root_child c))
      then [Notify (channel_value (root_gone_channel (Root_child c)))] else [])"

lemma announcement_facts:
  "granted_restarts d (announcement env c) = 0" "Pd_stop d \<notin> set (announcement env c)"
  "Pd_restart d a \<notin> set (announcement env c)" "sorted_wrt after_stop (announcement env c)"
  "\<forall>e \<in> set (announcement env c). effect_allowed env e"
proof -
  show "\<forall>e \<in> set (announcement env c). effect_allowed env e"
  proof
    fix e
    assume "e \<in> set (announcement env c)"
    then have w: "root_channel_wired (env_notifications env) (root_gone_channel (Root_child c))"
      and e: "e = Notify (channel_value (root_gone_channel (Root_child c)))"
      by (auto simp: announcement_def split: if_splits)
    show "effect_allowed env e"
      unfolding e effect_allowed.simps root_channel.collapse using w wired_gone [OF w] by auto
  qed
qed (simp_all add: announcement_def granted_restarts_def)

lemma announced_stop:
  assumes "gone_announced env cs d" "Pd_stop c \<notin> set cs"
  shows "gone_announced env (cs @ Pd_stop c # announcement env c) d"
proof (cases "d = c")
  case True
  then show ?thesis using assms by (simp add: gone_announced_def announcement_def)
next
  case False
  then show ?thesis
    using assms(1) wired_gone_distinct [of "env_notifications env" c d]
    by (simp add: gone_announced_def announcement_def)
qed

lemma inv_stop:
  assumes "lifecycle_inv env (rs, cs)" "unat c < root_max_children"
    "bit (root_present_children env) (unat c)" "child_state (rs ! unat c) = Child_live"
  shows "lifecycle_inv env (rs[unat c := root_record_give_up (rs ! unat c)],
    cs @ Pd_stop c # announcement env c)"
proof -
  let ?rs = "rs[unat c := root_record_give_up (rs ! unat c)]"
  have n: "Pd_stop c \<notin> set cs" using assms(1,2,4) by (auto simp: lifecycle_inv_def)
  have nth: "?rs ! unat d = (if d = c then root_record_give_up (rs ! unat c) else rs ! unat d)" for d
    using assms(1,2) by (auto simp: lifecycle_inv_def nth_list_update word_unat_eq_iff)
  have g: "granted_restarts d (Pd_stop c # announcement env c) = 0" for d
    using announcement_facts(1) [of d env c] by (simp add: granted_restarts_def)
  have so: "sorted_wrt after_stop (cs @ Pd_stop c # announcement env c)"
    using assms(1) n announcement_facts
    by (auto simp: lifecycle_inv_def sorted_wrt_append after_stop_def)
  show ?thesis
    unfolding lifecycle_inv_def prod.case
  proof (intro conjI allI impI)
    show "length ?rs = 62" using assms(1) by (simp add: lifecycle_inv_def)
    show "\<forall>e \<in> set (cs @ Pd_stop c # announcement env c). effect_allowed env e"
      using assms(1-3) announcement_facts(5) [of env c] by (auto simp: lifecycle_inv_def)
    show "sorted_wrt after_stop (cs @ Pd_stop c # announcement env c)" by (rule so)
    fix d :: u32
    assume d: "unat d < 62"
    have i: "(child_state (rs ! unat d) = Child_gone) = (Pd_stop d \<in> set cs)"
      "granted_restarts d cs = unat (lifetime_count (rs ! unat d))" "granted_restarts d cs \<le> 64"
      "gone_announced env cs d"
      using assms(1) d by (auto simp: lifecycle_inv_def)
    show "(child_state (?rs ! unat d) = Child_gone) =
        (Pd_stop d \<in> set (cs @ Pd_stop c # announcement env c))"
      using i(1) announcement_facts(2) [of d env c] by (simp add: nth give_up_fields)
    show "granted_restarts d (cs @ Pd_stop c # announcement env c) = unat (lifetime_count (?rs ! unat d))"
      using i(2) g by (simp add: nth give_up_fields)
    show "granted_restarts d (cs @ Pd_stop c # announcement env c) \<le> unat control_hard_budget_max"
      using i(3) g by simp
    show "gone_announced env (cs @ Pd_stop c # announcement env c) d"
      by (rule announced_stop [OF i(4) n])
  qed
qed

lemma lifecycle_step_inv:
  "lifecycle env x y \<Longrightarrow> lifecycle_inv env x \<Longrightarrow> lifecycle_inv env y"
proof (induction rule: lifecycle.induct)
  case (decided c plan spec rs inputs cs)
  let ?r = "rs ! unat c"
  from decided(3-6) show ?case
  proof (cases rule: decision_cases [where r = ?r])
    case gone
    then show ?thesis using decided(7) by (simp add: decision_record_def decision_caps_def)
  next
    case resume
    then show ?thesis
      using inv_resume [OF decided(7,1,2), of "plan_next plan"]
      by (simp add: decision_record_def decision_caps_def)
  next
    case stop
    show ?thesis
      using inv_stop [OF decided(7,1,2) stop(1)] stop_caps [OF stop(2,3)]
      by (simp add: announcement_def)
  qed
qed (simp_all add: inv_injected)

lemma init_lifecycle:
  "rs_records (root_init env page) = replicate root_max_children root_child_record_zero"
  "caps (root_init env page) = []"
  by (simp_all add: root_init_def case_prod_unfold Let_def)

lemma init_lifecycle_inv: "lifecycle_inv env (rs_records (root_init env page), caps (root_init env page))"
  by (auto simp: init_lifecycle lifecycle_inv_def granted_restarts_def gone_announced_def
      root_child_record_zero_def)

lemma run_append: "root_run env page (xs @ [c]) = serve env c (root_run env page xs)"
  by (simp add: root_run_def)

lemma run_lifecycle_inv:
  "lifecycle_inv env (rs_records (root_run env page calls), caps (root_run env page calls))"
proof (induction calls rule: rev_induct)
  case Nil
  then show ?case by (simp add: root_run_def init_lifecycle_inv)
next
  case (snoc c calls)
  then show ?case using lifecycle_step_inv [OF serve_refines] by (simp add: run_append)
qed

section \<open>Properties\<close>

text \<open>
  C1.  Root refines the lifecycle machine: whatever call Microkit makes into Root, in whatever
  state, the child records and the capability invocations change by nothing, by one decision of
  the restart plan about one present child, or by one fault injection into a live driver.
\<close>

theorem root_refines_lifecycle:
  "lifecycle env (rs_records s, caps s) (rs_records (serve env call s), caps (serve env call s))"
  by (rule serve_refines)

text \<open>
  C21.  Capabilities stay confined: in every run, every restart and stop names a declared child that
  the image has, every restart resumes the child at its own configured entry (or at address zero,
  for a fault injection into a driver), and every notification goes out on a wired give-up channel.
\<close>

theorem root_capabilities_confined:
  "list_all (effect_allowed env) (caps (root_run env page calls))"
  using run_lifecycle_inv [of env page calls] by (simp add: lifecycle_inv_def list_all_iff)

text \<open>
  C5.  Gone is final: in every run, nothing is restarted or stopped after its stop, a child's
  record says gone exactly when Root has stopped it, and a child with a wired give-up channel is
  announced exactly once if it was stopped and never otherwise.
\<close>

theorem root_gone_final:
  fixes env page calls c
  defines "s \<equiv> root_run env page calls"
  assumes "unat c < root_max_children"
  shows "sorted_wrt after_stop (caps s) \<and>
    (child_state (rs_records s ! unat c) = Child_gone \<longleftrightarrow> Pd_stop c \<in> set (caps s)) \<and>
    count_list (caps s) (Pd_stop c) \<le> 1 \<and>
    (root_channel_wired (env_notifications env) (root_gone_channel (Root_child c)) \<longrightarrow>
     count_list (caps s) (Notify (channel_value (root_gone_channel (Root_child c)))) =
       count_list (caps s) (Pd_stop c))"
proof -
  have i: "lifecycle_inv env (rs_records s, caps s)" unfolding s_def by (rule run_lifecycle_inv)
  have once: "sorted_wrt after_stop cs \<Longrightarrow>
      count_list cs (Pd_stop c) = (if Pd_stop c \<in> set cs then 1 else 0)" for cs
    by (induction cs) (auto simp: after_stop_def count_notin)
  show ?thesis
    using i assms(2) once [of "caps s"] by (auto simp: lifecycle_inv_def gone_announced_def)
qed

text \<open>
  C6.  The restart budget is global: in every run, however many faults, debug requests and commands
  name a child, the restarts granted to it are exactly those its lifetime count records and never
  more than the hard maximum.
\<close>

theorem root_restart_budget_global:
  assumes "unat c < root_max_children"
  shows "granted_restarts c (caps (root_run env page calls)) =
      unat (lifetime_count (rs_records (root_run env page calls) ! unat c)) \<and>
    granted_restarts c (caps (root_run env page calls)) \<le> unat control_hard_budget_max"
  using run_lifecycle_inv [of env page calls] assms unfolding lifecycle_inv_def by auto

text \<open>An image as production assembles it, for the instances.\<close>

definition sample_env :: root_env where
  "sample_env =
     \<lparr>env_restart_entry = 0x200000, env_beam_reset_entry = 0x201000,
      env_present_children_mask = 47, env_status_start = control_status_root_vaddr,
      env_spec_view = control_spec_root_vaddr, env_notifications = 0x400,
      env_frequency = 62500000, env_counter = of_nat, env_test_budget = False\<rparr>"

definition blank_status_page :: root_status_page where
  "blank_status_page =
     \<lparr>pg_header = header_zero, pg_children = [], pg_events = [], pg_reserved_tail = []\<rparr>"

definition sample_fault :: root_call where
  "sample_fault = Call_fault (quiet_reads (replicate 4096 0)) 2 5 2 (\<lambda>i. of_nat i)"

theorem root_gone_final_witness:
  "sorted_wrt after_stop (caps (root_run sample_env blank_status_page (replicate 9 sample_fault)))"
  using root_gone_final [of 2 sample_env blank_status_page "replicate 9 sample_fault"] by simp

theorem root_restart_budget_global_witness:
  "granted_restarts 2 (caps (root_run sample_env blank_status_page (replicate 9 sample_fault))) \<le> 64"
  using root_restart_budget_global [of 2 sample_env blank_status_page "replicate 9 sample_fault"] by simp

end
