(* ===== verification/Root_Publishing.thy ===== *)
theory Root_Publishing
  imports Root_Lifecycle
begin

text \<open>
  Root's entry points use the status writer as \<open>Root_Status\<close> requires: events name present
  children, lifetime counts never go back, the applied bank and the desired states are in range.
  So the page is valid in every run, and along a run it only moves forward.
\<close>

section \<open>The invariant\<close>

definition published_ok ::
  "root_env \<Rightarrow> root_child_record list \<Rightarrow> root_status_state \<Rightarrow> root_status_page option \<Rightarrow> bool" where
  "published_ok env rs st pgo \<longleftrightarrow>
     (case pgo of
        None \<Rightarrow> True
      | Some pg \<Rightarrow>
          (\<exists>log. status_inv (st, log, pg)) \<and> st_present_mask st = root_present_children env \<and>
          (\<forall>i < chryso_child_count.
             row_lifetime_count (pg_children pg ! i) \<le> lifetime_count (rs ! i)))"

text \<open>The page is unmapped and stays so, or it only moves forward.\<close>

definition page_grows :: "root_status_page option \<Rightarrow> root_status_page option \<Rightarrow> bool" where
  "page_grows p q \<longleftrightarrow> (p = None \<and> q = None) \<or> (\<exists>pg pg'. p = Some pg \<and> q = Some pg' \<and> page_le pg pg')"

lemma page_grows_refl [simp]: "page_grows p p"
  by (cases p) (simp_all add: page_grows_def)

lemma page_grows_trans: "page_grows p q \<Longrightarrow> page_grows q r \<Longrightarrow> page_grows p r"
  using page_le_trans by (fastforce simp: page_grows_def)

lemma published_records:
  "published_ok env rs st pgo \<Longrightarrow>
   (\<And>i. i < chryso_child_count \<Longrightarrow> lifetime_count (rs ! i) \<le> lifetime_count (rs' ! i)) \<Longrightarrow>
   published_ok env rs' st pgo"
  by (fastforce simp: published_ok_def split: option.splits intro: order.trans)

lemma published_step:
  assumes "published_ok env rs st pgo" "st_present_mask st' = st_present_mask st"
    "\<And>log pg. st_present_mask st = root_present_children env \<Longrightarrow>
      status_step (st, log, pg) (st', log, pg)"
  shows "published_ok env rs st' pgo"
proof (cases pgo)
  case (Some pg)
  then obtain log where "status_inv (st, log, pg)" "st_present_mask st = root_present_children env"
    using assms(1) by (auto simp: published_ok_def)
  then have "status_inv (st', log, pg)"
    using status_step_inv [OF assms(3)] by blast
  then show ?thesis using assms(1,2) Some by (auto simp: published_ok_def)
qed (simp add: published_ok_def)

lemma published_fault [keeps]:
  "published_ok env rs st pgo \<Longrightarrow> published_ok env rs (root_status_note_fault st c l n a b t v) pgo"
  by (erule published_step) (simp_all add: step_fault)

lemma published_gone [keeps]:
  "published_ok env rs st pgo \<Longrightarrow> published_ok env rs (root_status_note_gone st c t v) pgo"
  by (erule published_step) (simp_all add: step_gone)

lemma published_restart [keeps]:
  "published_ok env rs st pgo \<Longrightarrow> published_ok env rs (root_status_note_restart st c t v br) pgo"
  by (erule published_step) (simp_all add: step_restart)

lemma published_policy [keeps]:
  assumes "published_ok env rs st pgo" "bank \<le> 1"
    "\<And>i. i < chryso_child_count \<Longrightarrow> desired ! i = desired_running \<or> desired ! i = desired_stopped"
  shows "published_ok env rs (root_status_note_policy st g bank budget desired) pgo"
  by (rule published_step [OF assms(1)], simp, rule step_policy [OF assms(2)])
    (simp add: assms(3))

lemma published_clear [keeps]:
  assumes "published_ok env rs st pgo"
  shows "published_ok env rs (st\<lparr>st_exhausted := False\<rparr>) pgo"
    and "published_ok env rs (st\<lparr>st_misused := False\<rparr>) pgo"
proof -
  have "status_inv (st\<lparr>st_exhausted := False\<rparr>, log, pg) \<and> status_inv (st\<lparr>st_misused := False\<rparr>, log, pg)"
    if "status_inv (st, log, pg)" for log pg
    using that status_ok_note [of st log pg "st\<lparr>st_exhausted := False\<rparr>"]
      status_ok_note [of st log pg "st\<lparr>st_misused := False\<rparr>"]
    by (auto simp: status_inv_def status_ok_def status_state_ok_def ahead_def)
  then show "published_ok env rs (st\<lparr>st_exhausted := False\<rparr>) pgo"
    "published_ok env rs (st\<lparr>st_misused := False\<rparr>) pgo"
    using assms by (auto simp: published_ok_def split: option.splits)
qed

text \<open>One publication by Root: of a present child, its current record, and valid events.\<close>

lemma published_publish:
  assumes "published_ok env rs st pgo" "c < chryso_child_count" "\<forall>e \<in> set evs. event_ok st e"
    "root_status_publish st pgo c (Some (rs ! c)) now v (Some evs) (length evs) = (b, st', pgo')"
  shows "published_ok env rs st' pgo' \<and> page_grows pgo pgo'"
proof (cases pgo)
  case None
  then show ?thesis
    using assms(4) by (auto simp: root_status_publish_def published_ok_def page_grows_def)
next
  case (Some pg)
  then obtain log where i: "status_inv (st, log, pg)" and m: "st_present_mask st = root_present_children env"
    and life: "\<forall>i < 62. row_lifetime_count (pg_children pg ! i) \<le> lifetime_count (rs ! i)"
    using assms(1) by (auto simp: published_ok_def)
  have ok: "status_ok st log pg" using i by (simp add: status_inv_def)
  from publish_ok [OF ok assms(4) [unfolded Some] assms(3)] obtain pg' where
    pg': "pgo' = Some pg'" "st_present_mask st' = st_present_mask st" by blast
  have "status_step (st, log, pg) (st', if b then log @ evs else log, pg')"
    by (rule step_publish [where rec = "Some (rs ! c)"])
      (use assms life pg' Some in auto)
  from status_step_inv [OF this i] have "status_inv (st', if b then log @ evs else log, pg')"
    and le: "page_le pg pg'" by simp_all
  moreover have "\<forall>i < 62. row_lifetime_count (pg_children pg' ! i) \<le> lifetime_count (rs ! i)"
    using assms(4) [unfolded Some pg'(1)]
  proof (cases rule: publish_cases)
    case refused
    then show ?thesis using life by simp
  next
    case (published st1 pg1)
    have len: "length (pg_children (set_seq (st_seq st + 1) pg)) = 62"
      using ok by (simp add: status_ok_def status_page_ok_def set_seq_def)
    show ?thesis
      using publish_payload_rows [OF published(7) len] published(9) life
      by (auto simp: set_seq_def)
  qed
  ultimately show ?thesis
    using pg' m Some by (auto simp: published_ok_def page_grows_def)
qed

definition publishing :: "root_env \<Rightarrow> root_state \<Rightarrow> bool" where
  "publishing env s \<longleftrightarrow>
     published_ok env (rs_records s) (rs_status s) (rs_status_page s) \<and>
     sp_bank (ss_retained (rs_spec s)) \<le> 1 \<and> length (rs_records s) = root_max_children"

text \<open>The events Root builds are valid for its image.\<close>

definition image_event :: "root_env \<Rightarrow> root_event \<Rightarrow> bool" where
  "image_event env e \<longleftrightarrow>
     (\<forall>st. st_present_mask st = root_present_children env \<longrightarrow> event_ok st e)"

lemma publish_publishing:
  assumes "publishing env s" "unat (child_value c) < root_max_children" "\<forall>e \<in> set es. image_event env e"
  shows "publishing env (root_publish env c es s) \<and>
    page_grows (rs_status_page s) (rs_status_page (root_publish env c es s))"
proof -
  let ?i = "unat (child_value c)"
  define s1 where "s1 = (if rs_status_page s \<noteq> None \<and> st_enabled (rs_status s) then
      (case root_status_ticks env s of (now, s) \<Rightarrow>
       case root_status_publish (rs_status s) (rs_status_page s) ?i (Some (rs_records s ! ?i)) now
              (clock_available (rs_clock s)) (Some es) (length es) of
         (_, st, page) \<Rightarrow> s\<lparr>rs_status := st, rs_status_page := page\<rparr>)
      else s)"
  have p: "published_ok env (rs_records s) (rs_status s) (rs_status_page s)"
    using assms(1) by (simp add: publishing_def)
  have 1: "published_ok env (rs_records s) (rs_status s1) (rs_status_page s1) \<and>
      page_grows (rs_status_page s) (rs_status_page s1)"
  proof (cases "rs_status_page s \<noteq> None \<and> st_enabled (rs_status s)")
    case True
    obtain b st page where r: "root_status_publish (rs_status s) (rs_status_page s) ?i
        (Some (rs_records s ! ?i)) (fst (root_status_ticks env s)) (clock_available (rs_clock s))
        (Some es) (length es) = (b, st, page)" by (metis prod_cases3)
    have "st_present_mask (rs_status s) = root_present_children env"
      using p True by (auto simp: published_ok_def)
    then have "\<forall>e \<in> set es. event_ok (rs_status s) e" using assms(3) by (simp add: image_event_def)
    from published_publish [OF p assms(2) this r] show ?thesis
      using True r by (simp add: s1_def case_prod_unfold)
  qed (use p in \<open>auto simp: s1_def\<close>)
  have 2: "rs_records s1 = rs_records s" "rs_spec s1 = rs_spec s"
    by (simp_all add: s1_def case_prod_unfold)
  show ?thesis
    unfolding root_publish_def s1_def [symmetric] Let_def
    using 1 2 assms(1) by (auto simp: publishing_def published_clear)
qed

section \<open>The events Root builds\<close>

lemma small_child:
  assumes "bit (root_present_children env) (unat c)"
  shows "unat (ucast c :: u8) = unat (c :: u32)"
  using present_known [OF assms] by (intro unat_ucast_down) simp

lemma image_event_outcome:
  assumes "bit (root_present_children env) (unat (child_value c))" "action \<noteq> Restart_ignore_gone"
  shows "image_event env (root_status_outcome s c action)"
  using assms small_child [OF assms(1)] present_known [OF assms(1)]
  by (cases action)
    (simp_all add: image_event_def event_ok_def root_status_outcome_def Let_def event_kind_ok_def
      event_detail_ok_def flags_implies_small)

lemma image_event_control:
  fixes c :: u32
  assumes "bit (root_present_children env) (unat c)" "d = 1 \<or> d = 2"
  shows "image_event env \<lparr>ev_ticks = t, ev_kind = event_kind_control, ev_child = ucast c,
    ev_flags = 0, ev_detail = d, ev_a = a, ev_b = b\<rparr>"
  using assms small_child [OF assms(1)] present_known [OF assms(1)]
  by (auto simp: image_event_def event_ok_def event_kind_ok_def event_detail_ok_def flags_implies_small)

lemma fault_flag_cases:
  "(if n \<ge> 1 then chryso_fault_mr0_valid else 0) OR (if n \<ge> 2 then chryso_fault_mr1_valid else 0) \<in>
     {0, 1, 3}" for n :: u64
proof (cases "2 \<le> n")
  case True
  then have "1 \<le> n" by (simp add: word_le_nat_alt)
  then show ?thesis using True by simp
qed simp

lemma image_event_fault:
  fixes c :: u32
  assumes "bit (root_present_children env) (unat c)" "f \<in> {0, 1, 3}"
  shows "image_event env \<lparr>ev_ticks = t, ev_kind = event_kind_fault, ev_child = ucast c,
    ev_flags = f, ev_detail = d, ev_a = a, ev_b = b\<rparr>"
  using assms small_child [OF assms(1)] present_known [OF assms(1)]
  by (auto simp: image_event_def event_ok_def event_kind_ok_def event_detail_ok_def flags_implies_small)

lemma record_reason: "sr_record (fst (consume_page st shared m)) \<Longrightarrow>
   sr_reason (fst (consume_page st shared m)) \<noteq> Reject_unset"
  by (auto simp: consume_page_eq finish_def Let_def split: prod.splits if_splits)

lemma image_event_spec:
  assumes "e \<in> set (fst (spec_events env (fst (refreshed env rd s0)) s))"
  shows "image_event env e"
proof -
  have r: "sr_record (fst (refreshed env rd s0))"
    and e: "ev_kind e = 9" "ev_child e = 255" "ev_flags e = 0"
      "ev_detail e = spec_reject_wire (sr_reason (fst (refreshed env rd s0)))"
    using assms
    by (auto simp: spec_events_def root_spec_event_def case_prod_unfold split: if_splits)
  have "sr_reason (fst (refreshed env rd s0)) \<noteq> Reject_unset"
    using record_reason r by (simp add: refreshed_def)
  then have "1 \<le> ev_detail e \<and> ev_detail e \<le> 8"
    by (cases "sr_reason (fst (refreshed env rd s0))") (simp_all add: e)
  then show ?thesis
    by (simp add: image_event_def event_ok_def event_kind_ok_def event_detail_ok_def e
        flags_implies_small)
qed

section \<open>Every handler keeps the invariant\<close>

lemma consume_bank:
  assumes "sp_bank (ss_retained st) \<le> 1"
  shows "sp_bank (ss_retained (snd (consume_page st shared m))) \<le> 1"
  unfolding consume_retained
proof (rule page_policy_cases [of "ss_retained st" shared m])
  fix rd bank
  assume a: "bank_acceptable (pr_copy rd) bank m"
    "page_policy (ss_retained st) shared m = bank_policy (bank_bytes (pr_copy rd) bank) bank"
  have "bank < 2" using a(1) bank_ok_seq by (auto simp: bank_acceptable_def)
  then have "bank = 0 \<or> bank = 1" by auto
  then show "sp_bank (page_policy (ss_retained st) shared m) \<le> 1"
    unfolding a(2) bank_policy_def by (elim disjE) simp_all
qed (use assms in simp)

lemma spec_desired_range:
  "root_spec_desired st c m = desired_running \<or> root_spec_desired st c m = desired_stopped"
  by (simp add: root_spec_desired_def)

lemma refresh_publishing:
  assumes "publishing env s"
  shows "publishing env (snd (root_spec_refresh env rd s))"
proof -
  have b: "sp_bank (ss_retained (snd (refreshed env rd s))) \<le> 1"
    using consume_bank assms by (simp add: refreshed_def publishing_def)
  have d: "snd (root_status_policy env s') ! i = desired_running \<or>
      snd (root_status_policy env s') ! i = desired_stopped" if "i < 62" for s' i
    using that spec_desired_range by (simp add: root_status_policy_def)
  have "\<exists>g bk bu de. rs_status (snd (root_spec_refresh env rd s)) = rs_status s \<or>
      rs_status (snd (root_spec_refresh env rd s)) =
        root_status_note_policy (rs_status s) g bk bu de \<and>
      bk = sp_bank (ss_retained (snd (refreshed env rd s))) \<and>
      (\<exists>s'. de = snd (root_status_policy env s'))"
    unfolding root_spec_refresh_def refreshed_def case_prod_unfold Let_def by auto
  then show ?thesis
    using assms b published_policy [OF _ b d] by (auto simp: publishing_def)
qed

lemma giveup_status:
  "\<exists>t v. rs_status (root_giveup env c q s) =
    root_status_note_gone (rs_status s) (unat (child_value c)) t v"
  by (simp add: root_giveup_def case_prod_unfold Let_def) blast

lemma resume_status:
  "\<exists>t v br. rs_status (resume_child env c q r e s) =
    root_status_note_restart (rs_status s) (unat (child_value c)) t v br"
  by (simp add: resume_child_def case_prod_unfold Let_def) blast

lemma giveup_publishing:
  assumes "publishing env s"
  shows "publishing env (root_giveup env c q s)"
proof -
  obtain t v where st: "rs_status (root_giveup env c q s) =
      root_status_note_gone (rs_status s) (unat (child_value c)) t v"
    using giveup_status by blast
  have "published_ok env (rs_records (root_giveup env c q s)) (rs_status s) (rs_status_page s)"
    using assms by (auto simp: publishing_def nth_list_update_if root_record_give_up_def
        elim!: published_records)
  then show ?thesis using assms by (simp add: publishing_def st published_gone)
qed

lemma resume_publishing:
  assumes "publishing env s" "lifetime_count (rs_records s ! unat (child_value c)) \<le> lifetime_count r"
  shows "publishing env (resume_child env c q r e s)"
proof -
  obtain t v br where st: "rs_status (resume_child env c q r e s) =
      root_status_note_restart (rs_status s) (unat (child_value c)) t v br"
    using resume_status by blast
  have "published_ok env (rs_records (resume_child env c q r e s)) (rs_status s) (rs_status_page s)"
    using assms by (auto simp: publishing_def nth_list_update_if elim!: published_records)
  then show ?thesis using assms by (simp add: publishing_def st published_restart)
qed

lemma publishing_cong:
  assumes "publishing env s" "rs_records s' = rs_records s" "rs_status s' = rs_status s"
    "rs_status_page s' = rs_status_page s" "rs_spec s' = rs_spec s"
  shows "publishing env s'"
  using assms by (simp add: publishing_def)

lemma planned_publishing: "publishing env s \<Longrightarrow> publishing env (planned env rd c s)"
  by (rule publishing_cong [OF refresh_publishing]) simp_all

lemma restart_child_publishing:
  assumes "publishing env s"
  shows "publishing env (snd (snd (root_restart_child env rd c q s)))"
proof -
  note p = planned_publishing [OF assms, of rd c]
  have "lifetime_count (rs_records s ! unat (child_value c)) \<le>
      lifetime_count (plan_next (plan_of env rd c s))"
    if "plan_action (plan_of env rd c s) = Restart_resume"
    using plan_resume_count [OF that [unfolded plan_of_def]] by (simp add: plan_of_def word_le_nat_alt)
  then show ?thesis
    using p giveup_publishing [OF p] resume_publishing [OF p]
      publishing_cong [OF p, of "root_log_ignored c q (planned env rd c s)"]
    by (simp add: root_restart_child_eq split: root_restart_action.split)
qed

lemma notified_publishing:
  assumes "publishing env s"
  shows "publishing env (notified env rd ch s) \<and>
    page_grows (rs_status_page s) (rs_status_page (notified env rd ch s))"
proof (cases "root_notify_route (Root_channel ch) root_channels")
  case (Notify_debug_restart i)
  define c where "c = root_class_child ! i"
  have i: "i < 4" using route_class Notify_debug_restart by blast
  then have c: "unat (child_value c) < 62" "bit (root_present_children env) (unat (child_value c))"
    using present_base [of i env] by (simp_all add: c_def class_child unat_small)
  define s1 where "s1 = snd (snd (root_restart_child env rd c ''debug-restart'' s))"
  define s2 where "s2 = snd (spec_events env (fst (refreshed env rd s)) s1)"
  have s2: "publishing env s2" "rs_status_page s2 = rs_status_page s"
    using publishing_cong [OF restart_child_publishing [OF assms], of s2]
    by (simp_all add: s2_def s1_def)
  define es where "es = fst (spec_events env (fst (refreshed env rd s)) s1) @
    (if plan_action (plan_of env rd c s) \<noteq> Restart_ignore_gone
     then [root_status_outcome s2 c (plan_action (plan_of env rd c s))] else [])"
  have es: "\<forall>e \<in> set es. image_event env e"
    using image_event_spec [of _ env rd s s1] image_event_outcome [OF c(2)] by (auto simp: es_def)
  have "notified env rd ch s = root_publish env c es s2"
    by (simp add: notified_def Notify_debug_restart Let_def case_prod_unfold c_def [symmetric]
        s1_def [symmetric] s2_def [symmetric] es_def)
  then show ?thesis using publish_publishing [OF s2(1) c(1) es] s2(2) by simp
next
  case (Notify_fault_inject i)
  define c where "c = root_class_child ! i"
  have i: "i < 4" using route_class Notify_fault_inject by blast
  then have c: "unat (child_value c) < 62" "bit (root_present_children env) (unat (child_value c))"
    using present_base [of i env] by (simp_all add: c_def class_child unat_small)
  show ?thesis
  proof (cases "child_state (rs_records s ! unat (child_value c)) = Child_gone")
    case True
    then show ?thesis
      using publishing_cong [OF assms, of "root_log_ignored c ''fault-inject'' s"]
      by (simp add: notified_def Notify_fault_inject Let_def c_def [symmetric])
  next
    case False
    define s1 where "s1 = snd (root_status_ticks env (emit (Pd_restart (child_value c) 0)
      (puts ''\<newline>'' (put_dec (child_value c) (puts ''ROOT|fault-inject|child='' s)))))"
    have s1: "publishing env s1" "rs_status_page s1 = rs_status_page s"
      using publishing_cong [OF assms, of s1] by (simp_all add: s1_def)
    then show ?thesis
      using False publish_publishing [OF s1(1) c(1), of "[_]"] image_event_control [OF c(2)]
      by (simp add: notified_def Notify_fault_inject Let_def case_prod_unfold c_def [symmetric]
          s1_def [symmetric])
  qed
next
  case Notify_unexpected
  then show ?thesis
    using publishing_cong [OF assms, of "notified env rd ch s"] by (simp add: notified_def Let_def)
qed

lemma fault_child_publishing:
  assumes "publishing env s" "unat (child_value c) < root_max_children"
    "bit (root_present_children env) (unat (child_value c))"
  shows "publishing env (fault_child env rd c l n mr s) \<and>
    page_grows (rs_status_page s) (rs_status_page (fault_child env rd c l n mr s))"
proof -
  define t where "t = fst (root_status_ticks env s)"
  define s0 where "s0 = (snd (root_status_ticks env s))\<lparr>rs_status :=
    root_status_note_fault (rs_status s) (unat (child_value c)) l (unat n)
      (if n \<ge> 1 then mr 0 else 0) (if n \<ge> 2 then mr 1 else 0) t (clock_available (rs_clock s))\<rparr>"
  have s0: "publishing env s0"
    using assms(1) by (simp add: publishing_def s0_def published_fault)
  define s1 where "s1 = snd (snd (root_restart_child env rd c ''restart'' s0))"
  define s2 where "s2 = snd (spec_events env (fst (refreshed env rd s0)) s1)"
  have s2: "publishing env s2" "rs_status_page s2 = rs_status_page s"
    using publishing_cong [OF restart_child_publishing [OF s0], of s2]
    by (simp_all add: s2_def s1_def) (simp add: s0_def)
  define es where "es = \<lparr>ev_ticks = t, ev_kind = event_kind_fault, ev_child = ucast (child_value c),
      ev_flags = (if n \<ge> 1 then chryso_fault_mr0_valid else 0) OR
                 (if n \<ge> 2 then chryso_fault_mr1_valid else 0),
      ev_detail = (if l \<le> ucast UINT32_MAX then ucast l else 0),
      ev_a = (if n \<ge> 1 then mr 0 else 0), ev_b = (if n \<ge> 2 then mr 1 else 0)\<rparr> #
    fst (spec_events env (fst (refreshed env rd s0)) s1) @
    (if plan_action (plan_of env rd c s0) \<noteq> Restart_ignore_gone
     then [root_status_outcome s2 c (plan_action (plan_of env rd c s0))] else [])"
  have es: "\<forall>e \<in> set es. image_event env e"
    using image_event_spec [of _ env rd s0 s1] image_event_outcome [OF assms(3)]
      image_event_fault [OF assms(3) fault_flag_cases]
    unfolding es_def by (simp del: One_nat_def) blast
  have "fault_child env rd c l n mr s = root_publish env c es s2"
    unfolding fault_child_def Let_def case_prod_unfold es_def s2_def s1_def s0_def t_def
    by (simp only: status_ticks_frame restart_child_frame fst_conv snd_conv)
  then show ?thesis using publish_publishing [OF s2(1) assms(2) es] s2(2) by simp
qed

lemma fault_publishing:
  assumes "publishing env s"
  shows "publishing env (fault env rd raw l n mr s) \<and>
    page_grows (rs_status_page s) (rs_status_page (fault env rd raw l n mr s))"
proof (cases "root_child_from_raw raw root_max_children (root_present_children env)")
  case None
  then show ?thesis
    using publishing_cong [OF assms, of "fault env rd raw l n mr s"] by (simp add: fault_def Let_def)
next
  case (Some c)
  then have c: "unat (child_value c) < 62" "bit (root_present_children env) (unat (child_value c))"
    by (simp_all add: root_child_from_raw_iff)
  have "publishing env (fault_log raw l n mr s)"
    by (rule publishing_cong [OF assms]) simp_all
  from fault_child_publishing [OF this c] show ?thesis by (simp add: fault_def Let_def Some)
qed

text \<open>What \<open>protected\<close> did: refuse the frame, answer without acting, or restart a child.\<close>

lemma protected_cases:
  obtains (framed) r cmd where "protected env rd ch l n mr s = (r, s\<lparr>rs_command := cmd\<rparr>)"
      "fst r \<noteq> ctl_result_wire Ctl_ok"
  | (answered) d s1 where "cd_action d = Command_none"
      "(d, s1) = decide_command env l mr
         (s\<lparr>rs_command := snd (root_command_frame (rs_command s) ch control_pp_channel_root l n)\<rparr>)"
      "protected env rd ch l n mr s = (root_command_reply (cd_result d) (cd_values d), s1)"
  | (restarted) d s1 d' s2 where "cd_action d = Command_restart"
      "(d, s1) = decide_command env l mr
         (s\<lparr>rs_command := snd (root_command_frame (rs_command s) ch control_pp_channel_root l n)\<rparr>)"
      "(d', s2) = root_command_restart_child env rd d s1"
      "protected env rd ch l n mr s = (root_command_reply (cd_result d') (cd_values d'), s2)"
proof -
  let ?f = "root_command_frame (rs_command s) ch control_pp_channel_root l n"
  obtain d s1 where d: "decide_command env l mr (s\<lparr>rs_command := snd ?f\<rparr>) = (d, s1)" by (metis surj_pair)
  obtain d' s2 where d': "root_command_restart_child env rd d s1 = (d', s2)" by (metis surj_pair)
  show ?thesis
  proof (cases "fst ?f = Ctl_ok")
    case False
    have w: "ctl_result_wire r \<noteq> ctl_result_wire Ctl_ok" if "r \<noteq> Ctl_ok" for r
      using that by (cases r) simp_all
    show ?thesis
      by (rule framed [of "root_command_reply (fst ?f) (replicate root_command_words 0)" "snd ?f"])
        (use False w in \<open>simp_all add: protected_def case_prod_unfold Let_def root_command_reply_def\<close>)
  next
    case True
    then show ?thesis
      using answered [of d s1] restarted [of d s1 d' s2] d d'
      by (cases "cd_action d") (simp_all add: protected_def case_prod_unfold Let_def)
  qed
qed

lemma decide_command_guard:
  assumes "(d, s1) = decide_command env l mr s" "cd_action d = Command_restart"
  obtains c where "cd_child d = Root_child c" "unat c < 4" "bit (root_present_children env) (unat c)"
    "cd_result d = Ctl_ok" "ucast l = pp_opcode_restart_child"
    "child_state (rs_records s ! unat c) = Child_live" "rs_status_page s \<noteq> None"
    "st_enabled (rs_status s)" "mr 0 = ucast c" "mr 1 = st_root_generation (rs_status s)"
    "mr 2 = st_seq (rs_status s)" "mr 3 = ucast (lifetime_count (rs_records s ! unat c))"
    "cd_args d = map mr [0..<root_command_words]" "cd_opcode d = pp_opcode_restart_child"
proof -
  let ?v = "command_view env s"
  have d: "d = fst (root_command_decide (rs_command s) ?v (ucast l) (map mr [0..<4])
      (fst (root_status_ticks env s)) (clock_available (rs_clock s)))"
    using assms(1) by (simp add: decide_command_def case_prod_unfold Let_def)
  from decide_guarded [of "rs_command s" ?v "ucast l" "map mr [0..<4]"
      "fst (root_status_ticks env s)" "clock_available (rs_clock s)"] assms(2) obtain c where
    c: "cd_result d = Ctl_ok" "ucast l = pp_opcode_restart_child" "cd_child d = Root_child c"
      "map mr [0..<4] ! 0 = ucast c" "bit (root_present_children env) (unat c)"
      "bit root_driver_children (unat c)" "child_state (rs_records s ! unat c) \<noteq> Child_gone"
      "rs_status_page s \<noteq> None \<and> st_enabled (rs_status s)"
      "map mr [0..<4] ! 1 = st_root_generation (rs_status s)"
      "map mr [0..<4] ! 2 = st_seq (rs_status s)"
      "map mr [0..<4] ! 3 = ucast (lifetime_count (rs_records s ! unat c))"
    unfolding d [symmetric] by (auto simp: command_view_def)
  have "unat c < 4"
    using c(6) bit_mask_iff [where 'a = u64, of 4 "unat c"] by (simp add: mask_eq_exp_minus_1)
  moreover have "child_state (rs_records s ! unat c) = Child_live"
    using c(7) by (cases "child_state (rs_records s ! unat c)") simp_all
  moreover have "cd_args d = map mr [0..<4]" "cd_opcode d = pp_opcode_restart_child"
    using decide_action(3) [OF assms(2) [unfolded d]] c(2)
    by (auto simp: d decide_restart_def decision_zero_def Let_def split: option.splits)
  moreover have "mr 0 = ucast c" "mr 1 = st_root_generation (rs_status s)"
    "mr 2 = st_seq (rs_status s)" "mr 3 = ucast (lifetime_count (rs_records s ! unat c))"
    using c(4,9,10,11) by (simp_all add: eval_nat_numeral upt_rec)
  ultimately show ?thesis using that c by blast
qed

lemma command_restart_publishing:
  assumes "publishing env s" "cd_child d = Root_child c" "unat c < 4"
  shows "publishing env (snd (root_command_restart_child env rd d s)) \<and>
    page_grows (rs_status_page s) (rs_status_page (snd (root_command_restart_child env rd d s)))"
proof -
  define s0 where "s0 = commanded env s"
  have s0: "publishing env s0" using publishing_cong [OF assms(1), of s0] by (simp add: s0_def)
  have c: "unat (child_value (Root_child c)) < root_max_children"
    "bit (root_present_children env) (unat (child_value (Root_child c)))"
    using assms(3) by simp_all
  define s1 where "s1 = snd (snd (root_restart_child env rd (Root_child c) ''ctl-restart'' s0))"
  define s2 where "s2 = snd (spec_events env (fst (refreshed env rd s0)) s1)"
  have s1: "publishing env s1" by (simp add: s1_def restart_child_publishing [OF s0])
  have s2: "publishing env s2" "rs_status_page s2 = rs_status_page s"
    using publishing_cong [OF s1, of s2] by (simp_all add: s2_def s1_def s0_def)
  let ?action = "plan_action (plan_of env rd (Root_child c) s0)"
  define es where "es = \<lparr>ev_ticks = fst (root_status_ticks env s), ev_kind = event_kind_control,
      ev_child = ucast c, ev_flags = 0, ev_detail = control_kind_restart_child,
      ev_a = cd_args d ! 2, ev_b = 0\<rparr> #
    fst (spec_events env (fst (refreshed env rd s0)) s1) @ [root_status_outcome s2 (Root_child c) ?action]"
  show ?thesis
  proof (cases "?action = Restart_ignore_gone")
    case True
    then have "snd (root_command_restart_child env rd d s) = s1"
      by (simp add: root_command_restart_child_def case_prod_unfold Let_def assms(2)
          commanded_def [symmetric] s0_def [symmetric] s1_def)
    then show ?thesis using s1 by (simp add: s1_def s0_def)
  next
    case False
    have es: "\<forall>e \<in> set es. image_event env e"
      using image_event_spec [of _ env rd s0 s1] image_event_outcome [OF c(2) False]
        image_event_control [of env c 2] c(2) by (auto simp: es_def)
    obtain cmd where "snd (root_command_restart_child env rd d s) =
        (root_publish env (Root_child c) es s2)\<lparr>rs_command := cmd\<rparr>"
      using False
      by (simp add: root_command_restart_child_def case_prod_unfold Let_def assms(2)
          commanded_def [symmetric] s0_def [symmetric] s1_def [symmetric] s2_def [symmetric] es_def)
    then show ?thesis
      using publish_publishing [OF s2(1) c(1) es] s2(2) by (simp add: publishing_def)
  qed
qed

lemma protected_publishing:
  assumes "publishing env s"
  shows "publishing env (snd (protected env rd ch l n mr s)) \<and>
    page_grows (rs_status_page s) (rs_status_page (snd (protected env rd ch l n mr s)))"
proof (cases rule: protected_cases [of env rd ch l n mr s])
  case (framed r cmd)
  then show ?thesis using publishing_cong [OF assms, of "s\<lparr>rs_command := cmd\<rparr>"] by simp
next
  case (answered d s1)
  then have "s1 = snd (decide_command env l mr (s\<lparr>rs_command :=
      snd (root_command_frame (rs_command s) ch control_pp_channel_root l n)\<rparr>))"
    by (metis snd_conv)
  then show ?thesis
    using publishing_cong [OF assms, of s1] answered(3) by simp
next
  case (restarted d s1 d' s2)
  then have s1: "s1 = snd (decide_command env l mr (s\<lparr>rs_command :=
      snd (root_command_frame (rs_command s) ch control_pp_channel_root l n)\<rparr>))"
    by (metis snd_conv)
  have p: "publishing env s1" "rs_status_page s1 = rs_status_page s"
    using publishing_cong [OF assms, of s1] by (simp_all add: s1)
  obtain c where c: "cd_child d = Root_child c" "unat c < 4"
    by (rule decide_command_guard [OF restarted(2,1)])
  have "s2 = snd (root_command_restart_child env rd d s1)" using restarted(3) by (metis snd_conv)
  then show ?thesis
    using command_restart_publishing [OF p(1) c] p(2) restarted(4) by simp
qed

lemma serve_publishing:
  "publishing env s \<Longrightarrow> publishing env (serve env call s) \<and>
   page_grows (rs_status_page s) (rs_status_page (serve env call s))"
  by (cases call) (simp_all add: notified_publishing protected_publishing fault_publishing)

lemma init_publishing: "publishing env (root_init env page)"
proof -
  obtain now freq budget pgo where
    st: "rs_status (root_init env page) = fst (root_status_init pgo (root_present_children env) now freq budget)"
    "rs_status_page (root_init env page) = snd (root_status_init pgo (root_present_children env) now freq budget)"
    by (simp add: root_init_def case_prod_unfold Let_def)
  have sp: "rs_spec (root_init env page) = root_spec_init"
    by (simp add: root_init_def case_prod_unfold Let_def)
  have "published_ok env (replicate 62 root_child_record_zero) (rs_status (root_init env page))
      (rs_status_page (root_init env page))"
  proof (cases pgo)
    case None
    then show ?thesis by (simp add: st published_ok_def root_status_init_def Let_def)
  next
    case (Some pg0)
    obtain s p where i: "root_status_init (Some pg0) (root_present_children env) now freq budget = (s, p)"
      by (metis surj_pair)
    note f = init_fields [OF i]
    obtain pg where pg: "p = Some pg" "\<forall>i < 62. row_lifetime_count (pg_children pg ! i) = 0"
      using f(11) by (auto simp: row_zero_def)
    have "status_inv (s, [pg_events pg ! 0], pg)"
      by (rule status_init_inv, rule status_init.intros) (use i pg in simp)
    then show ?thesis using f(1) pg by (auto simp: st Some i published_ok_def)
  qed
  then show ?thesis
    by (simp add: publishing_def init_lifecycle sp root_spec_init_def root_spec_policy_zero_def)
qed

lemma run_publishing:
  "publishing env (root_run env page calls)"
proof (induction calls rule: rev_induct)
  case Nil
  then show ?case by (simp add: root_run_def init_publishing)
next
  case (snoc c calls)
  then show ?case using serve_publishing by (simp add: run_append)
qed

lemma run_page_grows:
  "page_grows (rs_status_page (root_run env page calls)) (rs_status_page (root_run env page (calls @ later)))"
proof (induction later rule: rev_induct)
  case (snoc c later)
  then show ?case
    using serve_publishing [OF run_publishing [of env page "calls @ later"], of c] page_grows_trans
    by (metis run_append append_assoc)
qed simp

section \<open>Properties\<close>


text \<open>
  C22.  Commands without authority have no effect: when a call to \<open>protected\<close> is answered with
  anything but ok, Root has touched no capability, no child record, no policy and no published
  byte.
\<close>

theorem root_command_refused_inert:
  assumes "protected env rd ch l n mr s = ((result, values), s')" "result \<noteq> ctl_result_wire Ctl_ok"
  shows "caps s' = caps s \<and> rs_records s' = rs_records s \<and> rs_status s' = rs_status s \<and>
    rs_status_page s' = rs_status_page s \<and> rs_spec s' = rs_spec s"
proof (cases rule: protected_cases [of env rd ch l n mr s])
  case (framed r cmd)
  then show ?thesis using assms(1) by auto
next
  case (answered d s1)
  let ?s = "s\<lparr>rs_command := snd (root_command_frame (rs_command s) ch control_pp_channel_root l n)\<rparr>"
  have "s' = s1" using assms(1) answered(3) by simp
  also have "s1 = snd (decide_command env l mr ?s)" using answered(2) by (metis snd_conv)
  finally show ?thesis by simp
next
  case (restarted d s1 d' s2)
  let ?s = "s\<lparr>rs_command := snd (root_command_frame (rs_command s) ch control_pp_channel_root l n)\<rparr>"
  have s1: "s1 = snd (decide_command env l mr ?s)" using restarted(2) by (metis snd_conv)
  obtain c where c: "cd_child d = Root_child c" "cd_result d = Ctl_ok"
    "child_state (rs_records s ! unat c) = Child_live"
    using decide_command_guard [OF restarted(2,1)] by auto
  have "plan_action (plan_of env rd (Root_child c) (commanded env s1)) \<noteq> Restart_ignore_gone"
    unfolding plan_of_def by (rule plan_not_ignored) (simp add: c(3) s1)
  then have "cd_result d' = Ctl_ok"
    using restarted(3) c
    by (simp add: root_command_restart_child_def case_prod_unfold Let_def commanded_def [symmetric])
  then show ?thesis
    using assms restarted(4) by (simp add: root_command_reply_def)
qed

theorem root_command_refused_inert_witness:
  "caps (snd (protected sample_env (quiet_reads []) 9 2 4 (\<lambda>i. 0) root_state_zero)) = []"
  using root_command_refused_inert [of sample_env "quiet_reads []" 9 2 4 "\<lambda>i. 0" root_state_zero 2
      "replicate 4 0" "snd (protected sample_env (quiet_reads []) 9 2 4 (\<lambda>i. 0) root_state_zero)"]
  by (simp add: protected_def root_command_frame_def root_command_reply_def Let_def)

section \<open>Commands are used up\<close>

text \<open>Publication, once off, stays off.\<close>

definition turned_on :: "root_state \<Rightarrow> bool" where
  "turned_on s \<longleftrightarrow> rs_status_page s \<noteq> None \<and> st_enabled (rs_status s)"

lemma publish_enabled:
  "root_status_publish st p c r t v es n = (b, st', p') \<Longrightarrow>
   (st_enabled st' \<longrightarrow> st_enabled st) \<and> (p' \<noteq> None \<longrightarrow> p \<noteq> None) \<and>
   (p \<noteq> None \<and> st_enabled st' \<longrightarrow> b \<and> st_seq st < st_seq st')"
proof (cases p)
  case (Some pg)
  assume r: "root_status_publish st p c r t v es n = (b, st', p')"
  then have r: "root_status_publish st (Some pg) c r t v es n = (b, st', p')" by (simp add: Some)
  from r show ?thesis
  proof (cases rule: publish_cases)
    case refused
    then show ?thesis
      using r Some by (auto simp: root_status_publish_def Let_def simp del: present_mask
          split: if_splits prod.splits)
  next
    case (published st1 pg1)
    have "st_seq st1 = st_seq st" using publish_payload_seq [OF published(7)] .
    moreover have "st_seq st < st_seq st + 2"
    proof -
      have "unat (st_seq st) \<le> unat (UINT64_MAX - 2 :: u64)"
        using published(5) by (simp add: word_less_nat_alt)
      then have "unat (st_seq st + 2) = unat (st_seq st) + 2" by (subst unat_add_fits) simp_all
      then show ?thesis by (simp add: word_less_nat_alt)
    qed
    ultimately show ?thesis using published Some by simp
  qed
qed (simp add: root_status_publish_def)

lemma publish_turned_on:
  assumes "turned_on (root_publish env c es s)"
  shows "turned_on s \<and> st_seq (rs_status s) < st_seq (rs_status (root_publish env c es s))"
proof (cases "rs_status_page s \<noteq> None \<and> st_enabled (rs_status s)")
  case False
  then show ?thesis
    using assms by (auto simp: root_publish_def turned_on_def Let_def split: if_splits)
next
  case True
  let ?i = "unat (child_value c)"
  obtain b st p where r: "root_status_publish (rs_status s) (rs_status_page s) ?i
      (Some (rs_records s ! ?i)) (fst (root_status_ticks env s)) (clock_available (rs_clock s))
      (Some es) (length es) = (b, st, p)" by (metis prod_cases3)
  have "st_enabled (rs_status (root_publish env c es s)) = st_enabled st"
    "st_seq (rs_status (root_publish env c es s)) = st_seq st"
    using True r by (simp_all add: root_publish_def Let_def case_prod_unfold)
  then show ?thesis
    using publish_enabled [OF r] True assms by (simp add: turned_on_def)
qed

lemma restart_child_turned_on:
  "turned_on (snd (snd (root_restart_child env rd c q s))) \<Longrightarrow> turned_on s"
  "st_seq (rs_status (snd (snd (root_restart_child env rd c q s)))) = st_seq (rs_status s)"
proof -
  have r: "st_enabled (rs_status (snd (root_spec_refresh env rd s))) = st_enabled (rs_status s)"
    "st_seq (rs_status (snd (root_spec_refresh env rd s))) = st_seq (rs_status s)"
    by (simp_all add: root_spec_refresh_def case_prod_unfold Let_def)
  let ?s = "planned env rd c s"
  have dis: "st_enabled (root_status_note_restart st i t v br) \<Longrightarrow> st_enabled st" for st i t v br
    by (auto simp: root_status_note_restart_def Let_def split: if_splits)
  have g: "st_enabled (rs_status (root_giveup env c q ?s)) = st_enabled (rs_status s)"
    "st_seq (rs_status (root_giveup env c q ?s)) = st_seq (rs_status s)" for q
    using giveup_status [of env c q ?s] r by auto
  have u: "st_enabled (rs_status (resume_child env c q n e ?s)) \<Longrightarrow> st_enabled (rs_status s)"
    "st_seq (rs_status (resume_child env c q n e ?s)) = st_seq (rs_status s)" for q n e
    using resume_status [of env c q n e ?s] r by (auto dest: dis)
  show "turned_on (snd (snd (root_restart_child env rd c q s))) \<Longrightarrow> turned_on s"
    using g(1) u(1) r(1)
    by (cases "plan_action (plan_of env rd c s)")
      (auto simp: root_restart_child_eq turned_on_def)
  show "st_seq (rs_status (snd (snd (root_restart_child env rd c q s)))) = st_seq (rs_status s)"
    by (simp add: root_restart_child_eq g u r split: root_restart_action.split)
qed

text \<open>What a call does to the sequence while publication stays on.\<close>

definition seq_grows :: "root_state \<Rightarrow> root_state \<Rightarrow> bool" where
  "seq_grows s s' \<longleftrightarrow>
     (turned_on s' \<longrightarrow> turned_on s \<and> st_seq (rs_status s) \<le> st_seq (rs_status s'))"

lemma seq_grows_same:
  "rs_status s' = rs_status s \<Longrightarrow> rs_status_page s' = rs_status_page s \<Longrightarrow> seq_grows s s'"
  by (simp add: seq_grows_def turned_on_def)

lemma seq_grows_trans: "seq_grows s t \<Longrightarrow> seq_grows t u \<Longrightarrow> seq_grows s u"
  by (auto simp: seq_grows_def)

lemma seq_grows_publish:
  assumes "seq_grows s t"
  shows "seq_grows s (root_publish env c es t)"
  using assms publish_turned_on [of env c es t] by (fastforce simp: seq_grows_def)

lemma seq_grows_decided:
  assumes "seq_grows s t"
  shows "seq_grows s (snd (spec_events env sp (snd (snd (root_restart_child env rd c q t)))))"
  using assms restart_child_turned_on [of env rd c q t] by (auto simp: seq_grows_def turned_on_def)

lemma notified_seq: "seq_grows s (notified env rd ch s)"
proof (cases "root_notify_route (Root_channel ch) root_channels")
  case (Notify_debug_restart i)
  have "seq_grows s (snd (spec_events env sp
      (snd (snd (root_restart_child env rd c ''debug-restart'' s)))))" for sp c
    by (rule seq_grows_decided) (simp add: seq_grows_same)
  then show ?thesis
    by (simp add: notified_def Notify_debug_restart Let_def case_prod_unfold seq_grows_publish)
qed (simp_all add: notified_def Let_def case_prod_unfold seq_grows_same seq_grows_publish)

lemma fault_seq: "seq_grows s (fault env rd raw l n mr s)"
proof -
  have "seq_grows t (fault_child env rd c l n mr t)" for t c
    unfolding fault_child_def Let_def case_prod_unfold
    by (rule seq_grows_publish, rule seq_grows_decided)
      (simp add: seq_grows_def turned_on_def)
  then have "seq_grows s (fault_child env rd c l n mr (fault_log raw l n mr s))" for c
    by (rule seq_grows_trans [OF seq_grows_same, rotated 2]) simp_all
  then show ?thesis by (simp add: fault_def Let_def seq_grows_same split: option.split)
qed

lemma command_restart_seq:
  "seq_grows s (snd (root_command_restart_child env rd d s))"
  "fst (root_command_restart_child env rd d s) = d' \<Longrightarrow> cd_result d \<noteq> Ctl_refused \<Longrightarrow>
   cd_result d' \<noteq> Ctl_refused \<Longrightarrow> turned_on (snd (root_command_restart_child env rd d s)) \<Longrightarrow>
   st_seq (rs_status s) < st_seq (rs_status (snd (root_command_restart_child env rd d s)))"
proof -
  let ?c = "cd_child d" and ?s0 = "commanded env s"
  let ?s1 = "snd (snd (root_restart_child env rd ?c ''ctl-restart'' ?s0))"
  let ?s2 = "snd (spec_events env (fst (refreshed env rd ?s0)) ?s1)"
  have g: "seq_grows s ?s1" "seq_grows s ?s2"
    using restart_child_turned_on [of env rd ?c "''ctl-restart''" ?s0]
    by (auto simp: seq_grows_def turned_on_def)
  have u: "seq_grows s t" "turned_on (t\<lparr>rs_command := cmd\<rparr>) = turned_on t"
    if "seq_grows s t" for t cmd
    using that by (simp_all add: turned_on_def)
  show "seq_grows s (snd (root_command_restart_child env rd d s))"
    using g seq_grows_publish [OF g(2)]
    by (simp add: root_command_restart_child_def case_prod_unfold Let_def commanded_def [symmetric]
        seq_grows_def turned_on_def)
  assume a: "fst (root_command_restart_child env rd d s) = d'" "cd_result d \<noteq> Ctl_refused"
    "cd_result d' \<noteq> Ctl_refused" "turned_on (snd (root_command_restart_child env rd d s))"
  have "plan_action (plan_of env rd ?c ?s0) \<noteq> Restart_ignore_gone"
    using a by (auto simp: root_command_restart_child_def case_prod_unfold Let_def
        commanded_def [symmetric])
  then obtain es cmd where e: "snd (root_command_restart_child env rd d s) =
      (root_publish env ?c es ?s2)\<lparr>rs_command := cmd\<rparr>"
    by (simp add: root_command_restart_child_def case_prod_unfold Let_def commanded_def [symmetric])
  have "turned_on (root_publish env ?c es ?s2)" using a(4) by (simp add: e turned_on_def)
  from publish_turned_on [OF this] g(2)
  show "st_seq (rs_status s) < st_seq (rs_status (snd (root_command_restart_child env rd d s)))"
    by (auto simp: e seq_grows_def)
qed

lemma protected_seq: "seq_grows s (snd (protected env rd ch l n mr s))"
proof (cases rule: protected_cases [of env rd ch l n mr s])
  case (framed r cmd)
  then show ?thesis by (simp add: seq_grows_same)
next
  case (answered d s1)
  then have "s1 = snd (decide_command env l mr (s\<lparr>rs_command :=
      snd (root_command_frame (rs_command s) ch control_pp_channel_root l n)\<rparr>))"
    by (metis snd_conv)
  then show ?thesis using answered(3) by (simp add: seq_grows_same)
next
  case (restarted d s1 d' s2)
  then have "s1 = snd (decide_command env l mr (s\<lparr>rs_command :=
      snd (root_command_frame (rs_command s) ch control_pp_channel_root l n)\<rparr>))"
    by (metis snd_conv)
  then have "seq_grows s s1" by (simp add: seq_grows_same)
  moreover have "seq_grows s1 s2" using command_restart_seq(1) restarted(3) by (metis snd_conv)
  ultimately show ?thesis using restarted(4) by (auto intro: seq_grows_trans)
qed

lemma serve_seq: "seq_grows s (serve env call s)"
  by (cases call) (simp_all add: notified_seq protected_seq fault_seq)

lemma calls_seq: "seq_grows s (foldl (\<lambda>s c. serve env c s) s calls)"
  by (induction calls arbitrary: s) (simp_all add: seq_grows_same, metis serve_seq seq_grows_trans)

text \<open>
  C7.  A restart command works at most once.  If a command made Root invoke a capability, then no
  later command carrying the same sequence word does, however many calls of any kind come
  between and whatever else the second command says.
\<close>

theorem root_command_at_most_once:
  fixes env rd ch l n mr s
  defines "s1 \<equiv> snd (protected env rd ch l n mr s)"
  assumes "caps s1 \<noteq> caps s" "s2 = foldl (\<lambda>s c. serve env c s) s1 calls" "mr' 2 = mr 2"
  shows "caps (snd (protected env rd' ch' l' n' mr' s2)) = caps s2"
proof -
  have used: "\<not> turned_on s1 \<or> mr 2 < st_seq (rs_status s1)"
  proof (cases rule: protected_cases [of env rd ch l n mr s])
    case (framed r cmd)
    then show ?thesis using assms(2) by (simp add: s1_def)
  next
    case (answered d s')
    then have "s' = snd (decide_command env l mr (s\<lparr>rs_command :=
        snd (root_command_frame (rs_command s) ch control_pp_channel_root l n)\<rparr>))"
      by (metis snd_conv)
    then show ?thesis using assms(2) answered(3) by (simp add: s1_def)
  next
    case (restarted d t d' t')
    let ?s = "s\<lparr>rs_command := snd (root_command_frame (rs_command s) ch control_pp_channel_root l n)\<rparr>"
    have t: "t = snd (decide_command env l mr ?s)" using restarted(2) by (metis snd_conv)
    obtain c where c: "cd_child d = Root_child c" "cd_result d = Ctl_ok" "mr 2 = st_seq (rs_status s)"
      "child_state (rs_records s ! unat c) = Child_live"
      using decide_command_guard [OF restarted(2,1)] by auto
    have p: "plan_action (plan_of env rd (Root_child c) (commanded env t)) \<noteq> Restart_ignore_gone"
      unfolding plan_of_def by (rule plan_not_ignored) (simp add: c(4) t)
    have "d' = fst (root_command_restart_child env rd d t)" using restarted(3) by (metis fst_conv)
    then have "cd_result d' = Ctl_ok"
      using c p by (simp add: root_command_restart_child_def case_prod_unfold Let_def
          commanded_def [symmetric])
    moreover have s1: "s1 = snd (root_command_restart_child env rd d t)"
      using restarted(3,4) by (metis s1_def snd_conv)
    ultimately have "turned_on s1 \<Longrightarrow> st_seq (rs_status t) < st_seq (rs_status s1)"
      using command_restart_seq(2) [of env rd d t d'] restarted(3) c(2) by (metis ctl_result.distinct(19) fst_conv)
    then show ?thesis by (auto simp: c(3) t)
  qed
  have later: "\<not> turned_on s2 \<or> mr 2 < st_seq (rs_status s2)"
    using used calls_seq [of s1 env calls] assms(3) by (auto simp: seq_grows_def)
  show ?thesis
  proof (cases rule: protected_cases [of env rd' ch' l' n' mr' s2])
    case (framed r cmd)
    then show ?thesis by simp
  next
    case (answered d s')
    then have "s' = snd (decide_command env l' mr' (s2\<lparr>rs_command :=
        snd (root_command_frame (rs_command s2) ch' control_pp_channel_root l' n')\<rparr>))"
      by (metis snd_conv)
    then show ?thesis using answered(3) by simp
  next
    case (restarted d t d' t')
    have "turned_on s2" "mr' 2 = st_seq (rs_status s2)"
      using decide_command_guard [OF restarted(2,1)] by (auto simp: turned_on_def)
    then show ?thesis using later assms(4) by simp
  qed
qed

text \<open>A state in which a restart command for the timer driver is accepted.\<close>

definition sample_state :: root_state where
  "sample_state = root_state_zero
     \<lparr>rs_status := root_status_state_zero\<lparr>st_enabled := True, st_seq := 2, st_root_generation := 1\<rparr>,
      rs_status_page := Some blank_status_page, rs_command := root_command_init 32 0 0 False\<rparr>"

definition sample_mr :: "nat \<Rightarrow> u64" where
  "sample_mr i = [1, 1, 2, 0] ! i"

lemma sample_accepted:
  "caps (snd (protected sample_env rd 11 2 4 sample_mr sample_state)) \<noteq> caps sample_state"
proof -
  have f: "root_command_frame (rs_command sample_state) 11 control_pp_channel_root 2 4 =
      (Ctl_ok, rs_command sample_state)"
    by (simp add: root_command_frame_def row_of_def)
  have same: "sample_state\<lparr>rs_command := rs_command sample_state\<rparr> = sample_state" by simp
  have r: "root_child_from_raw 1 62 (root_present_children sample_env) = Some (Root_child 1)"
    using present_base [of 1 sample_env] by (simp add: root_child_from_raw_iff)
  have a: "map sample_mr [0..<4] = [1, 1, 2, 0]" by (simp add: sample_mr_def upt_rec)
  have z: "rs_records sample_state = replicate 62 root_child_record_zero"
    "rs_status_page sample_state = Some blank_status_page" "st_enabled (rs_status sample_state)"
    "st_seq (rs_status sample_state) = 2" "st_root_generation (rs_status sample_state) = 1"
    "cs_tokens (rs_command sample_state) = 32" "cs_refill (rs_command sample_state) = Refill_off"
    "cs_fence (rs_command sample_state) = Fence_empty"
    by (simp_all add: sample_state_def root_command_init_def Let_def)
  define d where "d = decide_command sample_env 2 sample_mr sample_state"
  have "cd_action (fst d) = Command_restart \<and> cd_child (fst d) = Root_child 1"
    unfolding d_def decide_command_def Let_def case_prod_unfold a
    by (simp add: root_command_decide_def Let_def malformed_def decision_zero_def restart_row [simplified]
        refill_step_def z decide_restart_def fence_repeats_def command_view_def r
        root_child_record_zero_def list_ex_iff)
  then have "caps (snd (protected sample_env rd 11 2 4 sample_mr sample_state)) =
      caps (snd d) @ decision_caps sample_env (Root_child 1)
        (plan_action (plan_of sample_env rd (Root_child 1) (commanded sample_env (snd d))))"
    unfolding protected_def f Let_def case_prod_unfold fst_conv snd_conv same d_def [symmetric] by simp
  moreover have "caps (snd d) = caps sample_state" by (simp add: d_def)
  moreover have "plan_action (plan_of sample_env rd (Root_child 1) (commanded sample_env (snd d))) \<noteq>
      Restart_ignore_gone"
    unfolding plan_of_def by (rule plan_not_ignored) (simp add: d_def z root_child_record_zero_def)
  ultimately show ?thesis
    by (simp add: decision_caps_def split: root_restart_action.split)
qed

theorem root_command_at_most_once_witness:
  "\<exists>s1. s1 = snd (protected sample_env (quiet_reads []) 11 2 4 sample_mr sample_state) \<and>
     caps s1 \<noteq> caps sample_state \<and>
     caps (snd (protected sample_env (quiet_reads []) 11 2 4 sample_mr s1)) = caps s1"
  using root_command_at_most_once [of sample_env "quiet_reads []" 11 2 4 sample_mr sample_state _ "[]"
      sample_mr "quiet_reads []" 11 2 4] sample_accepted [of "quiet_reads []"]
  by simp

end
