(* ===== verification/Root_Format.thy ===== *)
theory Root_Format
  imports Root_Main
begin

text \<open>
  The two formatters of Root's log lines (\<open>put_dec\<close>, \<open>put_hex\<close> in \<open>main.c\<close>): what they print
  reads back as the number, and fits the buffers they print into.
\<close>

definition digit_value :: "char \<Rightarrow> nat" where
  "digit_value c = of_char c - 48"

definition decimal_value :: "string \<Rightarrow> nat" where
  "decimal_value = foldl (\<lambda>n c. n * 10 + digit_value c) 0"

definition hex_digit_value :: "char \<Rightarrow> nat" where
  "hex_digit_value c = (if of_char c < (97 :: nat) then of_char c - 48 else of_char c - 87)"

definition hex_value :: "string \<Rightarrow> nat" where
  "hex_value = foldl (\<lambda>n c. n * 16 + hex_digit_value c) 0"

declare dec_digits.simps [simp del]

lemma digit_char: "n < 10 \<Longrightarrow> digit_value (char_of (48 + n)) = n" for n :: nat
  by (simp add: digit_value_def)

lemma dec_digits_written:
  "\<exists>ds. dec_digits v buf = ds @ buf \<and> decimal_value ds = unat v \<and> ds \<noteq> [] \<and>
     (length ds = 1 \<or> 10 ^ (length ds - 1) \<le> unat v) \<and>
     (\<forall>c \<in> set ds. digit_value c < 10 \<and> 48 \<le> (of_char c :: nat))"
proof (induction v buf rule: dec_digits.induct)
  case (1 v buf)
  define b where "b = char_of (48 + unat (v mod 10)) # buf"
  have m: "unat (v mod 10) < 10" by (simp add: unat_mod)
  have c: "digit_value (char_of (48 + unat (v mod 10))) = unat (v mod 10)" by (rule digit_char [OF m])
  have c48: "48 \<le> (of_char (char_of (48 + unat (v mod 10))) :: nat)" using m by simp
  show ?case
  proof (cases "v div 10 = 0")
    case True
    then have "unat v div 10 = 0" by (simp add: word_unat_eq_iff unat_div)
    then have "unat (v mod 10) = unat v" by (simp add: unat_mod)
    then show ?thesis
      using True c m c48 by (intro exI [of _ "[char_of (48 + unat (v mod 10))]"])
        (simp add: dec_digits.simps [of v buf] Let_def decimal_value_def)
  next
    case False
    from 1 [OF refl refl False] obtain ds where ds: "dec_digits (v div 10) b = ds @ b"
      "decimal_value ds = unat (v div 10)" "ds \<noteq> []"
      "length ds = 1 \<or> 10 ^ (length ds - 1) \<le> unat (v div 10)"
      "\<forall>c \<in> set ds. digit_value c < 10 \<and> 48 \<le> (of_char c :: nat)"
      unfolding b_def by blast
    have nz: "0 < unat v div 10" using False by (auto simp: word_unat_eq_iff unat_div)
    have v: "unat (v div 10) * 10 + unat (v mod 10) = unat v" by (simp add: unat_div unat_mod)
    have "10 ^ length ds \<le> unat v"
    proof -
      have "10 ^ (length ds - 1) \<le> unat v div 10"
        using ds(4) nz by (auto simp: unat_div)
      then have "10 ^ (length ds - 1) * 10 \<le> unat v" by linarith
      then show ?thesis using ds(3) by (cases ds) simp_all
    qed
    then show ?thesis
      using False ds c m v c48
      by (intro exI [of _ "ds @ [char_of (48 + unat (v mod 10))]"])
        (simp add: dec_digits.simps [of v buf] Let_def decimal_value_def b_def)
  qed
qed

lemma hex_digit_char:
  "n < 16 \<Longrightarrow> hex_digit_value (''0123456789abcdef'' ! n) = n"
proof -
  have "list_all (\<lambda>n. hex_digit_value (''0123456789abcdef'' ! n) = n) [0..<16]"
    by (simp add: hex_digit_value_def upt_rec)
  then show "n < 16 \<Longrightarrow> hex_digit_value (''0123456789abcdef'' ! n) = n"
    by (simp only: list_all_iff set_upt atLeast0LessThan lessThan_iff)
qed

lemma nibble: "unat (drop_bit k v AND 0xf) = unat v div 2 ^ k mod 16" for v :: u64
proof -
  have "drop_bit k v AND 0xf = take_bit 4 (drop_bit k v)"
    by (simp add: take_bit_eq_mask mask_eq_exp_minus_1)
  then have "unat (drop_bit k v AND 0xf) = take_bit 4 (unat (drop_bit k v))"
    by (simp only: unsigned_take_bit_eq)
  also have "\<dots> = take_bit 4 (drop_bit k (unat v))"
    by (simp only: unat_drop_bit_eq)
  finally show ?thesis by (simp add: take_bit_eq_mod drop_bit_eq_div)
qed

lemma hex_prefix:
  "n \<le> 16 \<Longrightarrow> hex_value (map (\<lambda>i. ''0123456789abcdef'' ! unat (drop_bit ((15 - i) * 4) v AND 0xf)) [0..<n])
    = unat v div 2 ^ (4 * (16 - n))" for v :: u64
proof (induction n)
  case 0
  then show ?case using unat_u64_lt [of v] by (simp add: hex_value_def)
next
  case (Suc n)
  have k: "4 * (16 - n) = 4 * (15 - n) + 4" using Suc.prems by simp
  have "unat v div 2 ^ (4 * (15 - n)) = unat v div 2 ^ (4 * (16 - n)) * 16 +
      unat v div 2 ^ (4 * (15 - n)) mod 16"
    unfolding k by (simp add: power_add div_mult2_eq)
  then show ?case
    using Suc by (simp add: hex_value_def nibble hex_digit_char mult.commute [of _ "4::nat"])
qed

section \<open>Properties\<close>

text \<open>
  The formatters print numbers: \<open>put_dec\<close> writes digits only, they read back as the value,
  and with the terminating NUL they fit its 11-byte buffer; \<open>put_hex\<close> always writes \<open>0x\<close> and
  sixteen digits that read back as the value.
\<close>

theorem root_numbers_read_back:
  "decimal_value (dec_digits v []) = unat v \<and> length (dec_digits v []) + 1 \<le> 11 \<and>
   list_all (\<lambda>c. digit_value c < 10 \<and> 48 \<le> (of_char c :: nat)) (dec_digits v []) \<and>
   take 2 (hex_string w) = ''0x'' \<and> length (hex_string w) + 1 = 19 \<and>
   hex_value (drop 2 (hex_string w)) = unat w"
proof -
  obtain ds where ds: "dec_digits v [] = ds" "decimal_value ds = unat v" "ds \<noteq> []"
     "length ds = 1 \<or> 10 ^ (length ds - 1) \<le> unat v"
     "\<forall>c \<in> set ds. digit_value c < 10 \<and> 48 \<le> (of_char c :: nat)"
    using dec_digits_written [of v "[]"] by auto
  have "length ds \<le> 10"
  proof (rule ccontr)
    assume l: "\<not> length ds \<le> 10"
    then have "(10::nat) ^ 10 \<le> 10 ^ (length ds - 1)" by (intro power_increasing) simp_all
    also have "\<dots> \<le> unat v" using ds(4) l by auto
    finally show False using unat_u32_lt [of v] by simp
  qed
  moreover have "hex_value (drop 2 (hex_string w)) = unat w"
    using hex_prefix [of 16 w] by (simp add: hex_string_def)
  ultimately show ?thesis using ds by (simp add: hex_string_def list_all_iff)
qed

end
