(* ===== verification/Spec_Writer.thy ===== *)
theory Spec_Writer
  imports Root_Spec
begin

text \<open>
  The BEAM's writer of the policy page: \<open>src/src/lib/abi/spec_writer.{h,c}\<close>.  The page pointer
  is an address, null being \<open>None\<close>; the bytes it points at are a separate component of the
  state, so that a commit can be stopped between any two of its store groups.
\<close>

section \<open>State\<close>

datatype spec_writer_phase =
    Phase_idle | Phase_open | Phase_written | Phase_sealed | Phase_closed | Phase_flipped

datatype spec_write_result = Write_ok | Write_bad_state | Write_bad_page | Write_exhausted

record spec_writer =
  wr_page :: "u64 option"
  wr_phase :: spec_writer_phase
  wr_bank :: u32
  wr_open_seq :: u32
  wr_generation :: u64
  wr_budget :: "u32 list"
  wr_desired :: "u8 list"

definition spec_writer_init :: spec_writer where
  "spec_writer_init =
     \<lparr>wr_page = None, wr_phase = Phase_idle, wr_bank = 0, wr_open_seq = 0, wr_generation = 0,
      wr_budget = replicate chryso_child_count 0, wr_desired = replicate chryso_child_count 0\<rparr>"

section \<open>Preparing a commit\<close>

text \<open>\<open>ckd_add\<close> on \<open>uint32_t\<close>: \<open>None\<close> when the sum does not fit.\<close>

definition ckd_add_u32 :: "u32 \<Rightarrow> u32 \<Rightarrow> u32 option" where
  "ckd_add_u32 a b = (if unat a + unat b < 2 ^ 32 then Some (a + b) else None)"

definition page_alignment :: u64 where
  "page_alignment = 8"

definition spec_writer_begin ::
  "spec_writer \<Rightarrow> u64 option \<Rightarrow> u8 list \<Rightarrow> u64 \<Rightarrow> u32 list \<Rightarrow> u8 list \<Rightarrow>
   spec_write_result \<times> spec_writer \<times> u8 list" where
  "spec_writer_begin w page mem generation budget desired =
     (if wr_phase w \<noteq> Phase_idle \<and> wr_phase w \<noteq> Phase_flipped then (Write_bad_state, w, mem)
      else case page of
        None \<Rightarrow> (Write_bad_page, w, mem)
      | Some addr \<Rightarrow>
          if addr mod page_alignment \<noteq> 0 then (Write_bad_page, w, mem)
          else
            let fresh = all_zero mem spec_header_size
            in if \<not> fresh \<and> check_spec_header mem \<noteq> Abi_ok then (Write_bad_page, w, mem)
               else
                 let active = (if fresh then 0 else page_active mem);
                     bank = 1 - active;
                     seq = page_seq mem (unat bank)
                 in case ckd_add_u32 seq (if seq AND 1 \<noteq> 0 then 2 else 1) of
                      None \<Rightarrow> (Write_exhausted, w, mem)
                    | Some open_seq \<Rightarrow>
                        (case ckd_add_u32 open_seq 1 of
                           None \<Rightarrow> (Write_exhausted, w, mem)
                         | Some close_seq \<Rightarrow>
                             let mem = (if fresh
                                        then store_u32le
                                               (store_u32le (store_u64le mem 0 chryso_magic_spec)
                                                  8 chryso_abi_version)
                                               active_at 0
                                        else mem)
                             in (Write_ok,
                                 \<lparr>wr_page = page, wr_phase = Phase_idle, wr_bank = bank,
                                  wr_open_seq = open_seq, wr_generation = generation,
                                  wr_budget = map (\<lambda>c. budget ! c) [0..<chryso_child_count],
                                  wr_desired = map (\<lambda>c. desired ! c) [0..<chryso_child_count]\<rparr>,
                                 mem)))"

section \<open>The protocol steps\<close>

datatype spec_writer_step_kind = Step_open | Step_write | Step_seal | Step_close | Step_flip

fun transitions :: "spec_writer_step_kind \<Rightarrow> spec_writer_phase \<times> spec_writer_phase" where
  "transitions Step_open = (Phase_idle, Phase_open)"
| "transitions Step_write = (Phase_open, Phase_written)"
| "transitions Step_seal = (Phase_written, Phase_sealed)"
| "transitions Step_close = (Phase_sealed, Phase_closed)"
| "transitions Step_flip = (Phase_closed, Phase_flipped)"

text \<open>The two loops of \<open>write_payload\<close>, over the children left and the tail bytes left.\<close>

fun write_children :: "u8 list \<Rightarrow> nat \<Rightarrow> u32 list \<Rightarrow> u8 list \<Rightarrow> nat list \<Rightarrow> u8 list" where
  "write_children mem at budget desired [] = mem"
| "write_children mem at budget desired (c # cs) =
     write_children ((store_u32le mem (at + budget_at + c * 4) (budget ! c))
                       [at + desired_at + c := desired ! c]) at budget desired cs"

fun write_tail :: "u8 list \<Rightarrow> nat \<Rightarrow> nat list \<Rightarrow> u8 list" where
  "write_tail mem at [] = mem"
| "write_tail mem at (i # is) = write_tail (mem[at + i := 0]) at is"

definition write_payload :: "spec_writer \<Rightarrow> u8 list \<Rightarrow> u8 list" where
  "write_payload w mem =
     (let at = bank_at (unat (wr_bank w));
          mem = store_u64le mem (at + generation_at) (wr_generation w);
          mem = store_u32le mem (at + length_at) (of_nat spec_bank_size);
          mem = store_u32le mem (at + count_at) (of_nat chryso_child_count);
          mem = write_children mem at (wr_budget w) (wr_desired w) [0..<chryso_child_count]
      in write_tail mem at [tail_at..<spec_bank_size])"

definition seal :: "spec_writer \<Rightarrow> u8 list \<Rightarrow> u8 list" where
  "seal w mem =
     (let at = bank_at (unat (wr_bank w))
      in store_u32le mem (at + crc_at) (bank_crc (drop at mem)))"

fun act :: "spec_writer \<Rightarrow> spec_writer_step_kind \<Rightarrow> u8 list \<Rightarrow> u8 list" where
  "act w Step_open mem = store_u32le mem (bank_at (unat (wr_bank w)) + seq_at) (wr_open_seq w)"
| "act w Step_write mem = write_payload w mem"
| "act w Step_seal mem = seal w mem"
| "act w Step_close mem = store_u32le mem (bank_at (unat (wr_bank w)) + seq_at) (wr_open_seq w + 1)"
| "act w Step_flip mem = store_u32le mem active_at (wr_bank w)"

definition spec_writer_step ::
  "spec_writer \<Rightarrow> u8 list \<Rightarrow> spec_writer_step_kind \<Rightarrow> spec_write_result \<times> spec_writer \<times> u8 list" where
  "spec_writer_step w mem step =
     (if wr_page w = None \<or> wr_phase w \<noteq> fst (transitions step) then (Write_bad_state, w, mem)
      else (Write_ok, w\<lparr>wr_phase := snd (transitions step)\<rparr>, act w step mem))"

fun run_steps ::
  "spec_write_result \<times> spec_writer \<times> u8 list \<Rightarrow> spec_writer_step_kind list \<Rightarrow>
   spec_write_result \<times> spec_writer \<times> u8 list" where
  "run_steps s [] = s"
| "run_steps (Write_ok, w, mem) (k # ks) = run_steps (spec_writer_step w mem k) ks"
| "run_steps s (k # ks) = s"

definition commit_steps :: "spec_writer_step_kind list" where
  "commit_steps = [Step_open, Step_write, Step_seal, Step_close, Step_flip]"

definition spec_writer_commit ::
  "spec_writer \<Rightarrow> u64 option \<Rightarrow> u8 list \<Rightarrow> u64 \<Rightarrow> u32 list \<Rightarrow> u8 list \<Rightarrow>
   spec_write_result \<times> spec_writer \<times> u8 list" where
  "spec_writer_commit w page mem generation budget desired =
     run_steps (spec_writer_begin w page mem generation budget desired) commit_steps"

section \<open>Lemmas: the bytes each step touches\<close>

definition bank_span :: "nat \<Rightarrow> nat set" where
  "bank_span bank = {bank_at bank ..< bank_at bank + spec_bank_size}"

lemma bank_at_values [simp]: "bank_at 0 = 64" "bank_at (Suc 0) = 2080" "bank_at 1 = 2080"
  by (simp_all add: bank_at_def)

lemma bank_fits: "bank < 2 \<Longrightarrow> bank_at bank + spec_bank_size \<le> spec_page_size"
  by (simp add: bank_at_def)

lemma write_children_length [simp]: "length (write_children mem at b d cs) = length mem"
  by (induction mem at b d cs rule: write_children.induct) simp_all

lemma write_tail_length [simp]: "length (write_tail mem at is) = length mem"
  by (induction mem at "is" rule: write_tail.induct) simp_all

lemma act_length [simp]: "length (act w k mem) = length mem"
  by (cases k) (simp_all add: write_payload_def seal_def Let_def)

lemma store_u64le_frame:
  "at + 8 \<le> length bs \<Longrightarrow> i < at \<or> at + 8 \<le> i \<Longrightarrow> store_u64le bs at v ! i = bs ! i"
  by (rule le64.store_frame)

lemma write_children_frame:
  "at + spec_bank_size \<le> length mem \<Longrightarrow> \<forall>c \<in> set cs. c < chryso_child_count \<Longrightarrow>
   i < at + budget_at \<or> at + tail_at \<le> i \<Longrightarrow> write_children mem at b d cs ! i = mem ! i"
proof (induction mem at b d cs rule: write_children.induct)
  case (2 mem at b d c cs)
  have c: "c < 62" using 2(3) by simp
  have "(store_u32le mem (at + budget_at + c * 4) (b ! c))[at + desired_at + c := d ! c] ! i = mem ! i"
    using c 2(2,4) by (auto simp: nth_list_update_if store_u32le_frame)
  then show ?case using 2 by simp
qed simp

text \<open>The bytes of child \<open>c\<close> in a bank.\<close>

definition child_byte :: "nat \<Rightarrow> nat \<Rightarrow> nat \<Rightarrow> bool" where
  "child_byte at c i \<longleftrightarrow>
     at + budget_at + c * 4 \<le> i \<and> i < at + budget_at + c * 4 + 4 \<or> i = at + desired_at + c"

lemma write_children_other:
  "at + spec_bank_size \<le> length mem \<Longrightarrow> \<forall>c \<in> set cs. c < chryso_child_count \<Longrightarrow>
   c < chryso_child_count \<Longrightarrow> c \<notin> set cs \<Longrightarrow> child_byte at c i \<Longrightarrow>
   write_children mem at b d cs ! i = mem ! i"
proof (induction mem at b d cs rule: write_children.induct)
  case (2 mem at b d k cs)
  have k: "k < 62" "k \<noteq> c" using 2(3,5) by auto
  have "i < at + 24 + k * 4 \<or> at + 24 + k * 4 + 4 \<le> i" "i \<noteq> at + 272 + k"
    using k 2(4,6) by (auto simp: child_byte_def)
  then have "(store_u32le mem (at + budget_at + k * 4) (b ! k))[at + desired_at + k := d ! k] ! i = mem ! i"
    using k 2(2) by (simp add: nth_list_update_if store_u32le_frame)
  then show ?case using 2 by simp
qed simp

lemma write_children_values:
  "at + spec_bank_size \<le> length mem \<Longrightarrow> distinct cs \<Longrightarrow> \<forall>c \<in> set cs. c < chryso_child_count \<Longrightarrow>
   c \<in> set cs \<Longrightarrow>
   load_u32le (write_children mem at b d cs) (at + budget_at + c * 4) = b ! c \<and>
   write_children mem at b d cs ! (at + desired_at + c) = d ! c"
proof (induction mem at b d cs rule: write_children.induct)
  case (2 mem at b d k cs)
  let ?m = "(store_u32le mem (at + budget_at + k * 4) (b ! k))[at + desired_at + k := d ! k]"
  show ?case
  proof (cases "c = k")
    case True
    have k: "k < 62" "k \<notin> set cs" using 2(3,4) by auto
    have len: "at + 2016 \<le> length ?m" using 2(2) by simp
    have o: "write_children ?m at b d cs ! i = ?m ! i" if "child_byte at k i" for i
      using write_children_other [OF len _ k(1,2) that] 2(4) by simp
    have "load_u32le (write_children ?m at b d cs) (at + 24 + k * 4) = load_u32le ?m (at + 24 + k * 4)"
      by (rule le32.load_shift) (simp add: o child_byte_def)
    also have "\<dots> = load_u32le (store_u32le mem (at + 24 + k * 4) (b ! k)) (at + 24 + k * 4)"
      using k(1) by (intro le32.load_update_other) simp
    also have "\<dots> = b ! k" using k(1) 2(2) by (intro load_store_u32le) simp
    finally have l: "load_u32le (write_children ?m at b d cs) (at + 24 + k * 4) = b ! k" .
    have "write_children ?m at b d cs ! (at + 272 + k) = d ! k"
      using o [of "at + 272 + k"] k(1) 2(2) by (simp add: child_byte_def nth_list_update_if)
    then show ?thesis using l True by simp
  next
    case False
    then show ?thesis using 2 by simp
  qed
qed simp

lemma write_tail_nth:
  "at + spec_bank_size \<le> length mem \<Longrightarrow> \<forall>k \<in> set is. k < spec_bank_size \<Longrightarrow>
   write_tail mem at is ! i = (if i \<in> (+) at ` set is then 0 else mem ! i)"
proof (induction mem at "is" rule: write_tail.induct)
  case (2 mem at k ks)
  then show ?case by (auto simp: nth_list_update_if)
qed simp

text \<open>No step but the flip touches a byte outside its bank, and the flip only \<open>active_bank\<close>.\<close>

lemma payload_frame:
  assumes "length mem = spec_page_size" "wr_bank w \<le> 1" "i \<notin> bank_span (unat (wr_bank w))"
  shows "write_payload w mem ! i = mem ! i"
proof -
  have b: "unat (wr_bank w) < 2" using assms(2) by (simp add: word_le_nat_alt)
  have fit: "bank_at (unat (wr_bank w)) + 2016 \<le> 4096" using bank_fits [OF b] .
  have out: "i < bank_at (unat (wr_bank w)) \<or> bank_at (unat (wr_bank w)) + 2016 \<le> i"
    using assms(3) by (auto simp: bank_span_def)
  show ?thesis
    using fit out assms(1)
    by (auto simp: write_payload_def Let_def write_tail_nth write_children_frame store_u32le_frame
        store_u64le_frame)
qed

lemma act_frame:
  assumes "length mem = spec_page_size" "wr_bank w \<le> 1" "i \<notin> bank_span (unat (wr_bank w))"
    "k = Step_flip \<Longrightarrow> i < active_at \<or> active_at + 4 \<le> i"
  shows "act w k mem ! i = mem ! i"
proof -
  have b: "unat (wr_bank w) < 2" using assms(2) by (simp add: word_le_nat_alt)
  have fit: "bank_at (unat (wr_bank w)) + 2016 \<le> 4096" using bank_fits [OF b] .
  have out: "i < bank_at (unat (wr_bank w)) \<or> bank_at (unat (wr_bank w)) + 2016 \<le> i"
    using assms(3) by (auto simp: bank_span_def)
  show ?thesis
    using assms out fit payload_frame [OF assms(1-3)]
    by (cases k) (auto simp: seal_def Let_def store_u32le_frame)
qed

section \<open>Lemmas: what a bank says depends on its own bytes\<close>

definition bank_view :: "u8 list \<Rightarrow> nat \<Rightarrow> u8 list" where
  "bank_view page bank = take spec_bank_size (bank_bytes page bank)"

lemma bank_view_length:
  "length page = spec_page_size \<Longrightarrow> bank < 2 \<Longrightarrow> length (bank_view page bank) = spec_bank_size"
  using bank_fits [of bank] by (simp add: bank_view_def bank_bytes_def)

lemma bank_view_eqI:
  assumes "length page = spec_page_size" "length page' = spec_page_size" "bank < 2"
    "\<And>i. i \<in> bank_span bank \<Longrightarrow> page ! i = page' ! i"
  shows "bank_view page bank = bank_view page' bank"
  using assms bank_fits [OF assms(3)]
  by (intro nth_equalityI) (auto simp: bank_view_def bank_bytes_def bank_span_def)

lemma load32_take: "at + 4 \<le> n \<Longrightarrow> n \<le> length b \<Longrightarrow> load_u32le (take n b) at = load_u32le b at"
  using le32.load_append_left [of at "take n b" "drop n b"] by simp

lemma load64_take: "at + 8 \<le> n \<Longrightarrow> n \<le> length b \<Longrightarrow> load_u64le (take n b) at = load_u64le b at"
  using le64.load_append_left [of at "take n b" "drop n b"] by simp

lemma bank_crc_take: "bank_crc (take spec_bank_size b) = bank_crc b"
  by (simp add: bank_crc_def drop_take min_def)

lemma zero_span_take: "at + n \<le> m \<Longrightarrow> zero_span (take m b) at n = zero_span b at n"
  by (simp add: zero_span_def drop_take min_def)

lemma spec_bank_rules_take:
  "spec_bank_size \<le> length b \<Longrightarrow> spec_bank_rules (take spec_bank_size b) = spec_bank_rules b"
  by (simp add: spec_bank_rules_def load32_take bank_crc_take zero_span_take)

lemma bank_policy_take:
  "spec_bank_size \<le> length b \<Longrightarrow> bank_policy (take spec_bank_size b) k = bank_policy b k"
  by (simp add: bank_policy_def load32_take load64_take bank_budget_def bank_desired_def load_u8_def)

lemma check_bank_view:
  assumes "length page = spec_page_size" "bank < 2"
  shows "check_spec_bank page bank = first_violation (spec_bank_rules (bank_view page bank))"
    and "bank_policy (bank_bytes page bank) bank = bank_policy (bank_view page bank) bank"
    and "load_u64le (bank_bytes page bank) generation_at = load_u64le (bank_view page bank) generation_at"
    and "load_u32le (bank_bytes page bank) seq_at = load_u32le (bank_view page bank) seq_at"
    and "c < chryso_child_count \<Longrightarrow>
      bank_budget (bank_bytes page bank) c = bank_budget (bank_view page bank) c"
    and "c < chryso_child_count \<Longrightarrow>
      bank_desired (bank_bytes page bank) c = bank_desired (bank_view page bank) c"
proof -
  have len: "2016 \<le> length (bank_bytes page bank)"
    using bank_fits [OF assms(2)] assms(1) by (simp add: bank_bytes_def)
  show "check_spec_bank page bank = first_violation (spec_bank_rules (bank_view page bank))"
    using assms len by (simp add: check_spec_bank_def bank_view_def spec_bank_rules_take
        bank_bytes_def [symmetric])
  show "bank_policy (bank_bytes page bank) bank = bank_policy (bank_view page bank) bank"
    using len by (simp add: bank_view_def bank_policy_take)
  show "load_u64le (bank_bytes page bank) generation_at = load_u64le (bank_view page bank) generation_at"
    using len by (simp add: bank_view_def load64_take)
  show "load_u32le (bank_bytes page bank) seq_at = load_u32le (bank_view page bank) seq_at"
    using len by (simp add: bank_view_def load32_take)
  show "c < chryso_child_count \<Longrightarrow>
      bank_budget (bank_bytes page bank) c = bank_budget (bank_view page bank) c"
    using len by (simp add: bank_view_def bank_budget_def load32_take)
  show "c < chryso_child_count \<Longrightarrow>
      bank_desired (bank_bytes page bank) c = bank_desired (bank_view page bank) c"
    using len by (simp add: bank_view_def bank_desired_def load_u8_def)
qed

lemma eligible_view:
  assumes "length page = spec_page_size" "length page' = spec_page_size" "bank < 2"
    "bank_view page bank = bank_view page' bank"
  shows "eligible page bank m ret = eligible page' bank m ret"
    and "adopt page bank ret = adopt page' bank ret"
    and "page_seq page bank = page_seq page' bank"
  using assms check_bank_view [OF assms(1,3)] check_bank_view [OF assms(2,3)]
  by (simp_all add: eligible_def bank_acceptable_def adopt_def page_seq_def)

text \<open>The header is the first 64 bytes.\<close>

lemma header_view:
  assumes "length page = spec_page_size" "length page' = spec_page_size"
    "\<And>i. i < spec_header_size \<Longrightarrow> page ! i = page' ! i"
  shows "check_spec_header page = check_spec_header page'" and "page_active page = page_active page'"
    and "all_zero page spec_header_size = all_zero page' spec_header_size"
proof -
  have 32: "load_u32le page at = load_u32le page' at" if "at + 4 \<le> 64" for at
    using that assms(3) by (intro le32.load_shift) simp
  have 64: "load_u64le page 0 = load_u64le page' 0"
    using assms(3) by (intro le64.load_shift) simp
  have t: "take 64 page = take 64 page'"
    using assms by (intro nth_equalityI) simp_all
  have z: "zero_span page 16 48 = zero_span page' 16 48"
    using zero_span_take [of 16 48 64 page] zero_span_take [of 16 48 64 page'] t by simp
  show "check_spec_header page = check_spec_header page'"
    using assms(1,2) 32 [of 8] 32 [of 12] 64 z by (simp add: check_spec_header_def spec_header_rules_def)
  show "page_active page = page_active page'" using 32 [of 12] by (simp add: page_active_def)
  show "all_zero page spec_header_size = all_zero page' spec_header_size"
    using t by (simp add: all_zero_def)
qed

section \<open>Lemmas: the bank a commit writes\<close>

lemma bank_crc_ignores:
  assumes "length b = length b'" "spec_bank_size \<le> length b"
    "\<And>i. i < spec_bank_size \<Longrightarrow> i < crc_at \<or> count_at \<le> i \<Longrightarrow> i < seq_at \<or> budget_at \<le> i \<Longrightarrow>
      b ! i = b' ! i"
  shows "bank_crc b = bank_crc b'"
proof -
  have 1: "take 12 b = take 12 b'"
    using assms by (intro nth_equalityI) simp_all
  have 2: "take 4 (drop 16 b) = take 4 (drop 16 b')"
    using assms by (intro nth_equalityI) simp_all
  have 3: "take 1992 (drop 24 b) = take 1992 (drop 24 b')"
    using assms by (intro nth_equalityI) simp_all
  show ?thesis by (simp add: bank_crc_def 1 2 3)
qed

text \<open>The fields of the payload, read back from the bank.\<close>

lemma payload_values:
  assumes "length mem = spec_page_size" "wr_bank w \<le> 1"
  defines "b \<equiv> bank_bytes (write_payload w mem) (unat (wr_bank w))"
  shows "load_u64le b generation_at = wr_generation w"
    and "load_u32le b length_at = of_nat spec_bank_size"
    and "load_u32le b count_at = of_nat chryso_child_count"
    and "c < chryso_child_count \<Longrightarrow> bank_budget b c = wr_budget w ! c"
    and "c < chryso_child_count \<Longrightarrow> bank_desired b c = wr_desired w ! c"
    and "tail_at \<le> i \<Longrightarrow> i < spec_bank_size \<Longrightarrow> b ! i = 0"
proof -
  note upt_rec_numeral [simp del]
  define at where "at = bank_at (unat (wr_bank w))"
  have bk: "unat (wr_bank w) < 2" using assms(2) by (simp add: word_le_nat_alt)
  have fit: "at + 2016 \<le> 4096" using bank_fits [OF bk] by (simp add: at_def)
  define m0 where "m0 = store_u64le mem at (wr_generation w)"
  define m1 where "m1 = store_u32le m0 (at + 8) 2016"
  define m2 where "m2 = store_u32le m1 (at + 16) 62"
  define m3 where "m3 = write_children m2 at (wr_budget w) (wr_desired w) [0..<62]"
  define m4 where "m4 = write_tail m3 at [334..<2016]"
  have m4: "write_payload w mem = m4"
    by (simp add: write_payload_def Let_def at_def [symmetric] m0_def m1_def m2_def m3_def m4_def)
  have len: "length m0 = 4096" "length m1 = 4096" "length m2 = 4096" "length m3 = 4096" "length m4 = 4096"
    using assms(1) by (simp_all add: m0_def m1_def m2_def m3_def m4_def)
  have b: "b ! i = m4 ! (at + i)" if "i < 2016" for i
    using fit len by (simp add: b_def m4 bank_bytes_def at_def)
  have t: "m4 ! (at + i) = (if 334 \<le> i \<and> i < 2016 then 0 else m3 ! (at + i))" for i
    using fit len unfolding m4_def by (subst write_tail_nth) auto
  have c: "m3 ! (at + i) = m2 ! (at + i)" if "i < 24" for i
    using fit len that unfolding m3_def by (subst write_children_frame) auto
  have b2: "b ! i = m2 ! (at + i)" if "i < 24" for i using b t c that by simp
  have s2: "m2 ! (at + i) = m1 ! (at + i)" if "i < 16" for i
    using fit len that unfolding m2_def by (subst store_u32le_frame) auto
  have s1: "m1 ! (at + i) = m0 ! (at + i)" if "i < 8" for i
    using fit len that unfolding m1_def by (subst store_u32le_frame) auto
  have "load_u64le b 0 = load_u64le m0 at"
    by (rule le64.load_shift) (simp add: b2 s2 s1)
  also have "\<dots> = wr_generation w" using fit assms(1) unfolding m0_def by (intro load_store_u64le) simp
  finally show "load_u64le b generation_at = wr_generation w" .
  have "load_u32le b 8 = load_u32le m1 (at + 8)"
    by (rule le32.load_shift) (simp add: b2 s2 add.assoc)
  also have "\<dots> = 2016" using fit len unfolding m1_def by (intro load_store_u32le) simp
  finally show "load_u32le b length_at = of_nat spec_bank_size" by simp
  have "load_u32le b 16 = load_u32le m2 (at + 16)"
    by (rule le32.load_shift) (simp add: b2 add.assoc)
  also have "\<dots> = 62" using fit len unfolding m2_def by (intro load_store_u32le) simp
  finally show "load_u32le b count_at = of_nat chryso_child_count" by simp
  have v: "load_u32le m3 (at + 24 + c * 4) = wr_budget w ! c \<and> m3 ! (at + 272 + c) = wr_desired w ! c"
    if "c < 62" for c
    using fit len that write_children_values [of at m2 "[0..<62]" c "wr_budget w" "wr_desired w"]
    by (simp add: m3_def)
  show "bank_budget b c = wr_budget w ! c" if c: "c < chryso_child_count"
  proof -
    have "load_u32le b (24 + c * 4) = load_u32le m3 (at + 24 + c * 4)"
      using c by (intro le32.load_shift) (simp add: b t add.assoc)
    then show ?thesis using v [OF c] by (simp add: bank_budget_def)
  qed
  show "bank_desired b c = wr_desired w ! c" if c: "c < chryso_child_count"
    using c b [of "272 + c"] t [of "272 + c"] v [OF c]
    by (simp add: bank_desired_def load_u8_def add.assoc)
  show "tail_at \<le> i \<Longrightarrow> i < spec_bank_size \<Longrightarrow> b ! i = 0" using b t by simp
qed

end
