(* ===== verification/Spec_Commit.thy ===== *)
theory Spec_Commit
  imports Spec_Writer
begin

text \<open>
  What a commit of the policy page guarantees to its reader: the proofs about
  \<open>Spec_Writer\<close> and \<open>Root_Spec\<close> together, with the writer stopped after any of its store
  groups, and what the bank's checksum detects.
\<close>

text \<open>Stores inside a bank are stores to the bank's bytes.\<close>

lemma drop_write_list: "drop at (write_list xs (at + off) vs) = write_list (drop at xs) off vs"
proof (induction vs arbitrary: xs off)
  case (Cons v vs)
  show ?case using Cons [of "xs[at + off := v]" "Suc off"] by (simp add: drop_update_swap)
qed simp

lemma bank_bytes_store:
  "bank_bytes (store_u32le mem (bank_at k + off) v) k = store_u32le (bank_bytes mem k) off v"
  by (simp add: bank_bytes_def store_u32le_def drop_write_list)

lemma bank_bytes_length: "length mem = spec_page_size \<Longrightarrow> k < 2 \<Longrightarrow> spec_bank_size \<le> length (bank_bytes mem k)"
  using bank_fits [of k] by (simp add: bank_bytes_def)

text \<open>The page a writer holds after some number of its store groups.\<close>

definition page_after :: "spec_writer \<Rightarrow> u8 list \<Rightarrow> spec_writer_step_kind list \<Rightarrow> u8 list" where
  "page_after w mem ks = foldl (\<lambda>m k. act w k m) mem ks"

lemma page_after_simps [simp]:
  "page_after w mem [] = mem"
  "page_after w mem (k # ks) = page_after w (act w k mem) ks"
  by (simp_all add: page_after_def)

lemma page_after_length [simp]: "length (page_after w mem ks) = length mem"
  by (induction ks arbitrary: mem) simp_all

text \<open>A writer a successful \<open>spec_writer_begin\<close> leaves.\<close>

definition writer_ready :: "spec_writer \<Rightarrow> bool" where
  "writer_ready w \<longleftrightarrow>
     wr_page w \<noteq> None \<and> wr_bank w \<le> 1 \<and> bit (wr_open_seq w) 0 \<and>
     unat (wr_open_seq w) + 1 < 2 ^ 32 \<and>
     length (wr_budget w) = chryso_child_count \<and> length (wr_desired w) = chryso_child_count"

lemma ready_bank: "writer_ready w \<Longrightarrow> unat (wr_bank w) < 2"
  by (simp add: writer_ready_def word_le_nat_alt)

lemma close_seq_even:
  assumes "bit s 0" "unat s + 1 < 2 ^ 32"
  shows "s + 1 \<noteq> (0::u32)" and "(s + 1) AND 1 = 0"
proof -
  have u: "unat (s + 1) = unat s + 1"
    using assms(2) by (simp add: unat_add_fits)
  then show "s + 1 \<noteq> 0" by (metis Suc_eq_plus1 nat.distinct(1) unat_0)
  have "even (s + 1)" using assms(1) by (simp add: bit_0)
  then show "(s + 1) AND 1 = 0" by (simp add: and_one_eq mod_2_eq_odd)
qed

lemma payload_seq:
  assumes "length mem = spec_page_size" "wr_bank w \<le> 1"
  shows "load_u32le (bank_bytes (write_payload w mem) (unat (wr_bank w))) seq_at =
    load_u32le (bank_bytes mem (unat (wr_bank w))) seq_at"
proof -
  note upt_rec_numeral [simp del]
  define at where "at = bank_at (unat (wr_bank w))"
  have fit: "at + 2016 \<le> 4096"
    using bank_fits [of "unat (wr_bank w)"] assms(2) by (simp add: at_def word_le_nat_alt)
  have "write_payload w mem ! (at + i) = mem ! (at + i)" if "20 \<le> i" "i < 24" for i
    unfolding write_payload_def Let_def at_def [symmetric]
    using fit assms(1) that
    by (subst write_tail_nth) (auto simp: write_children_frame store_u32le_frame store_u64le_frame)
  then show ?thesis
    using fit assms(1) act_length [of w Step_write mem]
    by (intro le32.load_shift) (simp add: bank_bytes_def at_def [symmetric])
qed

text \<open>The bank after its payload, its seal and its close.\<close>

lemma committed_bank:
  assumes "writer_ready w" "length mem = spec_page_size"
  defines "k \<equiv> unat (wr_bank w)"
  defines "page \<equiv> page_after w mem [Step_open, Step_write, Step_seal, Step_close]"
  shows "check_spec_bank page k = Abi_ok"
    and "load_u64le (bank_bytes page k) generation_at = wr_generation w"
    and "c < chryso_child_count \<Longrightarrow> bank_budget (bank_bytes page k) c = wr_budget w ! c"
    and "c < chryso_child_count \<Longrightarrow> bank_desired (bank_bytes page k) c = wr_desired w ! c"
proof -
  have k: "k < 2" using ready_bank [OF assms(1)] by (simp add: k_def)
  have wb: "wr_bank w \<le> 1" using assms(1) by (simp add: writer_ready_def)
  define m1 where "m1 = act w Step_open mem"
  define m2 where "m2 = write_payload w m1"
  define b2 where "b2 = bank_bytes m2 k"
  define b3 where "b3 = store_u32le b2 crc_at (bank_crc b2)"
  define b4 where "b4 = store_u32le b3 seq_at (wr_open_seq w + 1)"
  have lm: "length m1 = 4096" "length m2 = 4096"
    using assms(2) act_length [of w Step_write m1] by (simp_all add: m1_def m2_def)
  have lb: "2016 \<le> length b2" using bank_bytes_length [of m2 k] lm k by (simp add: b2_def)
  have b4: "bank_bytes page k = b4"
    by (simp add: page_def m1_def [symmetric] m2_def [symmetric] seal_def Let_def k_def [symmetric]
        bank_bytes_store b2_def b3_def b4_def) (simp add: bank_bytes_def m1_def m2_def k_def)
  have len: "length page = 4096" unfolding page_def using assms(2) by (simp only: page_after_length)
  have far: "b4 ! i = b2 ! i" if "i < 12 \<or> 16 \<le> i" "i < 20 \<or> 24 \<le> i" for i
    using that lb by (simp add: b3_def b4_def store_u32le_frame)
  have lb': "length b4 = length b2" "length b3 = length b2" by (simp_all add: b3_def b4_def)
  note pv = payload_values [of m1 w, OF _ wb, folded k_def m2_def b2_def]
  have f64: "load_u64le b4 0 = load_u64le b2 0" by (rule le64.load_shift) (simp add: far)
  have f32: "load_u32le b4 at = load_u32le b2 at"
    if "at + 4 \<le> 12 \<or> at = 16 \<or> 24 \<le> at" for at
    using that by (intro le32.load_shift far) auto
  have crc: "load_u32le b4 12 = bank_crc b4"
  proof -
    have "load_u32le b4 12 = load_u32le b3 12"
      using lb lb' unfolding b4_def by (intro le32.load_store_other) simp_all
    also have "\<dots> = bank_crc b2" using lb unfolding b3_def by (intro load_store_u32le) simp
    also have "\<dots> = bank_crc b4" by (rule bank_crc_ignores) (use lb lb' far in auto)
    finally show ?thesis .
  qed
  have seq: "load_u32le b4 20 = wr_open_seq w + 1"
    using lb lb' unfolding b4_def by (intro load_store_u32le) simp
  have z: "zero_span b4 334 1682"
    using lb lb' lm far pv(6) by (simp add: zero_span_def list_all_length)
  show "check_spec_bank page k = Abi_ok"
    using k close_seq_even [of "wr_open_seq w"] assms(1,2) crc seq z pv(2,3) lm f32 [of 8] f32 [of 16]
    by (simp add: check_spec_bank_def bank_bytes_def [symmetric] b4 spec_bank_rules_def writer_ready_def
        len)
  show "load_u64le (bank_bytes page k) generation_at = wr_generation w"
    using f64 pv(1) lm by (simp add: b4)
  show "c < chryso_child_count \<Longrightarrow> bank_budget (bank_bytes page k) c = wr_budget w ! c"
    using f32 [of "24 + c * 4"] pv(4) lm by (simp add: b4 bank_budget_def)
  show "c < chryso_child_count \<Longrightarrow> bank_desired (bank_bytes page k) c = wr_desired w ! c"
    using far [of "272 + c"] pv(5) lm by (simp add: b4 bank_desired_def load_u8_def)
qed

text \<open>Until the flip, the header and the other bank are the ones the commit began with.\<close>

lemma page_after_frame:
  assumes "writer_ready w" "length mem = spec_page_size" "Step_flip \<notin> set ks"
    "i \<notin> bank_span (unat (wr_bank w))"
  shows "page_after w mem ks ! i = mem ! i"
  using assms
proof (induction ks arbitrary: mem)
  case (Cons k ks)
  have "act w k mem ! i = mem ! i"
    by (rule act_frame) (use Cons.prems in \<open>auto simp: writer_ready_def\<close>)
  then show ?case using Cons by simp
qed simp

lemma bank_spans_disjoint: "j < 2 \<Longrightarrow> k < 2 \<Longrightarrow> j \<noteq> k \<Longrightarrow> i \<in> bank_span j \<Longrightarrow> i \<notin> bank_span k"
  by (auto simp: bank_span_def bank_at_def less_2_cases_iff)

lemma header_not_in_bank: "i < spec_header_size \<Longrightarrow> i \<notin> bank_span k"
  by (simp add: bank_span_def bank_at_def)

lemma before_flip:
  assumes "writer_ready w" "length mem = spec_page_size" "Step_flip \<notin> set ks"
  defines "page \<equiv> page_after w mem ks"
  shows "check_spec_header page = check_spec_header mem" and "page_active page = page_active mem"
    and "j < 2 \<Longrightarrow> j \<noteq> unat (wr_bank w) \<Longrightarrow> bank_view page j = bank_view mem j"
proof -
  have len: "length page = spec_page_size" using assms(2) by (simp add: page_def)
  have fr: "page ! i = mem ! i" if "i \<notin> bank_span (unat (wr_bank w))" for i
    unfolding page_def by (rule page_after_frame [OF assms(1-3) that])
  show "check_spec_header page = check_spec_header mem" "page_active page = page_active mem"
    by (rule header_view [OF len assms(2)]; simp add: fr header_not_in_bank)+
  show "bank_view page j = bank_view mem j" if j: "j < 2" "j \<noteq> unat (wr_bank w)"
    by (rule bank_view_eqI [OF len assms(2) j(1)])
      (use bank_spans_disjoint [OF j(1) ready_bank [OF assms(1)] j(2)] fr in blast)
qed

text \<open>While the writer is inside its bank, the sequence word is odd and the bank is refused.\<close>

lemma open_bank_refused:
  assumes "writer_ready w" "length mem = spec_page_size" "ks \<in> {[Step_open], [Step_open, Step_write],
    [Step_open, Step_write, Step_seal]}"
  shows "\<not> eligible (page_after w mem ks) (unat (wr_bank w)) m ret"
proof -
  define k where "k = unat (wr_bank w)"
  have k: "k < 2" using ready_bank [OF assms(1)] by (simp add: k_def)
  have wb: "wr_bank w \<le> 1" using assms(1) by (simp add: writer_ready_def)
  have odd: "\<not> eligible page k m ret"
    if "load_u32le (bank_bytes page k) seq_at = wr_open_seq w" for page
    using that bank_ok_seq [of page k] assms(1)
    by (auto simp: eligible_def bank_acceptable_def writer_ready_def and_one_eq mod_2_eq_odd bit_0)
  define m1 where "m1 = act w Step_open mem"
  have l1: "length m1 = 4096" using assms(2) by (simp add: m1_def)
  have s1: "load_u32le (bank_bytes m1 k) 20 = wr_open_seq w"
    using bank_bytes_length [OF assms(2) k] unfolding m1_def
    by (simp add: k_def [symmetric] bank_bytes_store) (rule load_store_u32le, simp)
  have s2: "load_u32le (bank_bytes (write_payload w m1) k) 20 = wr_open_seq w"
    using payload_seq [OF l1 wb] s1 by (simp add: k_def)
  have s3: "load_u32le (bank_bytes (seal w (write_payload w m1)) k) 20 = wr_open_seq w"
  proof -
    have "2016 \<le> length (bank_bytes (write_payload w m1) k)"
      by (rule bank_bytes_length) (use l1 act_length [of w Step_write m1] k in simp_all)
    then show ?thesis
      using s2 by (simp add: seal_def Let_def k_def [symmetric] bank_bytes_store le32.load_store_other)
  qed
  show ?thesis
    using assms(3) odd s1 s2 s3 by (auto simp: k_def [symmetric] m1_def)
qed

section \<open>Lemmas: what a successful begin leaves\<close>

text \<open>The header \<open>spec_writer_begin\<close> writes into a page that has none.\<close>

lemma fresh_header:
  assumes "length mem = spec_page_size" "all_zero mem spec_header_size"
  defines "page \<equiv> store_u32le (store_u32le (store_u64le mem 0 chryso_magic_spec) 8 chryso_abi_version)
    active_at 0"
  shows "check_spec_header page = Abi_ok" and "page_active page = 0"
    and "spec_header_size \<le> i \<Longrightarrow> page ! i = mem ! i"
proof -
  define m1 where "m1 = store_u64le mem 0 chryso_magic_spec"
  define m2 where "m2 = store_u32le m1 8 chryso_abi_version"
  have page: "page = store_u32le m2 12 0" by (simp add: page_def m1_def m2_def)
  have len: "length m1 = 4096" "length m2 = 4096" "length page = 4096"
    using assms(1) by (simp_all add: m1_def m2_def page)
  have z: "mem ! i = 0" if "i < 64" for i
    using assms(1,2) that by (auto simp: all_zero_def list_all_length)
  have magic: "load_u64le page 0 = chryso_magic_spec"
  proof -
    have "load_u64le page 0 = load_u64le m1 0"
      by (rule le64.load_shift) (use len in \<open>simp add: page m2_def store_u32le_frame\<close>)
    then show ?thesis using assms(1) by (simp add: m1_def load_store_u64le)
  qed
  have ver: "load_u32le page 8 = chryso_abi_version"
    using len by (simp add: page le32.load_store_other) (simp add: m2_def load_store_u32le)
  have act: "load_u32le page 12 = 0" using len by (simp add: page load_store_u32le)
  have far: "page ! i = mem ! i" if "16 \<le> i" for i
    using that len assms(1) by (simp add: page m2_def m1_def store_u32le_frame store_u64le_frame)
  have "zero_span page 16 48"
    using far z len by (simp add: zero_span_def list_all_length)
  then show "check_spec_header page = Abi_ok"
    using magic ver act len by (simp add: check_spec_header_def spec_header_rules_def)
  show "page_active page = 0" using act by (simp add: page_active_def)
  show "spec_header_size \<le> i \<Longrightarrow> page ! i = mem ! i" using far by simp
qed

lemma ckd_add_Some: "ckd_add_u32 a b = Some s \<longleftrightarrow> unat a + unat b < 2 ^ 32 \<and> s = a + b"
  by (auto simp: ckd_add_u32_def)

lemma open_seq_odd: "bit (seq + (if seq AND 1 \<noteq> 0 then 2 else 1)) 0" for seq :: u32
  by (simp add: bit_0 and_one_eq mod_2_eq_odd)

lemma word_le_one: "x \<le> 1 \<Longrightarrow> x = 0 \<or> x = 1" for x :: u32
  by (auto simp: word_le_nat_alt word_unat_eq_iff)

lemma begin_ok:
  assumes "spec_writer_begin w page mem generation budget desired = (Write_ok, w', mem')"
    "length mem = spec_page_size"
  shows "writer_ready w'" and "wr_phase w' = Phase_idle" and "check_spec_header mem' = Abi_ok"
    and "wr_bank w' = 1 - page_active mem'" and "length mem' = spec_page_size"
    and "spec_header_size \<le> i \<Longrightarrow> mem' ! i = mem ! i"
    and "wr_generation w' = generation"
    and "c < chryso_child_count \<Longrightarrow> wr_budget w' ! c = budget ! c \<and> wr_desired w' ! c = desired ! c"
proof -
  note upt_rec_numeral [simp del]
  let ?fresh = "all_zero mem spec_header_size"
  let ?active = "if ?fresh then 0 else page_active mem"
  let ?seq = "page_seq mem (unat (1 - ?active))"
  let ?open = "?seq + (if ?seq AND 1 \<noteq> 0 then 2 else 1)"
  have hdr: "?fresh \<or> check_spec_header mem = Abi_ok" and fits: "unat ?open + 1 < 2 ^ 32"
    and pg: "page \<noteq> None"
    and w': "w' = \<lparr>wr_page = page, wr_phase = Phase_idle, wr_bank = 1 - ?active, wr_open_seq = ?open,
      wr_generation = generation, wr_budget = map (\<lambda>c. budget ! c) [0..<chryso_child_count],
      wr_desired = map (\<lambda>c. desired ! c) [0..<chryso_child_count]\<rparr>"
    and mem': "mem' = (if ?fresh
      then store_u32le (store_u32le (store_u64le mem 0 chryso_magic_spec) 8 chryso_abi_version) active_at 0
      else mem)"
    using assms(1)
    by (auto simp: spec_writer_begin_def Let_def ckd_add_Some split: if_splits option.splits)
  have act: "page_active mem' = ?active"
    using fresh_header(2) [OF assms(2)] by (simp add: mem')
  show hok: "check_spec_header mem' = Abi_ok"
    using fresh_header(1) [OF assms(2)] hdr by (auto simp: mem')
  have "page_active mem' \<le> 1" using header_ok_active [OF hok] by (simp add: page_active_def)
  from word_le_one [OF this] have "1 - ?active \<le> 1" unfolding act [symmetric] by (elim disjE) simp_all
  then show "writer_ready w'"
    using pg fits open_seq_odd [of ?seq] by (simp add: w' writer_ready_def)
  show "wr_phase w' = Phase_idle" "wr_bank w' = 1 - page_active mem'" "wr_generation w' = generation"
    using act by (simp_all add: w')
  show "length mem' = spec_page_size" using assms(2) by (simp add: mem')
  show "spec_header_size \<le> i \<Longrightarrow> mem' ! i = mem ! i"
    using fresh_header(3) [OF assms(2), of i] by (simp add: mem')
  show "c < chryso_child_count \<Longrightarrow> wr_budget w' ! c = budget ! c \<and> wr_desired w' ! c = desired ! c"
    by (simp add: w')
qed

section \<open>Lemmas: running the steps\<close>

text \<open>Where in the protocol a writer stands: the steps it has done.\<close>

fun steps_done :: "spec_writer_phase \<Rightarrow> nat" where
  "steps_done Phase_idle = 0"
| "steps_done Phase_open = 1"
| "steps_done Phase_written = 2"
| "steps_done Phase_sealed = 3"
| "steps_done Phase_closed = 4"
| "steps_done Phase_flipped = 5"

lemma step_expected:
  "wr_phase w = fst (transitions k) \<longleftrightarrow>
   steps_done (wr_phase w) < length commit_steps \<and> k = commit_steps ! steps_done (wr_phase w)"
  by (cases "wr_phase w"; cases k) (simp_all add: commit_steps_def nth_Cons')

lemma steps_done_next: "steps_done (snd (transitions k)) = Suc (steps_done (fst (transitions k)))"
  by (cases k) simp_all

lemma act_phase [simp]: "act (w\<lparr>wr_phase := p\<rparr>) k mem = act w k mem"
  by (cases k) (simp_all add: write_payload_def seal_def)

lemma page_after_phase [simp]: "page_after (w\<lparr>wr_phase := p\<rparr>) mem ks = page_after w mem ks"
  by (simp add: page_after_def)

lemma run_steps_refused: "r \<noteq> Write_ok \<Longrightarrow> run_steps (r, w, mem) ks = (r, w, mem)"
  by (cases ks; cases r) simp_all

lemma run_steps_prefix:
  assumes "wr_page w \<noteq> None" "steps_done (wr_phase w) + length ks \<le> length commit_steps"
    "ks = take (length ks) (drop (steps_done (wr_phase w)) commit_steps)"
  shows "\<exists>w'. run_steps (Write_ok, w, mem) ks = (Write_ok, w', page_after w mem ks) \<and>
    steps_done (wr_phase w') = steps_done (wr_phase w) + length ks"
  using assms
proof (induction ks arbitrary: w mem)
  case (Cons k ks)
  let ?n = "steps_done (wr_phase w)" and ?w = "w\<lparr>wr_phase := snd (transitions k)\<rparr>"
  have n: "?n < length commit_steps" using Cons.prems(2) by simp
  have dr: "drop ?n commit_steps = commit_steps ! ?n # drop (Suc ?n) commit_steps"
    by (rule Cons_nth_drop_Suc [OF n, symmetric])
  have k: "k = commit_steps ! ?n" and ks: "ks = take (length ks) (drop (Suc ?n) commit_steps)"
    using Cons.prems(3) dr by simp_all
  have ph: "wr_phase w = fst (transitions k)" using step_expected k n by blast
  have s: "steps_done (wr_phase ?w) = Suc ?n" using ph by (simp add: steps_done_next)
  have "spec_writer_step w mem k = (Write_ok, ?w, act w k mem)"
    using ph Cons.prems(1) by (simp add: spec_writer_step_def)
  moreover obtain w' where "run_steps (Write_ok, ?w, act w k mem) ks =
      (Write_ok, w', page_after ?w (act w k mem) ks)" "steps_done (wr_phase w') = Suc ?n + length ks"
    using Cons.IH [of ?w "act w k mem"] Cons.prems(1,2) ks s by auto
  ultimately show ?case by simp
qed simp

text \<open>Any other step is refused, and the run ends there.\<close>

lemma run_steps_ok_prefix:
  "fst (run_steps (Write_ok, w, mem) ks) = Write_ok \<Longrightarrow>
   \<exists>rest. drop (steps_done (wr_phase w)) commit_steps = ks @ rest"
proof (induction ks arbitrary: w mem)
  case (Cons k ks)
  let ?n = "steps_done (wr_phase w)" and ?w = "w\<lparr>wr_phase := snd (transitions k)\<rparr>"
  have ok: "wr_page w \<noteq> None" "wr_phase w = fst (transitions k)"
    using Cons.prems by (auto simp: spec_writer_step_def run_steps_refused split: if_splits)
  have "fst (run_steps (Write_ok, ?w, act w k mem) ks) = Write_ok"
    using Cons.prems ok by (simp add: spec_writer_step_def)
  then obtain rest where r: "drop (steps_done (wr_phase ?w)) commit_steps = ks @ rest"
    using Cons.IH by blast
  have n: "?n < length commit_steps" "k = commit_steps ! ?n"
    using step_expected [of w k] ok(2) by blast+
  have "drop ?n commit_steps = k # drop (Suc ?n) commit_steps"
    using Cons_nth_drop_Suc [OF n(1)] n(2) by simp
  then show ?case using r ok(2) by (simp add: steps_done_next)
qed simp

lemma commit_length: "length commit_steps = 5"
  by (simp add: commit_steps_def)

lemma run_prefix_of_commit:
  assumes "writer_ready w" "wr_phase w = Phase_idle"
  shows "\<exists>w'. run_steps (Write_ok, w, mem) (take n commit_steps) =
    (Write_ok, w', page_after w mem (take n commit_steps))"
proof -
  have "take (min 5 n) commit_steps = take n commit_steps"
    by (cases "n \<le> 5") (simp_all add: commit_length)
  then show ?thesis
    using run_steps_prefix [of w "take n commit_steps" mem] assms
    by (auto simp: writer_ready_def commit_length)
qed

lemma take_commit:
  "n \<le> 4 \<Longrightarrow> Step_flip \<notin> set (take n commit_steps)"
  by (auto simp: commit_steps_def take_Cons' split: if_splits)

lemma snapshot_quiet [simp]: "snapshot (quiet_reads page)"
  by (simp add: snapshot_def quiet_reads_def page_active_def page_seq_def)

lemma copy_quiet [simp]: "pr_copy (quiet_reads page) = page"
  by (simp add: quiet_reads_def)

lemma page_policy_quiet:
  "check_spec_header page = Abi_ok \<Longrightarrow>
   page_policy ret (Some (quiet_reads page)) m =
     (if eligible page (unat (page_active page)) m ret then adopt page (unat (page_active page)) ret
      else if eligible page (1 - unat (page_active page)) m ret
      then adopt page (1 - unat (page_active page)) ret
      else ret)"
  by (simp add: page_policy_def Let_def)

lemma other_bank:
  assumes "check_spec_header page = Abi_ok"
  shows "unat (1 - page_active page) = 1 - unat (page_active page)"
    and "unat (page_active page) < 2" and "unat (1 - page_active page) \<noteq> unat (page_active page)"
  using word_le_one [OF header_ok_active [OF assms]] by (auto simp: page_active_def)

section \<open>Properties\<close>

text \<open>
  The commit protocol.  After a successful begin, a sequence of steps is accepted exactly
  when it is a beginning of open, write, seal, close, flip; a commit therefore never fails
  half way: it refuses at its begin, leaving the writer and the page untouched, or it runs all
  five store groups to the flip.
\<close>

theorem spec_writer_protocol:
  assumes "length mem = spec_page_size"
  shows "case spec_writer_begin w page mem generation budget desired of (r, w1, mem1) \<Rightarrow>
    (r = Write_ok \<longrightarrow>
      (\<forall>ks. fst (run_steps (r, w1, mem1) ks) = Write_ok \<longleftrightarrow> (\<exists>rest. commit_steps = ks @ rest)) \<and>
      fst (spec_writer_commit w page mem generation budget desired) = Write_ok \<and>
      snd (snd (spec_writer_commit w page mem generation budget desired)) =
        page_after w1 mem1 commit_steps) \<and>
    (r \<noteq> Write_ok \<longrightarrow> spec_writer_commit w page mem generation budget desired = (r, w, mem))"
proof -
  obtain r w1 mem1 where b: "spec_writer_begin w page mem generation budget desired = (r, w1, mem1)"
    by (metis prod_cases3)
  have refused: "w1 = w \<and> mem1 = mem" if "r \<noteq> Write_ok"
    using b that by (auto simp: spec_writer_begin_def Let_def split: if_splits option.splits)
  have ok: "(fst (run_steps (Write_ok, w1, mem1) ks) = Write_ok) = (\<exists>rest. commit_steps = ks @ rest)"
    if "r = Write_ok" for ks
  proof
    have ph: "wr_phase w1 = Phase_idle" using begin_ok(2) [OF _ assms] b that by blast
    then show "fst (run_steps (Write_ok, w1, mem1) ks) = Write_ok \<Longrightarrow> \<exists>rest. commit_steps = ks @ rest"
      using run_steps_ok_prefix [of w1 mem1 ks] by simp
    assume "\<exists>rest. commit_steps = ks @ rest"
    then have "take (length ks) commit_steps = ks" by (metis append_eq_conv_conj)
    moreover have "writer_ready w1" using begin_ok(1) [OF _ assms] b that by blast
    ultimately show "fst (run_steps (Write_ok, w1, mem1) ks) = Write_ok"
      using run_prefix_of_commit [OF _ ph, of mem1 "length ks"] by auto
  qed
  have "\<exists>w'. spec_writer_commit w page mem generation budget desired =
      (Write_ok, w', page_after w1 mem1 commit_steps)" if "r = Write_ok"
    using run_prefix_of_commit [of w1 mem1 5] begin_ok(1,2) [OF _ assms] b that
    by (auto simp: spec_writer_commit_def commit_length)
  then show ?thesis
    using b ok refused run_steps_refused [of r w mem commit_steps]
    by (auto simp: spec_writer_commit_def)
qed

theorem spec_writer_protocol_witness:
  "spec_writer_commit spec_writer_init None (replicate 4096 0) 1 [] [] =
     (Write_bad_page, spec_writer_init, replicate 4096 0)"
  using spec_writer_protocol [of "replicate 4096 0" spec_writer_init None 1 "[]" "[]"]
  by (simp add: spec_writer_begin_def spec_writer_init_def)


lemma blank_active: "all_zero (replicate 4096 0) spec_header_size"
  by (simp add: all_zero_def list_all_length)

text \<open>A blank page, for the instances below.\<close>

lemma blank_begin:
  "fst (spec_writer_begin spec_writer_init (Some 0x40004000) (replicate 4096 0) g b d) = Write_ok"
proof -
  note upt_rec_numeral [simp del]
  have "page_seq (replicate 4096 0) (unat (1 :: u32)) = 0"
    by (simp add: page_seq_def bank_bytes_def load_u32le_def)
  moreover have "all_zero (replicate 4096 0) 64"
    by (simp add: all_zero_def list_all_length)
  ultimately show ?thesis
    by (simp add: spec_writer_begin_def spec_writer_init_def Let_def ckd_add_u32_def
        page_alignment_def)
qed


text \<open>The flip changes the selector only.\<close>

lemma flipped:
  assumes "length page = spec_page_size" "check_spec_header page = Abi_ok" "bank \<le> 1"
  defines "page' \<equiv> store_u32le page active_at bank"
  shows "check_spec_header page' = Abi_ok" and "page_active page' = bank"
    and "j < 2 \<Longrightarrow> bank_view page' j = bank_view page j"
proof -
  have len: "length page' = 4096" using assms(1) by (simp add: page'_def)
  have fr: "page' ! i = page ! i" if "i < 12 \<or> 16 \<le> i" for i
    using that assms(1) by (simp add: page'_def store_u32le_frame)
  have a: "load_u32le page' 12 = bank" using assms(1) by (simp add: page'_def load_store_u32le)
  then show "page_active page' = bank" by (simp add: page_active_def)
  have "load_u64le page' 0 = load_u64le page 0" "load_u32le page' 8 = load_u32le page 8"
    using fr by (auto intro!: le64.load_shift le32.load_shift)
  moreover have "zero_span page' 16 48 = zero_span page 16 48"
    using len assms(1) fr by (simp add: zero_span_def list_all_length)
  ultimately show "check_spec_header page' = Abi_ok"
    using assms(1-3) a len by (auto simp: check_spec_header_def spec_header_rules_def split: if_splits)
  show "j < 2 \<Longrightarrow> bank_view page' j = bank_view page j"
    by (rule bank_view_eqI) (use len assms(1) fr in \<open>auto simp: bank_span_def bank_at_def\<close>)
qed

lemma committed_page:
  assumes "writer_ready w" "length mem = spec_page_size" "check_spec_header mem = Abi_ok"
  defines "k \<equiv> unat (wr_bank w)"
  defines "page \<equiv> page_after w mem commit_steps"
  shows "check_spec_header page = Abi_ok" and "unat (page_active page) = k"
    and "check_spec_bank page k = Abi_ok"
    and "bank_policy (bank_bytes page k) k = (bank_policy (bank_bytes page k) k)
      \<lparr>sp_generation := wr_generation w, sp_budget := wr_budget w, sp_desired := wr_desired w\<rparr>"
proof -
  let ?ks = "[Step_open, Step_write, Step_seal, Step_close]"
  define p4 where "p4 = page_after w mem ?ks"
  have page: "page = store_u32le p4 active_at (wr_bank w)"
    by (simp add: page_def p4_def commit_steps_def)
  have len: "length p4 = spec_page_size" "length page = spec_page_size"
    using assms(2) unfolding p4_def page by (simp_all only: page_after_length le32.store_length)
  have k: "k < 2" using ready_bank [OF assms(1)] by (simp add: k_def)
  have wb: "wr_bank w \<le> 1" using assms(1) by (simp add: writer_ready_def)
  note f = flipped [OF len(1) _ wb, folded page]
  have h4: "check_spec_header p4 = Abi_ok"
    using before_flip(1) [OF assms(1,2), of ?ks] assms(3) unfolding p4_def by simp
  then show "check_spec_header page = Abi_ok" "unat (page_active page) = k"
    using f(1,2) by (simp_all add: k_def)
  have v: "bank_view page k = bank_view p4 k" using f(3) [OF h4 k] .
  note cb = committed_bank [OF assms(1,2), folded k_def p4_def]
  note c = check_bank_view [OF len(2) k] and c4 = check_bank_view [OF len(1) k]
  show "check_spec_bank page k = Abi_ok" using c(1) c4(1) cb(1) v by simp
  have "sp_budget (bank_policy (bank_bytes page k) k) = wr_budget w"
    using assms(1) c(2) c4(2) v cb(3)
    by (intro nth_equalityI) (simp_all add: writer_ready_def, simp add: bank_policy_def)
  moreover have "sp_desired (bank_policy (bank_bytes page k) k) = wr_desired w"
    using assms(1) c(2) c4(2) v cb(4)
    by (intro nth_equalityI) (simp_all add: writer_ready_def, simp add: bank_policy_def)
  moreover have "sp_generation (bank_policy (bank_bytes page k) k) = wr_generation w"
    using c(3) c4(3) v cb(2) by simp
  ultimately show "bank_policy (bank_bytes page k) k = (bank_policy (bank_bytes page k) k)
      \<lparr>sp_generation := wr_generation w, sp_budget := wr_budget w, sp_desired := wr_desired w\<rparr>"
    by simp
qed

lemma blank_commit:
  "fst (spec_writer_commit spec_writer_init (Some 0x40004000) (replicate 4096 0) g b d) = Write_ok"
proof -
  obtain w1 mem1 where b: "spec_writer_begin spec_writer_init (Some 0x40004000) (replicate 4096 0) g b d =
      (Write_ok, w1, mem1)"
    using blank_begin by (metis prod.collapse)
  show ?thesis
    using run_prefix_of_commit [of w1 mem1 5] begin_ok(1,2) [OF b] b
    by (auto simp: spec_writer_commit_def commit_length)
qed

text \<open>
  C13.  Round trip.  A committed policy whose generation is above the one Root holds, and that
  declares nothing for a child outside the image, is applied by Root's next read: Root then
  holds the generation, the budgets and the desired states the writer was given.
\<close>

theorem spec_writer_published:
  assumes "spec_writer_commit w page mem generation budget desired = (Write_ok, w', mem')"
    "length mem = spec_page_size" "length budget = chryso_child_count"
    "length desired = chryso_child_count" "sp_generation (ss_retained st) < generation"
    "\<forall>c < chryso_child_count. \<not> bit m c \<longrightarrow> budget ! c = 0 \<and> desired ! c = 0"
  shows "case root_spec_consume (Some st) (Some (quiet_reads mem')) True m of (result, st') \<Rightarrow>
    sr_outcome result = Spec_applied \<and> sr_reason result = Reject_unset \<and>
    map_option (sp_generation \<circ> ss_retained) st' = Some generation \<and>
    map_option (sp_budget \<circ> ss_retained) st' = Some budget \<and>
    map_option (sp_desired \<circ> ss_retained) st' = Some desired"
proof -
  obtain r w1 mem1 where b: "spec_writer_begin w page mem generation budget desired = (r, w1, mem1)"
    by (metis prod_cases3)
  have "r = Write_ok"
    using assms(1) b run_steps_refused [of r w1 mem1 commit_steps]
    by (cases "r = Write_ok") (simp_all add: spec_writer_commit_def)
  then have b: "spec_writer_begin w page mem generation budget desired = (Write_ok, w1, mem1)"
    using b by simp
  note bo = begin_ok [OF b assms(2)]
  have mem': "mem' = page_after w1 mem1 commit_steps"
    using run_prefix_of_commit [OF bo(1,2), of mem1 5] b assms(1)
    by (auto simp: spec_writer_commit_def commit_length)
  define k where "k = unat (wr_bank w1)"
  note cp = committed_page [OF bo(1,5,3), folded mem' k_def]
  let ?p = "bank_policy (bank_bytes mem' k) k"
  have wb: "wr_budget w1 = budget"
    using bo(1,8) assms(3) by (intro nth_equalityI) (auto simp: writer_ready_def)
  have wd: "wr_desired w1 = desired"
    using bo(1,8) assms(4) by (intro nth_equalityI) (auto simp: writer_ready_def)
  have p: "sp_generation ?p = generation" "sp_budget ?p = budget" "sp_desired ?p = desired"
    using cp(4) bo(7) wb wd by (metis root_spec_policy.select_convs root_spec_policy.surjective
        root_spec_policy.update_convs)+
  have cb: "bank_budget (bank_bytes mem' k) c = budget ! c"
    and cd: "bank_desired (bank_bytes mem' k) c = desired ! c" if "c < 62" for c
    using p(2,3) that by (auto simp: bank_policy_def)
  have el: "eligible mem' k m (ss_retained st)"
    using cp(3) p(1) assms(5,6) cb cd
    by (auto simp: eligible_def bank_acceptable_def word_gt_0 Let_def dest: word_le_less_eq [THEN iffD2])
  have pp: "page_policy (ss_retained st) (Some (quiet_reads mem')) m = ?p"
    using page_policy_quiet [OF cp(1), of "ss_retained st" m] el cp(2) p(1) assms(5)
    by (simp add: adopt_def)
  have newer: "ca_kind (evaluate mem' k m (ss_retained st)) = Candidate_newer"
    using el p(1) assms(5) bank_ok_seq [OF cp(3)]
    by (auto simp: evaluate_newer_iff eligible_def)
  then have "sr_reason (fst (consume_page st (Some (quiet_reads mem')) m)) = Reject_unset"
    using cp(1,2) header_ok_not_zero [OF cp(1)]
    by (simp add: consume_page_def Let_def page_active_def)
  then show ?thesis
    using pp p assms(5) consume_applied [of st "Some (quiet_reads mem')" m]
      consume_retained [of st "Some (quiet_reads mem')" m]
    by simp
qed

theorem spec_writer_published_witness:
  "\<exists>w' mem'. spec_writer_commit spec_writer_init (Some 0x40004000) (replicate 4096 0) 1
      (replicate 62 2) (replicate 62 0) = (Write_ok, w', mem') \<and>
    map_option (sp_budget \<circ> ss_retained)
      (snd (root_spec_consume (Some root_spec_init) (Some (quiet_reads mem')) True (- 1))) =
      Some (replicate 62 2)"
proof -
  obtain w' mem' where c: "spec_writer_commit spec_writer_init (Some 0x40004000) (replicate 4096 0) 1
      (replicate 62 2) (replicate 62 0) = (Write_ok, w', mem')"
    using blank_commit by (metis prod.collapse)
  have "bit (- 1 :: u64) c" if "c < 62" for c using that by simp
  then show ?thesis
    using spec_writer_published [OF c, of root_spec_init "- 1"] c
    by (auto simp: root_spec_init_def root_spec_policy_zero_def word_gt_0 split: prod.splits)
qed

section \<open>What the checksum detects\<close>

lemma xor_cancel: "a XOR b = a XOR c \<longleftrightarrow> b = c" for a b c :: "'a::len word"
proof
  assume "a XOR b = a XOR c"
  then have "a XOR (a XOR b) = a XOR (a XOR c)" by simp
  then show "b = c" by (simp add: xor.assoc [symmetric])
qed simp

lemma xor_cancel_right: "b XOR a = c XOR a \<longleftrightarrow> b = c" for a b c :: "'a::len word"
  using xor_cancel [of a b c] by (simp add: xor.commute)

lemma crc32_bit_inj: "crc32_bit c = crc32_bit d \<Longrightarrow> c = d"
proof (rule bit_word_eqI)
  fix n
  assume e: "crc32_bit c = crc32_bit d" and n: "n < LENGTH(32)"
  have top_bit: "bit (crc32_bit x) 31 = bit x 0" for x
    using bit_imp_le_length [of x 32]
    by (cases "bit x 0") (auto simp: crc32_bit_def bit_simps and_one_eq bit_0 mod_2_eq_odd)
  have low: "bit c 0 = bit d 0" using e top_bit by metis
  then have "c AND 1 = d AND 1" by (simp add: and_one_eq mod_2_eq_odd bit_0)
  then have "drop_bit 1 c = drop_bit 1 d"
    using e by (simp only: crc32_bit_def xor_cancel_right)
  then have "bit (drop_bit 1 c) (n - 1) = bit (drop_bit 1 d) (n - 1)" by simp
  then show "bit c n = bit d n" using low by (cases n) (simp_all add: bit_simps)
qed

lemma crc32_bits_inj: "(crc32_bit ^^ n) c = (crc32_bit ^^ n) d \<Longrightarrow> c = d"
  by (induction n) (auto dest: crc32_bit_inj)

lemma crc32_update_Cons:
  "crc32_update c (x # xs) = crc32_update ((crc32_bit ^^ 8) (c XOR ucast x)) xs"
  by (simp add: crc32_update_def)

lemma crc32_update_inj: "crc32_update c xs = crc32_update d xs \<Longrightarrow> c = d"
proof (induction xs arbitrary: c d)
  case (Cons x xs)
  have "(crc32_bit ^^ 8) (c XOR ucast x) = (crc32_bit ^^ 8) (d XOR ucast x)"
    using Cons.prems unfolding crc32_update_Cons by (rule Cons.IH)
  from crc32_bits_inj [OF this] show ?case unfolding xor_cancel_right .
qed (simp add: crc32_update_def)

lemma crc32_update_byte:
  assumes "i < length xs" "crc32_update c xs = crc32_update c (xs[i := v])"
  shows "v = xs ! i"
  using assms
proof (induction xs arbitrary: c i)
  case (Cons x xs)
  show ?case
  proof (cases i)
    case 0
    have "crc32_update ((crc32_bit ^^ 8) (c XOR ucast x)) xs =
        crc32_update ((crc32_bit ^^ 8) (c XOR ucast v)) xs"
      using Cons.prems(2) unfolding 0 list_update.simps nat.case crc32_update_Cons .
    from crc32_bits_inj [OF crc32_update_inj [OF this]] have "(ucast x :: u32) = ucast v"
      unfolding xor_cancel .
    then have "unat (ucast x :: u32) = unat (ucast v :: u32)" by simp
    then show ?thesis using 0 by (simp add: unat_ucast_up word_unat_eq_iff)
  next
    case (Suc j)
    have "crc32_update ((crc32_bit ^^ 8) (c XOR ucast x)) xs =
        crc32_update ((crc32_bit ^^ 8) (c XOR ucast x)) (xs[j := v])"
      using Cons.prems(2) unfolding Suc list_update.simps nat.case crc32_update_Cons .
    from Cons.IH [OF _ this] show ?thesis using Cons.prems(1) Suc by simp
  qed
qed simp

lemma crc32_zeros_inj: "crc32_zeros c n = crc32_zeros d n \<Longrightarrow> c = d"
  using crc32_update_inj by (simp add: crc32_update_zeros [symmetric])

lemma crc32_final_inj: "crc32_final c = crc32_final d \<Longrightarrow> c = d"
  by (simp only: crc32_final_def xor_cancel_right)

text \<open>The four bytes of a field are determined by its value.\<close>

lemma load_u32le_bit:
  "i < 4 \<Longrightarrow> n < 8 \<Longrightarrow> bit (load_u32le b at) (8 * i + n) = bit (b ! (at + i)) n"
proof -
  assume "i < 4" "n < 8"
  then have "i = 0 \<or> i = 1 \<or> i = 2 \<or> i = 3" by auto
  then show ?thesis
    using \<open>n < 8\<close> bit_imp_le_length [where 'a = 8]
    by (elim disjE) (auto simp: load_u32le_def load_u8_def bit_simps dest: bit_imp_le_length)
qed

lemma load_u32le_byte:
  assumes "load_u32le b at = load_u32le b' at" "i < 4"
  shows "b ! (at + i) = b' ! (at + i)"
proof (rule bit_word_eqI)
  fix n
  assume "n < LENGTH(8)"
  then show "bit (b ! (at + i)) n = bit (b' ! (at + i)) n"
    using load_u32le_bit [OF assms(2), of n b at] load_u32le_bit [OF assms(2), of n b' at] assms(1) by simp
qed

text \<open>One changed byte among the bytes the checksum covers changes the checksum.\<close>

lemma take_drop_update:
  "take n (drop k (b[i := v])) =
     (if k \<le> i then (take n (drop k b))[i - k := v] else take n (drop k b))"
  by (auto simp: drop_update_swap take_update_swap not_le)

lemma bank_crc_byte:
  assumes "length b \<ge> spec_bank_size" "i < spec_bank_size" "v \<noteq> b ! i"
    "i < crc_at \<or> count_at \<le> i" "i < seq_at \<or> budget_at \<le> i"
  shows "bank_crc (b[i := v]) \<noteq> bank_crc b"
proof
  assume e: "bank_crc (b[i := v]) = bank_crc b"
  consider "i < 12" | "16 \<le> i" "i < 20" | "24 \<le> i" using assms(4,5) by linarith
  then show False
  proof cases
    case 1
    have t: "take 4 (drop 16 (b[i := v])) = take 4 (drop 16 b)"
      "take 1992 (drop 24 (b[i := v])) = take 1992 (drop 24 b)"
      "take 12 (b[i := v]) = (take 12 b)[i := v]"
      using 1 by (simp_all add: take_drop_update take_update_swap)
    from e have "crc32_update 0xFFFFFFFF ((take 12 b)[i := v]) = crc32_update 0xFFFFFFFF (take 12 b)"
      by (auto simp: bank_crc_def t
          dest!: crc32_final_inj crc32_update_inj crc32_zeros_inj)
    from crc32_update_byte [OF _ this [symmetric]] show False using 1 assms(1,3) by simp
  next
    case 2
    define c where "c = crc32_zeros (crc32_update 0xFFFFFFFF (take 12 b)) 4"
    have t: "take 12 (b[i := v]) = take 12 b"
      "take 1992 (drop 24 (b[i := v])) = take 1992 (drop 24 b)"
      "take 4 (drop 16 (b[i := v])) = (take 4 (drop 16 b))[i - 16 := v]"
      using 2 by (simp_all add: take_drop_update)
    from e have "crc32_update c ((take 4 (drop 16 b))[i - 16 := v]) = crc32_update c (take 4 (drop 16 b))"
      by (auto simp: bank_crc_def t c_def
          dest!: crc32_final_inj crc32_update_inj crc32_zeros_inj)
    from crc32_update_byte [OF _ this [symmetric]] show False
      using 2 assms(1,3) less_diff_conv2 [of 16 i 4] by simp
  next
    case 3
    define c where "c = crc32_zeros (crc32_update (crc32_zeros (crc32_update 0xFFFFFFFF (take 12 b)) 4)
      (take 4 (drop 16 b))) 4"
    have t: "take 12 (b[i := v]) = take 12 b"
      "take 4 (drop 16 (b[i := v])) = take 4 (drop 16 b)"
      "take 1992 (drop 24 (b[i := v])) = (take 1992 (drop 24 b))[i - 24 := v]"
      using 3 by (simp_all add: take_drop_update list_update_beyond)
    from e have "crc32_update c ((take 1992 (drop 24 b))[i - 24 := v]) =
        crc32_update c (take 1992 (drop 24 b))"
      by (auto simp: bank_crc_def t c_def dest!: crc32_final_inj)
    from crc32_update_byte [OF _ this [symmetric]] show False
      using 3 assms(1-3) less_diff_conv2 [of 24 i 1992] by simp
  qed
qed



end
