(* ===== verification/Status_Reader.thy ===== *)
theory Status_Reader
  imports Root_Status
begin

text \<open>
  The reader of Root's status page: \<open>src/src/lib/abi/root_status_reader.{h,c}\<close>.  The page is
  memory Root writes, so one attempt sees what its loads returned: the sequence before the copy,
  the copied page, and the sequence after it.  Buffers are addresses, null being \<open>None\<close>.
\<close>

datatype root_status_read_result = Read_ok | Read_torn | Read_invalid | Read_size

record attempt_reads =
  ar_before :: u64
  ar_copy :: root_status_page
  ar_after :: u64

definition root_status_copy_begin ::
  "u64 \<Rightarrow> root_status_page \<Rightarrow> (root_status_page \<times> u64) option" where
  "root_status_copy_begin before shared =
     (if before = 0 \<or> before AND 1 \<noteq> 0 then None else Some (shared, before))"

definition root_status_copy_finish ::
  "u64 \<Rightarrow> root_status_page \<Rightarrow> u64 \<Rightarrow> root_status_read_result \<times> root_status_page option" where
  "root_status_copy_finish after scratch seq =
     (if after \<noteq> seq then (Read_torn, None)
      else if hd_seq (pg_header scratch) \<noteq> seq \<or> check_root_status_page scratch \<noteq> Abi_ok
      then (Read_invalid, None)
      else (Read_ok, Some scratch))"

text \<open>The loop over the attempts left; \<open>reads\<close> gives what each of them sees.\<close>

fun read_attempts :: "attempt_reads list \<Rightarrow> root_status_read_result \<times> root_status_page option" where
  "read_attempts [] = (Read_torn, None)"
| "read_attempts (rd # rds) =
     (case root_status_copy_begin (ar_before rd) (ar_copy rd) of
        None \<Rightarrow> read_attempts rds
      | Some (scratch, seq) \<Rightarrow>
          (case root_status_copy_finish (ar_after rd) scratch seq of
             (Read_torn, _) \<Rightarrow> read_attempts rds
           | (result, out) \<Rightarrow> (result, out)))"

definition root_status_read ::
  "u64 option \<Rightarrow> u64 option \<Rightarrow> u64 option \<Rightarrow> u64 \<Rightarrow> (nat \<Rightarrow> attempt_reads) \<Rightarrow> nat \<Rightarrow>
   root_status_read_result \<times> root_status_page option" where
  "root_status_read shared scratch dest len reads attempts =
     (if shared = None \<or> scratch = None \<or> dest = None \<or> scratch = dest \<or>
         scratch = shared \<or> dest = shared \<or> len \<noteq> 16384
      then (Read_size, None)
      else read_attempts (map reads [0..<attempts]))"

definition root_status_missed :: "u64 \<Rightarrow> u64 \<Rightarrow> u64" where
  "root_status_missed previous_head current_head =
     (let earliest = (if current_head > of_nat chryso_event_count
                      then current_head - of_nat chryso_event_count else 0)
      in if earliest > previous_head then earliest - previous_head else 0)"

definition root_status_regressed ::
  "root_status_page \<Rightarrow> root_status_page \<Rightarrow> u64 \<Rightarrow> u64 \<Rightarrow> bool" where
  "root_status_regressed prior current prior_seq current_seq =
     (let hp = pg_header prior; hc = pg_header current
      in if hd_root_generation hc < hd_root_generation hp then True
         else if hd_root_generation hc \<noteq> hd_root_generation hp then False
         else if current_seq = prior_seq then prior \<noteq> current
         else if current_seq < prior_seq \<or> hd_event_head hc < hd_event_head hp \<or>
                 hd_beam_incarnation hc < hd_beam_incarnation hp
         then True
         else list_ex (\<lambda>i.
                row_lifetime_count (pg_children current ! i) <
                  row_lifetime_count (pg_children prior ! i) \<or>
                row_cumulative_down_ticks (pg_children current ! i) <
                  row_cumulative_down_ticks (pg_children prior ! i)) [0..<chryso_child_count])"

record root_status_freshness =
  fr_missed_events :: u64
  fr_age_ticks :: u64
  fr_age_known :: bool
  fr_changed :: bool

text \<open>\<open>None\<close> is \<open>regressed\<close>, with nothing written; a null \<open>out\<close> is \<open>out = False\<close>.\<close>

definition root_status_observe ::
  "root_status_page option \<Rightarrow> root_status_page option \<Rightarrow> u64 \<Rightarrow> u64 \<Rightarrow> bool \<Rightarrow>
   root_status_freshness option" where
  "root_status_observe prior current reader_ticks reader_frequency out =
     (case current of
        None \<Rightarrow> None
      | Some cur \<Rightarrow>
          if \<not> out then None
          else
            let hc = pg_header cur;
                current_seq = hd_seq hc;
                prior_seq = (case prior of None \<Rightarrow> 0 | Some p \<Rightarrow> hd_seq (pg_header p))
            in if (case prior of None \<Rightarrow> False
                   | Some p \<Rightarrow> root_status_regressed p cur prior_seq current_seq)
               then None
               else
                 let same_generation =
                       (case prior of None \<Rightarrow> False
                        | Some p \<Rightarrow> hd_root_generation hc = hd_root_generation (pg_header p));
                     age_known = (hd_cntfrq hc \<noteq> 0 \<and> hd_cntfrq hc = reader_frequency \<and>
                                  reader_ticks \<ge> hd_now_ticks hc)
                 in Some
                   \<lparr>fr_missed_events =
                      (if same_generation
                       then (case prior of None \<Rightarrow> 0
                             | Some p \<Rightarrow> root_status_missed (hd_event_head (pg_header p)) (hd_event_head hc))
                       else 0),
                    fr_age_ticks = (if age_known then reader_ticks - hd_now_ticks hc else 0),
                    fr_age_known = age_known,
                    fr_changed = (\<not> same_generation \<or> current_seq \<noteq> prior_seq)\<rparr>)"

section \<open>Lemmas\<close>

lemma read_attempts_ok:
  "read_attempts rds = (r, Some pg) \<Longrightarrow>
   r = Read_ok \<and> (\<exists>rd \<in> set rds. pg = ar_copy rd \<and> ar_before rd = ar_after rd \<and>
     ar_before rd \<noteq> 0 \<and> ar_before rd AND 1 = 0 \<and> hd_seq (pg_header pg) = ar_before rd \<and>
     check_root_status_page pg = Abi_ok)"
proof (induction rds rule: read_attempts.induct)
  case (2 rd rds)
  then show ?case
    by (auto simp: root_status_copy_begin_def root_status_copy_finish_def split: if_splits)
qed simp

lemma read_attempts_none:
  "read_attempts rds = (r, None) \<Longrightarrow> r = Read_torn \<or> r = Read_invalid"
  by (induction rds rule: read_attempts.induct)
    (auto simp: root_status_copy_begin_def root_status_copy_finish_def split: if_splits)

lemma missed_nat:
  "unat (root_status_missed p c) = unat c - 128 - unat p"
  by (auto simp: root_status_missed_def Let_def wordpos)

section \<open>Properties\<close>

text \<open>
  C26.  A reader gets a whole accepted page or nothing: \<open>root_status_read\<close> writes its output
  exactly when it returns ok, and then the output is the copy of one of its attempts, taken
  between two loads of one nonzero even sequence that the copy carries too, and the checker
  accepts it; a null, aliased or mis-sized buffer reads nothing.
\<close>

theorem root_status_read_sound:
  "case root_status_read shared scratch dest len reads attempts of (r, out) \<Rightarrow>
     (r = Read_ok \<longleftrightarrow> out \<noteq> None) \<and>
     (\<forall>pg. out = Some pg \<longrightarrow>
        (\<exists>n < attempts. pg = ar_copy (reads n) \<and> ar_before (reads n) = ar_after (reads n) \<and>
           ar_before (reads n) \<noteq> 0 \<and> ar_before (reads n) AND 1 = 0 \<and>
           hd_seq (pg_header pg) = ar_before (reads n) \<and> check_root_status_page pg = Abi_ok)) \<and>
     (shared = None \<or> scratch = None \<or> dest = None \<or> scratch = dest \<or> scratch = shared \<or>
        dest = shared \<or> len \<noteq> 16384 \<longrightarrow> r = Read_size)"
proof -
  let ?rds = "map reads [0..<attempts]"
  obtain r out where ra: "read_attempts ?rds = (r, out)" by (cases "read_attempts ?rds")
  have "r = Read_ok \<longleftrightarrow> out \<noteq> None"
    using ra read_attempts_ok [of ?rds r] read_attempts_none [of ?rds r] by (cases out) auto
  moreover have "\<exists>n < attempts. pg = ar_copy (reads n) \<and> ar_before (reads n) = ar_after (reads n) \<and>
           ar_before (reads n) \<noteq> 0 \<and> ar_before (reads n) AND 1 = 0 \<and>
           hd_seq (pg_header pg) = ar_before (reads n) \<and> check_root_status_page pg = Abi_ok"
    if "out = Some pg" for pg
    using read_attempts_ok [of ?rds r pg] ra that by auto
  ultimately show ?thesis using ra by (auto simp: root_status_read_def)
qed

definition sample_reads :: "nat \<Rightarrow> attempt_reads" where
  "sample_reads n =
     \<lparr>ar_before = (if n = 0 then 1 else 2), ar_copy = the (snd sample_status), ar_after = 2\<rparr>"

lemma sample_page:
  "check_root_status_page (the (snd sample_status)) = Abi_ok"
  "hd_seq (pg_header (the (snd sample_status))) = 2"
proof -
  obtain pg where pg: "snd sample_status = Some pg" using sample_status_some ..
  have "root_status_init
      (Some \<lparr>pg_header = header_zero, pg_children = [], pg_events = [], pg_reserved_tail = []\<rparr>)
      3 7 1000 (replicate chryso_child_count 8) = (fst sample_status, Some pg)"
    by (simp add: sample_status_def [symmetric] prod_eq_iff pg)
  from status_init_inv [OF status_init.intros [OF this]]
  show "check_root_status_page (the (snd sample_status)) = Abi_ok"
    using status_page_checks [of "fst sample_status" "[pg_events pg ! 0]" pg]
    by (simp add: status_inv_def status_ok_def pg)
  show "hd_seq (pg_header (the (snd sample_status))) = 2"
    by (simp add: sample_status_def root_status_init_def Let_def)
qed

lemma sample_read:
  "root_status_read (Some 4096) (Some 8192) (Some 12288) 16384 sample_reads 2 =
     (Read_ok, Some (the (snd sample_status)))"
proof -
  have "map sample_reads [0..<2] = [sample_reads 0, sample_reads 1]" by (simp add: numeral_2_eq_2)
  then show ?thesis
    by (simp add: root_status_read_def root_status_copy_begin_def root_status_copy_finish_def
        sample_reads_def sample_page)
qed

theorem root_status_read_sound_witness:
  "case root_status_read (Some 4096) (Some 8192) (Some 12288) 16384 sample_reads 2 of (r, out) \<Rightarrow>
     r = Read_ok \<and> out = Some (the (snd sample_status)) \<and>
     check_root_status_page (the (snd sample_status)) = Abi_ok"
proof -
  have "\<forall>pg. Some (the (snd sample_status)) = Some pg \<longrightarrow> check_root_status_page pg = Abi_ok"
    using root_status_read_sound [where shared = "Some 4096" and scratch = "Some 8192"
        and dest = "Some 12288" and len = 16384 and reads = sample_reads and attempts = 2]
    unfolding sample_read prod.case by blast
  then show ?thesis unfolding sample_read prod.case by blast
qed

text \<open>
  The reader's own loss is exact: \<open>root_status_missed\<close> counts the events numbered from the
  head it last saw that are no longer among the ring's last 128.
\<close>

theorem root_status_missed_exact:
  "unat (root_status_missed prev cur) =
     card {i. unat prev \<le> i \<and> i + chryso_event_count < unat cur}"
proof -
  have "{i. unat prev \<le> i \<and> i + chryso_event_count < unat cur} = {unat prev..<unat cur - 128}"
    by auto
  then show ?thesis by (simp add: missed_nat)
qed

end
