(* ===== verification/Tcp_Rules.thy ===== *)
theory Tcp_Rules
  imports Chryso_Prelude
begin

text \<open>
  The pure half of the BEAM's socket backend: the socket lifecycle and the verdicts of
  \<open>src/src/pd/beam/io/network/runtime_tcp_state.h\<close>, and the buffer arithmetic of
  \<open>src/src/pd/beam/io/network/runtime_tcp_logic.h\<close>.  A C \<open>int\<close> is an \<open>int\<close>: the indices,
  counts and reference counts here stay far inside its range.  A \<open>size_t\<close> is a 64-bit word, as
  these helpers exist to keep sums and narrowing conversions from wrapping.
\<close>

section \<open>The socket lifecycle\<close>

datatype socket_state =
    Sock_unallocated | Sock_allocated | Sock_bound | Sock_connecting | Sock_connected
  | Sock_closing | Sock_closed_by_peer | Sock_error | Sock_listening

fun socket_state_name :: "socket_state \<Rightarrow> string" where
  "socket_state_name Sock_unallocated = ''unallocated''"
| "socket_state_name Sock_allocated = ''allocated''"
| "socket_state_name Sock_bound = ''bound''"
| "socket_state_name Sock_connecting = ''connecting''"
| "socket_state_name Sock_connected = ''connected''"
| "socket_state_name Sock_closing = ''closing''"
| "socket_state_name Sock_closed_by_peer = ''closed-by-peer''"
| "socket_state_name Sock_error = ''error''"
| "socket_state_name Sock_listening = ''listening''"

definition tcp_index_valid :: "int \<Rightarrow> int \<Rightarrow> bool" where
  "tcp_index_valid index count \<longleftrightarrow> index \<ge> 0 \<and> index < count"

definition tcp_state_transition_allowed :: "socket_state \<Rightarrow> socket_state \<Rightarrow> bool" where
  "tcp_state_transition_allowed s t \<longleftrightarrow>
     (if t = Sock_error then
        s = Sock_allocated \<or> s = Sock_bound \<or> s = Sock_connecting \<or> s = Sock_connected \<or>
        s = Sock_closing \<or> s = Sock_closed_by_peer \<or> s = Sock_listening
      else case s of
        Sock_unallocated \<Rightarrow> t = Sock_allocated
      | Sock_allocated \<Rightarrow> t = Sock_bound \<or> t = Sock_connecting \<or> t = Sock_connected \<or>
          t = Sock_listening \<or> t = Sock_unallocated
      | Sock_bound \<Rightarrow> t = Sock_connecting \<or> t = Sock_listening \<or> t = Sock_unallocated
      | Sock_connecting \<Rightarrow> t = Sock_connected \<or> t = Sock_unallocated
      | Sock_connected \<Rightarrow> t = Sock_closed_by_peer \<or> t = Sock_closing \<or> t = Sock_unallocated
      | Sock_closing \<Rightarrow> t = Sock_unallocated
      | Sock_closed_by_peer \<Rightarrow> t = Sock_unallocated
      | Sock_error \<Rightarrow> t = Sock_unallocated
      | Sock_listening \<Rightarrow> t = Sock_closing \<or> t = Sock_unallocated)"

section \<open>What each entry point owes its caller\<close>

datatype tcp_connect_gate_t =
    Connect_start | Connect_already_connected | Connect_in_progress | Connect_invalid

fun tcp_connect_gate :: "socket_state \<Rightarrow> tcp_connect_gate_t" where
  "tcp_connect_gate Sock_connected = Connect_already_connected"
| "tcp_connect_gate Sock_connecting = Connect_in_progress"
| "tcp_connect_gate Sock_allocated = Connect_start"
| "tcp_connect_gate Sock_bound = Connect_start"
| "tcp_connect_gate _ = Connect_invalid"

definition tcp_listen_allowed :: "socket_state \<Rightarrow> bool" where
  "tcp_listen_allowed state \<longleftrightarrow> state = Sock_allocated \<or> state = Sock_bound"

definition tcp_bind_allowed :: "socket_state \<Rightarrow> bool" where
  "tcp_bind_allowed state \<longleftrightarrow> state = Sock_allocated"

definition tcp_accept_allowed :: "socket_state \<Rightarrow> bool" where
  "tcp_accept_allowed state \<longleftrightarrow> state = Sock_listening"

datatype tcp_write_gate_t =
    Write_send | Write_would_block | Write_pending_error | Write_not_connected

definition tcp_write_gate :: "socket_state \<Rightarrow> bool \<Rightarrow> tcp_write_gate_t" where
  "tcp_write_gate state nonblock =
     (if state = Sock_connecting \<and> nonblock then Write_would_block
      else if state = Sock_connected \<or> state = Sock_closed_by_peer then Write_send
      else if state = Sock_error then Write_pending_error
      else Write_not_connected)"

datatype tcp_recv_gate_t = Recv_copy | Recv_eof | Recv_would_block | Recv_block | Recv_not_connected

definition tcp_recv_gate :: "socket_state \<Rightarrow> bool \<Rightarrow> bool \<Rightarrow> tcp_recv_gate_t" where
  "tcp_recv_gate state buffered nonblock =
     (if state \<noteq> Sock_connected \<and> state \<noteq> Sock_closed_by_peer then Recv_not_connected
      else if buffered then Recv_copy
      else if state = Sock_closed_by_peer then Recv_eof
      else if nonblock then Recv_would_block else Recv_block)"

fun tcp_state_writable :: "socket_state \<Rightarrow> bool \<Rightarrow> bool" where
  "tcp_state_writable Sock_connected tx_pool_free = tx_pool_free"
| "tcp_state_writable Sock_closed_by_peer tx_pool_free = tx_pool_free"
| "tcp_state_writable Sock_error tx_pool_free = True"
| "tcp_state_writable _ tx_pool_free = False"

definition tcp_state_hup :: "socket_state \<Rightarrow> bool" where
  "tcp_state_hup state \<longleftrightarrow> state = Sock_closed_by_peer"

section \<open>References\<close>

datatype tcp_ref_release_t = Ref_shared | Ref_last | Ref_underflow

definition tcp_ref_acquire :: "int \<Rightarrow> bool \<times> int" where
  "tcp_ref_acquire refs = (if refs \<le> 0 then (False, refs) else (True, refs + 1))"

definition tcp_ref_release :: "int \<Rightarrow> tcp_ref_release_t \<times> int" where
  "tcp_ref_release refs =
     (if refs \<le> 0 then (Ref_underflow, refs)
      else let refs = refs - 1 in (if refs = 0 then Ref_last else Ref_shared, refs))"

datatype tcp_close_action_t =
    Close_begin | Close_abort_connecting | Close_release_peer_closed | Close_release_idle
  | Close_invalid

fun tcp_close_action :: "socket_state \<Rightarrow> tcp_close_action_t" where
  "tcp_close_action Sock_listening = Close_begin"
| "tcp_close_action Sock_connected = Close_begin"
| "tcp_close_action Sock_connecting = Close_abort_connecting"
| "tcp_close_action Sock_closed_by_peer = Close_release_peer_closed"
| "tcp_close_action Sock_allocated = Close_release_idle"
| "tcp_close_action Sock_bound = Close_release_idle"
| "tcp_close_action Sock_error = Close_release_idle"
| "tcp_close_action Sock_unallocated = Close_invalid"
| "tcp_close_action Sock_closing = Close_invalid"

section \<open>The receive ring\<close>

definition tcp_rx_tail :: "u64 \<Rightarrow> u64 \<Rightarrow> u64 \<Rightarrow> u64" where
  "tcp_rx_tail head len capacity = (head + len) mod capacity"

definition tcp_rx_free_span :: "u64 \<Rightarrow> u64 \<Rightarrow> u64 \<Rightarrow> u64" where
  "tcp_rx_free_span head len capacity =
     (let tail = tcp_rx_tail head len capacity
      in capacity - (if len > tail then len else tail))"

definition tcp_rx_read_span :: "u64 \<Rightarrow> u64 \<Rightarrow> u64 \<Rightarrow> u64" where
  "tcp_rx_read_span head len capacity =
     (let to_end = capacity - head in if len < to_end then len else to_end)"

definition tcp_rx_advance :: "u64 \<Rightarrow> u64 \<Rightarrow> u64 \<Rightarrow> u64" where
  "tcp_rx_advance head count capacity = (head + count) mod capacity"

definition tcp_rx_can_accept :: "u64 \<Rightarrow> u64 \<Rightarrow> u64 \<Rightarrow> bool" where
  "tcp_rx_can_accept len incoming capacity \<longleftrightarrow> len \<le> capacity \<and> incoming \<le> capacity - len"

section \<open>Checked narrowing\<close>

definition tcp_recved_chunk :: "u64 \<Rightarrow> u16" where
  "tcp_recved_chunk remaining = (if remaining > 0xFFFF then 0xFFFF else ucast remaining)"

definition tcp_write_chunk :: "u64 \<Rightarrow> u16 \<Rightarrow> u16" where
  "tcp_write_chunk want sndbuf = (if want < ucast sndbuf then ucast want else sndbuf)"

definition tcp_listen_backlog :: "int \<Rightarrow> u8" where
  "tcp_listen_backlog backlog =
     (if backlog < 1 then 1 else if backlog > 255 then 255 else of_int backlog)"

section \<open>The accept backlog\<close>

definition tcp_backlog_empty :: "int \<Rightarrow> int \<Rightarrow> bool" where
  "tcp_backlog_empty head tail \<longleftrightarrow> head = tail"

text \<open>The slots and the new head, or \<open>None\<close> when the ring is full.\<close>

definition tcp_backlog_push :: "int list \<Rightarrow> int \<Rightarrow> int \<Rightarrow> int \<Rightarrow> int \<Rightarrow> (int list \<times> int) option" where
  "tcp_backlog_push slots capacity head tail v =
     (let next = (head + 1) mod capacity
      in if next = tail then None else Some (slots[nat head := v], next))"

text \<open>The oldest entry and the new tail, or \<open>None\<close> when the ring is empty.\<close>

definition tcp_backlog_pop :: "int list \<Rightarrow> int \<Rightarrow> int \<Rightarrow> int \<Rightarrow> (int \<times> int) option" where
  "tcp_backlog_pop slots capacity head tail =
     (if tcp_backlog_empty head tail then None
      else Some (slots ! nat tail, (tail + 1) mod capacity))"

definition tcp_lwip_err_in_table :: "int \<Rightarrow> int \<Rightarrow> bool" where
  "tcp_lwip_err_in_table err table_len \<longleftrightarrow> err \<le> 0 \<and> - err < table_len"

end
