(* ===== verification/Tcp_Socket.thy ===== *)
theory Tcp_Socket
  imports Tcp_Rules Errno
begin

text \<open>
  The BEAM's socket backend: \<open>src/src/pd/beam/io/tcp.c\<close>.

  A \<open>socket_t *\<close> is the index of its slot and a PCB pointer a number, null being \<open>None\<close>.  lwIP
  is not part of the sources: what a call into it returned is an argument of the operation that
  makes the call, and the calls made, in order, are the state's trace.  A semaphore is the number
  of cothreads parked on it, which is all the code asks of one.  An operation that waits returns
  \<open>Park\<close>; what it does when its cothread runs again is an operation of its own.  The texts given
  to \<open>dlog\<close> and \<open>tcp_trace\<close> are left out, except for the report of an unexpected transition.
\<close>

section \<open>Constants\<close>

abbreviation (input) MAX_SOCKETS :: nat where "MAX_SOCKETS \<equiv> 10"
abbreviation (input) MAX_LISTEN_BACKLOG :: int where "MAX_LISTEN_BACKLOG \<equiv> 10"
abbreviation (input) SOCKET_BUF_SIZE :: u64 where "SOCKET_BUF_SIZE \<equiv> 0x200000"
abbreviation (input) INADDR_ANY :: u32 where "INADDR_ANY \<equiv> 0"

abbreviation (input) ERR_OK :: int where "ERR_OK \<equiv> 0"
abbreviation (input) ERR_MEM :: int where "ERR_MEM \<equiv> -1"
abbreviation (input) ERR_ARG :: int where "ERR_ARG \<equiv> -16"
abbreviation (input) SOCK_SUCC :: int where "SOCK_SUCC \<equiv> 0"

definition lwip_err_to_errno :: "int list" where
  "lwip_err_to_errno =
     [0, ENOMEM, ENOBUFS, ETIMEDOUT, EHOSTUNREACH, EINPROGRESS, EINVAL, EAGAIN, EADDRINUSE,
      EALREADY, EISCONN, ENOTCONN, ENODEV, ECONNABORTED, ECONNRESET, ENOTCONN, EINVAL, 0, 0, 0]"

definition lwip_errno :: "int \<Rightarrow> int" where
  "lwip_errno err =
     (if err = ERR_OK then 0
      else if \<not> tcp_lwip_err_in_table err (int (length lwip_err_to_errno)) then EIO
      else let mapped = lwip_err_to_errno ! nat (- err) in if mapped \<noteq> 0 then mapped else EIO)"

section \<open>State\<close>

record accept_queue =
  aq_pending :: "int list"
  aq_head :: int
  aq_tail :: int
  aq_accept_sem :: nat

record socket =
  sk_tpcb :: "nat option"
  sk_state :: socket_state
  sk_last_error :: int
  sk_rx_buf :: "u8 list"
  sk_rx_head :: u64
  sk_rx_len :: u64
  sk_accept_queue :: accept_queue
  sk_connect_sem :: nat
  sk_recv_sem :: nat
  sk_send_sem :: nat

text \<open>
  Calls into lwIP, in terms of the PCB pointer each is given and what each returned; reports of an
  unexpected transition; and, last, what lwIP does of its own: handing over a new PCB, completing
  a connect and freeing a PCB.
\<close>

datatype lw_effect =
    Tcp_new "nat option"
  | Tcp_arg "nat option" "nat option"
  | Tcp_sent "nat option" bool
  | Tcp_recv "nat option" bool
  | Tcp_err "nat option" bool
  | Tcp_accept "nat option"
  | Tcp_keepalive "nat option"
  | Tcp_connect "nat option" u32 u16 int
  | Tcp_bind "nat option" u32 u16 int
  | Tcp_listen "nat option" u8 "nat option"
  | Tcp_close "nat option" int
  | Tcp_abort "nat option"
  | Tcp_sndbuf "nat option"
  | Tcp_write "nat option" u16 int
  | Tcp_output "nat option" int
  | Tcp_recved "nat option" u16
  | Tcp_name "nat option"
  | Pbuf_free
  | Unexpected nat socket_state socket_state
  | Lwip_gave nat
  | Lwip_connected nat
  | Lwip_freed nat

record tcp =
  ts_sockets :: "socket list"
  ts_refcount :: "int list"
  ts_trace :: "lw_effect list"

definition socket_zero :: socket where
  "socket_zero =
     \<lparr>sk_tpcb = None, sk_state = Sock_unallocated, sk_last_error = 0,
      sk_rx_buf = replicate 0x200000 0, sk_rx_head = 0, sk_rx_len = 0,
      sk_accept_queue = \<lparr>aq_pending = replicate 10 0, aq_head = 0, aq_tail = 0, aq_accept_sem = 0\<rparr>,
      sk_connect_sem = 0, sk_recv_sem = 0, sk_send_sem = 0\<rparr>"

definition tcp_zero :: tcp where
  "tcp_zero =
     \<lparr>ts_sockets = replicate MAX_SOCKETS socket_zero, ts_refcount = replicate MAX_SOCKETS 0,
      ts_trace = []\<rparr>"

datatype tcp_outcome = Return int | Park

definition sock :: "tcp \<Rightarrow> nat \<Rightarrow> socket" where
  "sock s i = ts_sockets s ! i"

definition on_sock :: "nat \<Rightarrow> (socket \<Rightarrow> socket) \<Rightarrow> tcp \<Rightarrow> tcp" where
  "on_sock i f s = s\<lparr>ts_sockets := (ts_sockets s)[i := f (ts_sockets s ! i)]\<rparr>"

definition set_refs :: "nat \<Rightarrow> int \<Rightarrow> tcp \<Rightarrow> tcp" where
  "set_refs i n s = s\<lparr>ts_refcount := (ts_refcount s)[i := n]\<rparr>"

definition lw :: "lw_effect \<Rightarrow> tcp \<Rightarrow> tcp" where
  "lw e s = s\<lparr>ts_trace := ts_trace s @ [e]\<rparr>"

section \<open>Slots and PCBs\<close>

definition socket_lookup :: "int \<Rightarrow> nat option" where
  "socket_lookup index = (if tcp_index_valid index (int MAX_SOCKETS) then Some (nat index) else None)"

definition socket_wake :: "nat \<Rightarrow> nat" where
  "socket_wake parked = (if parked \<noteq> 0 then parked - 1 else parked)"

definition socket_set_state :: "nat \<Rightarrow> socket_state \<Rightarrow> tcp \<Rightarrow> tcp" where
  "socket_set_state i next s =
     (let s = (if \<not> tcp_state_transition_allowed (sk_state (sock s i)) next
               then lw (Unexpected i (sk_state (sock s i)) next) s else s)
      in on_sock i (\<lambda>k. k\<lparr>sk_state := next\<rparr>) s)"

definition socket_detach_pcb :: "nat option \<Rightarrow> tcp \<Rightarrow> tcp" where
  "socket_detach_pcb p s =
     lw (Tcp_err p False) (lw (Tcp_recv p False) (lw (Tcp_sent p False) (lw (Tcp_arg p None) s)))"

text \<open>\<open>close\<close> gives what \<open>tcp_close\<close> answers for a PCB.\<close>

definition socket_close_pcb :: "(nat option \<Rightarrow> int) \<Rightarrow> nat option \<Rightarrow> tcp \<Rightarrow> tcp" where
  "socket_close_pcb close p s =
     (let s = lw (Tcp_close p (close p)) (socket_detach_pcb p s)
      in if close p \<noteq> ERR_OK then lw (Tcp_abort p) s else s)"

definition socket_clear :: "nat \<Rightarrow> tcp \<Rightarrow> tcp" where
  "socket_clear i s =
     set_refs i 0
       (on_sock i (\<lambda>k. k\<lparr>sk_tpcb := None, sk_rx_head := 0, sk_rx_len := 0, sk_last_error := 0,
          sk_accept_queue := (sk_accept_queue k)\<lparr>aq_head := 0, aq_tail := 0\<rparr>\<rparr>) s)"

definition socket_release :: "nat \<Rightarrow> tcp \<Rightarrow> tcp" where
  "socket_release i s = socket_clear i (socket_set_state i Sock_unallocated s)"

section \<open>Callbacks\<close>

definition socket_err_func :: "nat option \<Rightarrow> int \<Rightarrow> tcp \<Rightarrow> tcp" where
  "socket_err_func arg err s =
     (case arg of
        None \<Rightarrow> s
      | Some i \<Rightarrow>
          on_sock i (\<lambda>k. k\<lparr>sk_last_error := lwip_errno err, sk_tpcb := None,
              sk_connect_sem := socket_wake (sk_connect_sem k),
              sk_recv_sem := socket_wake (sk_recv_sem k),
              sk_send_sem := socket_wake (sk_send_sem k)\<rparr>)
            (socket_set_state i Sock_error s))"

text \<open>
  The copy loop of \<open>socket_recv_callback\<close>; \<open>p\<close> is the payload of the pbuf.  \<open>None\<close> is a loop
  that never ends, which is what no free byte in the ring would make it.
\<close>

partial_function (option) rx_store :: "u8 list \<Rightarrow> u64 \<Rightarrow> u64 \<Rightarrow> socket \<Rightarrow> socket option" where
  "rx_store p copied remaining k =
     (if remaining = 0 then Some k
      else
        let rx_tail = tcp_rx_tail (sk_rx_head k) (sk_rx_len k) SOCKET_BUF_SIZE;
            to_copy = min remaining (tcp_rx_free_span (sk_rx_head k) (sk_rx_len k) SOCKET_BUF_SIZE);
            bytes = take (unat (ucast to_copy :: u16)) (drop (unat (ucast copied :: u16)) p)
        in rx_store p (copied + to_copy) (remaining - to_copy)
             (k\<lparr>sk_rx_buf := write_list (sk_rx_buf k) (unat rx_tail) bytes,
                sk_rx_len := sk_rx_len k + to_copy\<rparr>))"

definition socket_recv_callback :: "nat \<Rightarrow> u8 list option \<Rightarrow> tcp \<Rightarrow> (int \<times> tcp) option" where
  "socket_recv_callback i pbuf s =
     (let k = sock s i
      in if sk_state k = Sock_connected then
           (case pbuf of
              Some p \<Rightarrow>
                if \<not> tcp_rx_can_accept (sk_rx_len k) (of_nat (length p)) SOCKET_BUF_SIZE
                then Some (ERR_MEM, s)
                else Option.bind (rx_store p 0 (of_nat (length p)) k) (\<lambda>k.
                  let s = lw Pbuf_free (on_sock i (\<lambda>_. k) s)
                  in Some (SOCK_SUCC, on_sock i (\<lambda>k. k\<lparr>sk_recv_sem := socket_wake (sk_recv_sem k)\<rparr>) s))
            | None \<Rightarrow>
                Some (SOCK_SUCC, on_sock i (\<lambda>k. k\<lparr>sk_recv_sem := socket_wake (sk_recv_sem k)\<rparr>)
                  (socket_set_state i Sock_closed_by_peer s)))
         else if sk_state k = Sock_allocated \<or> sk_state k = Sock_closing then
           (case pbuf of
              Some p \<Rightarrow> Some (SOCK_SUCC, lw Pbuf_free s)
            | None \<Rightarrow> Some (SOCK_SUCC, socket_release i (lw (Tcp_arg (sk_tpcb k) None) s)))
         else Some (ERR_ARG, if pbuf \<noteq> None then lw Pbuf_free s else s))"

definition socket_sent_callback :: "nat option \<Rightarrow> tcp \<Rightarrow> int \<times> tcp" where
  "socket_sent_callback arg s =
     (case arg of
        None \<Rightarrow> (SOCK_SUCC, s)
      | Some i \<Rightarrow>
          (SOCK_SUCC, on_sock i (\<lambda>k. k\<lparr>sk_send_sem := socket_wake (sk_send_sem k)\<rparr>) s))"

definition socket_connected :: "nat option \<Rightarrow> nat option \<Rightarrow> tcp \<Rightarrow> int \<times> tcp" where
  "socket_connected arg tpcb s =
     (case arg of
        None \<Rightarrow> (SOCK_SUCC, s)
      | Some i \<Rightarrow>
          let s = socket_set_state i Sock_connected s;
              s = lw (Tcp_recv tpcb True) (lw (Tcp_sent tpcb True) s);
              s = lw (Tcp_keepalive tpcb) s
          in (SOCK_SUCC, on_sock i (\<lambda>k. k\<lparr>sk_connect_sem := socket_wake (sk_connect_sem k)\<rparr>) s))"

section \<open>Opening and connecting\<close>

definition socket_allocate :: "tcp \<Rightarrow> int \<times> tcp" where
  "socket_allocate s =
     (case find (\<lambda>i. sk_state (sock s i) = Sock_unallocated) [0..<MAX_SOCKETS] of
        None \<Rightarrow> (- ENOMEM, s)
      | Some i \<Rightarrow> (int i, socket_set_state i Sock_allocated (socket_clear i s)))"

definition tcp_socket_init :: "int \<Rightarrow> nat option \<Rightarrow> tcp \<Rightarrow> int \<times> tcp" where
  "tcp_socket_init index new_pcb s =
     (case socket_lookup index of
        None \<Rightarrow> (- EBADF, s)
      | Some i \<Rightarrow>
          if sk_state (sock s i) \<noteq> Sock_allocated then (- EINVAL, s)
          else
            let s = on_sock i (\<lambda>k. k\<lparr>sk_tpcb := new_pcb\<rparr>) (lw (Tcp_new new_pcb) s)
            in if new_pcb = None then (- ENOMEM, s)
               else
                 let s = lw (Tcp_keepalive new_pcb) s;
                     s = on_sock i (\<lambda>k. k\<lparr>
                           sk_accept_queue := (sk_accept_queue k)
                             \<lparr>aq_head := 0, aq_tail := 0, aq_accept_sem := 0\<rparr>,
                           sk_connect_sem := 0, sk_recv_sem := 0, sk_send_sem := 0\<rparr>) s;
                     s = lw (Tcp_arg new_pcb (Some i)) (lw (Tcp_err new_pcb True) s)
                 in (SOCK_SUCC, set_refs i 1 s))"

text \<open>The wait loop of a blocking connect and what follows it.\<close>

definition connect_wait :: "nat \<Rightarrow> tcp \<Rightarrow> tcp_outcome \<times> tcp" where
  "connect_wait i s =
     (if sk_state (sock s i) = Sock_connecting
      then (Park, on_sock i (\<lambda>k. k\<lparr>sk_connect_sem := sk_connect_sem k + 1\<rparr>) s)
      else if sk_state (sock s i) = Sock_connected then (Return SOCK_SUCC, s)
      else (Return (- ECONNREFUSED), s))"

definition tcp_socket_connect ::
  "int \<Rightarrow> u32 \<Rightarrow> u16 \<Rightarrow> bool \<Rightarrow> int \<Rightarrow> tcp \<Rightarrow> tcp_outcome \<times> tcp" where
  "tcp_socket_connect index addr port nonblock err s =
     (case socket_lookup index of
        None \<Rightarrow> (Return (- EBADF), s)
      | Some i \<Rightarrow>
          (case tcp_connect_gate (sk_state (sock s i)) of
             Connect_already_connected \<Rightarrow> (Return (- EISCONN), s)
           | Connect_in_progress \<Rightarrow> (Return (- EALREADY), s)
           | Connect_invalid \<Rightarrow> (Return (- EINVAL), s)
           | Connect_start \<Rightarrow>
               let s = lw (Tcp_connect (sk_tpcb (sock s i)) addr port err) s
               in if err \<noteq> ERR_OK then (Return (- lwip_errno err), s)
                  else
                    let s = socket_set_state i Sock_connecting s
                    in if nonblock then (Return (- EINPROGRESS), s) else connect_wait i s))"

section \<open>Closing\<close>

text \<open>\<open>None\<close> is a queue that never empties.\<close>

partial_function (option) socket_drain_backlog ::
  "(nat option \<Rightarrow> int) \<Rightarrow> nat \<Rightarrow> tcp \<Rightarrow> tcp option" where
  "socket_drain_backlog close i s =
     (let q = sk_accept_queue (sock s i)
      in case tcp_backlog_pop (aq_pending q) MAX_LISTEN_BACKLOG (aq_head q) (aq_tail q) of
           None \<Rightarrow> Some s
         | Some (pending, tail) \<Rightarrow>
             let s = on_sock i (\<lambda>k. k\<lparr>sk_accept_queue := (sk_accept_queue k)\<lparr>aq_tail := tail\<rparr>\<rparr>) s
             in case socket_lookup pending of
                  None \<Rightarrow> socket_drain_backlog close i s
                | Some j \<Rightarrow>
                    let p = sk_tpcb (sock s j);
                        s = (if p \<noteq> None then socket_close_pcb close p s else s)
                    in socket_drain_backlog close i (socket_release j s))"

definition tcp_socket_close_int :: "(nat option \<Rightarrow> int) \<Rightarrow> nat \<Rightarrow> tcp \<Rightarrow> (int \<times> tcp) option" where
  "tcp_socket_close_int close i s =
     (let p = sk_tpcb (sock s i)
      in case tcp_close_action (sk_state (sock s i)) of
        Close_begin \<Rightarrow>
          Option.bind
            (if sk_state (sock s i) = Sock_listening then socket_drain_backlog close i s else Some s)
            (\<lambda>s. let s = socket_set_state i Sock_closing s;
                     p = sk_tpcb (sock s i);
                     s = lw (Tcp_close p (close p)) s
                 in Some (if close p \<noteq> ERR_OK then - lwip_errno (close p) else SOCK_SUCC, s))
      | Close_abort_connecting \<Rightarrow>
          Some (SOCK_SUCC, socket_release i (lw (Tcp_abort p) (lw (Tcp_arg p None) s)))
      | Close_release_peer_closed \<Rightarrow>
          Some (SOCK_SUCC, socket_release i (socket_close_pcb close p s))
      | Close_release_idle \<Rightarrow>
          Some (SOCK_SUCC, socket_release i (if p \<noteq> None then socket_close_pcb close p s else s))
      | Close_invalid \<Rightarrow> Some (- EBADF, s))"

definition tcp_socket_close :: "(nat option \<Rightarrow> int) \<Rightarrow> int \<Rightarrow> tcp \<Rightarrow> (int \<times> tcp) option" where
  "tcp_socket_close close index s =
     (case socket_lookup index of
        None \<Rightarrow> Some (- EBADF, s)
      | Some i \<Rightarrow>
          (case tcp_ref_release (ts_refcount s ! i) of
             (Ref_last, n) \<Rightarrow> tcp_socket_close_int close i (set_refs i n s)
           | (Ref_shared, n) \<Rightarrow> Some (SOCK_SUCC, set_refs i n s)
           | (Ref_underflow, n) \<Rightarrow>
               let s = set_refs i n s
               in if sk_state (sock s i) = Sock_unallocated then Some (- EBADF, s)
                  else tcp_socket_close_int close i s))"

definition tcp_socket_dup :: "int \<Rightarrow> tcp \<Rightarrow> int \<times> tcp" where
  "tcp_socket_dup index s =
     (case socket_lookup index of
        None \<Rightarrow> (- EBADF, s)
      | Some i \<Rightarrow>
          (case tcp_ref_acquire (ts_refcount s ! i) of
             (ok, n) \<Rightarrow> (if \<not> ok then - EBADF else SOCK_SUCC, set_refs i n s)))"

section \<open>Writing\<close>

text \<open>\<open>sndbuf\<close> is what \<open>tcp_sndbuf\<close> reports, \<open>werr\<close> and \<open>oerr\<close> the results of the write and the output.\<close>

definition write_out :: "nat \<Rightarrow> u64 \<Rightarrow> u16 \<Rightarrow> int \<Rightarrow> int \<Rightarrow> tcp \<Rightarrow> tcp_outcome \<times> tcp" where
  "write_out i len sndbuf werr oerr s =
     (let p = sk_tpcb (sock s i);
          to_write = tcp_write_chunk len sndbuf;
          s = lw (Tcp_write p to_write werr) (lw (Tcp_sndbuf p) s)
      in if werr \<noteq> ERR_OK then (Return (- lwip_errno werr), s)
         else
           let s = lw (Tcp_output p oerr) s
           in if oerr \<noteq> ERR_OK then (Return (- lwip_errno oerr), s)
              else (Return (int (unat to_write)), s))"

definition write_failed :: "nat \<Rightarrow> tcp \<Rightarrow> tcp_outcome" where
  "write_failed i s =
     Return (if sk_last_error (sock s i) \<noteq> 0 then - sk_last_error (sock s i) else - ENOTCONN)"

text \<open>The wait loop of a blocking write and what follows it.\<close>

definition write_wait :: "nat \<Rightarrow> u64 \<Rightarrow> u16 \<Rightarrow> int \<Rightarrow> int \<Rightarrow> tcp \<Rightarrow> tcp_outcome \<times> tcp" where
  "write_wait i len sndbuf werr oerr s =
     (if tcp_write_gate (sk_state (sock s i)) False \<noteq> Write_send then (write_failed i s, s)
      else
        let s = lw (Tcp_sndbuf (sk_tpcb (sock s i))) s
        in if sndbuf = 0 then (Park, on_sock i (\<lambda>k. k\<lparr>sk_send_sem := sk_send_sem k + 1\<rparr>) s)
           else write_out i len sndbuf werr oerr s)"

definition tcp_socket_write ::
  "int \<Rightarrow> u64 \<Rightarrow> bool \<Rightarrow> u16 \<Rightarrow> int \<Rightarrow> int \<Rightarrow> tcp \<Rightarrow> tcp_outcome \<times> tcp" where
  "tcp_socket_write index len nonblock sndbuf werr oerr s =
     (case socket_lookup index of
        None \<Rightarrow> (Return (- EBADF), s)
      | Some i \<Rightarrow>
          (case tcp_write_gate (sk_state (sock s i)) nonblock of
             Write_would_block \<Rightarrow> (Return (- EAGAIN), s)
           | Write_pending_error \<Rightarrow> (write_failed i s, s)
           | Write_not_connected \<Rightarrow> (Return (- ENOTCONN), s)
           | Write_send \<Rightarrow>
               let s = lw (Tcp_sndbuf (sk_tpcb (sock s i))) s
               in if sndbuf = 0 then
                    (if nonblock then (Return (- EAGAIN), s)
                     else write_wait i len sndbuf werr oerr s)
                  else write_out i len sndbuf werr oerr s))"

section \<open>Receiving\<close>

function recv_copy :: "u64 \<Rightarrow> u64 \<Rightarrow> u8 list \<Rightarrow> socket \<Rightarrow> u64 \<times> u8 list \<times> socket" where
  "recv_copy len copied out k =
     (if copied = len then (copied, out, k)
      else
        let to_copy = min (len - copied) (tcp_rx_read_span (sk_rx_head k) (sk_rx_len k) SOCKET_BUF_SIZE)
        in if to_copy = 0 then (copied, out, k)
           else recv_copy len (copied + to_copy)
                  (out @ take (unat to_copy) (drop (unat (sk_rx_head k)) (sk_rx_buf k)))
                  (k\<lparr>sk_rx_head := tcp_rx_advance (sk_rx_head k) to_copy SOCKET_BUF_SIZE,
                     sk_rx_len := sk_rx_len k - to_copy\<rparr>))"
  by pat_completeness auto

termination recv_copy
proof (relation "measure (\<lambda>(len, copied, out, k). unat (len - copied))")
  fix len copied x :: u64 and out k
  assume a: "x = min (len - copied) (tcp_rx_read_span (sk_rx_head k) (sk_rx_len k) SOCKET_BUF_SIZE)"
    "x \<noteq> 0"
  then have "unat x \<le> unat (len - copied)" "unat x \<noteq> 0"
    by (simp_all only: word_le_nat_alt [symmetric] unat_eq_0 min.cobounded1 not_False_eq_True)
  then have "unat (len - copied - x) < unat (len - copied)" by (simp add: unat_minus_le)
  then show "((len, copied + x, out @ take (unat x) (drop (unat (sk_rx_head k)) (sk_rx_buf k)),
      k\<lparr>sk_rx_head := tcp_rx_advance (sk_rx_head k) x SOCKET_BUF_SIZE,
        sk_rx_len := sk_rx_len k - x\<rparr>), len, copied, out, k)
      \<in> measure (\<lambda>(len, copied, out, k). unat (len - copied))"
    by (simp add: diff_diff_eq)
qed simp

declare recv_copy.simps [simp del]

text \<open>The window updates after a read, one call of \<open>tcp_recved\<close> for each chunk.\<close>

function recved_chunks :: "u64 \<Rightarrow> u16 list" where
  "recved_chunks remaining =
     (if remaining = 0 then []
      else let chunk = tcp_recved_chunk remaining in chunk # recved_chunks (remaining - ucast chunk))"
  by pat_completeness auto

lemma recved_chunk_unat: "unat (tcp_recved_chunk n) = min (unat n) 65535"
  by (auto simp: tcp_recved_chunk_def wordpos min_def)

termination recved_chunks
proof (relation "measure unat")
  fix n :: u64 and x assume "n \<noteq> 0" "x = tcp_recved_chunk n"
  then have "unat n \<noteq> 0" "unat (ucast x :: u64) = min (unat n) 65535"
    by (simp_all only: recved_chunk_unat unat_ucast_up unat_eq_0 len_num1 len_num0 len_bit0 len_bit1) simp_all
  then show "(n - ucast x, n) \<in> measure unat" by (simp add: unat_minus_le)
qed simp

declare recved_chunks.simps [simp del]

definition tcp_socket_recv ::
  "int \<Rightarrow> u64 \<Rightarrow> bool \<Rightarrow> tcp \<Rightarrow> tcp_outcome \<times> u8 list \<times> tcp" where
  "tcp_socket_recv index len nonblock s =
     (case socket_lookup index of
        None \<Rightarrow> (Return (- EBADF), [], s)
      | Some i \<Rightarrow>
          let k = sock s i
          in (case tcp_recv_gate (sk_state k) (sk_rx_len k \<noteq> 0) nonblock of
                Recv_eof \<Rightarrow> (Return 0, [], s)
              | Recv_would_block \<Rightarrow> (Return (- EAGAIN), [], s)
              | Recv_not_connected \<Rightarrow> (Return (- ENOTCONN), [], s)
              | Recv_block \<Rightarrow>
                  (Park, [], on_sock i (\<lambda>k. k\<lparr>sk_recv_sem := sk_recv_sem k + 1\<rparr>) s)
              | Recv_copy \<Rightarrow>
                  (case recv_copy len 0 [] k of
                     (copied, out, k) \<Rightarrow>
                       (Return (int (unat copied)), out,
                        fold (\<lambda>c. lw (Tcp_recved (sk_tpcb k) c)) (recved_chunks copied)
                          (on_sock i (\<lambda>_. k) s)))))"

section \<open>Readiness\<close>

definition tcp_socket_readable :: "int \<Rightarrow> tcp \<Rightarrow> int" where
  "tcp_socket_readable index s =
     (case socket_lookup index of
        None \<Rightarrow> 0
      | Some i \<Rightarrow>
          let k = sock s i; q = sk_accept_queue k
          in if sk_state k = Sock_listening
             then (if tcp_backlog_empty (aq_head q) (aq_tail q) then 0 else 1)
             else int (unat (sk_rx_len k)))"

definition tcp_socket_writable :: "int \<Rightarrow> bool \<Rightarrow> tcp \<Rightarrow> bool" where
  "tcp_socket_writable index tx_pool_free s =
     (case socket_lookup index of
        None \<Rightarrow> False
      | Some i \<Rightarrow> tcp_state_writable (sk_state (sock s i)) tx_pool_free)"

definition tcp_socket_hup :: "int \<Rightarrow> tcp \<Rightarrow> bool" where
  "tcp_socket_hup index s =
     (case socket_lookup index of None \<Rightarrow> False | Some i \<Rightarrow> tcp_state_hup (sk_state (sock s i)))"

definition tcp_socket_err :: "int \<Rightarrow> tcp \<Rightarrow> int" where
  "tcp_socket_err index s =
     (case socket_lookup index of
        None \<Rightarrow> 0
      | Some i \<Rightarrow>
          if sk_state (sock s i) = Sock_error
          then (if sk_last_error (sock s i) \<noteq> 0 then sk_last_error (sock s i) else ECONNRESET)
          else 0)"

section \<open>Listening and accepting\<close>

definition tcp_socket_accept_cb :: "nat option \<Rightarrow> nat \<Rightarrow> int \<Rightarrow> tcp \<Rightarrow> int \<times> tcp" where
  "tcp_socket_accept_cb arg newpcb err s =
     (case arg of
        None \<Rightarrow> (ERR_ARG, s)
      | Some l \<Rightarrow>
          if \<not> tcp_accept_allowed (sk_state (sock s l)) then (ERR_ARG, s)
          else if err \<noteq> ERR_OK then (err, s)
          else
            case socket_allocate s of
              (new_index, s) \<Rightarrow>
                if new_index < 0 then (ERR_MEM, s)
                else
                  let i = nat new_index;
                      s = on_sock i (\<lambda>k. k\<lparr>sk_tpcb := Some newpcb\<rparr>) s;
                      s = socket_set_state i Sock_connected s;
                      s = lw (Tcp_arg (Some newpcb) (Some i)) (lw (Tcp_err (Some newpcb) True) s);
                      s = lw (Tcp_recv (Some newpcb) True) (lw (Tcp_sent (Some newpcb) True) s);
                      s = on_sock i (\<lambda>k. k\<lparr>
                            sk_accept_queue := (sk_accept_queue k)\<lparr>aq_accept_sem := 0\<rparr>,
                            sk_connect_sem := 0, sk_recv_sem := 0, sk_send_sem := 0\<rparr>) s;
                      q = sk_accept_queue (sock s l);
                      wake = on_sock l (\<lambda>k. k\<lparr>sk_accept_queue := (sk_accept_queue k)
                               \<lparr>aq_accept_sem := socket_wake (aq_accept_sem (sk_accept_queue k))\<rparr>\<rparr>)
                  in case tcp_backlog_push (aq_pending q) MAX_LISTEN_BACKLOG (aq_head q) (aq_tail q)
                            new_index of
                       None \<Rightarrow>
                         (ERR_MEM, wake (socket_release i (socket_detach_pcb (Some newpcb) s)))
                     | Some (pending, head) \<Rightarrow>
                         (SOCK_SUCC,
                          wake (on_sock l (\<lambda>k. k\<lparr>sk_accept_queue := (sk_accept_queue k)
                                  \<lparr>aq_pending := pending, aq_head := head\<rparr>\<rparr>) s)))"

definition tcp_socket_listen :: "int \<Rightarrow> int \<Rightarrow> nat option \<Rightarrow> tcp \<Rightarrow> int \<times> tcp" where
  "tcp_socket_listen index backlog newpcb s =
     (case socket_lookup index of
        None \<Rightarrow> (- EBADF, s)
      | Some i \<Rightarrow>
          if \<not> tcp_listen_allowed (sk_state (sock s i)) then (- EINVAL, s)
          else
            let s = lw (Tcp_listen (sk_tpcb (sock s i)) (tcp_listen_backlog backlog) newpcb) s
            in if newpcb = None then (- ENOMEM, s)
               else
                 let s = on_sock i (\<lambda>k. k\<lparr>sk_tpcb := newpcb\<rparr>) s;
                     s = socket_set_state i Sock_listening s
                 in (SOCK_SUCC, lw (Tcp_accept newpcb) s))"

text \<open>What \<open>accept\<close> does once there should be a connection to claim.\<close>

definition accept_claim :: "nat \<Rightarrow> tcp \<Rightarrow> tcp_outcome \<times> tcp" where
  "accept_claim l s =
     (let q = sk_accept_queue (sock s l)
      in case tcp_backlog_pop (aq_pending q) MAX_LISTEN_BACKLOG (aq_head q) (aq_tail q) of
           None \<Rightarrow> (Return (- ENOMEM), s)
         | Some (new_index, tail) \<Rightarrow>
             let s = on_sock l (\<lambda>k. k\<lparr>sk_accept_queue := (sk_accept_queue k)\<lparr>aq_tail := tail\<rparr>\<rparr>) s
             in case socket_lookup new_index of
                  None \<Rightarrow> (Return (- EBADF), s)
                | Some i \<Rightarrow> (Return new_index, set_refs i 1 s))"

definition tcp_socket_accept :: "int \<Rightarrow> bool \<Rightarrow> tcp \<Rightarrow> tcp_outcome \<times> tcp" where
  "tcp_socket_accept listen_index nonblock s =
     (case socket_lookup listen_index of
        None \<Rightarrow> (Return (- EBADF), s)
      | Some l \<Rightarrow>
          if \<not> tcp_accept_allowed (sk_state (sock s l)) then (Return (- EINVAL), s)
          else
            let q = sk_accept_queue (sock s l)
            in if tcp_backlog_empty (aq_head q) (aq_tail q) then
                 (if nonblock then (Return (- EAGAIN), s)
                  else (Park, on_sock l (\<lambda>k. k\<lparr>sk_accept_queue := (sk_accept_queue k)
                                \<lparr>aq_accept_sem := aq_accept_sem (sk_accept_queue k) + 1\<rparr>\<rparr>) s))
               else accept_claim l s)"

section \<open>Names\<close>

text \<open>\<open>netifs\<close> are the addresses of the network interfaces.\<close>

definition tcp_socket_bind :: "int \<Rightarrow> u32 \<Rightarrow> u16 \<Rightarrow> u32 list \<Rightarrow> int \<Rightarrow> tcp \<Rightarrow> int \<times> tcp" where
  "tcp_socket_bind index addr port netifs err s =
     (case socket_lookup index of
        None \<Rightarrow> (- EBADF, s)
      | Some i \<Rightarrow>
          if \<not> tcp_bind_allowed (sk_state (sock s i)) then (- EINVAL, s)
          else if addr \<noteq> INADDR_ANY \<and> \<not> list_ex (\<lambda>a. a = addr) netifs then (- EADDRNOTAVAIL, s)
          else
            let s = lw (Tcp_bind (sk_tpcb (sock s i)) addr port err) s
            in if err \<noteq> ERR_OK then (- lwip_errno err, s)
               else (SOCK_SUCC, socket_set_state i Sock_bound s))"

text \<open>\<open>name\<close> is the address and port the PCB holds.\<close>

definition tcp_socket_getsockname ::
  "int \<Rightarrow> u32 \<times> u16 \<Rightarrow> tcp \<Rightarrow> int \<times> (u32 \<times> u16) option \<times> tcp" where
  "tcp_socket_getsockname index name s =
     (case socket_lookup index of
        None \<Rightarrow> (- EBADF, None, s)
      | Some i \<Rightarrow>
          if sk_state (sock s i) \<noteq> Sock_connected \<and> sk_state (sock s i) \<noteq> Sock_bound
          then (- ENOTCONN, None, s)
          else (SOCK_SUCC, Some name, lw (Tcp_name (sk_tpcb (sock s i))) s))"

definition tcp_socket_getpeername ::
  "int \<Rightarrow> u32 \<times> u16 \<Rightarrow> tcp \<Rightarrow> int \<times> (u32 \<times> u16) option \<times> tcp" where
  "tcp_socket_getpeername index name s =
     (case socket_lookup index of
        None \<Rightarrow> (- EBADF, None, s)
      | Some i \<Rightarrow>
          if sk_state (sock s i) \<noteq> Sock_connected then (- ENOTCONN, None, s)
          else (SOCK_SUCC, Some name, lw (Tcp_name (sk_tpcb (sock s i))) s))"

section \<open>Lemmas: reading a state after an operation\<close>

lemma sock_on_sock: "i < length (ts_sockets s) \<Longrightarrow> sock (on_sock i f s) j = (if i = j then f (sock s i) else sock s j)"
  by (simp add: sock_def on_sock_def nth_list_update_if)

lemma tcp_frame [simp]:
  "ts_sockets (lw e s) = ts_sockets s" "ts_refcount (lw e s) = ts_refcount s"
  "ts_sockets (set_refs i n s) = ts_sockets s" "ts_trace (set_refs i n s) = ts_trace s"
  "ts_refcount (on_sock i f s) = ts_refcount s" "ts_trace (on_sock i f s) = ts_trace s"
  "ts_trace (lw e s) = ts_trace s @ [e]" "ts_refcount (set_refs i n s) = (ts_refcount s)[i := n]"
  "length (ts_sockets (on_sock i f s)) = length (ts_sockets s)"
  "sock (lw e s) = sock s" "sock (set_refs i n s) = sock s"
  by (simp_all add: lw_def set_refs_def on_sock_def sock_def fun_eq_iff)

lemma socket_lookup_Some [simp]:
  "socket_lookup index = Some i \<longleftrightarrow> index = int i \<and> i < MAX_SOCKETS"
  by (auto simp: socket_lookup_def tcp_index_valid_def)

lemma socket_lookup_None [simp]:
  "socket_lookup index = None \<longleftrightarrow> index < 0 \<or> int MAX_SOCKETS \<le> index"
  by (auto simp: socket_lookup_def tcp_index_valid_def)

lemma socket_lookup_nat [simp]: "i < MAX_SOCKETS \<Longrightarrow> socket_lookup (int i) = Some i"
  by simp

end
