(* ===== verification/Tcp_Stream.thy ===== *)
theory Tcp_Stream
  imports Tcp_Socket
begin

text \<open>
  The receive path of a socket is a byte queue: what \<open>socket_recv_callback\<close> takes from lwIP is
  what \<open>tcp_socket_recv\<close> hands to the application, in order, nothing lost and nothing twice, and
  both loops over the ring end.
\<close>

section \<open>Byte queues\<close>

text \<open>A run of a component that takes bytes in and gives bytes out, with both streams.\<close>

fun stream_run :: "('s \<Rightarrow> 'e \<Rightarrow> ('b list \<times> 'b list \<times> 's) option) \<Rightarrow> 's \<Rightarrow> 'e list \<Rightarrow>
    ('b list \<times> 'b list \<times> 's) option" where
  "stream_run step s [] = Some ([], [], s)"
| "stream_run step s (e # es) =
     Option.bind (step s e) (\<lambda>(taken, given, s).
       Option.bind (stream_run step s es) (\<lambda>(taken', given', s).
         Some (taken @ taken', given @ given', s)))"

locale byte_stream =
  fixes step :: "'s \<Rightarrow> 'e \<Rightarrow> ('b list \<times> 'b list \<times> 's) option"
    and ok :: "'s \<Rightarrow> bool"
    and contents :: "'s \<Rightarrow> 'b list"
    and valid :: "'e \<Rightarrow> bool"
  assumes step_fifo: "ok s \<Longrightarrow> valid e \<Longrightarrow>
    \<exists>taken given s'. step s e = Some (taken, given, s') \<and> ok s' \<and>
      contents s @ taken = given @ contents s'"
begin

lemma run_fifo:
  "ok s \<Longrightarrow> list_all valid es \<Longrightarrow>
   \<exists>taken given s'. stream_run step s es = Some (taken, given, s') \<and> ok s' \<and>
     contents s @ taken = given @ contents s'"
proof (induction es arbitrary: s)
  case (Cons e es)
  from Cons.prems have v: "ok s" "valid e" "list_all valid es" by simp_all
  from step_fifo [OF v(1,2)] obtain t g s1 where
    1: "step s e = Some (t, g, s1)" "ok s1" "contents s @ t = g @ contents s1" by blast
  from Cons.IH [OF 1(2) v(3)] obtain t' g' s2 where
    2: "stream_run step s1 es = Some (t', g', s2)" "ok s2" "contents s1 @ t' = g' @ contents s2" by blast
  have "contents s @ t @ t' = g @ g' @ contents s2"
    using 1(3) 2(3) by (metis append.assoc)
  then show ?case using 1(1) 2(1,2) by simp
qed simp

end

section \<open>The ring\<close>

abbreviation (input) ring_capacity :: nat where "ring_capacity \<equiv> 2097152"

definition ring_ok :: "socket \<Rightarrow> bool" where
  "ring_ok k \<longleftrightarrow> length (sk_rx_buf k) = ring_capacity \<and> unat (sk_rx_head k) < ring_capacity \<and>
     unat (sk_rx_len k) \<le> ring_capacity"

text \<open>The bytes a socket holds for its reader, oldest first.\<close>

definition rx_bytes :: "socket \<Rightarrow> u8 list" where
  "rx_bytes k =
     map (\<lambda>j. sk_rx_buf k ! ((unat (sk_rx_head k) + j) mod ring_capacity)) [0..<unat (sk_rx_len k)]"

lemma length_rx_bytes [simp]: "length (rx_bytes k) = unat (sk_rx_len k)"
  by (simp add: rx_bytes_def)

lemma rx_bytes_cong:
  "sk_rx_buf k = sk_rx_buf k' \<Longrightarrow> sk_rx_head k = sk_rx_head k' \<Longrightarrow> sk_rx_len k = sk_rx_len k' \<Longrightarrow>
   rx_bytes k = rx_bytes k'"
  by (simp add: rx_bytes_def)

lemma mod_once: "x < 2 * c \<Longrightarrow> x mod c = (if x < c then x else x - c)" for x c :: nat
  by (simp add: mod_if)

lemma unat_rx_tail:
  "ring_ok k \<Longrightarrow> unat (tcp_rx_tail (sk_rx_head k) (sk_rx_len k) SOCKET_BUF_SIZE) =
     (unat (sk_rx_head k) + unat (sk_rx_len k)) mod ring_capacity"
  by (simp add: tcp_rx_tail_def ring_ok_def unat_mod unat_add_fits)

lemma unat_rx_free_span:
  "ring_ok k \<Longrightarrow> unat (tcp_rx_free_span (sk_rx_head k) (sk_rx_len k) SOCKET_BUF_SIZE) =
     ring_capacity - max (unat (sk_rx_len k))
       ((unat (sk_rx_head k) + unat (sk_rx_len k)) mod ring_capacity)"
  using unat_rx_tail [of k]
  by (auto simp: tcp_rx_free_span_def Let_def word_less_unat ring_ok_def unat_minus_le max_def)

lemma unat_rx_read_span:
  "ring_ok k \<Longrightarrow> unat (tcp_rx_read_span (sk_rx_head k) (sk_rx_len k) SOCKET_BUF_SIZE) =
     min (unat (sk_rx_len k)) (ring_capacity - unat (sk_rx_head k))"
  by (auto simp: tcp_rx_read_span_def Let_def word_less_unat ring_ok_def unat_minus_le min_def)

lemma unat_min: "unat (min x y) = min (unat x) (unat y)" for x y :: "'a::len word"
  by (simp add: min_def word_le_unat)

lemma ring_slot_old:
  fixes h l c n j :: nat
  assumes "h < c" "l + n \<le> c" "(h + l) mod c + n \<le> c" "j < l"
  shows "\<not> ((h + l) mod c \<le> (h + j) mod c \<and> (h + j) mod c < (h + l) mod c + n)"
proof -
  have "(h + l) mod c = (if h + l < c then h + l else h + l - c)"
    "(h + j) mod c = (if h + j < c then h + j else h + j - c)"
    using assms by (simp_all add: mod_once)
  then show ?thesis using assms by (auto split: if_splits)
qed

lemma ring_slot_new:
  fixes h l c n j :: nat
  assumes "h < c" "l + n \<le> c" "(h + l) mod c + n \<le> c" "l \<le> j" "j < l + n"
  shows "(h + j) mod c = (h + l) mod c + (j - l)"
proof -
  have "(h + l) mod c = (if h + l < c then h + l else h + l - c)"
    "(h + j) mod c = (if h + j < c then h + j else h + j - c)"
    using assms by (simp_all add: mod_once)
  then show ?thesis using assms by (auto split: if_splits)
qed

text \<open>Storing bytes in the free span at the tail appends them.\<close>

lemma rx_put:
  assumes "ring_ok k" "length bs \<le> unat (tcp_rx_free_span (sk_rx_head k) (sk_rx_len k) SOCKET_BUF_SIZE)"
    "n = of_nat (length bs)"
    "k' = k\<lparr>sk_rx_buf := write_list (sk_rx_buf k)
               (unat (tcp_rx_tail (sk_rx_head k) (sk_rx_len k) SOCKET_BUF_SIZE)) bs,
            sk_rx_len := sk_rx_len k + n\<rparr>"
  shows "ring_ok k'" "rx_bytes k' = rx_bytes k @ bs"
proof -
  let ?h = "unat (sk_rx_head k)" and ?l = "unat (sk_rx_len k)" and ?t = "(unat (sk_rx_head k) + unat (sk_rx_len k)) mod ring_capacity"
  have ok: "length (sk_rx_buf k) = ring_capacity" "?h < ring_capacity" "?l \<le> ring_capacity"
    using assms(1) by (auto simp: ring_ok_def)
  have fit: "?l + length bs \<le> ring_capacity" "?t + length bs \<le> ring_capacity"
    using assms(2) ok mod_less_divisor [of ring_capacity "?h + ?l"]
    unfolding unat_rx_free_span [OF assms(1)] by auto
  have n: "unat n = length bs" using fit assms(3) by (simp add: unat_of_nat)
  have len: "unat (sk_rx_len k + n) = ?l + length bs" using fit n by (simp add: unat_add_fits)
  then show "ring_ok k'" using ok fit by (simp add: ring_ok_def assms(4))
  have buf: "sk_rx_buf k' ! i = (if ?t \<le> i \<and> i < ?t + length bs then bs ! (i - ?t) else sk_rx_buf k ! i)" for i
    using fit ok by (simp add: assms(4) write_list_nth unat_rx_tail [OF assms(1)])
  show "rx_bytes k' = rx_bytes k @ bs"
  proof (rule nth_equalityI)
    show "length (rx_bytes k') = length (rx_bytes k @ bs)" using len by (simp add: assms(4))
  next
    fix j assume "j < length (rx_bytes k')"
    then have j: "j < ?l + length bs" using len by (simp add: assms(4))
    have nth: "rx_bytes k' ! j = sk_rx_buf k' ! ((?h + j) mod ring_capacity)"
      using j len by (simp add: rx_bytes_def assms(4))
    show "rx_bytes k' ! j = (rx_bytes k @ bs) ! j"
    proof (cases "j < ?l")
      case True
      with ring_slot_old [OF ok(2) fit True] show ?thesis
        unfolding nth buf using True by (auto simp: nth_append rx_bytes_def)
    next
      case False
      define d where "d = j - ?l"
      have d: "j = ?l + d" "d < length bs" using False j by (auto simp: d_def)
      have "(?h + j) mod ring_capacity = ?t + d"
        using ring_slot_new [OF ok(2) fit, of j] d by simp
      then show ?thesis unfolding nth buf using d by (simp add: nth_append)
    qed
  qed
qed

text \<open>Advancing the head over a span drops it, and the span is the oldest bytes.\<close>

lemma rx_get:
  assumes "ring_ok k" "unat n \<le> unat (tcp_rx_read_span (sk_rx_head k) (sk_rx_len k) SOCKET_BUF_SIZE)"
    "k' = k\<lparr>sk_rx_head := tcp_rx_advance (sk_rx_head k) n SOCKET_BUF_SIZE, sk_rx_len := sk_rx_len k - n\<rparr>"
  shows "ring_ok k'"
    "rx_bytes k = take (unat n) (drop (unat (sk_rx_head k)) (sk_rx_buf k)) @ rx_bytes k'"
proof -
  let ?h = "unat (sk_rx_head k)" and ?l = "unat (sk_rx_len k)" and ?n = "unat n"
  have ok: "length (sk_rx_buf k) = ring_capacity" "?h < ring_capacity" "?l \<le> ring_capacity"
    using assms(1) by (auto simp: ring_ok_def)
  have n: "?n \<le> ?l" "?h + ?n \<le> ring_capacity"
    using assms(2) ok unfolding unat_rx_read_span [OF assms(1)] by auto
  have head: "unat (tcp_rx_advance (sk_rx_head k) n SOCKET_BUF_SIZE) = (?h + ?n) mod ring_capacity"
    using n ok by (simp add: tcp_rx_advance_def unat_mod unat_add_fits)
  have len: "unat (sk_rx_len k - n) = ?l - ?n" using n by (simp add: unat_minus_le)
  show "ring_ok k'" using ok n head len by (simp add: ring_ok_def assms(3))
  show "rx_bytes k = take ?n (drop ?h (sk_rx_buf k)) @ rx_bytes k'"
  proof (rule nth_equalityI)
    show "length (rx_bytes k) = length (take ?n (drop ?h (sk_rx_buf k)) @ rx_bytes k')"
      using ok n len by (simp add: assms(3))
  next
    fix j assume "j < length (rx_bytes k)"
    then have j: "j < ?l" by simp
    have "rx_bytes k' ! (j - ?n) = sk_rx_buf k ! ((?h + j) mod ring_capacity)" if "?n \<le> j"
    proof -
      have "((?h + ?n) mod ring_capacity + (j - ?n)) mod ring_capacity = (?h + ?n + (j - ?n)) mod ring_capacity"
        by (rule mod_add_left_eq)
      also have "?h + ?n + (j - ?n) = ?h + j" using that by simp
      finally have "((?h + ?n) mod ring_capacity + (j - ?n)) mod ring_capacity = (?h + j) mod ring_capacity" .
      moreover have "[0..<?l - ?n] ! (j - ?n) = j - ?n" using j that by simp
      ultimately show ?thesis using j that len by (simp add: rx_bytes_def assms(3) head)
    qed
    then show "rx_bytes k ! j = (take ?n (drop ?h (sk_rx_buf k)) @ rx_bytes k') ! j"
      using j n ok by (auto simp: nth_append rx_bytes_def)
  qed
qed

section \<open>The two copy loops\<close>

lemma rx_store_fifo:
  "ring_ok k \<Longrightarrow> unat copied + unat remaining = length p \<Longrightarrow> length p \<le> 65535 \<Longrightarrow>
   unat (sk_rx_len k) + unat remaining \<le> ring_capacity \<Longrightarrow>
   \<exists>buf len. rx_store p copied remaining k = Some (k\<lparr>sk_rx_buf := buf, sk_rx_len := len\<rparr>) \<and>
     ring_ok (k\<lparr>sk_rx_buf := buf, sk_rx_len := len\<rparr>) \<and>
     rx_bytes (k\<lparr>sk_rx_buf := buf, sk_rx_len := len\<rparr>) = rx_bytes k @ drop (unat copied) p"
proof (induction "unat remaining" arbitrary: k copied remaining rule: less_induct)
  case less
  show ?case
  proof (cases "remaining = 0")
    case True
    have same: "k\<lparr>sk_rx_buf := sk_rx_buf k, sk_rx_len := sk_rx_len k\<rparr> = k" by simp
    have "rx_store p copied remaining k = Some k"
      unfolding rx_store.simps [of p copied remaining k] if_P [OF True] ..
    moreover have "drop (unat copied) p = []" using less.prems(2) True by simp
    ultimately show ?thesis
      using less.prems(1) by - (rule exI [of _ "sk_rx_buf k"], rule exI [of _ "sk_rx_len k"], simp)
  next
    case False
    let ?span = "tcp_rx_free_span (sk_rx_head k) (sk_rx_len k) SOCKET_BUF_SIZE"
    define n where "n = min remaining ?span"
    define bs where "bs = take (unat n) (drop (unat copied) p)"
    define k' where "k' = k\<lparr>sk_rx_buf := write_list (sk_rx_buf k)
      (unat (tcp_rx_tail (sk_rx_head k) (sk_rx_len k) SOCKET_BUF_SIZE)) bs, sk_rx_len := sk_rx_len k + n\<rparr>"
    have r: "unat remaining \<noteq> 0" using False by (simp only: unat_eq_0 not_False_eq_True)
    have un: "unat n = min (unat remaining) (unat ?span)" by (simp only: n_def unat_min)
    have sp: "unat ?span \<noteq> 0"
      using less.prems(1,4) r mod_less_divisor [of ring_capacity "unat (sk_rx_head k) + unat (sk_rx_len k)"]
      unfolding unat_rx_free_span [OF less.prems(1)] by linarith
    have nl: "unat n \<le> 65535" "unat copied \<le> 65535" "unat n \<le> unat remaining"
      using un less.prems(2,3) by auto
    then have cast: "unat (ucast n :: u16) = unat n" "unat (ucast copied :: u16) = unat copied"
      by (simp_all add: unat_ucast_down)
    have lbs: "length bs = unat n" using nl less.prems(2) by (simp add: bs_def)
    have span: "length bs \<le> unat ?span" unfolding lbs un by (rule min.cobounded2)
    have n: "n = of_nat (length bs)" unfolding lbs by simp
    have put: "ring_ok k'" "rx_bytes k' = rx_bytes k @ bs"
      using rx_put [OF less.prems(1) span n k'_def] by blast+
    have step: "rx_store p copied remaining k = rx_store p (copied + n) (remaining - n) k'"
      unfolding rx_store.simps [of p copied remaining k] Let_def n_def [symmetric] cast
        bs_def [symmetric] k'_def if_not_P [OF False] ..
    have cn: "unat (copied + n) = unat copied + unat n" using nl by (simp add: unat_add_fits)
    have rn: "unat (remaining - n) = unat remaining - unat n" using nl by (simp add: unat_minus_le)
    have kl: "unat (sk_rx_len k') = unat (sk_rx_len k) + unat n"
      using nl less.prems(4) by (simp add: k'_def unat_add_fits)
    have "\<exists>buf l. rx_store p (copied + n) (remaining - n) k' = Some (k'\<lparr>sk_rx_buf := buf, sk_rx_len := l\<rparr>) \<and>
      ring_ok (k'\<lparr>sk_rx_buf := buf, sk_rx_len := l\<rparr>) \<and>
      rx_bytes (k'\<lparr>sk_rx_buf := buf, sk_rx_len := l\<rparr>) = rx_bytes k' @ drop (unat (copied + n)) p"
    proof (rule less.hyps)
      show "unat (remaining - n) < unat remaining" using r sp un rn by linarith
      show "unat (copied + n) + unat (remaining - n) = length p" using less.prems(2) nl cn rn by linarith
      show "unat (sk_rx_len k') + unat (remaining - n) \<le> ring_capacity"
        using less.prems(4) nl kl rn by linarith
    qed (rule put(1) less.prems(3))+
    then obtain buf l where r: "rx_store p (copied + n) (remaining - n) k' = Some (k'\<lparr>sk_rx_buf := buf, sk_rx_len := l\<rparr>)"
      "ring_ok (k'\<lparr>sk_rx_buf := buf, sk_rx_len := l\<rparr>)"
      "rx_bytes (k'\<lparr>sk_rx_buf := buf, sk_rx_len := l\<rparr>) = rx_bytes k' @ drop (unat (copied + n)) p"
      by blast
    have upd: "k'\<lparr>sk_rx_buf := buf, sk_rx_len := l\<rparr> = k\<lparr>sk_rx_buf := buf, sk_rx_len := l\<rparr>"
      by (simp add: k'_def)
    have "bs @ drop (unat (copied + n)) p = drop (unat copied) p"
      unfolding bs_def cn by (metis append_take_drop_id drop_drop add.commute)
    then show ?thesis
      using r put(2) unfolding step upd by - (rule exI [of _ buf], rule exI [of _ l], simp)
  qed
qed

lemma recv_copy_fifo:
  "ring_ok k \<Longrightarrow> unat copied \<le> unat len \<Longrightarrow>
   \<exists>head rest. recv_copy len copied out k =
       (copied + of_nat (min (unat len - unat copied) (unat (sk_rx_len k))),
        out @ take (unat len - unat copied) (rx_bytes k), k\<lparr>sk_rx_head := head, sk_rx_len := rest\<rparr>) \<and>
     ring_ok (k\<lparr>sk_rx_head := head, sk_rx_len := rest\<rparr>) \<and>
     rx_bytes (k\<lparr>sk_rx_head := head, sk_rx_len := rest\<rparr>) = drop (unat len - unat copied) (rx_bytes k)"
proof (induction "unat len - unat copied" arbitrary: k copied out rule: less_induct)
  case less
  let ?span = "tcp_rx_read_span (sk_rx_head k) (sk_rx_len k) SOCKET_BUF_SIZE"
  define n where "n = min (len - copied) ?span"
  have un: "unat n = min (unat len - unat copied) (min (unat (sk_rx_len k)) (ring_capacity - unat (sk_rx_head k)))"
    using less.prems unat_rx_read_span [OF less.prems(1)] by (simp only: n_def unat_min unat_minus_le)
  have h: "unat (sk_rx_head k) < ring_capacity" using less.prems(1) by (simp add: ring_ok_def)
  show ?case
  proof (cases "n = 0")
    case True
    then have z: "unat len = unat copied \<or> sk_rx_len k = 0" using un h less.prems(2) by (auto simp: min_def unat_eq_0 split: if_splits)
    have "recv_copy len copied out k = (copied, out, k)"
      unfolding recv_copy.simps [of len copied out k] Let_def n_def [symmetric] if_P [OF True]
      by (rule if_cancel)
    moreover have same: "k\<lparr>sk_rx_head := sk_rx_head k, sk_rx_len := sk_rx_len k\<rparr> = k" by simp
    moreover have "take (unat len - unat copied) (rx_bytes k) = []"
      "drop (unat len - unat copied) (rx_bytes k) = rx_bytes k"
      "min (unat len - unat copied) (unat (sk_rx_len k)) = 0"
      using z by (auto simp: rx_bytes_def)
    ultimately show ?thesis
      using less.prems(1) by - (rule exI [of _ "sk_rx_head k"], rule exI [of _ "sk_rx_len k"], simp)
  next
    case False
    then have n0: "unat n \<noteq> 0" by (simp only: unat_eq_0 not_False_eq_True)
    have nle: "unat n \<le> unat len - unat copied" unfolding un by (rule min.cobounded1)
    have nl: "unat n \<le> unat (sk_rx_len k)" unfolding un by (simp add: min.coboundedI2)
    have ne: "copied \<noteq> len" using nle n0 by auto
    define k' where "k' = k\<lparr>sk_rx_head := tcp_rx_advance (sk_rx_head k) n SOCKET_BUF_SIZE,
      sk_rx_len := sk_rx_len k - n\<rparr>"
    have nspan: "unat n \<le> unat ?span" unfolding un unat_rx_read_span [OF less.prems(1)] by (rule min.cobounded2)
    have get: "ring_ok k'"
      "rx_bytes k = take (unat n) (drop (unat (sk_rx_head k)) (sk_rx_buf k)) @ rx_bytes k'"
      using rx_get [OF less.prems(1) nspan k'_def] by blast+
    define bs where "bs = take (unat n) (drop (unat (sk_rx_head k)) (sk_rx_buf k))"
    have lbs: "length bs = unat n" using less.prems(1) un by (simp add: bs_def ring_ok_def)
    have step: "recv_copy len copied out k = recv_copy len (copied + n) (out @ bs) k'"
      unfolding recv_copy.simps [of len copied out k] Let_def n_def [symmetric] bs_def [symmetric]
        k'_def if_not_P [OF False] if_not_P [OF ne] ..
    have cn: "unat (copied + n) = unat copied + unat n"
      using nle less.prems(2) unat_lt [of len] by (intro unat_add_fits) linarith
    have kl: "unat (sk_rx_len k') = unat (sk_rx_len k) - unat n"
      using nl by (simp add: k'_def unat_minus_le)
    have lt: "unat len - unat (copied + n) < unat len - unat copied" using cn n0 nle by linarith
    have le: "unat (copied + n) \<le> unat len" using cn nle less.prems(2) by linarith
    obtain head rest where r: "recv_copy len (copied + n) (out @ bs) k' =
       (copied + n + of_nat (min (unat len - unat (copied + n)) (unat (sk_rx_len k'))),
        (out @ bs) @ take (unat len - unat (copied + n)) (rx_bytes k'), k'\<lparr>sk_rx_head := head, sk_rx_len := rest\<rparr>)"
     "ring_ok (k'\<lparr>sk_rx_head := head, sk_rx_len := rest\<rparr>)"
     "rx_bytes (k'\<lparr>sk_rx_head := head, sk_rx_len := rest\<rparr>) = drop (unat len - unat (copied + n)) (rx_bytes k')"
      using less.hyps [OF lt get(1) le, of "out @ bs"] by blast
    have rb: "rx_bytes k = bs @ rx_bytes k'" using get(2) by (simp add: bs_def)
    have "copied + n + of_nat (min (unat len - unat (copied + n)) (unat (sk_rx_len k'))) =
        copied + of_nat (unat n + min (unat len - unat (copied + n)) (unat (sk_rx_len k')))"
      by simp
    also have "unat n + min (unat len - unat (copied + n)) (unat (sk_rx_len k')) =
        min (unat len - unat copied) (unat (sk_rx_len k))"
      unfolding cn kl using nle nl by linarith
    finally have count: "copied + n + of_nat (min (unat len - unat (copied + n)) (unat (sk_rx_len k'))) =
        copied + of_nat (min (unat len - unat copied) (unat (sk_rx_len k)))" .
    have "take (unat len - unat copied) (rx_bytes k) = bs @ take (unat len - unat (copied + n)) (rx_bytes k')"
      "drop (unat len - unat copied) (rx_bytes k) = drop (unat len - unat (copied + n)) (rx_bytes k')"
      using nle by (simp_all add: rb lbs cn)
    moreover have "k'\<lparr>sk_rx_head := head, sk_rx_len := rest\<rparr> = k\<lparr>sk_rx_head := head, sk_rx_len := rest\<rparr>"
      by (simp add: k'_def)
    ultimately show ?thesis
      using r unfolding step count by - (rule exI [of _ head], rule exI [of _ rest], simp)
  qed
qed

section \<open>The receive path as a byte queue\<close>

datatype stream_event = Deliver "u8 list" | Peer_fin | Read u64 bool

definition pbuf_ok :: "stream_event \<Rightarrow> bool" where
  "pbuf_ok e \<longleftrightarrow> (case e of Deliver p \<Rightarrow> length p \<le> 65535 | _ \<Rightarrow> True)"

text \<open>One event at slot \<open>i\<close>: the bytes taken from lwIP and the bytes given to the application.\<close>

definition stream_step :: "nat \<Rightarrow> tcp \<Rightarrow> stream_event \<Rightarrow> (u8 list \<times> u8 list \<times> tcp) option" where
  "stream_step i s e =
     (case e of
        Deliver p \<Rightarrow>
          map_option (\<lambda>(r, s'). (if r = SOCK_SUCC then p else [], [], s')) (socket_recv_callback i (Some p) s)
      | Peer_fin \<Rightarrow> map_option (\<lambda>(r, s'). ([], [], s')) (socket_recv_callback i None s)
      | Read len nonblock \<Rightarrow>
          (case tcp_socket_recv (int i) len nonblock s of (r, out, s') \<Rightarrow> Some ([], out, s')))"

definition receiving :: "nat \<Rightarrow> tcp \<Rightarrow> bool" where
  "receiving i s \<longleftrightarrow> i < MAX_SOCKETS \<and> length (ts_sockets s) = MAX_SOCKETS \<and> ring_ok (sock s i) \<and>
     (sk_state (sock s i) = Sock_connected \<or> sk_state (sock s i) = Sock_closed_by_peer)"

lemma ring_ok_same:
  "ring_ok (k\<lparr>sk_recv_sem := a\<rparr>) = ring_ok k" "ring_ok (k\<lparr>sk_state := b\<rparr>) = ring_ok k"
  "rx_bytes (k\<lparr>sk_recv_sem := a\<rparr>) = rx_bytes k" "rx_bytes (k\<lparr>sk_state := b\<rparr>) = rx_bytes k"
  by (simp_all add: ring_ok_def rx_bytes_def)

lemma sock_set_state:
  "i < length (ts_sockets s) \<Longrightarrow>
   sock (socket_set_state i next s) j = (if i = j then (sock s i)\<lparr>sk_state := next\<rparr> else sock s j)"
  by (simp add: socket_set_state_def Let_def sock_on_sock)

lemma set_state_frame [simp]:
  "ts_refcount (socket_set_state i n s) = ts_refcount s"
  "length (ts_sockets (socket_set_state i n s)) = length (ts_sockets s)"
  by (simp_all add: socket_set_state_def Let_def)

lemma fold_lw_frame [simp]:
  "sock (fold (\<lambda>c. lw (f c)) cs s) = sock s"
  "ts_sockets (fold (\<lambda>c. lw (f c)) cs s) = ts_sockets s"
  "ts_refcount (fold (\<lambda>c. lw (f c)) cs s) = ts_refcount s"
  "ts_trace (fold (\<lambda>c. lw (f c)) cs s) = ts_trace s @ map f cs"
  by (induction cs arbitrary: s) simp_all

text \<open>A delivery either stores the whole segment or refuses it whole.\<close>

lemma recv_callback_data:
  assumes "receiving i s" "length p \<le> 65535"
  shows "\<exists>r s'. socket_recv_callback i (Some p) s = Some (r, s') \<and> receiving i s' \<and>
    rx_bytes (sock s' i) = rx_bytes (sock s i) @ (if r = SOCK_SUCC then p else [])"
proof -
  let ?k = "sock s i"
  have i: "i < length (ts_sockets s)" "ring_ok ?k" using assms(1) by (auto simp: receiving_def)
  show ?thesis
  proof (cases "sk_state ?k = Sock_connected \<and>
      tcp_rx_can_accept (sk_rx_len ?k) (of_nat (length p)) SOCKET_BUF_SIZE")
    case False
    then show ?thesis using assms(1) by (auto simp: socket_recv_callback_def Let_def receiving_def)
  next
    case True
    have n: "unat (of_nat (length p) :: u64) = length p" using assms(2) by (simp add: unat_of_nat)
    have "unat (SOCKET_BUF_SIZE - sk_rx_len ?k) = ring_capacity - unat (sk_rx_len ?k)"
      using i(2) by (subst unat_minus_le) (auto simp: ring_ok_def)
    then have room: "unat (sk_rx_len ?k) + unat (of_nat (length p) :: u64) \<le> ring_capacity"
      using True i(2) by (auto simp: tcp_rx_can_accept_def n word_le_unat ring_ok_def)
    obtain buf len where st: "rx_store p 0 (of_nat (length p)) ?k = Some (?k\<lparr>sk_rx_buf := buf, sk_rx_len := len\<rparr>)"
      "ring_ok (?k\<lparr>sk_rx_buf := buf, sk_rx_len := len\<rparr>)"
      "rx_bytes (?k\<lparr>sk_rx_buf := buf, sk_rx_len := len\<rparr>) = rx_bytes ?k @ drop (unat (0 :: u64)) p"
      using rx_store_fifo [OF i(2) _ assms(2) room, of 0] n by auto
    show ?thesis
      using True st i assms(1)
      by (auto simp: socket_recv_callback_def Let_def receiving_def sock_on_sock ring_ok_same)
  qed
qed

lemma recv_callback_fin:
  assumes "receiving i s"
  shows "\<exists>r s'. socket_recv_callback i None s = Some (r, s') \<and> receiving i s' \<and>
    rx_bytes (sock s' i) = rx_bytes (sock s i)"
  using assms
  by (auto simp: socket_recv_callback_def Let_def receiving_def sock_on_sock sock_set_state ring_ok_same)

lemma recv_takes_front:
  assumes "receiving i s" "tcp_socket_recv (int i) len nonblock s = (r, out, s')"
  shows "receiving i s'" "rx_bytes (sock s i) = out @ rx_bytes (sock s' i)"
proof -
  let ?k = "sock s i"
  have i: "i < MAX_SOCKETS" "i < length (ts_sockets s)" "ring_ok ?k"
    using assms(1) by (auto simp: receiving_def)
  obtain head rest where c: "recv_copy len 0 [] ?k =
       (of_nat (min (unat len) (unat (sk_rx_len ?k))), take (unat len) (rx_bytes ?k),
        ?k\<lparr>sk_rx_head := head, sk_rx_len := rest\<rparr>)"
     "ring_ok (?k\<lparr>sk_rx_head := head, sk_rx_len := rest\<rparr>)"
     "rx_bytes (?k\<lparr>sk_rx_head := head, sk_rx_len := rest\<rparr>) = drop (unat len) (rx_bytes ?k)"
    using recv_copy_fifo [OF i(3), of 0 len "[]"] by auto
  show "receiving i s'" "rx_bytes ?k = out @ rx_bytes (sock s' i)"
    using assms i c
    by (auto simp: tcp_socket_recv_def Let_def receiving_def sock_on_sock ring_ok_same
        split: tcp_recv_gate_t.splits)
qed

interpretation tcp_rx: byte_stream "stream_step i" "receiving i" "\<lambda>s. rx_bytes (sock s i)" pbuf_ok for i
proof
  fix s e assume a: "receiving i s" and v: "pbuf_ok e"
  show "\<exists>taken given s'. stream_step i s e = Some (taken, given, s') \<and> receiving i s' \<and>
      rx_bytes (sock s i) @ taken = given @ rx_bytes (sock s' i)"
  proof (cases e)
    case (Deliver p)
    with v obtain r s' where "socket_recv_callback i (Some p) s = Some (r, s')" "receiving i s'"
      "rx_bytes (sock s' i) = rx_bytes (sock s i) @ (if r = SOCK_SUCC then p else [])"
      using recv_callback_data [OF a, of p] by (auto simp: pbuf_ok_def)
    then show ?thesis by (simp add: Deliver stream_step_def)
  next
    case Peer_fin
    then show ?thesis using recv_callback_fin [OF a] by (auto simp: stream_step_def)
  next
    case (Read len nonblock)
    obtain r out s' where r: "tcp_socket_recv (int i) len nonblock s = (r, out, s')"
      by (metis prod_cases3)
    show ?thesis using recv_takes_front [OF a r] Read r by (simp add: stream_step_def)
  qed
qed

section \<open>The window\<close>

lemma recved_chunks_sum:
  "sum_list (map unat (recved_chunks n)) = unat n \<and> list_all (\<lambda>c. c \<noteq> 0) (recved_chunks n)"
proof (induction n rule: recved_chunks.induct)
  case (1 n)
  show ?case
  proof (cases "n = 0")
    case True
    have "recved_chunks 0 = []" by (subst recved_chunks.simps) simp
    then show ?thesis by (simp add: True)
  next
    case False
    let ?c = "tcp_recved_chunk n"
    have n: "unat n \<noteq> 0" using False by (simp only: unat_eq_0 not_False_eq_True)
    have c: "unat (ucast ?c :: u64) = min (unat n) 65535"
      using unat_ucast_up [of ?c, where 'b = 64] recved_chunk_unat [of n] by simp
    have "unat (n - ucast ?c) = unat n - min (unat n) 65535" by (simp add: unat_minus_le c)
    moreover have "?c \<noteq> 0" using n recved_chunk_unat [of n] by (metis min_def unat_eq_0 zero_neq_numeral)
    ultimately show ?thesis
      using 1 [OF False refl] False by (subst (1 2) recved_chunks.simps) (simp add: Let_def recved_chunk_unat)
  qed
qed

section \<open>Properties\<close>

text \<open>
  C8.  The receive path is a lossless byte queue.  On an open socket, over any sequence of
  segments delivered by lwIP, a FIN and reads of any size, every loop ends, a segment is taken
  whole or refused whole, and the bytes the application reads are the bytes taken, in order:
  what was buffered plus what was taken is what was given plus what is buffered now, never more
  than the ring holds.
\<close>

theorem tcp_stream_lossless:
  assumes "receiving i s" "list_all pbuf_ok es"
  shows "\<exists>taken given s'. stream_run (stream_step i) s es = Some (taken, given, s') \<and>
    rx_bytes (sock s i) @ taken = given @ rx_bytes (sock s' i) \<and>
    length (rx_bytes (sock s' i)) \<le> ring_capacity"
proof -
  from tcp_rx.run_fifo [OF assms] obtain taken given s' where
    "stream_run (stream_step i) s es = Some (taken, given, s')" "receiving i s'"
    "rx_bytes (sock s i) @ taken = given @ rx_bytes (sock s' i)" by blast
  then show ?thesis by (auto simp: receiving_def ring_ok_def)
qed

definition sample_open :: tcp where
  "sample_open = on_sock 2 (\<lambda>k. k\<lparr>sk_state := Sock_connected, sk_tpcb := Some 7\<rparr>) tcp_zero"

lemma sock_zero: "i < MAX_SOCKETS \<Longrightarrow> sock tcp_zero i = socket_zero"
  unfolding tcp_zero_def sock_def by simp

lemma sample_slot: "sock sample_open 2 = socket_zero\<lparr>sk_state := Sock_connected, sk_tpcb := Some 7\<rparr>"
  "length (ts_sockets sample_open) = MAX_SOCKETS"
proof -
  have l: "length (ts_sockets tcp_zero) = MAX_SOCKETS" by (simp add: tcp_zero_def)
  then show "sock sample_open 2 = socket_zero\<lparr>sk_state := Sock_connected, sk_tpcb := Some 7\<rparr>"
    "length (ts_sockets sample_open) = MAX_SOCKETS"
    by (simp_all add: sample_open_def sock_on_sock sock_zero)
qed

lemma sample_receiving: "receiving 2 sample_open"
  by (simp add: receiving_def sample_slot ring_ok_def socket_zero_def)

theorem tcp_stream_lossless_witness:
  "\<exists>taken given s'. stream_run (stream_step 2) sample_open
      [Deliver [1, 2, 3], Read 2 True, Peer_fin, Read 5 False] = Some (taken, given, s') \<and>
    taken = given @ rx_bytes (sock s' 2)"
proof -
  have "rx_bytes (sock sample_open 2) = []"
    by (simp add: sample_slot rx_bytes_def socket_zero_def)
  with tcp_stream_lossless [OF sample_receiving, of "[Deliver [1, 2, 3], Read 2 True, Peer_fin, Read 5 False]"]
  show ?thesis by (auto simp: pbuf_ok_def)
qed

text \<open>
  C29.  A read reopens exactly the window it emptied.  A read of buffered bytes returns the oldest
  ones, as many as asked for and there are, and reports to lwIP, on the socket's own PCB and in
  nonzero 16-bit chunks, exactly that many; so a read of 64 KiB or more is not lost to the
  narrow parameter.
\<close>

theorem tcp_recv_reopens_window:
  assumes "receiving i s" "sk_rx_len (sock s i) \<noteq> 0"
  shows "case tcp_socket_recv (int i) len nonblock s of (r, out, s') \<Rightarrow>
    r = Return (int (length out)) \<and> out = take (unat len) (rx_bytes (sock s i)) \<and>
    rx_bytes (sock s' i) = drop (unat len) (rx_bytes (sock s i)) \<and>
    (\<exists>chunks. ts_trace s' = ts_trace s @ map (Tcp_recved (sk_tpcb (sock s i))) chunks \<and>
      sum_list (map unat chunks) = length out \<and> 0 \<notin> set chunks)"
proof -
  let ?k = "sock s i"
  have i: "i < MAX_SOCKETS" "i < length (ts_sockets s)" "ring_ok ?k"
    using assms(1) by (auto simp: receiving_def)
  let ?n = "min (unat len) (unat (sk_rx_len ?k))"
  obtain head rest where c: "recv_copy len 0 [] ?k =
       (of_nat ?n, take (unat len) (rx_bytes ?k), ?k\<lparr>sk_rx_head := head, sk_rx_len := rest\<rparr>)"
     "rx_bytes (?k\<lparr>sk_rx_head := head, sk_rx_len := rest\<rparr>) = drop (unat len) (rx_bytes ?k)"
    using recv_copy_fifo [OF i(3), of 0 len "[]"] by auto
  have "?n < 2 ^ 64" using unat_lt [of len] by (simp add: min_def)
  then have n: "unat (of_nat ?n :: u64) = ?n" by (simp add: unat_of_nat)
  have g: "tcp_recv_gate (sk_state ?k) (sk_rx_len ?k \<noteq> 0) nonblock = Recv_copy"
    using assms by (auto simp: tcp_recv_gate_def receiving_def)
  have ch: "sum_list (map unat (recved_chunks (of_nat ?n))) = ?n" "0 \<notin> set (recved_chunks (of_nat ?n))"
    using recved_chunks_sum [of "of_nat ?n"] n by (auto simp: list_all_iff)
  have ln: "length (take (unat len) (rx_bytes ?k)) = ?n" by simp
  have "tcp_socket_recv (int i) len nonblock s =
    (Return (int ?n), take (unat len) (rx_bytes ?k),
     fold (\<lambda>c. lw (Tcp_recved (sk_tpcb ?k) c)) (recved_chunks (of_nat ?n))
       (on_sock i (\<lambda>_. ?k\<lparr>sk_rx_head := head, sk_rx_len := rest\<rparr>) s))"
    using i(1) by (simp only: tcp_socket_recv_def socket_lookup_nat option.case Let_def g tcp_recv_gate_t.case c(1) prod.case n) simp
  then show ?thesis
    using c(2) ch i(2) ln by (auto simp: sock_on_sock)
qed

theorem tcp_recv_reopens_window_witness:
  "\<exists>s. case tcp_socket_recv 2 4 True s of (r, out, s') \<Rightarrow>
    r = Return 3 \<and> out = [0, 0, 0] \<and> rx_bytes (sock s' 2) = []"
proof -
  define s where "s = on_sock 2 (\<lambda>k. k\<lparr>sk_rx_len := 3\<rparr>) sample_open"
  have k: "sock s 2 = (sock sample_open 2)\<lparr>sk_rx_len := 3\<rparr>"
    by (simp add: s_def sock_on_sock sample_slot)
  have r: "receiving 2 s" using sample_receiving by (simp add: receiving_def k) (simp add: s_def ring_ok_def)
  have b: "rx_bytes (sock s 2) = [0, 0, 0]"
  proof -
    have "[0..<3] = [0, 1, 2 :: nat]" by (simp add: numeral_3_eq_3)
    then show ?thesis by (simp add: rx_bytes_def k sample_slot socket_zero_def)
  qed
  have "case tcp_socket_recv (int 2) 4 True s of (r, out, s') \<Rightarrow>
    r = Return (int (length out)) \<and> out = take (unat (4 :: u64)) (rx_bytes (sock s 2)) \<and>
    rx_bytes (sock s' 2) = drop (unat (4 :: u64)) (rx_bytes (sock s 2))"
    using tcp_recv_reopens_window [OF r, of 4 True] k by (auto split: prod.splits)
  then show ?thesis by (intro exI [of _ s]) (auto simp: b split: prod.splits)
qed

end
