(* ===== verification/Tcp_Lifecycle.thy ===== *)
theory Tcp_Lifecycle
  imports Tcp_Stream
begin

text \<open>
  The socket table over whole runs.  The trace of calls into lwIP is read by a monitor that
  knows, for each PCB, who owns it and which callbacks it still carries; lwIP is any environment
  that calls back only what is registered on a PCB that exists, and the application is any caller
  that closes and connects only the sockets it holds.  Under these two, every slot, every PCB and
  every queued connection keeps its one owner.
\<close>

section \<open>What has been asked of lwIP about each PCB\<close>

datatype pcb_life = Pcb_absent | Pcb_owned | Pcb_left

text \<open>\<open>Pcb_left\<close> is a PCB whose close lwIP has accepted and not yet finished.\<close>

record pcb_view =
  pv_life :: pcb_life
  pv_arg :: "nat option"
  pv_err :: bool
  pv_connecting :: bool

definition pcb_none :: pcb_view where
  "pcb_none = \<lparr>pv_life = Pcb_absent, pv_arg = None, pv_err = False, pv_connecting = False\<rparr>"

definition pcb_fresh :: pcb_view where
  "pcb_fresh = \<lparr>pv_life = Pcb_owned, pv_arg = None, pv_err = False, pv_connecting = False\<rparr>"

fun view_step :: "lw_effect \<Rightarrow> (nat \<Rightarrow> pcb_view) \<Rightarrow> nat \<Rightarrow> pcb_view" where
  "view_step (Tcp_new (Some p)) v = v(p := pcb_fresh)"
| "view_step (Tcp_arg (Some p) a) v = v(p := (v p)\<lparr>pv_arg := a\<rparr>)"
| "view_step (Tcp_err (Some p) b) v = v(p := (v p)\<lparr>pv_err := b\<rparr>)"
| "view_step (Tcp_connect (Some p) a n e) v =
     v(p := (v p)\<lparr>pv_connecting := (e = ERR_OK \<or> pv_connecting (v p))\<rparr>)"
| "view_step (Tcp_listen (Some p) b (Some q)) v =
     v(p := pcb_none, q := pcb_fresh\<lparr>pv_arg := pv_arg (v p)\<rparr>)"
| "view_step (Tcp_close (Some p) e) v = v(p := (if e = ERR_OK then (v p)\<lparr>pv_life := Pcb_left\<rparr> else v p))"
| "view_step (Tcp_abort (Some p)) v = v(p := pcb_none)"
| "view_step (Lwip_gave p) v = v(p := pcb_fresh)"
| "view_step (Lwip_connected p) v = v(p := (v p)\<lparr>pv_connecting := False\<rparr>)"
| "view_step (Lwip_freed p) v = v(p := pcb_none)"
| "view_step _ v = v"

text \<open>
  What the ownership contract allows: a PCB is used only while a socket owns it, its argument is
  changed only while it exists, and it is aborted only once its error callback, which lwIP runs
  inside the abort, no longer leads to a socket.
\<close>

fun legal :: "(nat \<Rightarrow> pcb_view) \<Rightarrow> lw_effect \<Rightarrow> bool" where
  "legal v (Tcp_arg (Some p) a) \<longleftrightarrow> pv_life (v p) \<noteq> Pcb_absent"
| "legal v (Tcp_sent (Some p) b) \<longleftrightarrow> pv_life (v p) = Pcb_owned"
| "legal v (Tcp_recv (Some p) b) \<longleftrightarrow> pv_life (v p) = Pcb_owned"
| "legal v (Tcp_err (Some p) b) \<longleftrightarrow> pv_life (v p) = Pcb_owned"
| "legal v (Tcp_accept (Some p)) \<longleftrightarrow> pv_life (v p) = Pcb_owned"
| "legal v (Tcp_keepalive (Some p)) \<longleftrightarrow> pv_life (v p) = Pcb_owned"
| "legal v (Tcp_connect (Some p) a n e) \<longleftrightarrow> pv_life (v p) = Pcb_owned"
| "legal v (Tcp_bind (Some p) a n e) \<longleftrightarrow> pv_life (v p) = Pcb_owned"
| "legal v (Tcp_listen (Some p) b q) \<longleftrightarrow> pv_life (v p) = Pcb_owned"
| "legal v (Tcp_close (Some p) e) \<longleftrightarrow> pv_life (v p) = Pcb_owned"
| "legal v (Tcp_abort (Some p)) \<longleftrightarrow>
     pv_life (v p) = Pcb_owned \<and> (pv_arg (v p) = None \<or> \<not> pv_err (v p))"
| "legal v (Tcp_sndbuf (Some p)) \<longleftrightarrow> pv_life (v p) = Pcb_owned"
| "legal v (Tcp_write (Some p) n e) \<longleftrightarrow> pv_life (v p) = Pcb_owned"
| "legal v (Tcp_output (Some p) e) \<longleftrightarrow> pv_life (v p) = Pcb_owned"
| "legal v (Tcp_recved (Some p) n) \<longleftrightarrow> pv_life (v p) = Pcb_owned"
| "legal v (Tcp_name (Some p)) \<longleftrightarrow> pv_life (v p) = Pcb_owned"
| "legal v (Tcp_new q) \<longleftrightarrow> True"
| "legal v Pbuf_free \<longleftrightarrow> True"
| "legal v (Unexpected i a b) \<longleftrightarrow> True"
| "legal v (Lwip_gave p) \<longleftrightarrow> True"
| "legal v (Lwip_connected p) \<longleftrightarrow> True"
| "legal v (Lwip_freed p) \<longleftrightarrow> True"
| "legal v _ \<longleftrightarrow> False"

fun is_unexpected :: "lw_effect \<Rightarrow> bool" where
  "is_unexpected (Unexpected i a b) \<longleftrightarrow> True"
| "is_unexpected _ \<longleftrightarrow> False"

fun legal_trace :: "(nat \<Rightarrow> pcb_view) \<Rightarrow> lw_effect list \<Rightarrow> bool" where
  "legal_trace v [] \<longleftrightarrow> True"
| "legal_trace v (e # es) \<longleftrightarrow> legal v e \<and> legal_trace (view_step e v) es"

definition view :: "tcp \<Rightarrow> nat \<Rightarrow> pcb_view" where
  "view s = foldl (\<lambda>v e. view_step e v) (\<lambda>_. pcb_none) (ts_trace s)"

definition clean :: "tcp \<Rightarrow> bool" where
  "clean s \<longleftrightarrow> legal_trace (\<lambda>_. pcb_none) (ts_trace s) \<and> \<not> list_ex is_unexpected (ts_trace s)"

lemma legal_trace_append:
  "legal_trace v (es @ [e]) \<longleftrightarrow> legal_trace v es \<and> legal (foldl (\<lambda>v e. view_step e v) v es) e"
  by (induction es arbitrary: v) auto

lemma view_lw [simp]: "view (lw e s) = view_step e (view s)"
  by (simp add: view_def)

lemma clean_lw [simp]: "clean (lw e s) \<longleftrightarrow> clean s \<and> legal (view s) e \<and> \<not> is_unexpected e"
  by (auto simp: clean_def legal_trace_append view_def)

lemma view_frame [simp]:
  "view (on_sock i f s) = view s" "view (set_refs i n s) = view s"
  "clean (on_sock i f s) = clean s" "clean (set_refs i n s) = clean s"
  by (simp_all add: view_def clean_def)

section \<open>Runs\<close>

datatype tcp_call =
    Call_allocate
  | Call_init int "nat option"
  | Call_connect int u32 u16 bool int
  | Resume_connect nat
  | Call_close "nat option \<Rightarrow> int" int
  | Call_dup int
  | Call_write int u64 bool u16 int int
  | Resume_write nat u64 u16 int int
  | Call_recv int u64 bool
  | Call_listen int int "nat option"
  | Call_accept int bool
  | Resume_accept nat
  | Call_bind int u32 u16 "u32 list" int
  | Call_getsockname int "u32 \<times> u16"
  | Call_getpeername int "u32 \<times> u16"

datatype lw_event =
    Ev_err nat int
  | Ev_recv nat "u8 list option"
  | Ev_sent "nat option"
  | Ev_connected nat
  | Ev_accept "nat option" nat int
  | Ev_done nat

fun tcp_serve :: "tcp_call \<Rightarrow> tcp \<Rightarrow> tcp option" where
  "tcp_serve Call_allocate s = Some (snd (socket_allocate s))"
| "tcp_serve (Call_init index p) s = Some (snd (tcp_socket_init index p s))"
| "tcp_serve (Call_connect index a n nb e) s = Some (snd (tcp_socket_connect index a n nb e s))"
| "tcp_serve (Resume_connect i) s = Some (snd (connect_wait i s))"
| "tcp_serve (Call_close close index) s = map_option snd (tcp_socket_close close index s)"
| "tcp_serve (Call_dup index) s = Some (snd (tcp_socket_dup index s))"
| "tcp_serve (Call_write index len nb sb we oe) s = Some (snd (tcp_socket_write index len nb sb we oe s))"
| "tcp_serve (Resume_write i len sb we oe) s = Some (snd (write_wait i len sb we oe s))"
| "tcp_serve (Call_recv index len nb) s = Some (snd (snd (tcp_socket_recv index len nb s)))"
| "tcp_serve (Call_listen index b q) s = Some (snd (tcp_socket_listen index b q s))"
| "tcp_serve (Call_accept index nb) s = Some (snd (tcp_socket_accept index nb s))"
| "tcp_serve (Resume_accept l) s = Some (snd (accept_claim l s))"
| "tcp_serve (Call_bind index a n ifs e) s = Some (snd (tcp_socket_bind index a n ifs e s))"
| "tcp_serve (Call_getsockname index nm) s = Some (snd (snd (tcp_socket_getsockname index nm s)))"
| "tcp_serve (Call_getpeername index nm) s = Some (snd (snd (tcp_socket_getpeername index nm s)))"

text \<open>
  A callback runs with the argument its PCB carries.  An accept callback that answers an error
  makes lwIP abort the new PCB, which runs the error callback if one is registered.
\<close>

fun lwip_serve :: "lw_event \<Rightarrow> tcp \<Rightarrow> tcp option" where
  "lwip_serve (Ev_err p e) s = Some (socket_err_func (pv_arg (view s p)) e (lw (Lwip_freed p) s))"
| "lwip_serve (Ev_recv p pbuf) s =
     (case pv_arg (view s p) of
        None \<Rightarrow> Some s
      | Some i \<Rightarrow> map_option snd (socket_recv_callback i pbuf s))"
| "lwip_serve (Ev_sent arg) s = Some (snd (socket_sent_callback arg s))"
| "lwip_serve (Ev_connected p) s =
     Some (snd (socket_connected (pv_arg (view s p)) (Some p) (lw (Lwip_connected p) s)))"
| "lwip_serve (Ev_accept arg p e) s =
     (case tcp_socket_accept_cb arg p e (lw (Lwip_gave p) s) of
        (r, s) \<Rightarrow>
          if r = ERR_OK then Some s
          else Some ((if pv_err (view s p) then socket_err_func (pv_arg (view s p)) (-13) else id)
                       (lw (Lwip_freed p) s)))"
| "lwip_serve (Ev_done p) s = Some (lw (Lwip_freed p) s)"

text \<open>What the application and lwIP may do next.\<close>

definition absent :: "tcp \<Rightarrow> nat option \<Rightarrow> bool" where
  "absent s q \<longleftrightarrow> (case q of None \<Rightarrow> True | Some p \<Rightarrow> pv_life (view s p) = Pcb_absent)"

definition has_pcb :: "tcp \<Rightarrow> int \<Rightarrow> bool" where
  "has_pcb s index \<longleftrightarrow>
     (case socket_lookup index of None \<Rightarrow> True
      | Some i \<Rightarrow> sk_state (sock s i) \<noteq> Sock_allocated \<or> sk_tpcb (sock s i) \<noteq> None)"

fun call_ok :: "tcp \<Rightarrow> tcp_call \<Rightarrow> bool" where
  "call_ok s (Call_init index p) \<longleftrightarrow> absent s p \<and>
     (case socket_lookup index of None \<Rightarrow> True
      | Some i \<Rightarrow> sk_state (sock s i) \<noteq> Sock_allocated \<or> sk_tpcb (sock s i) = None)"
| "call_ok s (Call_connect index a n nb e) \<longleftrightarrow> has_pcb s index"
| "call_ok s (Call_bind index a n ifs e) \<longleftrightarrow> has_pcb s index"
| "call_ok s (Call_listen index b q) \<longleftrightarrow> has_pcb s index \<and> absent s q"
| "call_ok s (Call_close close index) \<longleftrightarrow>
     (case socket_lookup index of None \<Rightarrow> True
      | Some i \<Rightarrow> 0 < ts_refcount s ! i \<or>
          sk_state (sock s i) \<in> {Sock_unallocated, Sock_allocated, Sock_closing})"
| "call_ok s (Resume_connect i) \<longleftrightarrow> i < MAX_SOCKETS"
| "call_ok s (Resume_write i len sb we oe) \<longleftrightarrow> i < MAX_SOCKETS"
| "call_ok s (Resume_accept l) \<longleftrightarrow> l < MAX_SOCKETS"
| "call_ok s _ \<longleftrightarrow> True"

fun event_ok :: "tcp \<Rightarrow> lw_event \<Rightarrow> bool" where
  "event_ok s (Ev_err p e) \<longleftrightarrow> pv_life (view s p) \<noteq> Pcb_absent \<and> pv_err (view s p)"
| "event_ok s (Ev_recv p pbuf) \<longleftrightarrow> pv_life (view s p) \<noteq> Pcb_absent \<and>
     (case pbuf of None \<Rightarrow> True | Some b \<Rightarrow> length b \<le> 65535)"
| "event_ok s (Ev_sent arg) \<longleftrightarrow> (case arg of None \<Rightarrow> True | Some i \<Rightarrow> i < MAX_SOCKETS)"
| "event_ok s (Ev_connected p) \<longleftrightarrow> pv_life (view s p) = Pcb_owned \<and> pv_connecting (view s p)"
| "event_ok s (Ev_accept arg p e) \<longleftrightarrow> pv_life (view s p) = Pcb_absent \<and>
     (case arg of None \<Rightarrow> True | Some l \<Rightarrow> l < MAX_SOCKETS)"
| "event_ok s (Ev_done p) \<longleftrightarrow> pv_life (view s p) = Pcb_left"

inductive tcp_step :: "tcp \<Rightarrow> tcp option \<Rightarrow> bool" where
  app: "call_ok s c \<Longrightarrow> tcp_step s (tcp_serve c s)"
| lwip: "event_ok s e \<Longrightarrow> tcp_step s (lwip_serve e s)"

inductive tcp_reach :: "tcp option \<Rightarrow> bool" where
  start: "tcp_reach (Some tcp_zero)"
| step: "tcp_reach (Some s) \<Longrightarrow> tcp_step s t \<Longrightarrow> tcp_reach t"

section \<open>The invariant\<close>

definition backlog :: "socket \<Rightarrow> int list" where
  "backlog k =
     (let q = sk_accept_queue k
      in map (\<lambda>a. aq_pending q ! nat ((aq_tail q + int a) mod 10))
           [0..<nat ((aq_head q - aq_tail q) mod 10)])"

definition queue_ok :: "socket \<Rightarrow> bool" where
  "queue_ok k \<longleftrightarrow>
     (let q = sk_accept_queue k
      in length (aq_pending q) = 10 \<and> 0 \<le> aq_head q \<and> aq_head q < 10 \<and> 0 \<le> aq_tail q \<and> aq_tail q < 10)"

definition owned_by :: "(nat \<Rightarrow> pcb_view) \<Rightarrow> nat option \<Rightarrow> nat \<Rightarrow> bool" where
  "owned_by v q i \<longleftrightarrow> (\<exists>p. q = Some p \<and> pv_life (v p) = Pcb_owned \<and> pv_arg (v p) = Some i)"

fun holds_pcb :: "socket_state \<Rightarrow> bool" where
  "holds_pcb Sock_unallocated = False"
| "holds_pcb Sock_allocated = False"
| "holds_pcb Sock_closing = False"
| "holds_pcb Sock_error = False"
| "holds_pcb _ = True"

definition slot_ok :: "(nat \<Rightarrow> pcb_view) \<Rightarrow> nat \<Rightarrow> socket \<Rightarrow> int \<Rightarrow> bool" where
  "slot_ok v i k r \<longleftrightarrow>
     ring_ok k \<and> queue_ok k \<and> 0 \<le> r \<and>
     (sk_state k \<noteq> Sock_listening \<longrightarrow> backlog k = []) \<and>
     (sk_state k = Sock_unallocated \<longrightarrow> sk_tpcb k = None \<and> r = 0 \<and> sk_rx_len k = 0) \<and>
     (sk_state k = Sock_error \<longrightarrow> sk_tpcb k = None) \<and>
     (sk_state k = Sock_closing \<longrightarrow> r = 0 \<and> sk_tpcb k \<noteq> None) \<and>
     (sk_state k = Sock_allocated \<longrightarrow> sk_tpcb k = None \<and> r = 0 \<or> owned_by v (sk_tpcb k) i) \<and>
     (holds_pcb (sk_state k) \<longrightarrow> owned_by v (sk_tpcb k) i)"

text \<open>A PCB that exists and carries a slot as its argument is that slot's PCB.\<close>

definition link_ok :: "(nat \<Rightarrow> pcb_view) \<Rightarrow> tcp \<Rightarrow> nat \<Rightarrow> nat \<Rightarrow> bool" where
  "link_ok v s p i \<longleftrightarrow>
     i < MAX_SOCKETS \<and> sk_tpcb (sock s i) = Some p \<and>
     (pv_connecting (v p) \<longrightarrow> sk_state (sock s i) = Sock_connecting) \<and>
     (sk_state (sock s i) = Sock_listening \<longrightarrow> \<not> pv_err (v p))"

definition links_ok :: "(nat \<Rightarrow> pcb_view) \<Rightarrow> tcp \<Rightarrow> bool" where
  "links_ok v s \<longleftrightarrow>
     (\<forall>p i. pv_life (v p) \<noteq> Pcb_absent \<and> pv_arg (v p) = Some i \<longrightarrow> link_ok v s p i)"

text \<open>A queued connection is known to no one but its queue.\<close>

definition queued_ok :: "tcp \<Rightarrow> nat \<Rightarrow> bool" where
  "queued_ok s j \<longleftrightarrow>
     sk_state (sock s j) \<in> {Sock_connected, Sock_closed_by_peer, Sock_error} \<and> ts_refcount s ! j = 0"

definition queues_ok :: "tcp \<Rightarrow> bool" where
  "queues_ok s \<longleftrightarrow>
     (\<forall>i < MAX_SOCKETS. distinct (backlog (sock s i)) \<and>
       (\<forall>e \<in> set (backlog (sock s i)). \<exists>j < MAX_SOCKETS. e = int j \<and> queued_ok s j) \<and>
       (\<forall>i' < MAX_SOCKETS. i' \<noteq> i \<longrightarrow> set (backlog (sock s i)) \<inter> set (backlog (sock s i')) = {}))"

definition sizes_ok :: "tcp \<Rightarrow> bool" where
  "sizes_ok s \<longleftrightarrow> length (ts_sockets s) = MAX_SOCKETS \<and> length (ts_refcount s) = MAX_SOCKETS"

text \<open>The invariant, but for slot \<open>i\<close>, which an operation is working on.\<close>

definition inv_but :: "nat \<Rightarrow> tcp \<Rightarrow> bool" where
  "inv_but i s \<longleftrightarrow>
     sizes_ok s \<and> clean s \<and> links_ok (view s) s \<and> queues_ok s \<and>
     (\<forall>j < MAX_SOCKETS. j \<noteq> i \<longrightarrow> slot_ok (view s) j (sock s j) (ts_refcount s ! j))"

definition tcp_inv :: "tcp \<Rightarrow> bool" where
  "tcp_inv s \<longleftrightarrow>
     sizes_ok s \<and> clean s \<and> links_ok (view s) s \<and> queues_ok s \<and>
     (\<forall>j < MAX_SOCKETS. slot_ok (view s) j (sock s j) (ts_refcount s ! j))"

lemma inv_butI: "tcp_inv s \<Longrightarrow> inv_but i s"
  by (simp add: tcp_inv_def inv_but_def)

lemma inv_slot: "tcp_inv s \<Longrightarrow> i < MAX_SOCKETS \<Longrightarrow> slot_ok (view s) i (sock s i) (ts_refcount s ! i)"
  by (simp add: tcp_inv_def)

lemma inv_close: "inv_but i s \<Longrightarrow> slot_ok (view s) i (sock s i) (ts_refcount s ! i) \<Longrightarrow> tcp_inv s"
  by (auto simp: tcp_inv_def inv_but_def)

lemma inv_sizes [simp]:
  "tcp_inv s \<Longrightarrow> length (ts_sockets s) = MAX_SOCKETS" "tcp_inv s \<Longrightarrow> length (ts_refcount s) = MAX_SOCKETS"
  "inv_but i s \<Longrightarrow> length (ts_sockets s) = MAX_SOCKETS" "inv_but i s \<Longrightarrow> length (ts_refcount s) = MAX_SOCKETS"
  by (simp_all add: tcp_inv_def inv_but_def sizes_ok_def)

lemma inv_frame [simp]:
  "queued_ok (lw e s) = queued_ok s" "queues_ok (lw e s) = queues_ok s" "sizes_ok (lw e s) = sizes_ok s"
  "link_ok v (lw e s) = link_ok v s" "links_ok v (lw e s) = links_ok v s"
  "link_ok v (set_refs i n s) = link_ok v s" "links_ok v (set_refs i n s) = links_ok v s"
  "sizes_ok (set_refs i n s) = sizes_ok s" "sizes_ok (on_sock i f s) = sizes_ok s"
  by (simp_all add: queued_ok_def queues_ok_def sizes_ok_def link_ok_def links_ok_def fun_eq_iff)

lemma inv_butD:
  assumes "inv_but i s"
  shows "sizes_ok s" "clean s" "links_ok (view s) s" "queues_ok s"
    "j < MAX_SOCKETS \<Longrightarrow> j \<noteq> i \<Longrightarrow> slot_ok (view s) j (sock s j) (ts_refcount s ! j)"
  using assms by (simp_all add: inv_but_def)

lemma linksD:
  "links_ok v s \<Longrightarrow> pv_life (v p) \<noteq> Pcb_absent \<Longrightarrow> pv_arg (v p) = Some i \<Longrightarrow> link_ok v s p i"
  by (simp add: links_ok_def)

lemma link_unique:
  assumes "tcp_inv s" "pv_life (view s p) \<noteq> Pcb_absent" "pv_arg (view s p) = Some i"
    "pv_life (view s q) \<noteq> Pcb_absent" "pv_arg (view s q) = Some i"
  shows "p = q"
proof -
  have l: "links_ok (view s) s" using assms(1) by (simp add: tcp_inv_def)
  show ?thesis using linksD [OF l assms(2,3)] linksD [OF l assms(4,5)] by (simp add: link_ok_def)
qed

lemma queuesD:
  assumes "queues_ok s" "i < MAX_SOCKETS"
  shows "distinct (backlog (sock s i))"
    "e \<in> set (backlog (sock s i)) \<Longrightarrow> \<exists>j < MAX_SOCKETS. e = int j \<and> queued_ok s j"
    "i' < MAX_SOCKETS \<Longrightarrow> i' \<noteq> i \<Longrightarrow> set (backlog (sock s i)) \<inter> set (backlog (sock s i')) = {}"
  using assms by (simp_all add: queues_ok_def)

text \<open>The queues are as good as they were if they and the sockets in them are as they were.\<close>

lemma queues_same:
  assumes "queues_ok s" "\<And>i. i < MAX_SOCKETS \<Longrightarrow> backlog (sock s' i) = backlog (sock s i)"
    "\<And>i j. i < MAX_SOCKETS \<Longrightarrow> j < MAX_SOCKETS \<Longrightarrow> int j \<in> set (backlog (sock s i)) \<Longrightarrow> queued_ok s j \<Longrightarrow>
      queued_ok s' j"
  shows "queues_ok s'"
  unfolding queues_ok_def
proof (intro allI impI conjI ballI)
  fix i assume i: "i < MAX_SOCKETS"
  note q = queuesD [OF assms(1) i]
  show "distinct (backlog (sock s' i))" using q(1) by (simp add: assms(2) i)
  fix e assume e: "e \<in> set (backlog (sock s' i))"
  then have "e \<in> set (backlog (sock s i))" by (simp add: assms(2) i)
  with q(2) obtain j where j: "j < MAX_SOCKETS" "e = int j" "queued_ok s j" by blast
  then show "\<exists>j < MAX_SOCKETS. e = int j \<and> queued_ok s' j"
    using assms(3) [OF i] e by (auto simp: assms(2) i)
next
  fix i i' assume "i < MAX_SOCKETS" "i' < MAX_SOCKETS" "i' \<noteq> i"
  then show "set (backlog (sock s' i)) \<inter> set (backlog (sock s' i')) = {}"
    using queuesD(3) [OF assms(1)] by (simp add: assms(2))
qed

subsection \<open>Moves that keep the invariant\<close>

lemma owned_by_other:
  "owned_by v q j \<Longrightarrow> (\<And>p'. p' \<noteq> p \<Longrightarrow> v' p' = v p') \<Longrightarrow> q \<noteq> Some p \<Longrightarrow> owned_by v' q j"
  by (auto simp: owned_by_def)

text \<open>Slot \<open>j\<close> does not notice a change to a PCB that is not its own.\<close>

lemma slot_ok_view:
  assumes "slot_ok v j k r" "\<And>p'. p' \<noteq> p \<Longrightarrow> v' p' = v p'"
    "pv_life (v p) \<noteq> Pcb_owned \<or> pv_arg (v p) \<noteq> Some j"
  shows "slot_ok v' j k r"
proof -
  have "owned_by v' (sk_tpcb k) j" if "owned_by v (sk_tpcb k) j"
    using that assms(2,3) by (fastforce simp: owned_by_def)
  then show ?thesis using assms(1) by (auto simp: slot_ok_def)
qed

text \<open>An effect on a PCB that is slot \<open>i\<close>'s or nobody's.\<close>

lemma inv_but_lw:
  assumes "inv_but i s" "legal (view s) e" "\<not> is_unexpected e"
    "\<And>p'. p' \<noteq> p \<Longrightarrow> view_step e (view s) p' = view s p'"
    "pv_life (view s p) = Pcb_owned \<Longrightarrow> pv_arg (view s p) = Some i \<or> pv_arg (view s p) = None"
    "\<And>j. pv_life (view_step e (view s) p) \<noteq> Pcb_absent \<Longrightarrow> pv_arg (view_step e (view s) p) = Some j \<Longrightarrow>
      link_ok (view_step e (view s)) s p j"
  shows "inv_but i (lw e s)"
proof -
  let ?v = "view_step e (view s)"
  have slots: "slot_ok ?v j (sock s j) (ts_refcount s ! j)" if "j < MAX_SOCKETS" "j \<noteq> i" for j
    using assms(5) that
    by (intro slot_ok_view [OF inv_butD(5) [OF assms(1) that] assms(4)]) auto
  have links: "links_ok ?v s"
    unfolding links_ok_def
  proof (intro allI impI)
    fix p' j assume a: "pv_life (?v p') \<noteq> Pcb_absent \<and> pv_arg (?v p') = Some j"
    show "link_ok ?v s p' j"
    proof (cases "p' = p")
      case True
      then show ?thesis using a assms(6) by simp
    next
      case False
      then have "?v p' = view s p'" by (rule assms(4))
      then show ?thesis using a linksD [OF inv_butD(3) [OF assms(1)], of p' j] by (simp add: link_ok_def)
    qed
  qed
  show ?thesis unfolding inv_but_def using inv_butD [OF assms(1)] slots links assms(2,3) by simp
qed

text \<open>An effect that leaves every PCB as it is.\<close>

lemma inv_lw_same:
  assumes "legal (view s) e" "\<not> is_unexpected e" "view_step e (view s) = view s"
  shows "tcp_inv s \<Longrightarrow> tcp_inv (lw e s)" "inv_but i s \<Longrightarrow> inv_but i (lw e s)"
  using assms by (simp_all add: tcp_inv_def inv_but_def)

text \<open>A change to slot \<open>i\<close> that keeps its queue, its PCB and, as far as others see it, its state.\<close>

lemma backlog_cong: "sk_accept_queue k = sk_accept_queue k' \<Longrightarrow> backlog k = backlog k'"
  by (simp add: backlog_def)

lemma inv_but_on_sock:
  assumes "inv_but i s" "i < MAX_SOCKETS" "backlog (f (sock s i)) = backlog (sock s i)"
    "\<And>p. pv_life (view s p) \<noteq> Pcb_absent \<Longrightarrow> pv_arg (view s p) = Some i \<Longrightarrow>
       link_ok (view s) (on_sock i f s) p i"
    "\<And>l. l < MAX_SOCKETS \<Longrightarrow> int i \<in> set (backlog (sock s l)) \<Longrightarrow> queued_ok s i \<Longrightarrow> queued_ok (on_sock i f s) i"
  shows "inv_but i (on_sock i f s)"
proof -
  have l: "i < length (ts_sockets s)" using assms(1,2) by simp
  have other: "sock (on_sock i f s) j = sock s j" if "j \<noteq> i" for j
    using that l by (simp add: sock_on_sock)
  have links: "links_ok (view s) (on_sock i f s)"
    unfolding links_ok_def
  proof (intro allI impI)
    fix p j assume a: "pv_life (view s p) \<noteq> Pcb_absent \<and> pv_arg (view s p) = Some j"
    show "link_ok (view s) (on_sock i f s) p j"
    proof (cases "j = i")
      case True
      then show ?thesis using a assms(4) by simp
    next
      case False
      then show ?thesis
        using a linksD [OF inv_butD(3) [OF assms(1)], of p j] by (simp add: link_ok_def other)
    qed
  qed
  have "queues_ok (on_sock i f s)"
  proof (rule queues_same [OF inv_butD(4) [OF assms(1)]])
    fix j assume "j < MAX_SOCKETS"
    show "backlog (sock (on_sock i f s) j) = backlog (sock s j)"
      using assms(3) l by (cases "j = i") (simp_all add: sock_on_sock)
  next
    fix l j assume "l < MAX_SOCKETS" "j < MAX_SOCKETS" "int j \<in> set (backlog (sock s l))" "queued_ok s j"
    then show "queued_ok (on_sock i f s) j"
      using assms(5) by (cases "j = i") (simp_all add: queued_ok_def other)
  qed
  then show ?thesis
    unfolding inv_but_def using inv_butD [OF assms(1)] links by (simp add: other)
qed

lemma inv_but_set_refs:
  assumes "inv_but i s" "\<And>l. l < MAX_SOCKETS \<Longrightarrow> int i \<in> set (backlog (sock s l)) \<Longrightarrow> n = 0"
  shows "inv_but i (set_refs i n s)"
proof -
  have "queues_ok (set_refs i n s)"
  proof (rule queues_same [OF inv_butD(4) [OF assms(1)]])
    fix l j assume "l < MAX_SOCKETS" "int j \<in> set (backlog (sock s l))" "queued_ok s j"
    then show "queued_ok (set_refs i n s) j"
      using assms by (cases "j = i") (auto simp: queued_ok_def nth_list_update_if)
  qed simp
  then show ?thesis
    unfolding inv_but_def using inv_butD [OF assms(1)] by (simp add: nth_list_update_if)
qed

lemma inv_zero: "tcp_inv tcp_zero"
proof -
  have b: "backlog socket_zero = []" by (simp add: backlog_def socket_zero_def)
  have v: "view tcp_zero = (\<lambda>_. pcb_none)" and c: "clean tcp_zero"
    by (simp_all add: view_def clean_def tcp_zero_def)
  have r: "ts_refcount tcp_zero ! j = 0" if "j < MAX_SOCKETS" for j
    using that unfolding tcp_zero_def by simp
  have "slot_ok (\<lambda>_. pcb_none) j socket_zero 0" for j
    by (simp add: slot_ok_def b) (simp add: socket_zero_def ring_ok_def queue_ok_def)
  moreover have "sizes_ok tcp_zero" by (simp add: sizes_ok_def tcp_zero_def)
  moreover have "queues_ok tcp_zero" unfolding queues_ok_def by (simp add: sock_zero b)
  moreover have "links_ok (\<lambda>_. pcb_none) tcp_zero" by (simp add: links_ok_def pcb_none_def)
  ultimately show ?thesis unfolding tcp_inv_def v using c by (simp add: sock_zero r)
qed

section \<open>The backlog ring\<close>

abbreviation (input) with_tail :: "int \<Rightarrow> socket \<Rightarrow> socket" where
  "with_tail t k \<equiv> k\<lparr>sk_accept_queue := (sk_accept_queue k)\<lparr>aq_tail := t\<rparr>\<rparr>"

lemma backlog_pop_None:
  "queue_ok k \<Longrightarrow>
   tcp_backlog_pop (aq_pending (sk_accept_queue k)) 10 (aq_head (sk_accept_queue k))
     (aq_tail (sk_accept_queue k)) = None \<longleftrightarrow> backlog k = []"
  by (auto simp: tcp_backlog_pop_def tcp_backlog_empty_def backlog_def queue_ok_def Let_def
      zmod_eq_0_iff) presburger

text \<open>Positions on a ring of ten.\<close>

lemma ring_next:
  fixes h t :: int
  assumes "0 \<le> t" "t < 10" "0 \<le> h" "h < 10"
  shows "h \<noteq> t \<Longrightarrow> nat ((h - t) mod 10) = Suc (nat ((h - (t + 1) mod 10) mod 10))"
    "(h + 1) mod 10 \<noteq> t \<Longrightarrow> nat (((h + 1) mod 10 - t) mod 10) = Suc (nat ((h - t) mod 10))"
    "a < nat ((h - t) mod 10) \<Longrightarrow> (t + int a) mod 10 \<noteq> h"
    "(t + int (nat ((h - t) mod 10))) mod 10 = h"
    "(t + int (Suc b)) mod 10 = ((t + 1) mod 10 + int b) mod 10"
proof -
  have m: "x mod 10 = (if x < 0 then x + 10 else if x < 10 then x else x - 10)"
    if "- 10 \<le> x" "x < 20" for x :: int
    using that by presburger
  have d: "(h - t) mod 10 = (if h < t then h - t + 10 else h - t)"
    "(t + 1) mod 10 = (if t = 9 then 0 else t + 1)" "(h + 1) mod 10 = (if h = 9 then 0 else h + 1)"
    using assms by (simp_all add: m)
  show "nat ((h - t) mod 10) = Suc (nat ((h - (t + 1) mod 10) mod 10))" if "h \<noteq> t"
    using assms that unfolding d by (auto simp: m)
  show "nat (((h + 1) mod 10 - t) mod 10) = Suc (nat ((h - t) mod 10))" if "(h + 1) mod 10 \<noteq> t"
    using assms that unfolding d by (auto simp: m split: if_splits)
  show "(t + int a) mod 10 \<noteq> h" if "a < nat ((h - t) mod 10)"
    using assms that unfolding d by (auto simp: m split: if_splits)
  show "(t + int (nat ((h - t) mod 10))) mod 10 = h"
    using assms unfolding d by (auto simp: m split: if_splits)
  have "t + int (Suc b) = t + 1 + int b" by simp
  then show "(t + int (Suc b)) mod 10 = ((t + 1) mod 10 + int b) mod 10"
    by (simp only: mod_add_left_eq)
qed

lemma backlog_pop_Some:
  assumes "queue_ok k" "tcp_backlog_pop (aq_pending (sk_accept_queue k)) 10 (aq_head (sk_accept_queue k))
     (aq_tail (sk_accept_queue k)) = Some (e, t)"
  shows "backlog k = e # backlog (with_tail t k)" "queue_ok (with_tail t k)"
proof -
  let ?q = "sk_accept_queue k"
  have e: "e = aq_pending ?q ! nat (aq_tail ?q)" "t = (aq_tail ?q + 1) mod 10" "aq_head ?q \<noteq> aq_tail ?q"
    using assms(2) by (auto simp: tcp_backlog_pop_def tcp_backlog_empty_def split: if_splits)
  have r: "0 \<le> aq_tail ?q" "aq_tail ?q < 10" "0 \<le> aq_head ?q" "aq_head ?q < 10"
    using assms(1) by (auto simp: queue_ok_def Let_def)
  have n: "nat ((aq_head ?q - aq_tail ?q) mod 10) = Suc (nat ((aq_head ?q - t) mod 10))"
    using ring_next(1) [OF r] e(2,3) by simp
  have "[0..<nat ((aq_head ?q - aq_tail ?q) mod 10)] = 0 # map Suc [0..<nat ((aq_head ?q - t) mod 10)]"
    unfolding n by (simp add: upt_conv_Cons map_Suc_upt del: upt_Suc)
  moreover have "(aq_tail ?q + int (Suc a)) mod 10 = (t + int a) mod 10" for a
    unfolding e(2) by (rule ring_next(5) [OF r])
  ultimately show "backlog k = e # backlog (with_tail t k)"
    using r e(1) by (simp add: backlog_def Let_def)
  show "queue_ok (with_tail t k)" using assms(1) e(2) by (auto simp: queue_ok_def Let_def)
qed

lemma backlog_push:
  assumes "queue_ok k" "tcp_backlog_push (aq_pending (sk_accept_queue k)) 10 (aq_head (sk_accept_queue k))
     (aq_tail (sk_accept_queue k)) e = Some (ps, h)"
  shows "backlog (k\<lparr>sk_accept_queue := (sk_accept_queue k)\<lparr>aq_pending := ps, aq_head := h\<rparr>\<rparr>) = backlog k @ [e]"
    "queue_ok (k\<lparr>sk_accept_queue := (sk_accept_queue k)\<lparr>aq_pending := ps, aq_head := h\<rparr>\<rparr>)"
proof -
  let ?q = "sk_accept_queue k"
  have e: "ps = (aq_pending ?q)[nat (aq_head ?q) := e]" "h = (aq_head ?q + 1) mod 10" "h \<noteq> aq_tail ?q"
    using assms(2) by (auto simp: tcp_backlog_push_def Let_def split: if_splits)
  have r: "0 \<le> aq_tail ?q" "aq_tail ?q < 10" "0 \<le> aq_head ?q" "aq_head ?q < 10" "length (aq_pending ?q) = 10"
    using assms(1) by (auto simp: queue_ok_def Let_def)
  define n where "n = nat ((aq_head ?q - aq_tail ?q) mod 10)"
  have n: "nat ((h - aq_tail ?q) mod 10) = Suc n" using ring_next(2) [OF r(1-4)] e(2,3) unfolding n_def by simp
  have old: "(aq_tail ?q + int a) mod 10 \<noteq> aq_head ?q" if "a < n" for a
    using ring_next(3) [OF r(1-4)] that unfolding n_def by simp
  have new: "(aq_tail ?q + int n) mod 10 = aq_head ?q" unfolding n_def by (rule ring_next(4) [OF r(1-4)])
  have "map (\<lambda>a. ps ! nat ((aq_tail ?q + int a) mod 10)) [0..<Suc n] =
    map (\<lambda>a. aq_pending ?q ! nat ((aq_tail ?q + int a) mod 10)) [0..<n] @ [e]"
  proof -
    have "ps ! nat ((aq_tail ?q + int a) mod 10) = aq_pending ?q ! nat ((aq_tail ?q + int a) mod 10)"
      if "a < n" for a
      using old [OF that] r unfolding e(1) by (simp add: nth_list_update_if nat_eq_iff)
    moreover have "ps ! nat ((aq_tail ?q + int n) mod 10) = e" using r unfolding new e(1) by simp
    ultimately show ?thesis by simp
  qed
  then show "backlog (k\<lparr>sk_accept_queue := ?q\<lparr>aq_pending := ps, aq_head := h\<rparr>\<rparr>) = backlog k @ [e]"
    by (simp add: backlog_def Let_def n n_def [symmetric] del: upt_Suc)
  show "queue_ok (k\<lparr>sk_accept_queue := ?q\<lparr>aq_pending := ps, aq_head := h\<rparr>\<rparr>)"
    using r e(1,2) by (auto simp: queue_ok_def Let_def)
qed

lemma unqueued:
  "queues_ok s \<Longrightarrow> \<not> queued_ok s i \<Longrightarrow> l < MAX_SOCKETS \<Longrightarrow> int i \<notin> set (backlog (sock s l))"
  using queuesD(2) [of s l "int i"] by auto

section \<open>Releasing a slot\<close>

lemma set_state_allowed:
  "tcp_state_transition_allowed (sk_state (sock s i)) n \<Longrightarrow>
   socket_set_state i n s = on_sock i (\<lambda>k. k\<lparr>sk_state := n\<rparr>) s"
  by (simp add: socket_set_state_def)

lemma on_sock_on_sock: "on_sock i f (on_sock i g s) = on_sock i (f \<circ> g) s"
  by (cases "i < length (ts_sockets s)") (simp_all add: on_sock_def list_update_beyond)

lemma inv_release:
  assumes "inv_but i s" "i < MAX_SOCKETS" "tcp_state_transition_allowed (sk_state (sock s i)) Sock_unallocated"
    "\<And>p. pv_life (view s p) \<noteq> Pcb_absent \<Longrightarrow> pv_arg (view s p) \<noteq> Some i"
    "\<And>l. l < MAX_SOCKETS \<Longrightarrow> int i \<notin> set (backlog (sock s l))"
    "ring_ok (sock s i)" "queue_ok (sock s i)" "backlog (sock s i) = []"
  shows "tcp_inv (socket_release i s)"
proof -
  define f :: "socket \<Rightarrow> socket" where "f k = k\<lparr>sk_state := Sock_unallocated, sk_tpcb := None, sk_rx_head := 0,
    sk_rx_len := 0, sk_last_error := 0, sk_accept_queue := (sk_accept_queue k)\<lparr>aq_head := 0, aq_tail := 0\<rparr>\<rparr>" for k
  have eq: "socket_release i s = set_refs i 0 (on_sock i f s)"
    unfolding socket_release_def socket_clear_def set_state_allowed [OF assms(3)] on_sock_on_sock
    by (rule arg_cong [of _ _ "set_refs i 0"], rule arg_cong [of _ _ "\<lambda>f. on_sock i f s"])
      (simp add: f_def fun_eq_iff)
  have l: "i < length (ts_sockets s)" "i < length (ts_refcount s)" using assms(1,2) by simp_all
  have b: "backlog (f (sock s i)) = []" by (simp add: backlog_def f_def)
  have "inv_but i (on_sock i f s)"
    using assms(4,5,8) b by (intro inv_but_on_sock assms(1,2)) (simp_all)
  moreover have "int i \<notin> set (backlog (sock (on_sock i f s) j))" if "j < MAX_SOCKETS" for j
    using assms(5) [OF that] b l by (auto simp: sock_on_sock)
  ultimately have "inv_but i (socket_release i s)"
    unfolding eq by (intro inv_but_set_refs) auto
  moreover have "slot_ok (view s) i (f (sock s i)) 0"
    using assms(6,7) b by (simp add: slot_ok_def) (simp add: f_def ring_ok_def queue_ok_def Let_def)
  then have "slot_ok (view (socket_release i s)) i (sock (socket_release i s) i) (ts_refcount (socket_release i s) ! i)"
    by (simp add: eq sock_on_sock l)
  ultimately show ?thesis by (rule inv_close)
qed

lemma legal_sent_recv [simp]:
  "legal v (Tcp_sent (Some p) b) = (pv_life (v p) = Pcb_owned)"
  by simp

text \<open>A PCB that a slot gives up leads nowhere afterwards.\<close>

lemma inv_close_pcb:
  assumes "inv_but i s" "pv_life (view s p) = Pcb_owned" "pv_arg (view s p) = Some i"
  shows "inv_but i (socket_close_pcb close (Some p) s)"
    "\<And>q. pv_life (view (socket_close_pcb close (Some p) s) q) \<noteq> Pcb_absent \<Longrightarrow>
       pv_arg (view (socket_close_pcb close (Some p) s) q) \<noteq> Some i"
proof -
  let ?a = "lw (Tcp_arg (Some p) None) s"
  let ?c = "lw (Tcp_recv (Some p) False) (lw (Tcp_sent (Some p) False) ?a)"
  let ?d = "socket_detach_pcb (Some p) s"
  let ?e = "lw (Tcp_close (Some p) (close (Some p))) ?d"
  have a: "inv_but i ?a" using assms by (intro inv_but_lw [of _ _ _ p]) simp_all
  have c: "inv_but i ?c"
    by (rule inv_lw_same(2) [OF _ _ _ inv_lw_same(2) [OF _ _ _ a]]) (simp_all add: assms(2))
  have d: "inv_but i ?d" unfolding socket_detach_pcb_def
    using assms(2) by (intro inv_but_lw [OF c, of _ p]) simp_all
  have e: "inv_but i ?e"
    using assms(2) by (intro inv_but_lw [OF d, of _ p]) (simp_all add: socket_detach_pcb_def split: if_splits)
  show "inv_but i (socket_close_pcb close (Some p) s)"
  proof (cases "close (Some p) = ERR_OK")
    case True
    then show ?thesis using e by (simp add: socket_close_pcb_def Let_def)
  next
    case False
    then have "inv_but i (lw (Tcp_abort (Some p)) ?e)"
      using assms(2) by (intro inv_but_lw [OF e, of _ p]) (simp_all add: socket_detach_pcb_def pcb_none_def)
    then show ?thesis using False by (simp add: socket_close_pcb_def Let_def)
  qed
  have tp: "sk_tpcb (sock s i) = Some p"
    using linksD [OF inv_butD(3) [OF assms(1)], of p i] assms(2,3) by (simp add: link_ok_def)
  fix q assume "pv_life (view (socket_close_pcb close (Some p) s) q) \<noteq> Pcb_absent"
  then show "pv_arg (view (socket_close_pcb close (Some p) s) q) \<noteq> Some i"
    using linksD [OF inv_butD(3) [OF assms(1)], of q i] tp
    by (auto simp: socket_close_pcb_def Let_def socket_detach_pcb_def link_ok_def pcb_none_def split: if_splits)
qed

lemma close_pcb_frame [simp]:
  "sock (socket_close_pcb close q s) = sock s" "ts_refcount (socket_close_pcb close q s) = ts_refcount s"
  by (simp_all add: socket_close_pcb_def socket_detach_pcb_def Let_def)

lemma inv_drop_slot:
  assumes "inv_but i s" "i < MAX_SOCKETS" "tcp_state_transition_allowed (sk_state (sock s i)) Sock_unallocated"
    "sk_tpcb (sock s i) = None \<or> owned_by (view s) (sk_tpcb (sock s i)) i"
    "\<And>l. l < MAX_SOCKETS \<Longrightarrow> int i \<notin> set (backlog (sock s l))"
    "ring_ok (sock s i)" "queue_ok (sock s i)" "backlog (sock s i) = []"
  shows "tcp_inv (socket_release i
    (if sk_tpcb (sock s i) \<noteq> None then socket_close_pcb close (sk_tpcb (sock s i)) s else s))"
proof (cases "sk_tpcb (sock s i)")
  case None
  have "pv_arg (view s p) \<noteq> Some i" if "pv_life (view s p) \<noteq> Pcb_absent" for p
    using linksD [OF inv_butD(3) [OF assms(1)] that, of i] None by (auto simp: link_ok_def)
  then show ?thesis using assms None by (simp add: inv_release)
next
  case (Some p)
  with assms(4) have p: "pv_life (view s p) = Pcb_owned" "pv_arg (view s p) = Some i"
    by (auto simp: owned_by_def)
  have "tcp_inv (socket_release i (socket_close_pcb close (Some p) s))"
    using assms inv_close_pcb [OF assms(1) p] by (intro inv_release) simp_all
  then show ?thesis by (simp add: Some)
qed

section \<open>Closing\<close>

lemma queues_sub:
  assumes "queues_ok s" "\<And>i. i < MAX_SOCKETS \<Longrightarrow> set (backlog (sock s' i)) \<subseteq> set (backlog (sock s i))"
    "\<And>i. i < MAX_SOCKETS \<Longrightarrow> distinct (backlog (sock s' i))" "\<And>j. queued_ok s j \<Longrightarrow> queued_ok s' j"
  shows "queues_ok s'"
  unfolding queues_ok_def
proof (intro allI impI conjI ballI)
  fix i assume i: "i < MAX_SOCKETS"
  show "distinct (backlog (sock s' i))" by (rule assms(3) [OF i])
  fix e assume "e \<in> set (backlog (sock s' i))"
  then show "\<exists>j < MAX_SOCKETS. e = int j \<and> queued_ok s' j"
    using queuesD(2) [OF assms(1) i] assms(2) [OF i] assms(4) by blast
next
  fix i i' assume "i < MAX_SOCKETS" "i' < MAX_SOCKETS" "i' \<noteq> i"
  then show "set (backlog (sock s' i)) \<inter> set (backlog (sock s' i')) = {}"
    using queuesD(3) [OF assms(1)] assms(2) by blast
qed

lemma inv_pop:
  assumes "tcp_inv s" "i < MAX_SOCKETS" "tcp_backlog_pop (aq_pending (sk_accept_queue (sock s i))) 10
      (aq_head (sk_accept_queue (sock s i))) (aq_tail (sk_accept_queue (sock s i))) = Some (e, t)"
  defines "s' \<equiv> on_sock i (with_tail t) s"
  obtains j where "tcp_inv s'" "e = int j" "j < MAX_SOCKETS" "queued_ok s' j" "j \<noteq> i"
    "\<And>l. l < MAX_SOCKETS \<Longrightarrow> int j \<notin> set (backlog (sock s' l))"
    "length (backlog (sock s i)) = Suc (length (backlog (sock s' i)))" "sk_state (sock s i) = Sock_listening"
proof -
  have l: "i < length (ts_sockets s)" using assms(1,2) by simp
  note so = inv_slot [OF assms(1,2)]
  have q: "queue_ok (sock s i)" using so by (simp add: slot_ok_def)
  note pop = backlog_pop_Some [OF q assms(3)]
  have st: "sk_state (sock s i) = Sock_listening" using so pop(1) by (auto simp: slot_ok_def)
  have sk: "sock s' j = (if j = i then with_tail t (sock s i) else sock s j)" for j
    using l by (simp add: s'_def sock_on_sock)
  have rc: "ts_refcount s' = ts_refcount s" by (simp add: s'_def)
  have qs: "queues_ok s" using assms(1) by (simp add: tcp_inv_def)
  have "e \<in> set (backlog (sock s i))" using pop(1) by simp
  with queuesD(2) [OF qs assms(2)] obtain j where j: "j < MAX_SOCKETS" "e = int j" "queued_ok s j" by blast
  have qj: "queued_ok s' j'" if "queued_ok s j'" for j'
    using that by (cases "j' = i") (simp_all add: queued_ok_def sk rc)
  have d: "distinct (e # backlog (with_tail t (sock s i)))"
    using queuesD(1) [OF qs assms(2)] pop(1) by simp
  have "queues_ok s'"
  proof (rule queues_sub [OF qs])
    fix l assume l: "l < MAX_SOCKETS"
    show "set (backlog (sock s' l)) \<subseteq> set (backlog (sock s l))" using pop(1) by (auto simp: sk)
    show "distinct (backlog (sock s' l))" using d queuesD(1) [OF qs l] by (simp add: sk)
  qed (rule qj)
  moreover have "slot_ok (view s') i' (sock s' i') (ts_refcount s' ! i')" if "i' < MAX_SOCKETS" for i'
  proof (cases "i' = i")
    case True
    have "slot_ok (view s) i (with_tail t (sock s i)) (ts_refcount s ! i)"
      using so pop(2) st by (simp add: slot_ok_def ring_ok_def)
    then show ?thesis using True by (simp add: sk) (simp add: s'_def)
  next
    case False
    then show ?thesis using inv_slot [OF assms(1) that] by (simp add: sk) (simp add: s'_def)
  qed
  moreover have "links_ok (view s') s'"
    using assms(1) by (auto simp: tcp_inv_def links_ok_def link_ok_def sk) (auto simp: s'_def)
  ultimately have inv: "tcp_inv s'"
    using assms(1) by (simp add: tcp_inv_def s'_def)
  have "int j \<notin> set (backlog (sock s' l'))" if "l' < MAX_SOCKETS" for l'
  proof (cases "l' = i")
    case True
    then show ?thesis using d j(2) by (simp add: sk)
  next
    case False
    then show ?thesis
      using queuesD(3) [OF qs assms(2) that] pop(1) j(2) by (auto simp: sk)
  qed
  moreover have "j \<noteq> i" using j(3) st by (auto simp: queued_ok_def)
  ultimately show thesis
    using that [OF inv j(2,1) qj [OF j(3)]] pop(1) st by (simp add: sk)
qed

lemma release_other:
  "j \<noteq> i \<Longrightarrow> j < length (ts_sockets s) \<Longrightarrow> sock (socket_release j s) i = sock s i"
  "j \<noteq> i \<Longrightarrow> ts_refcount (socket_release j s) ! i = ts_refcount s ! i"
  by (simp_all add: socket_release_def socket_clear_def sock_on_sock sock_set_state)

lemma queued_drop:
  assumes "tcp_inv s" "j < MAX_SOCKETS" "queued_ok s j" "\<And>l. l < MAX_SOCKETS \<Longrightarrow> int j \<notin> set (backlog (sock s l))"
  shows "tcp_inv (socket_release j
    (if sk_tpcb (sock s j) \<noteq> None then socket_close_pcb close (sk_tpcb (sock s j)) s else s))"
proof -
  have "sk_state (sock s j) = Sock_connected \<or> sk_state (sock s j) = Sock_closed_by_peer \<or> sk_state (sock s j) = Sock_error"
    using assms(3) by (auto simp: queued_ok_def)
  then show ?thesis
    using inv_slot [OF assms(1,2)] assms(4)
    by (intro inv_drop_slot inv_butI assms(1,2)) (auto simp: slot_ok_def tcp_state_transition_allowed_def)
qed

lemma drain_ok:
  "tcp_inv s \<Longrightarrow> i < MAX_SOCKETS \<Longrightarrow> sk_state (sock s i) = Sock_listening \<Longrightarrow>
   \<exists>s'. socket_drain_backlog close i s = Some s' \<and> tcp_inv s' \<and> sk_state (sock s' i) = Sock_listening \<and>
     backlog (sock s' i) = [] \<and> ts_refcount s' ! i = ts_refcount s ! i \<and>
     (\<forall>m < MAX_SOCKETS. m \<noteq> i \<and> int m \<notin> set (backlog (sock s i)) \<longrightarrow>
       sock s' m = sock s m \<and> ts_refcount s' ! m = ts_refcount s ! m)"
proof (induction "length (backlog (sock s i))" arbitrary: s rule: less_induct)
  case less
  let ?q = "sk_accept_queue (sock s i)"
  have q: "queue_ok (sock s i)" using inv_slot [OF less.prems(1,2)] by (simp add: slot_ok_def)
  show ?case
  proof (cases "tcp_backlog_pop (aq_pending ?q) 10 (aq_head ?q) (aq_tail ?q)")
    case None
    then have "socket_drain_backlog close i s = Some s"
      by (subst socket_drain_backlog.simps) (simp add: Let_def)
    then show ?thesis using less.prems None backlog_pop_None [OF q] by simp
  next
    case (Some et)
    obtain e t where et: "et = (e, t)" by (cases et)
    let ?s = "on_sock i (with_tail t) s"
    obtain j where j: "tcp_inv ?s" "e = int j" "j < MAX_SOCKETS" "queued_ok ?s j" "j \<noteq> i"
      "\<And>l. l < MAX_SOCKETS \<Longrightarrow> int j \<notin> set (backlog (sock ?s l))"
      "length (backlog (sock s i)) = Suc (length (backlog (sock ?s i)))" "sk_state (sock s i) = Sock_listening"
      by (rule inv_pop [OF less.prems(1,2) Some [unfolded et]], rule that)
    define s1 where "s1 = socket_release j
      (if sk_tpcb (sock ?s j) \<noteq> None then socket_close_pcb close (sk_tpcb (sock ?s j)) ?s else ?s)"
    have i1: "tcp_inv s1" unfolding s1_def by (rule queued_drop [OF j(1,3,4,6)])
    have l: "i < length (ts_sockets s)" using less.prems by simp
    have cp: "ts_sockets (socket_close_pcb close p x) = ts_sockets x" for p x
      by (simp add: socket_close_pcb_def socket_detach_pcb_def Let_def)
    have same: "sock s1 i = sock ?s i" "ts_refcount s1 ! i = ts_refcount s ! i"
      using j(3,5) less.prems(1) cp by (simp_all add: s1_def release_other)
    have lk: "socket_lookup (int j) = Some j" using j(3) by simp
    have "socket_drain_backlog close i s = socket_drain_backlog close i s1"
      unfolding socket_drain_backlog.simps [of close i s] Let_def Some et option.case prod.case j(2)
        lk s1_def ..
    moreover obtain s' where d: "socket_drain_backlog close i s1 = Some s'" "tcp_inv s'" "sk_state (sock s' i) = Sock_listening"
        "backlog (sock s' i) = []" "ts_refcount s' ! i = ts_refcount s1 ! i"
        "\<And>m. m < MAX_SOCKETS \<Longrightarrow> m \<noteq> i \<Longrightarrow> int m \<notin> set (backlog (sock s1 i)) \<Longrightarrow>
          sock s' m = sock s1 m \<and> ts_refcount s' ! m = ts_refcount s1 ! m"
    proof -
      have "length (backlog (sock s1 i)) < length (backlog (sock s i))" using j(7) by (simp add: same)
      moreover have "sk_state (sock s1 i) = Sock_listening" using less.prems l by (simp add: same sock_on_sock)
      ultimately show thesis using less.hyps [OF _ i1 less.prems(2)] that by blast
    qed
    moreover have o: "m \<noteq> j \<and> int m \<notin> set (backlog (sock s1 i)) \<and> sock s1 m = sock s m \<and>
        ts_refcount s1 ! m = ts_refcount s ! m"
      if "m < MAX_SOCKETS" "m \<noteq> i" "int m \<notin> set (backlog (sock s i))" for m
    proof -
      have "backlog (sock s i) = e # backlog (sock ?s i)"
        using backlog_pop_Some(1) [OF q Some [unfolded et]] l by (simp add: sock_on_sock)
      then have mj: "m \<noteq> j" "int m \<notin> set (backlog (sock s1 i))"
        using that(3) j(2) unfolding same(1) by auto
      then show ?thesis
        using cp [of "sk_tpcb (sock ?s j)" ?s] release_other [of j m] j(3) less.prems(1) that(2) l
        by (simp add: s1_def sock_on_sock)
    qed
    have "sock s' m = sock s m \<and> ts_refcount s' ! m = ts_refcount s ! m"
      if "m < MAX_SOCKETS" "m \<noteq> i" "int m \<notin> set (backlog (sock s i))" for m
      using d(6) [OF that(1,2)] o [OF that] by simp
    ultimately show ?thesis using d(2-5) same(2) by simp
  qed
qed

lemma set_refs_same [simp]: "set_refs i (ts_refcount s ! i) s = s"
  by (simp add: set_refs_def)

lemma closing_ok:
  assumes "tcp_inv s" "i < MAX_SOCKETS" "ts_refcount s ! i = 0" "backlog (sock s i) = []"
    "sk_state (sock s i) = Sock_listening \<or> sk_state (sock s i) = Sock_connected"
    "\<And>l. l < MAX_SOCKETS \<Longrightarrow> int i \<notin> set (backlog (sock s l))"
  shows "tcp_inv (lw (Tcp_close (sk_tpcb (sock s i)) e) (socket_set_state i Sock_closing s))"
proof -
  have l: "i < length (ts_sockets s)" using assms(1,2) by simp
  note so = inv_slot [OF assms(1,2)]
  obtain p where p: "sk_tpcb (sock s i) = Some p" "pv_life (view s p) = Pcb_owned" "pv_arg (view s p) = Some i"
    using so assms(5) by (auto simp: slot_ok_def owned_by_def)
  have li: "link_ok (view s) s p' i" if "pv_life (view s p') \<noteq> Pcb_absent" "pv_arg (view s p') = Some i" for p'
    using assms(1) that by (simp add: tcp_inv_def links_ok_def)
  have set: "socket_set_state i Sock_closing s = on_sock i (\<lambda>k. k\<lparr>sk_state := Sock_closing\<rparr>) s" (is "_ = ?s")
    using assms(5) by (intro set_state_allowed) (auto simp: tcp_state_transition_allowed_def)
  have "inv_but i ?s"
    using assms(5,6) li l by (intro inv_but_on_sock inv_butI assms(1,2))
      (auto simp: link_ok_def sock_on_sock intro!: backlog_cong)
  then have "inv_but i (lw (Tcp_close (Some p) e) ?s)"
    using p li [of p] assms(5) l
    by (intro inv_but_lw [of _ _ _ p]) (auto simp: link_ok_def sock_on_sock split: if_splits)
  moreover have "slot_ok v i ((sock s i)\<lparr>sk_state := Sock_closing\<rparr>) 0" for v
    using so assms(3,4) p(1) by (simp add: slot_ok_def ring_ok_def queue_ok_def backlog_def)
  ultimately show ?thesis
    unfolding set p(1) using assms(3) l by (elim inv_close) (simp add: sock_on_sock)
qed

lemma close_int_ok:
  assumes "tcp_inv s" "i < MAX_SOCKETS" "ts_refcount s ! i = 0"
    "\<And>l. l < MAX_SOCKETS \<Longrightarrow> int i \<notin> set (backlog (sock s l))"
  shows "\<exists>r s'. tcp_socket_close_int close i s = Some (r, s') \<and> tcp_inv s'"
proof -
  note so = inv_slot [OF assms(1,2)]
  have drop: "tcp_inv (socket_release i
      (if sk_tpcb (sock s i) \<noteq> None then socket_close_pcb close (sk_tpcb (sock s i)) s else s))"
    if "sk_state (sock s i) \<in> {Sock_closed_by_peer, Sock_allocated, Sock_bound, Sock_error}"
    using that so assms(4)
    by (intro inv_drop_slot inv_butI assms(1,2)) (auto simp: slot_ok_def tcp_state_transition_allowed_def)
  show ?thesis
  proof (cases "sk_state (sock s i)")
    case Sock_listening
    from drain_ok [OF assms(1,2) this] obtain s1 where d: "socket_drain_backlog close i s = Some s1"
      "tcp_inv s1" "sk_state (sock s1 i) = Sock_listening" "backlog (sock s1 i) = []" "ts_refcount s1 ! i = 0"
      using assms(3) by auto
    have "int i \<notin> set (backlog (sock s1 l))" if "l < MAX_SOCKETS" for l
      using d(2,3) that by (intro unqueued) (auto simp: tcp_inv_def queued_ok_def)
    then have c: "tcp_inv (lw (Tcp_close (sk_tpcb (sock s1 i)) e) (socket_set_state i Sock_closing s1))" for e
      using d by (intro closing_ok assms(2)) auto
    have "sk_tpcb (sock (socket_set_state i Sock_closing s1) i) = sk_tpcb (sock s1 i)"
      using d(2) assms(2) by (simp add: sock_set_state)
    then show ?thesis
      using c by (simp add: tcp_socket_close_int_def Sock_listening Let_def d(1))
  next
    case Sock_connected
    then have b: "backlog (sock s i) = []" using so by (simp add: slot_ok_def)
    have c: "tcp_inv (lw (Tcp_close (sk_tpcb (sock s i)) e) (socket_set_state i Sock_closing s))" for e
      using Sock_connected assms b by (intro closing_ok) auto
    have "sk_tpcb (sock (socket_set_state i Sock_closing s) i) = sk_tpcb (sock s i)"
      using assms(1,2) by (simp add: sock_set_state)
    then show ?thesis
      using c by (simp add: tcp_socket_close_int_def Sock_connected Let_def)
  next
    case Sock_connecting
    then obtain p where p: "sk_tpcb (sock s i) = Some p" "pv_life (view s p) = Pcb_owned" "pv_arg (view s p) = Some i"
      using so by (auto simp: slot_ok_def owned_by_def)
    have a: "inv_but i (lw (Tcp_arg (Some p) None) s)"
      using p by (intro inv_but_lw [OF inv_butI [OF assms(1)], of _ p]) simp_all
    have b: "inv_but i (lw (Tcp_abort (Some p)) (lw (Tcp_arg (Some p) None) s))"
      using p by (intro inv_but_lw [OF a, of _ p]) (simp_all add: pcb_none_def)
    have "tcp_inv (socket_release i (lw (Tcp_abort (Some p)) (lw (Tcp_arg (Some p) None) s)))"
    proof (rule inv_release [OF b assms(2)])
      fix q assume "pv_life (view (lw (Tcp_abort (Some p)) (lw (Tcp_arg (Some p) None) s)) q) \<noteq> Pcb_absent"
      then show "pv_arg (view (lw (Tcp_abort (Some p)) (lw (Tcp_arg (Some p) None) s)) q) \<noteq> Some i"
        using link_unique [OF assms(1), of q i p] p by (auto simp: pcb_none_def split: if_splits)
    qed (use so assms(4) Sock_connecting in \<open>auto simp: slot_ok_def tcp_state_transition_allowed_def\<close>)
    then show ?thesis by (simp add: tcp_socket_close_int_def Sock_connecting Let_def p(1))
  next
    case Sock_closed_by_peer
    then have "sk_tpcb (sock s i) \<noteq> None" using so by (auto simp: slot_ok_def owned_by_def)
    then show ?thesis using drop Sock_closed_by_peer by (simp add: tcp_socket_close_int_def Let_def)
  qed (use drop assms(1) in \<open>simp_all add: tcp_socket_close_int_def Let_def\<close>)
qed

end
