(* ===== verification/Tcp_Ownership.thy ===== *)
theory Tcp_Ownership
  imports Tcp_Lifecycle
begin

text \<open>
  Every call of the application and every callback of lwIP keeps the invariant of
  \<open>Tcp_Lifecycle\<close>, so it holds in every run; the lifecycle, ownership and totality properties of
  the socket backend follow.
\<close>

section \<open>Single changes\<close>

lemma inv_change:
  assumes "tcp_inv s" "i < MAX_SOCKETS" "backlog (f (sock s i)) = backlog (sock s i)"
    "\<And>p. pv_life (view s p) \<noteq> Pcb_absent \<Longrightarrow> pv_arg (view s p) = Some i \<Longrightarrow>
       link_ok (view s) s p i \<Longrightarrow> link_ok (view s) (on_sock i f s) p i"
    "queued_ok s i \<Longrightarrow> queued_ok (on_sock i f s) i"
    "slot_ok (view s) i (f (sock s i)) (ts_refcount s ! i)"
  shows "tcp_inv (on_sock i f s)"
proof -
  have l: "i < length (ts_sockets s)" using assms(1,2) by simp
  have "inv_but i (on_sock i f s)"
    using assms(1,4,5) by (intro inv_but_on_sock inv_butI assms(1-3)) (auto simp: tcp_inv_def links_ok_def)
  then show ?thesis using assms(6) l by (elim inv_close) (simp add: sock_on_sock)
qed

text \<open>A change of semaphores, of the recorded error or of the bytes held.\<close>

lemma inv_soft:
  assumes "tcp_inv s" "i < MAX_SOCKETS" "sk_tpcb (f (sock s i)) = sk_tpcb (sock s i)"
    "sk_state (f (sock s i)) = sk_state (sock s i)" "backlog (f (sock s i)) = backlog (sock s i)"
    "queue_ok (f (sock s i)) = queue_ok (sock s i)" "ring_ok (f (sock s i))"
    "sk_state (sock s i) = Sock_unallocated \<Longrightarrow> sk_rx_len (f (sock s i)) = sk_rx_len (sock s i)"
  shows "tcp_inv (on_sock i f s)"
proof -
  have l: "i < length (ts_sockets s)" using assms(1,2) by simp
  show ?thesis
    using assms inv_slot [OF assms(1,2)] l
    by (intro inv_change) (simp_all add: link_ok_def queued_ok_def sock_on_sock slot_ok_def)
qed

lemma soft_simps [simp]:
  "backlog (k\<lparr>sk_connect_sem := a\<rparr>) = backlog k" "backlog (k\<lparr>sk_recv_sem := a\<rparr>) = backlog k"
  "backlog (k\<lparr>sk_send_sem := a\<rparr>) = backlog k" "backlog (k\<lparr>sk_state := st\<rparr>) = backlog k"
  "backlog (k\<lparr>sk_tpcb := q\<rparr>) = backlog k" "backlog (k\<lparr>sk_last_error := e\<rparr>) = backlog k"
  "backlog (k\<lparr>sk_rx_buf := b\<rparr>) = backlog k" "backlog (k\<lparr>sk_rx_head := h\<rparr>) = backlog k"
  "backlog (k\<lparr>sk_rx_len := n\<rparr>) = backlog k"
  "backlog (k\<lparr>sk_accept_queue := (sk_accept_queue k)\<lparr>aq_accept_sem := a\<rparr>\<rparr>) = backlog k"
  "queue_ok (k\<lparr>sk_connect_sem := a\<rparr>) = queue_ok k" "queue_ok (k\<lparr>sk_recv_sem := a\<rparr>) = queue_ok k"
  "queue_ok (k\<lparr>sk_send_sem := a\<rparr>) = queue_ok k" "queue_ok (k\<lparr>sk_state := st\<rparr>) = queue_ok k"
  "queue_ok (k\<lparr>sk_tpcb := q\<rparr>) = queue_ok k" "queue_ok (k\<lparr>sk_last_error := e\<rparr>) = queue_ok k"
  "queue_ok (k\<lparr>sk_rx_buf := b\<rparr>) = queue_ok k" "queue_ok (k\<lparr>sk_rx_head := h\<rparr>) = queue_ok k"
  "queue_ok (k\<lparr>sk_rx_len := n\<rparr>) = queue_ok k"
  "queue_ok (k\<lparr>sk_accept_queue := (sk_accept_queue k)\<lparr>aq_accept_sem := a\<rparr>\<rparr>) = queue_ok k"
  "ring_ok (k\<lparr>sk_connect_sem := a\<rparr>) = ring_ok k" "ring_ok (k\<lparr>sk_send_sem := a\<rparr>) = ring_ok k"
  "ring_ok (k\<lparr>sk_tpcb := q\<rparr>) = ring_ok k" "ring_ok (k\<lparr>sk_last_error := e\<rparr>) = ring_ok k"
  "ring_ok (k\<lparr>sk_accept_queue := aq\<rparr>) = ring_ok k"
  "ring_ok (k\<lparr>sk_recv_sem := a\<rparr>) = ring_ok k" "ring_ok (k\<lparr>sk_state := st\<rparr>) = ring_ok k"
  by (simp_all add: backlog_def queue_ok_def ring_ok_def Let_def)

lemma inv_ring [simp]: "tcp_inv s \<Longrightarrow> i < MAX_SOCKETS \<Longrightarrow> ring_ok (sock s i)"
  using inv_slot by (auto simp: slot_ok_def)

lemma inv_link:
  "tcp_inv s \<Longrightarrow> pv_life (view s p) \<noteq> Pcb_absent \<Longrightarrow> pv_arg (view s p) = Some i \<Longrightarrow> link_ok (view s) s p i"
  by (simp add: tcp_inv_def links_ok_def)

lemma inv_unqueued:
  "tcp_inv s \<Longrightarrow> \<not> queued_ok s i \<Longrightarrow> l < MAX_SOCKETS \<Longrightarrow> int i \<notin> set (backlog (sock s l))"
  by (intro unqueued) (simp_all add: tcp_inv_def)

lemma inv_owned:
  assumes "tcp_inv s" "i < MAX_SOCKETS" "holds_pcb (sk_state (sock s i)) \<or>
    sk_state (sock s i) = Sock_allocated \<and> sk_tpcb (sock s i) \<noteq> None"
  obtains p where "sk_tpcb (sock s i) = Some p" "pv_life (view s p) = Pcb_owned" "pv_arg (view s p) = Some i"
  using inv_slot [OF assms(1,2)] assms(3) by (auto simp: slot_ok_def owned_by_def)

text \<open>The count of a slot no queue holds may be anything its state allows.\<close>

lemma inv_set_refs:
  assumes "tcp_inv s" "i < MAX_SOCKETS" "0 \<le> n"
    "n \<noteq> 0 \<Longrightarrow> holds_pcb (sk_state (sock s i)) \<or> sk_state (sock s i) = Sock_error \<or>
       sk_state (sock s i) = Sock_allocated \<and> sk_tpcb (sock s i) \<noteq> None"
    "\<And>l. l < MAX_SOCKETS \<Longrightarrow> int i \<in> set (backlog (sock s l)) \<Longrightarrow> n = 0"
  shows "tcp_inv (set_refs i n s)"
proof -
  have l: "i < length (ts_refcount s)" using assms(1,2) by simp
  have "slot_ok (view s) i (sock s i) n"
  proof (cases "n = 0")
    case True
    then show ?thesis using inv_slot [OF assms(1,2)] by (auto simp: slot_ok_def)
  next
    case False
    then show ?thesis
      using inv_slot [OF assms(1,2)] assms(3) assms(4) [OF False] by (auto simp: slot_ok_def)
  qed
  moreover have "inv_but i (set_refs i n s)"
    using assms(5) by (intro inv_but_set_refs inv_butI assms(1))
  ultimately show ?thesis using l by (intro inv_close [of i]) simp_all
qed

lemma inv_ref_held:
  assumes "tcp_inv s" "i < MAX_SOCKETS" "0 < ts_refcount s ! i"
  shows "holds_pcb (sk_state (sock s i)) \<or> sk_state (sock s i) = Sock_error \<or>
       sk_state (sock s i) = Sock_allocated \<and> sk_tpcb (sock s i) \<noteq> None"
    "l < MAX_SOCKETS \<Longrightarrow> int i \<notin> set (backlog (sock s l))"
proof -
  show "holds_pcb (sk_state (sock s i)) \<or> sk_state (sock s i) = Sock_error \<or>
       sk_state (sock s i) = Sock_allocated \<and> sk_tpcb (sock s i) \<noteq> None"
    using inv_slot [OF assms(1,2)] assms(3)
    by (cases "sk_state (sock s i)") (auto simp: slot_ok_def owned_by_def)
  show "l < MAX_SOCKETS \<Longrightarrow> int i \<notin> set (backlog (sock s l))"
    using assms(3) by (intro inv_unqueued [OF assms(1)]) (auto simp: queued_ok_def)
qed

text \<open>A PCB no slot owns may change its owner's view of nothing.\<close>

lemma inv_lw_unowned:
  assumes "tcp_inv s" "legal (view s) e" "\<not> is_unexpected e"
    "\<And>p'. p' \<noteq> p \<Longrightarrow> view_step e (view s) p' = view s p'"
    "pv_life (view s p) \<noteq> Pcb_owned \<or> pv_arg (view s p) = None"
    "pv_life (view_step e (view s) p) = Pcb_absent \<or> pv_arg (view_step e (view s) p) = None"
  shows "tcp_inv (lw e s)"
proof -
  have "inv_but i (lw e s)" for i
    using assms by (intro inv_but_lw [OF inv_butI [OF assms(1)], of _ p]) auto
  moreover have "slot_ok (view_step e (view s)) 0 (sock s 0) (ts_refcount s ! 0)"
    using assms(5) by (intro slot_ok_view [OF inv_slot [OF assms(1)] assms(4)]) auto
  ultimately show ?thesis by (intro inv_close [of 0]) simp_all
qed

lemma on_sock_lw: "on_sock i f (lw e s) = lw e (on_sock i f s)"
  by (simp add: on_sock_def lw_def)

section \<open>The application's calls\<close>

lemma allocate_ok:
  assumes "tcp_inv s" "socket_allocate s = (r, s')"
  shows "r = - ENOMEM \<and> s' = s \<or>
    (\<exists>i < MAX_SOCKETS. r = int i \<and> tcp_inv s' \<and> sk_state (sock s i) = Sock_unallocated \<and>
      sk_state (sock s' i) = Sock_allocated \<and> sk_tpcb (sock s' i) = None \<and> ts_refcount s' = ts_refcount s \<and>
      ts_refcount s ! i = 0 \<and> view s' = view s \<and> (\<forall>j. j \<noteq> i \<longrightarrow> sock s' j = sock s j))"
proof (cases "find (\<lambda>i. sk_state (sock s i) = Sock_unallocated) [0..<MAX_SOCKETS]")
  case None
  then show ?thesis using assms(2) by (simp add: socket_allocate_def)
next
  case (Some i)
  then have i: "i < MAX_SOCKETS" "sk_state (sock s i) = Sock_unallocated"
    unfolding find_Some_iff by auto
  have l: "i < length (ts_sockets s)" using assms(1) i by simp
  note so = inv_slot [OF assms(1) i(1)]
  have r: "ts_refcount s ! i = 0" "sk_tpcb (sock s i) = None" using so i(2) by (auto simp: slot_ok_def)
  define f :: "socket \<Rightarrow> socket" where "f k = k\<lparr>sk_state := Sock_allocated, sk_tpcb := None, sk_rx_head := 0,
    sk_rx_len := 0, sk_last_error := 0, sk_accept_queue := (sk_accept_queue k)\<lparr>aq_head := 0, aq_tail := 0\<rparr>\<rparr>" for k
  have al: "tcp_state_transition_allowed (sk_state (sock (socket_clear i s) i)) Sock_allocated"
    using i(2) l by (simp add: socket_clear_def sock_on_sock tcp_state_transition_allowed_def)
  have "(ts_refcount s)[i := 0] = ts_refcount s" using r(1) by (metis list_update_id)
  then have "set_refs i 0 (on_sock i g s) = on_sock i g s" for g
    by (simp add: set_refs_def on_sock_def)
  then have s': "s' = on_sock i f s" "r = int i"
  proof -
    have "socket_allocate s = (int i, socket_set_state i Sock_allocated (socket_clear i s))"
      by (simp add: socket_allocate_def Some)
    then have "socket_allocate s = (int i, on_sock i (\<lambda>k. k\<lparr>sk_state := Sock_allocated\<rparr>) (socket_clear i s))"
      unfolding set_state_allowed [OF al] .
    moreover have "on_sock i (\<lambda>k. k\<lparr>sk_state := Sock_allocated\<rparr>) (socket_clear i s) = on_sock i f s"
      unfolding socket_clear_def \<open>\<And>g. set_refs i 0 (on_sock i g s) = on_sock i g s\<close> on_sock_on_sock
      by (rule arg_cong [of _ _ "\<lambda>f. on_sock i f s"]) (simp add: f_def fun_eq_iff)
    ultimately show "s' = on_sock i f s" "r = int i" using assms(2) by simp_all
  qed
  have b: "backlog (f (sock s i)) = []" "backlog (sock s i) = []"
    using so i(2) by (simp_all add: backlog_def f_def slot_ok_def)
  have "tcp_inv s'" unfolding s'
  proof (rule inv_change [OF assms(1) i(1)])
    show "slot_ok (view s) i (f (sock s i)) (ts_refcount s ! i)"
      using so r b by (simp add: slot_ok_def) (simp add: f_def ring_ok_def queue_ok_def Let_def)
  qed (use i(2) r b in \<open>auto simp: link_ok_def queued_ok_def\<close>)
  then show ?thesis using i s' r l by (auto simp: sock_on_sock f_def)
qed

lemma init_ok:
  assumes "tcp_inv s" "call_ok s (Call_init index np)"
  shows "tcp_inv (snd (tcp_socket_init index np s))"
proof (cases "\<exists>i p. index = int i \<and> i < MAX_SOCKETS \<and> sk_state (sock s i) = Sock_allocated \<and> np = Some p")
  case False
  show ?thesis
  proof (cases "\<exists>i. index = int i \<and> i < MAX_SOCKETS \<and> sk_state (sock s i) = Sock_allocated")
    case True
    then obtain i where i: "index = int i" "i < MAX_SOCKETS" "sk_state (sock s i) = Sock_allocated" by blast
    then have np: "np = None" "sk_tpcb (sock s i) = None" using False assms(2) by auto
    have "tcp_inv (lw (Tcp_new None) s)" by (rule inv_lw_same(1)) (simp_all add: assms(1))
    then have "tcp_inv (on_sock i (\<lambda>k. k\<lparr>sk_tpcb := None\<rparr>) (lw (Tcp_new None) s))"
      using np i inv_ring [OF assms(1)] by (intro inv_soft) simp_all
    then show ?thesis using i np by (simp add: tcp_socket_init_def)
  next
    case False
    then show ?thesis using assms(1) by (auto simp: tcp_socket_init_def split: option.splits)
  qed
next
  case True
  then obtain i p where i: "index = int i" "i < MAX_SOCKETS" "sk_state (sock s i) = Sock_allocated" "np = Some p"
    by blast
  then have pre: "sk_tpcb (sock s i) = None" "pv_life (view s p) = Pcb_absent"
    using assms(2) by (auto simp: absent_def)
  have l: "i < length (ts_sockets s)" "i < length (ts_refcount s)" using assms(1) i by simp_all
  note so = inv_slot [OF assms(1) i(2)]
  have r: "ts_refcount s ! i = 0" "backlog (sock s i) = []"
    using so i(3) pre(1) by (auto simp: slot_ok_def owned_by_def)
  have nolink: "pv_arg (view s q) \<noteq> Some i" if "pv_life (view s q) \<noteq> Pcb_absent" for q
    using inv_link [OF assms(1) that, of i] pre(1) by (auto simp: link_ok_def)
  have unq: "int i \<notin> set (backlog (sock s j))" if "j < MAX_SOCKETS" for j
    using i(3) that by (intro inv_unqueued [OF assms(1)]) (auto simp: queued_ok_def)
  define f :: "socket \<Rightarrow> socket" where "f k = k\<lparr>sk_tpcb := Some p, sk_accept_queue := (sk_accept_queue k)
      \<lparr>aq_head := 0, aq_tail := 0, aq_accept_sem := 0\<rparr>, sk_connect_sem := 0, sk_recv_sem := 0, sk_send_sem := 0\<rparr>" for k
  have b: "backlog (f (sock s i)) = []" by (simp add: backlog_def f_def)
  have "inv_but i (on_sock i f s)"
    using nolink r b unq by (intro inv_but_on_sock inv_butI assms(1) i(2)) auto
  moreover have sk: "sock (on_sock i f s) i = f (sock s i)" using l by (simp add: sock_on_sock)
  ultimately have 1: "inv_but i (lw (Tcp_new (Some p)) (on_sock i f s))"
    using pre(2) by (intro inv_but_lw [of _ _ _ p]) (simp_all add: pcb_fresh_def)
  have 2: "inv_but i (lw (Tcp_keepalive (Some p)) (lw (Tcp_new (Some p)) (on_sock i f s)))"
    by (rule inv_lw_same(2) [OF _ _ _ 1]) (simp_all add: pcb_fresh_def)
  have 3: "inv_but i (lw (Tcp_err (Some p) True) (lw (Tcp_keepalive (Some p)) (lw (Tcp_new (Some p)) (on_sock i f s))))"
    by (rule inv_but_lw [OF 2, of _ p]) (simp_all add: pcb_fresh_def)
  have 4: "inv_but i (lw (Tcp_arg (Some p) (Some i)) (lw (Tcp_err (Some p) True)
      (lw (Tcp_keepalive (Some p)) (lw (Tcp_new (Some p)) (on_sock i f s)))))" (is "inv_but i ?s")
    using i by (intro inv_but_lw [OF 3, of _ p]) (auto simp: pcb_fresh_def link_ok_def sk f_def)
  have "snd (tcp_socket_init index np s) = set_refs i 1 ?s"
    using i by (simp add: tcp_socket_init_def on_sock_lw on_sock_on_sock comp_def f_def [abs_def])
  moreover have "inv_but i (set_refs i 1 ?s)"
    using unq b l by (intro inv_but_set_refs 4) (auto simp: sock_on_sock split: if_splits)
  moreover have "slot_ok (view ?s) i (f (sock s i)) 1"
    using so b i(3) by (simp add: slot_ok_def) (simp add: f_def queue_ok_def Let_def owned_by_def pcb_fresh_def)
  ultimately show ?thesis using l sk by (auto intro: inv_close)
qed

lemma connect_wait_ok: "tcp_inv s \<Longrightarrow> i < MAX_SOCKETS \<Longrightarrow> tcp_inv (snd (connect_wait i s))"
  by (auto simp: connect_wait_def intro!: inv_soft)

lemma inv_same:
  assumes "tcp_inv s" "legal (view s) e" "\<not> is_unexpected e" "view_step e (view s) = view s"
  shows "tcp_inv (lw e s)"
  using inv_lw_same(1) [OF assms(2-4,1)] .

text \<open>Moving an owned slot to another state that owns.\<close>

lemma inv_set_state:
  assumes "tcp_inv s" "i < MAX_SOCKETS" "tcp_state_transition_allowed (sk_state (sock s i)) n" "holds_pcb n"
    "owned_by (view s) (sk_tpcb (sock s i)) i" "sk_state (sock s i) \<noteq> Sock_connecting" "n \<noteq> Sock_listening"
    "queued_ok s i \<Longrightarrow> n \<in> {Sock_connected, Sock_closed_by_peer, Sock_error}" "sk_state (sock s i) \<noteq> Sock_listening"
  shows "tcp_inv (socket_set_state i n s)"
proof -
  have l: "i < length (ts_sockets s)" using assms(1,2) by simp
  show ?thesis
    unfolding set_state_allowed [OF assms(3)]
    using assms inv_slot [OF assms(1,2)] l
    by (intro inv_change) (auto simp: link_ok_def queued_ok_def sock_on_sock slot_ok_def)
qed

lemma connect_ok:
  assumes "tcp_inv s" "has_pcb s index"
  shows "tcp_inv (snd (tcp_socket_connect index a n nb e s))"
proof (cases "\<exists>i. index = int i \<and> i < MAX_SOCKETS \<and> tcp_connect_gate (sk_state (sock s i)) = Connect_start")
  case False
  then show ?thesis
    using assms(1) by (auto simp: tcp_socket_connect_def split: option.splits tcp_connect_gate_t.splits)
next
  case True
  then obtain i where i: "index = int i" "i < MAX_SOCKETS"
    "tcp_connect_gate (sk_state (sock s i)) = Connect_start" by blast
  then have st: "sk_state (sock s i) = Sock_allocated \<or> sk_state (sock s i) = Sock_bound"
    by (cases "sk_state (sock s i)") simp_all
  have "holds_pcb (sk_state (sock s i)) \<or> sk_state (sock s i) = Sock_allocated \<and> sk_tpcb (sock s i) \<noteq> None"
    using st assms(2) i by (auto simp: has_pcb_def)
  then obtain p where p: "sk_tpcb (sock s i) = Some p" "pv_life (view s p) = Pcb_owned" "pv_arg (view s p) = Some i"
    by (rule inv_owned [OF assms(1) i(2)])
  have l: "i < length (ts_sockets s)" using assms(1) i by simp
  show ?thesis
  proof (cases "e = ERR_OK")
    case False
    then have "tcp_inv (lw (Tcp_connect (Some p) a n e) s)"
      using p by (intro inv_same assms(1)) simp_all
    then show ?thesis using i p False by (simp add: tcp_socket_connect_def)
  next
    case True
    have al: "tcp_state_transition_allowed (sk_state (sock s i)) Sock_connecting"
      using st by (auto simp: tcp_state_transition_allowed_def)
    have 1: "tcp_inv (socket_set_state i Sock_connecting s)" (is "tcp_inv ?s")
      using st p al by (intro inv_set_state assms(1) i(2)) (auto simp: owned_by_def queued_ok_def)
    have sk: "sock ?s i = (sock s i)\<lparr>sk_state := Sock_connecting\<rparr>" "view ?s = view s"
      using l al by (simp_all add: sock_on_sock set_state_allowed)
    have "inv_but i (lw (Tcp_connect (Some p) a n e) ?s)"
      using inv_link [OF 1, of p i] p sk i(2)
      by (intro inv_but_lw [OF inv_butI [OF 1], of _ p]) (auto simp: link_ok_def)
    moreover have "slot_ok (view (lw (Tcp_connect (Some p) a n e) ?s)) i (sock ?s i) (ts_refcount ?s ! i)"
      using inv_slot [OF 1 i(2)] sk p by (simp add: slot_ok_def owned_by_def)
    ultimately have 2: "tcp_inv (lw (Tcp_connect (Some p) a n e) ?s)" by (intro inv_close [of i]) simp_all
    have "socket_set_state i Sock_connecting (lw (Tcp_connect (Some p) a n e) s) = lw (Tcp_connect (Some p) a n e) ?s"
      using al by (simp add: set_state_allowed on_sock_lw)
    then show ?thesis
      using i p True 2 connect_wait_ok [OF 2 i(2)] by (simp add: tcp_socket_connect_def Let_def)
  qed
qed

lemma dup_ok: "tcp_inv s \<Longrightarrow> tcp_inv (snd (tcp_socket_dup index s))"
proof (cases "\<exists>i. index = int i \<and> i < MAX_SOCKETS \<and> 0 < ts_refcount s ! i")
  case False
  moreover assume "tcp_inv s"
  ultimately show ?thesis
    by (auto simp: tcp_socket_dup_def tcp_ref_acquire_def split: option.splits)
next
  case True
  moreover assume a: "tcp_inv s"
  ultimately obtain i where i: "index = int i" "i < MAX_SOCKETS" "0 < ts_refcount s ! i" by blast
  have "tcp_inv (set_refs i (ts_refcount s ! i + 1) s)"
    using inv_ref_held [OF a i(2,3)] i(3) by (intro inv_set_refs a i(2)) auto
  then show ?thesis using i by (simp add: tcp_socket_dup_def tcp_ref_acquire_def)
qed

lemma close_ok:
  assumes "tcp_inv s" "call_ok s (Call_close close index)"
  shows "\<exists>r s'. tcp_socket_close close index s = Some (r, s') \<and> tcp_inv s'"
proof (cases "socket_lookup index")
  case None
  then show ?thesis unfolding tcp_socket_close_def None option.case using assms(1) by simp
next
  case (Some i)
  then have i: "index = int i" "i < MAX_SOCKETS" by simp_all
  have l: "i < length (ts_refcount s)" using assms(1) i by simp
  show ?thesis
  proof (cases "0 < ts_refcount s ! i")
    case True
    note held = inv_ref_held [OF assms(1) i(2) True]
    have inv: "tcp_inv (set_refs i (ts_refcount s ! i - 1) s)"
      using held True by (intro inv_set_refs assms(1) i(2)) auto
    show ?thesis
    proof (cases "ts_refcount s ! i = 1")
      case True
      then have "\<exists>r s'. tcp_socket_close_int close i (set_refs i 0 s) = Some (r, s') \<and> tcp_inv s'"
        using inv held(2) l by (intro close_int_ok i(2)) simp_all
      then show ?thesis using i True by (simp add: tcp_socket_close_def tcp_ref_release_def)
    next
      case False
      then show ?thesis using i True inv by (simp add: tcp_socket_close_def tcp_ref_release_def Let_def)
    qed
  next
    case False
    then have r: "ts_refcount s ! i = 0" using inv_slot [OF assms(1) i(2)] by (simp add: slot_ok_def)
    have "sk_state (sock s i) \<in> {Sock_unallocated, Sock_allocated, Sock_closing}"
      using assms(2) i False by simp
    then have "int i \<notin> set (backlog (sock s j))" if "j < MAX_SOCKETS" for j
      using that by (intro inv_unqueued [OF assms(1)]) (auto simp: queued_ok_def)
    then have "\<exists>r s'. tcp_socket_close_int close i s = Some (r, s') \<and> tcp_inv s'"
      by (intro close_int_ok assms(1) i(2) r) simp_all
    then show ?thesis
      using i r assms(1) set_refs_same [of i s] by (simp add: tcp_socket_close_def tcp_ref_release_def)
  qed
qed

lemma sending:
  "tcp_write_gate st nb = Write_send \<longleftrightarrow> st = Sock_connected \<or> st = Sock_closed_by_peer"
  by (auto simp: tcp_write_gate_def)

lemma write_out_ok:
  assumes "tcp_inv s" "i < MAX_SOCKETS" "sk_tpcb (sock s i) = Some p" "pv_life (view s p) = Pcb_owned"
  shows "tcp_inv (snd (write_out i len sb we oe s))"
proof -
  have 1: "tcp_inv (lw (Tcp_sndbuf (Some p)) s)" using assms by (intro inv_same) simp_all
  have 2: "tcp_inv (lw (Tcp_write (Some p) (tcp_write_chunk len sb) we) (lw (Tcp_sndbuf (Some p)) s))"
    using assms by (intro inv_same 1) simp_all
  have 3: "tcp_inv (lw (Tcp_output (Some p) oe) (lw (Tcp_write (Some p) (tcp_write_chunk len sb) we) (lw (Tcp_sndbuf (Some p)) s)))"
    using assms by (intro inv_same 2) simp_all
  show ?thesis using 2 3 assms(3) by (auto simp: write_out_def Let_def)
qed

lemma write_wait_ok:
  assumes "tcp_inv s" "i < MAX_SOCKETS"
  shows "tcp_inv (snd (write_wait i len sb we oe s))"
proof (cases "tcp_write_gate (sk_state (sock s i)) False = Write_send")
  case True
  then have "holds_pcb (sk_state (sock s i)) \<or> sk_state (sock s i) = Sock_allocated \<and> sk_tpcb (sock s i) \<noteq> None"
    by (auto simp: sending)
  then obtain p where p: "sk_tpcb (sock s i) = Some p" "pv_life (view s p) = Pcb_owned"
    by (rule inv_owned [OF assms])
  have 1: "tcp_inv (lw (Tcp_sndbuf (Some p)) s)" using assms p by (intro inv_same) simp_all
  have "tcp_inv (on_sock i (\<lambda>k. k\<lparr>sk_send_sem := sk_send_sem k + 1\<rparr>) (lw (Tcp_sndbuf (Some p)) s))"
    using assms by (intro inv_soft 1) simp_all
  then show ?thesis
    using True p write_out_ok [OF 1 assms(2), of p] by (simp add: write_wait_def Let_def)
qed (use assms(1) in \<open>simp add: write_wait_def\<close>)

lemma write_ok:
  assumes "tcp_inv s"
  shows "tcp_inv (snd (tcp_socket_write index len nb sb we oe s))"
proof (cases "\<exists>i. index = int i \<and> i < MAX_SOCKETS \<and> tcp_write_gate (sk_state (sock s i)) nb = Write_send")
  case False
  then show ?thesis
    using assms by (auto simp: tcp_socket_write_def split: option.splits tcp_write_gate_t.splits)
next
  case True
  then obtain i where i: "index = int i" "i < MAX_SOCKETS" "tcp_write_gate (sk_state (sock s i)) nb = Write_send"
    by blast
  then have "holds_pcb (sk_state (sock s i)) \<or> sk_state (sock s i) = Sock_allocated \<and> sk_tpcb (sock s i) \<noteq> None"
    by (auto simp: sending)
  then obtain p where p: "sk_tpcb (sock s i) = Some p" "pv_life (view s p) = Pcb_owned"
    by (rule inv_owned [OF assms i(2)])
  have 1: "tcp_inv (lw (Tcp_sndbuf (Some p)) s)" using assms p by (intro inv_same) simp_all
  show ?thesis
    using i p 1 write_out_ok [OF 1 i(2), of p] write_wait_ok [OF 1 i(2)]
    by (simp add: tcp_socket_write_def Let_def)
qed

lemma recved_ok:
  "tcp_inv s \<Longrightarrow> pv_life (view s p) = Pcb_owned \<Longrightarrow> tcp_inv (fold (\<lambda>c. lw (Tcp_recved (Some p) c)) cs s)"
proof (induction cs arbitrary: s)
  case (Cons c cs)
  have "tcp_inv (lw (Tcp_recved (Some p) c) s)" using Cons.prems by (intro inv_same) simp_all
  then show ?case using Cons.IH Cons.prems(2) by simp
qed simp

lemma recv_ok:
  assumes "tcp_inv s"
  shows "tcp_inv (snd (snd (tcp_socket_recv index len nb s)))"
proof (cases "\<exists>i. index = int i \<and> i < MAX_SOCKETS \<and>
    tcp_recv_gate (sk_state (sock s i)) (sk_rx_len (sock s i) \<noteq> 0) nb = Recv_copy")
  case False
  then show ?thesis
    using assms
    by (auto simp: tcp_socket_recv_def Let_def intro!: inv_soft split: option.splits tcp_recv_gate_t.splits)
next
  case True
  then obtain i where i: "index = int i" "i < MAX_SOCKETS"
    "tcp_recv_gate (sk_state (sock s i)) (sk_rx_len (sock s i) \<noteq> 0) nb = Recv_copy" by blast
  let ?k = "sock s i"
  have st: "sk_state ?k = Sock_connected \<or> sk_state ?k = Sock_closed_by_peer"
    using i(3) by (auto simp: tcp_recv_gate_def split: if_splits)
  then have "holds_pcb (sk_state ?k) \<or> sk_state ?k = Sock_allocated \<and> sk_tpcb ?k \<noteq> None" by auto
  then obtain p where p: "sk_tpcb ?k = Some p" "pv_life (view s p) = Pcb_owned"
    by (rule inv_owned [OF assms i(2)])
  obtain head rest where c: "recv_copy len 0 [] ?k =
       (of_nat (min (unat len) (unat (sk_rx_len ?k))), take (unat len) (rx_bytes ?k),
        ?k\<lparr>sk_rx_head := head, sk_rx_len := rest\<rparr>)"
     "ring_ok (?k\<lparr>sk_rx_head := head, sk_rx_len := rest\<rparr>)"
    using recv_copy_fifo [OF inv_ring [OF assms i(2)], of 0 len "[]"] by auto
  have 1: "tcp_inv (on_sock i (\<lambda>_. ?k\<lparr>sk_rx_head := head, sk_rx_len := rest\<rparr>) s)"
    using c(2) st by (intro inv_soft assms i(2)) auto
  show ?thesis
    using i p(1) c(1) recved_ok [OF 1, of p] p(2) by (simp add: tcp_socket_recv_def Let_def)
qed

lemma bind_ok:
  assumes "tcp_inv s" "has_pcb s index"
  shows "tcp_inv (snd (tcp_socket_bind index a n ifs e s))"
proof (cases "\<exists>i. index = int i \<and> i < MAX_SOCKETS \<and> sk_state (sock s i) = Sock_allocated")
  case False
  then show ?thesis
    using assms(1) by (auto simp: tcp_socket_bind_def tcp_bind_allowed_def split: option.splits)
next
  case True
  then obtain i where i: "index = int i" "i < MAX_SOCKETS" "sk_state (sock s i) = Sock_allocated" by blast
  then have "holds_pcb (sk_state (sock s i)) \<or> sk_state (sock s i) = Sock_allocated \<and> sk_tpcb (sock s i) \<noteq> None"
    using assms(2) by (auto simp: has_pcb_def)
  then obtain p where p: "sk_tpcb (sock s i) = Some p" "pv_life (view s p) = Pcb_owned" "pv_arg (view s p) = Some i"
    by (rule inv_owned [OF assms(1) i(2)])
  have 1: "tcp_inv (lw (Tcp_bind (Some p) a n e) s)" using assms p by (intro inv_same) simp_all
  have "tcp_inv (socket_set_state i Sock_bound (lw (Tcp_bind (Some p) a n e) s))"
    using i p by (intro inv_set_state 1) (auto simp: tcp_state_transition_allowed_def owned_by_def queued_ok_def)
  then show ?thesis using 1 i p assms(1) by (auto simp: tcp_socket_bind_def tcp_bind_allowed_def Let_def)
qed

lemma names_ok:
  assumes "tcp_inv s"
  shows "tcp_inv (snd (snd (tcp_socket_getsockname index nm s)))"
    "tcp_inv (snd (snd (tcp_socket_getpeername index nm s)))"
proof -
  have "tcp_inv (lw (Tcp_name (sk_tpcb (sock s i))) s)"
    if "i < MAX_SOCKETS" "sk_state (sock s i) = Sock_connected \<or> sk_state (sock s i) = Sock_bound" for i
  proof -
    note i = that
    have "holds_pcb (sk_state (sock s i)) \<or> sk_state (sock s i) = Sock_allocated \<and> sk_tpcb (sock s i) \<noteq> None"
      using i(2) by auto
    then obtain p where "sk_tpcb (sock s i) = Some p" "pv_life (view s p) = Pcb_owned"
      by (rule inv_owned [OF assms i(1)])
    then show ?thesis by (intro inv_same assms) simp_all
  qed
  then show "tcp_inv (snd (snd (tcp_socket_getsockname index nm s)))"
    "tcp_inv (snd (snd (tcp_socket_getpeername index nm s)))"
    using assms by (auto simp: tcp_socket_getsockname_def tcp_socket_getpeername_def split: option.splits)
qed

text \<open>Listening trades the PCB for a new one with the same argument.\<close>

lemma inv_swap_pcb:
  assumes "tcp_inv s" "i < MAX_SOCKETS" "sk_tpcb (sock s i) = Some p" "pv_life (view s p) = Pcb_owned"
    "pv_arg (view s p) = Some i" "pv_life (view s q) = Pcb_absent"
    "sk_state (sock s i) = Sock_allocated \<or> sk_state (sock s i) = Sock_bound"
  shows "tcp_inv (on_sock i (\<lambda>k. k\<lparr>sk_tpcb := Some q, sk_state := Sock_listening\<rparr>)
    (lw (Tcp_listen (Some p) b (Some q)) s))"
proof -
  let ?s = "on_sock i (\<lambda>k. k\<lparr>sk_tpcb := Some q, sk_state := Sock_listening\<rparr>) (lw (Tcp_listen (Some p) b (Some q)) s)"
  let ?v1 = "(view s)(p := pcb_none)" and ?v = "(view s)(p := pcb_none, q := pcb_fresh\<lparr>pv_arg := Some i\<rparr>)"
  have l: "i < length (ts_sockets s)" using assms(1,2) by simp
  have v: "view ?s = ?v" using assms(5) by simp
  have pq: "p \<noteq> q" using assms(4,6) by auto
  have sk: "sock ?s j = (if j = i then (sock s i)\<lparr>sk_tpcb := Some q, sk_state := Sock_listening\<rparr> else sock s j)" for j
    using l by (simp add: sock_on_sock)
  note so = inv_slot [OF assms(1,2)]
  have "slot_ok ?v j (sock ?s j) (ts_refcount ?s ! j)" if "j < MAX_SOCKETS" for j
  proof (cases "j = i")
    case True
    then show ?thesis
      using so assms(3,7) by (simp add: sk) (auto simp: slot_ok_def owned_by_def pcb_fresh_def)
  next
    case False
    have "slot_ok ?v1 j (sock s j) (ts_refcount s ! j)"
      using assms(5) False by (intro slot_ok_view [OF inv_slot [OF assms(1) that], of p]) auto
    then have "slot_ok ?v j (sock s j) (ts_refcount s ! j)"
      using assms(6) pq by (intro slot_ok_view [of ?v1 j _ _ q ?v]) auto
    then show ?thesis using False by (simp add: sk)
  qed
  moreover have "links_ok ?v ?s"
    unfolding links_ok_def
  proof (intro allI impI)
    fix p' j assume a: "pv_life (?v p') \<noteq> Pcb_absent \<and> pv_arg (?v p') = Some j"
    show "link_ok ?v ?s p' j"
    proof (cases "p' = q")
      case True
      have ji: "j = i" using a True by (simp add: pcb_fresh_def)
      show ?thesis using assms(2) True unfolding ji by (simp add: link_ok_def sk pcb_fresh_def)
    next
      case False
      then have p': "p' \<noteq> p" "pv_life (view s p') \<noteq> Pcb_absent" "pv_arg (view s p') = Some j"
        using a by (auto simp: pcb_none_def split: if_splits)
      have "j \<noteq> i" using inv_link [OF assms(1) p'(2,3)] assms(3) p'(1) by (auto simp: link_ok_def)
      then show ?thesis using inv_link [OF assms(1) p'(2,3)] False p'(1) by (simp add: link_ok_def sk)
    qed
  qed
  moreover have "queues_ok ?s"
  proof (rule queues_same)
    show "queues_ok s" using assms(1) by (simp add: tcp_inv_def)
    fix l j assume "int j \<in> set (backlog (sock s l))" "queued_ok s j"
    then show "queued_ok ?s j"
      using assms(7) by (cases "j = i") (auto simp: queued_ok_def sk)
  qed (simp add: sk)
  moreover have "clean ?s" using assms(1,4) by (simp add: tcp_inv_def)
  moreover have "sizes_ok ?s" using assms(1) by (simp add: tcp_inv_def)
  ultimately show ?thesis unfolding tcp_inv_def v by simp
qed

lemma listen_ok:
  assumes "tcp_inv s" "has_pcb s index" "absent s q"
  shows "tcp_inv (snd (tcp_socket_listen index b q s))"
proof (cases "\<exists>i. index = int i \<and> i < MAX_SOCKETS \<and> tcp_listen_allowed (sk_state (sock s i))")
  case False
  then show ?thesis using assms(1) by (auto simp: tcp_socket_listen_def split: option.splits)
next
  case True
  then obtain i where i: "index = int i" "i < MAX_SOCKETS" "tcp_listen_allowed (sk_state (sock s i))" by blast
  then have st: "sk_state (sock s i) = Sock_allocated \<or> sk_state (sock s i) = Sock_bound"
    by (simp add: tcp_listen_allowed_def)
  then have "holds_pcb (sk_state (sock s i)) \<or> sk_state (sock s i) = Sock_allocated \<and> sk_tpcb (sock s i) \<noteq> None"
    using assms(2) i by (auto simp: has_pcb_def)
  then obtain p where p: "sk_tpcb (sock s i) = Some p" "pv_life (view s p) = Pcb_owned" "pv_arg (view s p) = Some i"
    by (rule inv_owned [OF assms(1) i(2)])
  show ?thesis
  proof (cases q)
    case None
    have "tcp_inv (lw (Tcp_listen (Some p) (tcp_listen_backlog b) None) s)"
      using p by (intro inv_same assms(1)) simp_all
    then show ?thesis using i p None by (simp add: tcp_socket_listen_def)
  next
    case (Some q')
    let ?s = "lw (Tcp_listen (Some p) (tcp_listen_backlog b) (Some q')) s"
    let ?f = "\<lambda>k. k\<lparr>sk_tpcb := Some q', sk_state := Sock_listening\<rparr>"
    have l: "i < length (ts_sockets s)" using assms(1) i by simp
    have 1: "tcp_inv (on_sock i ?f ?s)"
      using assms(3) p st Some by (intro inv_swap_pcb assms(1) i(2)) (simp_all add: absent_def)
    have al: "tcp_state_transition_allowed (sk_state (sock (on_sock i (\<lambda>k. k\<lparr>sk_tpcb := Some q'\<rparr>) ?s) i)) Sock_listening"
      using st l by (auto simp: sock_on_sock tcp_state_transition_allowed_def)
    have "socket_set_state i Sock_listening (on_sock i (\<lambda>k. k\<lparr>sk_tpcb := Some q'\<rparr>) ?s) = on_sock i ?f ?s"
      unfolding set_state_allowed [OF al] on_sock_on_sock by (simp add: comp_def)
    moreover have "tcp_inv (lw (Tcp_accept (Some q')) (on_sock i ?f ?s))"
      by (rule inv_same [OF 1]) (simp_all add: pcb_fresh_def)
    ultimately show ?thesis using i p Some by (simp add: tcp_socket_listen_def)
  qed
qed

lemma claim_ok:
  assumes "tcp_inv s" "l < MAX_SOCKETS"
  shows "tcp_inv (snd (accept_claim l s))"
proof -
  let ?q = "sk_accept_queue (sock s l)"
  show ?thesis
  proof (cases "tcp_backlog_pop (aq_pending ?q) 10 (aq_head ?q) (aq_tail ?q)")
    case None
    then show ?thesis using assms(1) by (simp add: accept_claim_def)
  next
    case (Some et)
    obtain e t where et: "et = (e, t)" by (cases et)
    let ?s = "on_sock l (with_tail t) s"
    obtain j where j: "tcp_inv ?s" "e = int j" "j < MAX_SOCKETS" "queued_ok ?s j" "j \<noteq> l"
      "\<And>l. l < MAX_SOCKETS \<Longrightarrow> int j \<notin> set (backlog (sock ?s l))"
      "length (backlog (sock s l)) = Suc (length (backlog (sock ?s l)))" "sk_state (sock s l) = Sock_listening"
      by (rule inv_pop [OF assms Some [unfolded et]], rule that)
    have st: "holds_pcb (sk_state (sock ?s j)) \<or> sk_state (sock ?s j) = Sock_error"
      using j(4) by (auto simp: queued_ok_def)
    have "tcp_inv (set_refs j 1 ?s)" using st j(6) by (intro inv_set_refs j(1,3)) auto
    then show ?thesis using j(2,3) by (simp add: accept_claim_def Some et)
  qed
qed

lemma accept_ok: "tcp_inv s \<Longrightarrow> tcp_inv (snd (tcp_socket_accept index nb s))"
  by (auto simp: tcp_socket_accept_def Let_def intro!: inv_soft claim_ok split: option.splits)

text \<open>Every call of the application returns, and keeps the invariant.\<close>

lemma serve_ok:
  assumes "tcp_inv s" "call_ok s c"
  shows "\<exists>s'. tcp_serve c s = Some s' \<and> tcp_inv s'"
proof (cases c)
  case Call_allocate
  obtain r s' where "socket_allocate s = (r, s')" by (cases "socket_allocate s")
  with allocate_ok [OF assms(1) this] assms(1) show ?thesis by (auto simp: Call_allocate)
next
  case (Call_close close index)
  then show ?thesis using close_ok [OF assms(1), of close index] assms(2) by auto
qed (use assms in \<open>simp_all add: init_ok connect_ok connect_wait_ok dup_ok write_ok write_wait_ok recv_ok
  listen_ok accept_ok claim_ok bind_ok names_ok del: call_ok.simps(1)\<close>)

section \<open>The callbacks of lwIP\<close>

lemma inv_free:
  assumes "tcp_inv s" "pv_life (view s p) \<noteq> Pcb_owned \<or> pv_arg (view s p) = None"
  shows "tcp_inv (lw (Lwip_freed p) s)"
  using assms by (intro inv_lw_unowned [of _ _ p]) (auto simp: pcb_none_def)

lemma err_ok:
  assumes "tcp_inv s" "pv_life (view s p) \<noteq> Pcb_absent" "pv_err (view s p)"
  shows "tcp_inv (socket_err_func (pv_arg (view s p)) e (lw (Lwip_freed p) s))"
proof (cases "pv_arg (view s p)")
  case None
  then show ?thesis using inv_free [OF assms(1)] by (simp add: socket_err_func_def)
next
  case (Some i)
  note li = inv_link [OF assms(1,2) Some]
  then have i: "i < MAX_SOCKETS" "sk_tpcb (sock s i) = Some p" "sk_state (sock s i) \<noteq> Sock_listening"
    using assms(3) by (auto simp: link_ok_def)
  have l: "i < length (ts_sockets s)" using assms(1) i by simp
  note so = inv_slot [OF assms(1) i(1)]
  have al: "tcp_state_transition_allowed (sk_state (sock s i)) Sock_error"
    using so i(2) by (cases "sk_state (sock s i)") (auto simp: slot_ok_def tcp_state_transition_allowed_def)
  have 1: "inv_but i (lw (Lwip_freed p) s)"
    using Some by (intro inv_but_lw [OF inv_butI [OF assms(1)], of _ p]) (simp_all add: pcb_none_def)
  have nolink: "pv_arg (view (lw (Lwip_freed p) s) q) \<noteq> Some i"
    if "pv_life (view (lw (Lwip_freed p) s) q) \<noteq> Pcb_absent" for q
    using link_unique [OF assms(1) _ _ assms(2) Some, of q] that by (auto simp: pcb_none_def split: if_splits)
  define f :: "socket \<Rightarrow> socket" where "f k = k\<lparr>sk_state := Sock_error, sk_last_error := lwip_errno e, sk_tpcb := None,
    sk_connect_sem := socket_wake (sk_connect_sem k), sk_recv_sem := socket_wake (sk_recv_sem k),
    sk_send_sem := socket_wake (sk_send_sem k)\<rparr>" for k
  have eq: "socket_err_func (Some i) e (lw (Lwip_freed p) s) = on_sock i f (lw (Lwip_freed p) s)"
    using al by (simp add: socket_err_func_def set_state_allowed on_sock_on_sock comp_def f_def [abs_def])
  have b: "backlog (f (sock s i)) = backlog (sock s i)" "backlog (sock s i) = []"
    using so i(3) by (auto simp: f_def slot_ok_def)
  have "inv_but i (on_sock i f (lw (Lwip_freed p) s))"
    using b nolink l by (intro inv_but_on_sock [OF 1 i(1)]) (auto simp: queued_ok_def sock_on_sock f_def)
  moreover have "slot_ok v i (f (sock s i)) (ts_refcount s ! i)" for v
    using so b by (simp add: slot_ok_def) (simp add: f_def)
  ultimately show ?thesis
    unfolding Some eq using l by (intro inv_close [of i]) (simp_all add: sock_on_sock)
qed

lemma recv_cb_ok:
  assumes "tcp_inv s" "pv_life (view s p) \<noteq> Pcb_absent" "pv_arg (view s p) = Some i"
    "case pbuf of None \<Rightarrow> True | Some b \<Rightarrow> length b \<le> 65535"
  shows "\<exists>r s'. socket_recv_callback i pbuf s = Some (r, s') \<and> tcp_inv s'"
proof -
  let ?k = "sock s i"
  have i: "i < MAX_SOCKETS" "sk_tpcb ?k = Some p" "pv_connecting (view s p) \<longrightarrow> sk_state ?k = Sock_connecting"
    using inv_link [OF assms(1-3)] by (auto simp: link_ok_def)
  have l: "i < length (ts_sockets s)" "length (ts_sockets s) = MAX_SOCKETS" using assms(1) i by simp_all
  note so = inv_slot [OF assms(1) i(1)]
  have free: "tcp_inv (lw Pbuf_free x)" if "tcp_inv x" for x using that by (intro inv_same) simp_all
  consider "sk_state ?k = Sock_connected" | "sk_state ?k = Sock_allocated \<or> sk_state ?k = Sock_closing"
    | "sk_state ?k \<noteq> Sock_connected" "sk_state ?k \<noteq> Sock_allocated" "sk_state ?k \<noteq> Sock_closing" by blast
  then show ?thesis
  proof cases
    case 1
    show ?thesis
    proof (cases pbuf)
      case None
      have st: "tcp_inv (socket_set_state i Sock_closed_by_peer s)"
        using 1 so by (intro inv_set_state assms(1) i(1)) (auto simp: tcp_state_transition_allowed_def slot_ok_def)
      have "tcp_inv (on_sock i (\<lambda>k. k\<lparr>sk_recv_sem := socket_wake (sk_recv_sem k)\<rparr>)
          (socket_set_state i Sock_closed_by_peer s))"
        using i(1) inv_ring [OF st] by (intro inv_soft st) simp_all
      then show ?thesis using 1 None by (simp add: socket_recv_callback_def Let_def)
    next
      case (Some b)
      have n: "unat (of_nat (length b) :: u64) = length b" using assms(4) Some by (simp add: unat_of_nat)
      show ?thesis
      proof (cases "tcp_rx_can_accept (sk_rx_len ?k) (of_nat (length b)) SOCKET_BUF_SIZE")
        case False
        then show ?thesis using 1 Some assms(1) by (simp add: socket_recv_callback_def Let_def)
      next
        case True
        have rk: "ring_ok ?k" using so by (simp add: slot_ok_def)
        have "unat (SOCKET_BUF_SIZE - sk_rx_len ?k) = ring_capacity - unat (sk_rx_len ?k)"
          using rk by (subst unat_minus_le) (auto simp: ring_ok_def)
        then have room: "unat (sk_rx_len ?k) + unat (of_nat (length b) :: u64) \<le> ring_capacity"
          using True rk by (auto simp: tcp_rx_can_accept_def n word_le_unat ring_ok_def)
        obtain buf len where st: "rx_store b 0 (of_nat (length b)) ?k = Some (?k\<lparr>sk_rx_buf := buf, sk_rx_len := len\<rparr>)"
          "ring_ok (?k\<lparr>sk_rx_buf := buf, sk_rx_len := len\<rparr>)"
          using rx_store_fifo [OF rk _ _ room, of 0 b] n assms(4) Some by auto
        have a: "tcp_inv (on_sock i (\<lambda>_. ?k\<lparr>sk_rx_buf := buf, sk_rx_len := len\<rparr>) s)"
          using st(2) 1 by (intro inv_soft assms(1) i(1)) simp_all
        have "tcp_inv (on_sock i (\<lambda>k. k\<lparr>sk_recv_sem := socket_wake (sk_recv_sem k)\<rparr>)
            (lw Pbuf_free (on_sock i (\<lambda>_. ?k\<lparr>sk_rx_buf := buf, sk_rx_len := len\<rparr>) s)))"
          using st(2) l i(1) by (intro inv_soft free a) (simp_all add: sock_on_sock)
        then show ?thesis using 1 Some True st(1) by (simp add: socket_recv_callback_def Let_def)
      qed
    qed
  next
    case 2
    show ?thesis
    proof (cases pbuf)
      case (Some b)
      then show ?thesis using 2 free [OF assms(1)] by (auto simp: socket_recv_callback_def Let_def)
    next
      case None
      let ?s = "lw (Tcp_arg (Some p) None) s"
      have a: "inv_but i ?s"
        using assms(2,3) by (intro inv_but_lw [OF inv_butI [OF assms(1)], of _ p]) simp_all
      have "int i \<notin> set (backlog (sock s j))" if "j < MAX_SOCKETS" for j
        using 2 that by (intro inv_unqueued [OF assms(1)]) (auto simp: queued_ok_def)
      moreover have "pv_arg (view ?s q) \<noteq> Some i" if "pv_life (view ?s q) \<noteq> Pcb_absent" for q
        using link_unique [OF assms(1) _ _ assms(2,3), of q] that by (auto split: if_splits)
      ultimately have "tcp_inv (socket_release i ?s)"
        using 2 so by (intro inv_release a i(1)) (auto simp: slot_ok_def tcp_state_transition_allowed_def)
      then show ?thesis using 2 None i(2) by (auto simp: socket_recv_callback_def Let_def)
    qed
  next
    case 3
    then show ?thesis using free [OF assms(1)] assms(1) by (simp add: socket_recv_callback_def Let_def)
  qed
qed

lemma sent_ok:
  "tcp_inv s \<Longrightarrow> event_ok s (Ev_sent arg) \<Longrightarrow> tcp_inv (snd (socket_sent_callback arg s))"
  by (cases arg) (auto simp: socket_sent_callback_def intro!: inv_soft)

lemma connected_ok:
  assumes "tcp_inv s" "pv_life (view s p) = Pcb_owned" "pv_connecting (view s p)"
  shows "tcp_inv (snd (socket_connected (pv_arg (view s p)) (Some p) (lw (Lwip_connected p) s)))"
proof (cases "pv_arg (view s p)")
  case None
  have "tcp_inv (lw (Lwip_connected p) s)"
    using None by (intro inv_lw_unowned [OF assms(1), of _ p]) simp_all
  then show ?thesis by (simp add: None socket_connected_def)
next
  case (Some i)
  have l0: "pv_life (view s p) \<noteq> Pcb_absent" using assms(2) by simp
  note li = inv_link [OF assms(1) l0 Some]
  then have i: "i < MAX_SOCKETS" "sk_tpcb (sock s i) = Some p" "sk_state (sock s i) = Sock_connecting"
    using assms(3) by (auto simp: link_ok_def)
  have l: "i < length (ts_sockets s)" using assms(1) i by simp
  note so = inv_slot [OF assms(1) i(1)]
  let ?s = "lw (Lwip_connected p) s"
  have 1: "inv_but i ?s"
    using Some li by (intro inv_but_lw [OF inv_butI [OF assms(1)], of _ p]) (auto simp: link_ok_def)
  define f :: "socket \<Rightarrow> socket" where "f k = k\<lparr>sk_state := Sock_connected,
    sk_connect_sem := socket_wake (sk_connect_sem k)\<rparr>" for k
  have nc: "\<not> pv_connecting (view ?s q)" if "pv_life (view ?s q) \<noteq> Pcb_absent" "pv_arg (view ?s q) = Some i" for q
    using link_unique [OF assms(1) _ _ l0 Some, of q] that by (auto split: if_splits)
  have unq: "int i \<notin> set (backlog (sock s j))" if "j < MAX_SOCKETS" for j
    using i(3) that by (intro inv_unqueued [OF assms(1)]) (auto simp: queued_ok_def)
  have "inv_but i (on_sock i f ?s)"
  proof (rule inv_but_on_sock [OF 1 i(1)])
    show "link_ok (view ?s) (on_sock i f ?s) q i"
      if "pv_life (view ?s q) \<noteq> Pcb_absent" "pv_arg (view ?s q) = Some i" for q
      using linksD [OF inv_butD(3) [OF 1] that] nc [OF that] l by (simp add: link_ok_def sock_on_sock f_def)
  qed (use unq in \<open>auto simp: f_def\<close>)
  moreover have "slot_ok (view ?s) i (f (sock s i)) (ts_refcount s ! i)"
    using so i assms(2) Some by (simp add: slot_ok_def f_def owned_by_def)
  ultimately have 2: "tcp_inv (on_sock i f ?s)" using l by (intro inv_close [of i]) (simp_all add: sock_on_sock)
  have 3: "tcp_inv (lw (Tcp_sent (Some p) True) (on_sock i f ?s))"
    using assms(2) by (intro inv_same 2) simp_all
  have 4: "tcp_inv (lw (Tcp_recv (Some p) True) (lw (Tcp_sent (Some p) True) (on_sock i f ?s)))"
    using assms(2) by (intro inv_same 3) simp_all
  have 5: "tcp_inv (lw (Tcp_keepalive (Some p)) (lw (Tcp_recv (Some p) True) (lw (Tcp_sent (Some p) True) (on_sock i f ?s))))"
    using assms(2) by (intro inv_same 4) simp_all
  have al: "tcp_state_transition_allowed (sk_state (sock ?s i)) Sock_connected"
    using i(3) by (simp add: tcp_state_transition_allowed_def)
  have "snd (socket_connected (Some i) (Some p) ?s) =
    lw (Tcp_keepalive (Some p)) (lw (Tcp_recv (Some p) True) (lw (Tcp_sent (Some p) True) (on_sock i f ?s)))"
    unfolding socket_connected_def option.case set_state_allowed [OF al] Let_def
    by (simp add: on_sock_lw on_sock_on_sock comp_def f_def [abs_def])
  then show ?thesis using 5 by (simp add: Some)
qed

text \<open>A connection known to no queue may join one.\<close>

abbreviation (input) with_head :: "int list \<Rightarrow> int \<Rightarrow> socket \<Rightarrow> socket" where
  "with_head ps h k \<equiv> k\<lparr>sk_accept_queue := (sk_accept_queue k)\<lparr>aq_pending := ps, aq_head := h\<rparr>\<rparr>"

lemma inv_push:
  assumes "tcp_inv s" "l < MAX_SOCKETS" "sk_state (sock s l) = Sock_listening" "queued_ok s j" "j < MAX_SOCKETS"
    "\<And>m. m < MAX_SOCKETS \<Longrightarrow> int j \<notin> set (backlog (sock s m))"
    "tcp_backlog_push (aq_pending (sk_accept_queue (sock s l))) 10 (aq_head (sk_accept_queue (sock s l)))
       (aq_tail (sk_accept_queue (sock s l))) (int j) = Some (ps, h)"
  shows "tcp_inv (on_sock l (with_head ps h) s)" (is "tcp_inv ?s")
proof -
  have len: "l < length (ts_sockets s)" using assms(1,2) by simp
  note so = inv_slot [OF assms(1,2)]
  have q: "queue_ok (sock s l)" using so by (simp add: slot_ok_def)
  note push = backlog_push [OF q assms(7)]
  have sk: "sock ?s m = (if m = l then with_head ps h (sock s l) else sock s m)" for m
    using len by (simp add: sock_on_sock)
  have qs: "queues_ok s" using assms(1) by (simp add: tcp_inv_def)
  have qk: "queued_ok ?s m = queued_ok s m" for m by (simp add: queued_ok_def sk)
  have bl: "set (backlog (sock ?s m)) = (if m = l then insert (int j) (set (backlog (sock s l))) else set (backlog (sock s m)))" for m
    by (simp add: sk push(1))
  have "queues_ok ?s"
    unfolding queues_ok_def
  proof (intro allI impI conjI ballI)
    fix m assume m: "m < MAX_SOCKETS"
    show "distinct (backlog (sock ?s m))"
      using queuesD(1) [OF qs m] assms(6) [OF m] by (auto simp: sk push(1))
    fix e assume "e \<in> set (backlog (sock ?s m))"
    then show "\<exists>j < MAX_SOCKETS. e = int j \<and> queued_ok ?s j"
      using queuesD(2) [OF qs m, of e] assms(4,5) by (auto simp: bl qk split: if_splits)
  next
    fix m m' assume "m < MAX_SOCKETS" "m' < MAX_SOCKETS" "m' \<noteq> m"
    then show "set (backlog (sock ?s m)) \<inter> set (backlog (sock ?s m')) = {}"
      using queuesD(3) [OF qs] assms(2,6) by (simp add: bl)
  qed
  moreover have "links_ok (view s) ?s"
    using assms(1) by (auto simp: tcp_inv_def links_ok_def link_ok_def sk)
  moreover have "slot_ok (view s) m (sock ?s m) (ts_refcount s ! m)" if "m < MAX_SOCKETS" for m
  proof (cases "m = l")
    case True
    then show ?thesis using so assms(3) push(2) by (simp add: sk slot_ok_def ring_ok_def)
  next
    case False
    then show ?thesis using inv_slot [OF assms(1) that] by (simp add: sk)
  qed
  ultimately show ?thesis using assms(1) unfolding tcp_inv_def by simp
qed

text \<open>A slot that gives up its PCB without closing it.\<close>

lemma detach_release_ok:
  assumes "tcp_inv s" "i < MAX_SOCKETS" "sk_state (sock s i) = Sock_connected" "sk_tpcb (sock s i) = Some p"
    "\<And>l. l < MAX_SOCKETS \<Longrightarrow> int i \<notin> set (backlog (sock s l))"
  shows "tcp_inv (socket_release i (socket_detach_pcb (Some p) s))"
    "view (socket_release i (socket_detach_pcb (Some p) s)) p = (view s p)\<lparr>pv_arg := None, pv_err := False\<rparr>"
proof -
  note so = inv_slot [OF assms(1,2)]
  have p: "pv_life (view s p) = Pcb_owned" "pv_arg (view s p) = Some i"
    using so assms(3,4) by (auto simp: slot_ok_def owned_by_def)
  have a: "inv_but i (lw (Tcp_arg (Some p) None) s)"
    using p by (intro inv_but_lw [OF inv_butI [OF assms(1)], of _ p]) simp_all
  have b: "inv_but i (lw (Tcp_sent (Some p) False) (lw (Tcp_arg (Some p) None) s))"
    using p by (intro inv_lw_same(2) [OF _ _ _ a]) simp_all
  have c: "inv_but i (lw (Tcp_recv (Some p) False) (lw (Tcp_sent (Some p) False) (lw (Tcp_arg (Some p) None) s)))"
    using p by (intro inv_lw_same(2) [OF _ _ _ b]) simp_all
  have d: "inv_but i (socket_detach_pcb (Some p) s)"
    unfolding socket_detach_pcb_def using p by (intro inv_but_lw [OF c, of _ p]) simp_all
  have sk: "sock (socket_detach_pcb (Some p) s) = sock s"
    and v: "view (socket_detach_pcb (Some p) s) = (view s)(p := (view s p)\<lparr>pv_arg := None, pv_err := False\<rparr>)"
    by (simp_all add: socket_detach_pcb_def fun_eq_iff)
  have al: "tcp_state_transition_allowed (sk_state (sock (socket_detach_pcb (Some p) s) i)) Sock_unallocated"
    using assms(3) by (simp add: sk tcp_state_transition_allowed_def)
  have nl: "pv_arg (view (socket_detach_pcb (Some p) s) q) \<noteq> Some i"
    if "pv_life (view (socket_detach_pcb (Some p) s) q) \<noteq> Pcb_absent" for q
    using link_unique [OF assms(1), of q i p] p that by (cases "q = p") (auto simp: v)
  have ok: "ring_ok (sock s i)" "queue_ok (sock s i)" "backlog (sock s i) = []"
    using so assms(3) by (simp_all add: slot_ok_def)
  show "tcp_inv (socket_release i (socket_detach_pcb (Some p) s))"
    by (rule inv_release [OF d assms(2) al nl]) (simp_all add: sk ok assms(5))
  show "view (socket_release i (socket_detach_pcb (Some p) s)) p = (view s p)\<lparr>pv_arg := None, pv_err := False\<rparr>"
    unfolding socket_release_def set_state_allowed [OF al] socket_clear_def view_frame v by simp
qed

text \<open>A fresh slot takes a PCB lwIP has just handed over.\<close>

definition adopt :: "nat \<Rightarrow> nat \<Rightarrow> tcp \<Rightarrow> tcp" where
  "adopt i p s =
     on_sock i (\<lambda>k. k\<lparr>sk_accept_queue := (sk_accept_queue k)\<lparr>aq_accept_sem := 0\<rparr>,
         sk_connect_sem := 0, sk_recv_sem := 0, sk_send_sem := 0\<rparr>)
       (lw (Tcp_recv (Some p) True) (lw (Tcp_sent (Some p) True)
         (lw (Tcp_arg (Some p) (Some i)) (lw (Tcp_err (Some p) True)
           (socket_set_state i Sock_connected (on_sock i (\<lambda>k. k\<lparr>sk_tpcb := Some p\<rparr>) s))))))"

lemma adopt_ok:
  assumes "tcp_inv s" "i < MAX_SOCKETS" "sk_state (sock s i) = Sock_allocated" "sk_tpcb (sock s i) = None"
    "ts_refcount s ! i = 0" "view s p = pcb_fresh"
  shows "tcp_inv (adopt i p s)" "sk_state (sock (adopt i p s) i) = Sock_connected"
    "sk_tpcb (sock (adopt i p s) i) = Some p" "queued_ok (adopt i p s) i"
    "j \<noteq> i \<Longrightarrow> sock (adopt i p s) j = sock s j"
    "l < MAX_SOCKETS \<Longrightarrow> int i \<notin> set (backlog (sock (adopt i p s) l))"
proof -
  have l: "i < length (ts_sockets s)" using assms(1,2) by simp
  note so = inv_slot [OF assms(1,2)]
  define f :: "socket \<Rightarrow> socket" where "f k = k\<lparr>sk_tpcb := Some p, sk_state := Sock_connected\<rparr>" for k
  have al: "tcp_state_transition_allowed (sk_state (sock (on_sock i (\<lambda>k. k\<lparr>sk_tpcb := Some p\<rparr>) s) i)) Sock_connected"
    using assms(3) l by (simp add: sock_on_sock tcp_state_transition_allowed_def)
  have eq: "socket_set_state i Sock_connected (on_sock i (\<lambda>k. k\<lparr>sk_tpcb := Some p\<rparr>) s) = on_sock i f s"
    unfolding set_state_allowed [OF al] on_sock_on_sock by (simp add: f_def [abs_def] comp_def)
  have b: "backlog (f (sock s i)) = []" "backlog (sock s i) = []"
    using so assms(3) by (simp_all add: f_def slot_ok_def)
  have nl: "pv_arg (view s q) \<noteq> Some i" if "pv_life (view s q) \<noteq> Pcb_absent" for q
    using inv_link [OF assms(1) that, of i] assms(4) by (auto simp: link_ok_def)
  have unq: "int i \<notin> set (backlog (sock s m))" if "m < MAX_SOCKETS" for m
    using assms(3) that by (intro inv_unqueued [OF assms(1)]) (auto simp: queued_ok_def)
  let ?s1 = "on_sock i f s"
  have 1: "inv_but i ?s1"
    using nl unq b by (intro inv_but_on_sock inv_butI assms(1,2)) auto
  have sk: "sock ?s1 i = f (sock s i)" using l by (simp add: sock_on_sock)
  let ?s2 = "lw (Tcp_err (Some p) True) ?s1"
  have 2: "inv_but i ?s2"
    using assms(6) by (intro inv_but_lw [OF 1, of _ p]) (simp_all add: pcb_fresh_def)
  let ?s3 = "lw (Tcp_arg (Some p) (Some i)) ?s2"
  have 3: "inv_but i ?s3"
    using assms(2,6) by (intro inv_but_lw [OF 2, of _ p]) (auto simp: pcb_fresh_def link_ok_def sk f_def)
  have "slot_ok (view ?s3) i (f (sock s i)) 0"
    using so b(1) assms(6) by (simp add: slot_ok_def) (simp add: f_def owned_by_def pcb_fresh_def)
  then have 4: "tcp_inv ?s3" using assms(5) by (intro inv_close [OF 3]) (simp add: sk)
  have own: "pv_life (view ?s3 p) = Pcb_owned" using assms(6) by (simp add: pcb_fresh_def)
  have 5: "tcp_inv (lw (Tcp_sent (Some p) True) ?s3)" using own by (intro inv_same 4) simp_all
  have 6: "tcp_inv (lw (Tcp_recv (Some p) True) (lw (Tcp_sent (Some p) True) ?s3))"
    using own by (intro inv_same 5) simp_all
  show "tcp_inv (adopt i p s)"
    unfolding adopt_def eq using inv_ring [OF 6 assms(2)] by (intro inv_soft 6 assms(2)) simp_all
  have sk': "sock (adopt i p s) m = (if m = i then (f (sock s i))\<lparr>sk_accept_queue := (sk_accept_queue (sock s i))\<lparr>aq_accept_sem := 0\<rparr>,
         sk_connect_sem := 0, sk_recv_sem := 0, sk_send_sem := 0\<rparr> else sock s m)" for m
    unfolding adopt_def eq using l by (simp add: sock_on_sock f_def)
  show "sk_state (sock (adopt i p s) i) = Sock_connected" "sk_tpcb (sock (adopt i p s) i) = Some p"
    "queued_ok (adopt i p s) i" "j \<noteq> i \<Longrightarrow> sock (adopt i p s) j = sock s j"
    using assms(5) by (simp_all add: sk' f_def queued_ok_def) (simp add: adopt_def eq)
  have "backlog (sock (adopt i p s) m) = backlog (sock s m)" for m
    by (cases "m = i") (simp_all add: sk' f_def backlog_def Let_def)
  then show "l < MAX_SOCKETS \<Longrightarrow> int i \<notin> set (backlog (sock (adopt i p s) l))" for l using unq by simp
qed

lemma wake_accept_ok:
  "tcp_inv s \<Longrightarrow> l < MAX_SOCKETS \<Longrightarrow>
   tcp_inv (on_sock l (\<lambda>k. k\<lparr>sk_accept_queue := (sk_accept_queue k)
     \<lparr>aq_accept_sem := socket_wake (aq_accept_sem (sk_accept_queue k))\<rparr>\<rparr>) s)"
  by (intro inv_soft) simp_all

lemma view_set_state: "view (socket_set_state i n s) =
    (if tcp_state_transition_allowed (sk_state (sock s i)) n then view s
     else view_step (Unexpected i (sk_state (sock s i)) n) (view s))"
  by (simp add: socket_set_state_def)

lemma accept_cb_ok:
  assumes "tcp_inv s" "view s p = pcb_fresh" "case arg of None \<Rightarrow> True | Some l \<Rightarrow> l < MAX_SOCKETS"
    "tcp_socket_accept_cb arg p e s = (r, s')"
  shows "tcp_inv s'" "r \<noteq> ERR_OK \<Longrightarrow> pv_arg (view s' p) = None \<and> \<not> pv_err (view s' p)"
proof -
  have fresh: "pv_arg (view s p) = None" "\<not> pv_err (view s p)" using assms(2) by (simp_all add: pcb_fresh_def)
  have "tcp_inv s' \<and> (r \<noteq> ERR_OK \<longrightarrow> pv_arg (view s' p) = None \<and> \<not> pv_err (view s' p))"
  proof (cases "\<exists>l. arg = Some l \<and> tcp_accept_allowed (sk_state (sock s l)) \<and> e = ERR_OK \<and>
      fst (socket_allocate s) \<noteq> - ENOMEM")
    case False
    obtain r1 s1 where a: "socket_allocate s = (r1, s1)" by (cases "socket_allocate s")
    have "r1 = - ENOMEM \<Longrightarrow> s1 = s" using allocate_ok [OF assms(1) a] by auto
    then show ?thesis
      using False assms(1,4) fresh a
      by (auto simp: tcp_socket_accept_cb_def split: option.splits if_splits)
  next
    case True
    then obtain l where arg: "arg = Some l" "tcp_accept_allowed (sk_state (sock s l))" "e = ERR_OK" by blast
    have l: "l < MAX_SOCKETS" "sk_state (sock s l) = Sock_listening"
      using arg assms(3) by (simp_all add: tcp_accept_allowed_def)
    obtain r1 s1 where a: "socket_allocate s = (r1, s1)" by (cases "socket_allocate s")
    with True have "r1 \<noteq> - ENOMEM" by auto
    then obtain i where i: "i < MAX_SOCKETS" "r1 = int i" "tcp_inv s1" "sk_state (sock s i) = Sock_unallocated"
      "sk_state (sock s1 i) = Sock_allocated" "sk_tpcb (sock s1 i) = None" "ts_refcount s1 ! i = 0"
      "view s1 = view s" "\<And>j. j \<noteq> i \<Longrightarrow> sock s1 j = sock s j"
      using allocate_ok [OF assms(1) a] by auto
    have f1: "view s1 p = pcb_fresh" using i(8) assms(2) by simp
    note ad = adopt_ok [OF i(3,1,5,6,7) f1]
    have li: "l \<noteq> i" using l(2) i(4) by auto
    let ?s = "adopt i p s1"
    let ?q = "sk_accept_queue (sock ?s l)"
    let ?w = "on_sock l (\<lambda>k. k\<lparr>sk_accept_queue := (sk_accept_queue k)
     \<lparr>aq_accept_sem := socket_wake (aq_accept_sem (sk_accept_queue k))\<rparr>\<rparr>)"
    have cb: "tcp_socket_accept_cb arg p e s =
      (case tcp_backlog_push (aq_pending ?q) 10 (aq_head ?q) (aq_tail ?q) (int i) of
         None \<Rightarrow> (ERR_MEM, ?w (socket_release i (socket_detach_pcb (Some p) ?s)))
       | Some (ps, h) \<Rightarrow> (SOCK_SUCC, ?w (on_sock l (with_head ps h) ?s)))"
      unfolding tcp_socket_accept_cb_def adopt_def using arg a i(2) by (simp add: Let_def)
    show ?thesis
    proof (cases "tcp_backlog_push (aq_pending ?q) 10 (aq_head ?q) (aq_tail ?q) (int i)")
      case None
      note dr = detach_release_ok [OF ad(1) i(1) ad(2,3,6)]
      have "s' = ?w (socket_release i (socket_detach_pcb (Some p) ?s))"
        using assms(4) unfolding cb None by simp
      then show ?thesis using wake_accept_ok [OF dr(1) l(1)] dr(2) by simp
    next
      case (Some hd)
      obtain ps h where hd: "hd = (ps, h)" by (cases hd)
      have "sk_state (sock ?s l) = Sock_listening" using l(2) li ad(5) i(9) by simp
      then have "tcp_inv (on_sock l (with_head ps h) ?s)"
        using Some hd by (intro inv_push [OF ad(1) l(1) _ ad(4) i(1) ad(6)]) simp_all
      moreover have "s' = ?w (on_sock l (with_head ps h) ?s)" "r = ERR_OK"
        using assms(4) unfolding cb Some hd by simp_all
      ultimately show ?thesis using wake_accept_ok l(1) by simp
    qed
  qed
  then show "tcp_inv s'" "r \<noteq> ERR_OK \<Longrightarrow> pv_arg (view s' p) = None \<and> \<not> pv_err (view s' p)" by simp_all
qed

lemma lwip_ok:
  assumes "tcp_inv s" "event_ok s e"
  shows "\<exists>s'. lwip_serve e s = Some s' \<and> tcp_inv s'"
proof (cases e)
  case (Ev_err p err)
  then show ?thesis using assms err_ok by simp
next
  case (Ev_recv p pbuf)
  show ?thesis
  proof (cases "pv_arg (view s p)")
    case (Some i)
    have "\<exists>r s'. socket_recv_callback i pbuf s = Some (r, s') \<and> tcp_inv s'"
      using assms Ev_recv Some by (intro recv_cb_ok) simp_all
    then show ?thesis using Ev_recv Some by auto
  qed (use Ev_recv assms in simp)
next
  case (Ev_sent arg)
  then show ?thesis using assms sent_ok by simp
next
  case (Ev_connected p)
  then show ?thesis using assms connected_ok by simp
next
  case (Ev_accept arg p err)
  have 1: "tcp_inv (lw (Lwip_gave p) s)"
    using assms Ev_accept by (intro inv_lw_unowned [of _ _ p]) (simp_all add: pcb_fresh_def)
  obtain r s' where cb: "tcp_socket_accept_cb arg p err (lw (Lwip_gave p) s) = (r, s')"
    by (cases "tcp_socket_accept_cb arg p err (lw (Lwip_gave p) s)")
  have ok: "tcp_inv s'" "r \<noteq> ERR_OK \<Longrightarrow> pv_arg (view s' p) = None \<and> \<not> pv_err (view s' p)"
    using accept_cb_ok [OF 1 _ _ cb] assms(2) Ev_accept by simp_all
  then show ?thesis using inv_free [OF ok(1)] by (simp add: Ev_accept cb)
next
  case (Ev_done p)
  then show ?thesis using assms inv_free [OF assms(1), of p] by simp
qed

theorem reach_inv: "tcp_reach t \<Longrightarrow> \<exists>s. t = Some s \<and> tcp_inv s"
proof (induction rule: tcp_reach.induct)
  case start
  then show ?case by (simp add: inv_zero)
next
  case (step s t)
  from step.IH have "tcp_inv s" by simp
  with step.hyps(2) show ?case by (auto elim!: tcp_step.cases dest: serve_ok lwip_ok)
qed

end
