(* ===== verification/Tcp_Properties.thy ===== *)
theory Tcp_Properties
  imports Tcp_Ownership
begin

text \<open>
  What the socket backend promises in every run from start-up: it always answers, it follows its
  own lifecycle, it keeps lwIP's ownership contract, and one socket's calls never reach another
  socket.
\<close>

section \<open>Runs that serve as witnesses\<close>

text \<open>A socket opened, given PCB 5 and told to connect without blocking.\<close>

lemma reach_app: "tcp_reach (Some s) \<Longrightarrow> call_ok s c \<Longrightarrow> tcp_serve c s = t \<Longrightarrow> tcp_reach t"
  by (metis tcp_reach.step tcp_step.app)

lemma reach_lwip: "tcp_reach (Some s) \<Longrightarrow> event_ok s e \<Longrightarrow> lwip_serve e s = t \<Longrightarrow> tcp_reach t"
  by (metis tcp_reach.step tcp_step.lwip)

definition sample_allocated :: tcp where
  "sample_allocated = snd (socket_allocate tcp_zero)"

definition sample_opened :: tcp where
  "sample_opened = snd (tcp_socket_init 0 (Some 5) sample_allocated)"

lemma zero_slots: "i < MAX_SOCKETS \<Longrightarrow> ts_sockets tcp_zero ! i = socket_zero"
  "length (ts_sockets tcp_zero) = MAX_SOCKETS" "length (ts_refcount tcp_zero) = MAX_SOCKETS"
  unfolding tcp_zero_def by simp_all

lemma find_first: "0 < n \<Longrightarrow> P 0 \<Longrightarrow> find P [0..<n] = Some 0"
  by (simp add: upt_conv_Cons)

lemma sample_allocated_slot:
  "sk_state (sock sample_allocated 0) = Sock_allocated" "sk_tpcb (sock sample_allocated 0) = None"
  "ts_trace sample_allocated = []" "length (ts_sockets sample_allocated) = MAX_SOCKETS"
  "length (ts_refcount sample_allocated) = MAX_SOCKETS" "view sample_allocated = (\<lambda>_. pcb_none)"
proof -
  have f: "find (\<lambda>i. sk_state (sock tcp_zero i) = Sock_unallocated) [0..<MAX_SOCKETS] = Some 0"
    by (intro find_first) (simp_all add: sock_zero, simp add: socket_zero_def)
  have al: "tcp_state_transition_allowed (sk_state (sock (socket_clear 0 tcp_zero) 0)) Sock_allocated"
    using zero_slots(2) by (simp add: socket_clear_def sock_on_sock sock_zero)
      (simp add: socket_zero_def tcp_state_transition_allowed_def)
  have s: "sample_allocated = on_sock 0 (\<lambda>k. k\<lparr>sk_state := Sock_allocated\<rparr>) (socket_clear 0 tcp_zero)"
    unfolding sample_allocated_def socket_allocate_def f option.case snd_conv set_state_allowed [OF al] ..
  have v: "view tcp_zero = (\<lambda>_. pcb_none)" "ts_trace tcp_zero = []" by (simp_all add: view_def tcp_zero_def)
  show "sk_state (sock sample_allocated 0) = Sock_allocated" "sk_tpcb (sock sample_allocated 0) = None"
    "ts_trace sample_allocated = []" "length (ts_sockets sample_allocated) = MAX_SOCKETS"
    "length (ts_refcount sample_allocated) = MAX_SOCKETS" "view sample_allocated = (\<lambda>_. pcb_none)"
    unfolding s socket_clear_def using zero_slots v by (simp_all add: sock_on_sock)
qed

lemma reach_allocated: "tcp_reach (Some sample_allocated)"
  by (rule reach_app [OF tcp_reach.start, of Call_allocate]) (simp_all add: sample_allocated_def)

lemma reach_opened: "tcp_reach (Some sample_opened)"
  by (rule reach_app [OF reach_allocated, of "Call_init 0 (Some 5)"])
    (simp_all add: sample_opened_def absent_def sample_allocated_slot pcb_none_def socket_lookup_def tcp_index_valid_def)

lemma sample_opened_slot:
  "sk_state (sock sample_opened 0) = Sock_allocated" "sk_tpcb (sock sample_opened 0) = Some 5"
  "ts_refcount sample_opened ! 0 = 1" "pv_life (view sample_opened 5) = Pcb_owned"
  "ts_trace sample_opened = [Tcp_new (Some 5), Tcp_keepalive (Some 5), Tcp_err (Some 5) True, Tcp_arg (Some 5) (Some 0)]"
  by (simp_all add: sample_opened_def tcp_socket_init_def socket_lookup_def tcp_index_valid_def
      sample_allocated_slot Let_def on_sock_lw sock_on_sock pcb_fresh_def)

section \<open>Every call and callback returns\<close>

text \<open>
  C30.  From any state the system can be in, every call the application may make and every
  callback lwIP may run comes back: the copy loop of the receive callback and the loop that
  drains a closing listener's backlog, the two loops with no bound of their own, always end.
\<close>

theorem tcp_calls_return:
  "tcp_reach (Some s) \<Longrightarrow> tcp_step s t \<Longrightarrow> t \<noteq> None"
  using reach_inv [of "Some s"] by (auto elim!: tcp_step.cases dest: serve_ok lwip_ok)

theorem tcp_calls_return_witness:
  "tcp_serve (Call_close (\<lambda>_. ERR_OK) 0) sample_opened \<noteq> None"
  by (rule tcp_calls_return [OF reach_opened tcp_step.app])
    (simp add: sample_opened_slot socket_lookup_def tcp_index_valid_def)

section \<open>The lifecycle\<close>

text \<open>
  C10.  No run ever reports an unexpected transition: every state a slot is put in, by a call or
  by a callback in any order lwIP may run them, is one the lifecycle table allows from the state
  it was in.
\<close>

theorem tcp_lifecycle_followed:
  "tcp_reach (Some s) \<Longrightarrow> Unexpected i before after \<notin> set (ts_trace s)"
  using reach_inv [of "Some s"] by (auto simp: tcp_inv_def clean_def list_ex_iff)

theorem tcp_lifecycle_followed_witness:
  "Unexpected 0 Sock_unallocated Sock_allocated \<notin> set (ts_trace sample_opened)"
  by (rule tcp_lifecycle_followed [OF reach_opened])

text \<open>
  C9.  The ownership contract with lwIP holds in every run.  No PCB is bound, connected, written,
  read or closed unless a socket owns it at that moment, so never after it was closed, aborted or
  freed; no PCB is released twice; and none is aborted while its error callback still leads to a
  socket.
\<close>

theorem tcp_pcb_contract:
  "tcp_reach (Some s) \<Longrightarrow> legal_trace (\<lambda>_. pcb_none) (ts_trace s)"
  using reach_inv [of "Some s"] by (auto simp: tcp_inv_def clean_def)

theorem tcp_pcb_contract_witness:
  "legal_trace (\<lambda>_. pcb_none)
     [Tcp_new (Some 5), Tcp_keepalive (Some 5), Tcp_err (Some 5) True, Tcp_arg (Some 5) (Some 0)]"
  using tcp_pcb_contract [OF reach_opened] by (simp only: sample_opened_slot)

text \<open>
  C31.  In every reachable state each slot is in order: a free slot holds no PCB, no reference and
  no byte; a slot that is bound, connecting, listening, connected or closed by its peer owns a PCB
  whose callbacks lead back to this slot; one in error owns none; the received bytes stay within
  the buffer; and the count of references is never negative, and zero once the slot is closing.
\<close>

theorem tcp_slots_in_order:
  "tcp_reach (Some s) \<Longrightarrow> i < MAX_SOCKETS \<Longrightarrow>
   (case sk_state (sock s i) of
      Sock_unallocated \<Rightarrow> sk_tpcb (sock s i) = None \<and> ts_refcount s ! i = 0 \<and> sk_rx_len (sock s i) = 0
    | Sock_allocated \<Rightarrow> True
    | Sock_error \<Rightarrow> sk_tpcb (sock s i) = None
    | Sock_closing \<Rightarrow> ts_refcount s ! i = 0
    | _ \<Rightarrow> (\<exists>p. sk_tpcb (sock s i) = Some p \<and> pv_life (view s p) = Pcb_owned \<and> pv_arg (view s p) = Some i)) \<and>
   0 \<le> ts_refcount s ! i \<and> sk_rx_head (sock s i) < SOCKET_BUF_SIZE \<and> sk_rx_len (sock s i) \<le> SOCKET_BUF_SIZE"
  using reach_inv [of "Some s"] inv_slot [of s i]
  by (cases "sk_state (sock s i)") (auto simp: slot_ok_def owned_by_def ring_ok_def word_less_nat_alt word_le_nat_alt)

theorem tcp_slots_in_order_witness:
  "0 \<le> ts_refcount sample_opened ! 0 \<and> sk_rx_head (sock sample_opened 0) < SOCKET_BUF_SIZE"
  using tcp_slots_in_order [OF reach_opened, of 0] by simp

text \<open>
  C32.  A connection waiting in a backlog is in exactly one place of one backlog, is a slot that
  is connected, closed by its peer or in error, and is referred to by no descriptor; so no
  connection is accepted twice and none is accepted that the application already holds.
\<close>

theorem tcp_backlog_exclusive:
  "tcp_reach (Some s) \<Longrightarrow> l < MAX_SOCKETS \<Longrightarrow> int i \<in> set (backlog (sock s l)) \<Longrightarrow>
   sk_state (sock s l) = Sock_listening \<and> distinct (backlog (sock s l)) \<and> ts_refcount s ! i = 0 \<and>
   sk_state (sock s i) \<in> {Sock_connected, Sock_closed_by_peer, Sock_error} \<and>
   (\<forall>m < MAX_SOCKETS. int i \<in> set (backlog (sock s m)) \<longrightarrow> m = l)"
proof -
  assume a: "tcp_reach (Some s)" "l < MAX_SOCKETS" "int i \<in> set (backlog (sock s l))"
  then have inv: "tcp_inv s" using reach_inv [of "Some s"] by simp
  then have q: "queues_ok s" by (simp add: tcp_inv_def)
  have "sk_state (sock s l) = Sock_listening" using inv_slot [OF inv a(2)] a(3) by (auto simp: slot_ok_def)
  moreover have "queued_ok s i" using queuesD(2) [OF q a(2,3)] by auto
  moreover have "m = l" if "m < MAX_SOCKETS" "int i \<in> set (backlog (sock s m))" for m
    using queuesD(3) [OF q a(2) that(1)] that(2) a(3) by blast
  ultimately show ?thesis using queuesD(1) [OF q a(2)] by (simp add: queued_ok_def)
qed

text \<open>The socket listens and lwIP hands over a connection, which goes to slot 1.\<close>

definition sample_listening :: tcp where
  "sample_listening = snd (tcp_socket_listen 0 5 (Some 6) sample_opened)"

lemma sample_opened_sizes:
  "length (ts_sockets sample_opened) = MAX_SOCKETS" "length (ts_refcount sample_opened) = MAX_SOCKETS"
  "j \<noteq> 0 \<Longrightarrow> j < MAX_SOCKETS \<Longrightarrow> sock sample_opened j = socket_zero"
proof -
  have inv: "tcp_inv sample_opened" using reach_inv [OF reach_opened] by simp
  then show "length (ts_sockets sample_opened) = MAX_SOCKETS" "length (ts_refcount sample_opened) = MAX_SOCKETS"
    by simp_all
  assume j: "j \<noteq> 0" "j < MAX_SOCKETS"
  have f: "find (\<lambda>i. sk_state (sock tcp_zero i) = Sock_unallocated) [0..<MAX_SOCKETS] = Some 0"
    by (intro find_first) (simp_all add: sock_zero, simp add: socket_zero_def)
  have "sock sample_allocated j = socket_zero"
    unfolding sample_allocated_def socket_allocate_def f option.case snd_conv
    using j zero_slots by (simp add: socket_set_state_def socket_clear_def Let_def sock_on_sock sock_zero)
  then show "sock sample_opened j = socket_zero"
    using j by (simp add: sample_opened_def tcp_socket_init_def socket_lookup_def tcp_index_valid_def
      sample_allocated_slot Let_def on_sock_lw sock_on_sock)
qed

lemma reach_listening: "tcp_reach (Some sample_listening)"
proof (rule reach_app [OF reach_opened, of "Call_listen 0 5 (Some 6)"])
  show "call_ok sample_opened (Call_listen 0 5 (Some 6))"
    by (simp add: has_pcb_def absent_def sample_opened_slot socket_lookup_def tcp_index_valid_def view_def pcb_none_def)
qed (simp add: sample_listening_def)

lemma sample_listening_slot:
  "sk_state (sock sample_listening 0) = Sock_listening" "backlog (sock sample_listening 0) = []"
  "0 < j \<Longrightarrow> j < MAX_SOCKETS \<Longrightarrow> sock sample_listening j = socket_zero"
  "pv_life (view sample_listening 7) = Pcb_absent"
proof -
  have al: "tcp_listen_allowed (sk_state (sock sample_opened 0))"
    "tcp_state_transition_allowed Sock_allocated Sock_listening"
    by (simp_all add: sample_opened_slot tcp_listen_allowed_def tcp_state_transition_allowed_def)
  have q: "backlog (sock sample_opened 0) = []"
    using inv_slot [of sample_opened 0] reach_inv [OF reach_opened] by (simp add: slot_ok_def sample_opened_slot)
  have eq: "sample_listening = lw (Tcp_accept (Some 6)) (on_sock 0 (\<lambda>k. k\<lparr>sk_tpcb := Some 6, sk_state := Sock_listening\<rparr>)
      (lw (Tcp_listen (Some 5) (tcp_listen_backlog 5) (Some 6)) sample_opened))"
    using al unfolding sample_listening_def tcp_socket_listen_def
    by (simp add: socket_lookup_def tcp_index_valid_def Let_def socket_set_state_def sample_opened_slot
        sample_opened_sizes sock_on_sock on_sock_on_sock comp_def)
  show "sk_state (sock sample_listening 0) = Sock_listening" "backlog (sock sample_listening 0) = []"
    "0 < j \<Longrightarrow> j < MAX_SOCKETS \<Longrightarrow> sock sample_listening j = socket_zero"
    unfolding eq using q by (simp_all add: sock_on_sock sample_opened_sizes)
  show "pv_life (view sample_listening 7) = Pcb_absent"
    unfolding eq by (simp add: view_def sample_opened_slot pcb_none_def pcb_fresh_def)
qed

definition sample_queued :: tcp where
  "sample_queued = snd (tcp_socket_accept_cb (Some 0) 7 ERR_OK (lw (Lwip_gave 7) sample_listening))"

lemma sample_queued_slot:
  "fst (tcp_socket_accept_cb (Some 0) 7 ERR_OK (lw (Lwip_gave 7) sample_listening)) = ERR_OK"
  "backlog (sock sample_queued 0) = [1]"
proof -
  let ?s = "lw (Lwip_gave 7) sample_listening"
  have inv: "tcp_inv sample_listening" using reach_inv [OF reach_listening] by simp
  have i1: "tcp_inv ?s"
    by (intro inv_lw_unowned [OF inv, of _ 7]) (simp_all add: sample_listening_slot pcb_fresh_def)
  have "find (\<lambda>i. sk_state (sock ?s i) = Sock_unallocated) [0..<MAX_SOCKETS] = Some 1"
    by (simp add: upt_conv_Cons sample_listening_slot) (simp add: socket_zero_def)
  then have r: "fst (socket_allocate ?s) = 1" by (simp add: socket_allocate_def)
  obtain s1 where a: "socket_allocate ?s = (1, s1)" using r by (cases "socket_allocate ?s") simp
  have s1: "tcp_inv s1" "sk_state (sock s1 1) = Sock_allocated" "sk_tpcb (sock s1 1) = None"
    "ts_refcount s1 ! 1 = 0" "view s1 = view ?s" "\<And>j. j \<noteq> 1 \<Longrightarrow> sock s1 j = sock ?s j"
    using allocate_ok [OF i1 a] by auto
  have one: "1 < MAX_SOCKETS" by simp
  have fresh: "view s1 7 = pcb_fresh" using s1(5) by simp
  note ad = adopt_ok [OF s1(1) one s1(2-4) fresh]
  let ?t = "adopt 1 7 s1"
  let ?q = "sk_accept_queue (sock ?t 0)"
  have t0: "sock ?t 0 = sock sample_listening 0" using ad(5) s1(6) by simp
  have len: "0 < length (ts_sockets ?t)" using ad(1) by simp
  have q: "queue_ok (sock sample_listening 0)" using inv_slot [OF inv, of 0] by (simp add: slot_ok_def)
  have "aq_head ?q = aq_tail ?q"
    using sample_listening_slot(2) q unfolding t0 backlog_def queue_ok_def Let_def by simp presburger
  then have "tcp_backlog_push (aq_pending ?q) 10 (aq_head ?q) (aq_tail ?q) 1 \<noteq> None"
    using q unfolding t0 tcp_backlog_push_def queue_ok_def Let_def by simp presburger
  then obtain ps h where p: "tcp_backlog_push (aq_pending ?q) 10 (aq_head ?q) (aq_tail ?q) 1 = Some (ps, h)"
    by (cases "tcp_backlog_push (aq_pending ?q) 10 (aq_head ?q) (aq_tail ?q) 1") auto
  have cb: "tcp_socket_accept_cb (Some 0) 7 ERR_OK ?s =
      (SOCK_SUCC, on_sock 0 (\<lambda>k. k\<lparr>sk_accept_queue := (sk_accept_queue k)
     \<lparr>aq_accept_sem := socket_wake (aq_accept_sem (sk_accept_queue k))\<rparr>\<rparr>) (on_sock 0 (with_head ps h) ?t))"
    using p unfolding tcp_socket_accept_cb_def adopt_def
    by (simp add: Let_def a tcp_accept_allowed_def sample_listening_slot)
  have "backlog (with_head ps h (sock ?t 0)) = [1]"
    using backlog_push(1) [of "sock ?t 0"] q p sample_listening_slot(2) unfolding t0 by simp
  moreover have "backlog (sock (on_sock 0 (\<lambda>k. k\<lparr>sk_accept_queue := (sk_accept_queue k)
     \<lparr>aq_accept_sem := socket_wake (aq_accept_sem (sk_accept_queue k))\<rparr>\<rparr>) (on_sock 0 (with_head ps h) ?t)) 0)
     = backlog (with_head ps h (sock ?t 0))"
    using len by (simp add: sock_on_sock backlog_def Let_def)
  ultimately show "fst (tcp_socket_accept_cb (Some 0) 7 ERR_OK ?s) = ERR_OK" "backlog (sock sample_queued 0) = [1]"
    unfolding sample_queued_def cb fst_conv snd_conv by (rule_tac [2] trans) simp_all
qed

lemma reach_queued: "tcp_reach (Some sample_queued)"
proof (rule reach_lwip [OF reach_listening, of "Ev_accept (Some 0) 7 ERR_OK"])
  show "lwip_serve (Ev_accept (Some 0) 7 ERR_OK) sample_listening = Some sample_queued"
    using sample_queued_slot(1) unfolding sample_queued_def
    by (cases "tcp_socket_accept_cb (Some 0) 7 ERR_OK (lw (Lwip_gave 7) sample_listening)") simp
qed (simp add: sample_listening_slot)

theorem tcp_backlog_exclusive_witness:
  "ts_refcount sample_queued ! 1 = 0 \<and> distinct (backlog (sock sample_queued 0))"
  using tcp_backlog_exclusive [OF reach_queued, of 0 1] by (simp add: sample_queued_slot)

section \<open>One socket's calls leave the others alone\<close>

text \<open>The slot a call names.\<close>

fun call_slot :: "tcp_call \<Rightarrow> int" where
  "call_slot Call_allocate = -1"
| "call_slot (Call_init index p) = index"
| "call_slot (Call_connect index a n nb e) = index"
| "call_slot (Resume_connect i) = int i"
| "call_slot (Call_close close index) = index"
| "call_slot (Call_dup index) = index"
| "call_slot (Call_write index len nb sb we oe) = index"
| "call_slot (Resume_write i len sb we oe) = int i"
| "call_slot (Call_recv index len nb) = index"
| "call_slot (Call_listen index b q) = index"
| "call_slot (Call_accept index nb) = index"
| "call_slot (Resume_accept l) = int l"
| "call_slot (Call_bind index a n ifs e) = index"
| "call_slot (Call_getsockname index nm) = index"
| "call_slot (Call_getpeername index nm) = index"

definition same_slot :: "nat \<Rightarrow> tcp \<Rightarrow> tcp \<Rightarrow> bool" where
  "same_slot j s s' \<longleftrightarrow> sock s' j = sock s j \<and> ts_refcount s' ! j = ts_refcount s ! j"

lemma same_slotI [simp]:
  "same_slot j s s" "same_slot j s (lw e s') = same_slot j s s'"
  "i \<noteq> j \<Longrightarrow> same_slot j s (on_sock i f s') = same_slot j s s'"
  "i \<noteq> j \<Longrightarrow> same_slot j s (set_refs i n s') = same_slot j s s'"
  "i \<noteq> j \<Longrightarrow> same_slot j s (socket_set_state i st s') = same_slot j s s'"
  "i \<noteq> j \<Longrightarrow> same_slot j s (socket_release i s') = same_slot j s s'"
  "same_slot j s (socket_close_pcb close p s') = same_slot j s s'"
  by (simp_all add: same_slot_def sock_def on_sock_def lw_def set_refs_def socket_set_state_def
      socket_release_def socket_clear_def socket_close_pcb_def socket_detach_pcb_def Let_def)

lemma same_slot_fold [simp]:
  "same_slot j s (fold (\<lambda>c. lw (Tcp_recved p c)) cs s') = same_slot j s s'"
  by (induction cs arbitrary: s') simp_all

lemma same_slot_trans: "same_slot j s s' \<Longrightarrow> same_slot j s' s'' \<Longrightarrow> same_slot j s s''"
  by (simp add: same_slot_def)

lemma same_slot_steps [simp]:
  "i \<noteq> j \<Longrightarrow> same_slot j s (snd (connect_wait i s')) = same_slot j s s'"
  "i \<noteq> j \<Longrightarrow> same_slot j s (snd (write_out i len sb we oe s')) = same_slot j s s'"
  "i \<noteq> j \<Longrightarrow> same_slot j s (snd (write_wait i len sb we oe s')) = same_slot j s s'"
  by (simp_all add: connect_wait_def write_out_def write_wait_def Let_def)

definition unqueued_slot :: "tcp \<Rightarrow> nat \<Rightarrow> bool" where
  "unqueued_slot s j \<longleftrightarrow> (\<forall>l \<in> {0..<MAX_SOCKETS}. int j \<notin> set (backlog (sock s l)))"

lemma unqueued_slotD: "unqueued_slot s j \<Longrightarrow> l < MAX_SOCKETS \<Longrightarrow> int j \<notin> set (backlog (sock s l))"
  by (simp add: unqueued_slot_def)

lemma claim_other:
  assumes "tcp_inv s" "l < MAX_SOCKETS" "l \<noteq> j" "unqueued_slot s j"
  shows "same_slot j s (snd (accept_claim l s))"
proof -
  let ?q = "sk_accept_queue (sock s l)"
  show ?thesis
  proof (cases "tcp_backlog_pop (aq_pending ?q) 10 (aq_head ?q) (aq_tail ?q)")
    case None
    then show ?thesis by (simp add: accept_claim_def)
  next
    case (Some et)
    obtain e t where et: "et = (e, t)" by (cases et)
    have "queue_ok (sock s l)" using inv_slot [OF assms(1,2)] by (simp add: slot_ok_def)
    then have "e \<noteq> int j"
      using backlog_pop_Some(1) Some et unqueued_slotD [OF assms(4,2)] by fastforce
    then show ?thesis using assms(3) Some et by (auto simp: accept_claim_def Let_def split: option.splits)
  qed
qed

lemma close_int_other:
  assumes "tcp_inv s" "i < MAX_SOCKETS" "j < MAX_SOCKETS" "i \<noteq> j" "unqueued_slot s j"
    "tcp_socket_close_int close i s = Some (r, s')"
  shows "same_slot j s s'"
proof (cases "sk_state (sock s i) = Sock_listening")
  case True
  from drain_ok [OF assms(1,2) True] obtain s1 where d: "socket_drain_backlog close i s = Some s1"
    "\<forall>m < MAX_SOCKETS. m \<noteq> i \<and> int m \<notin> set (backlog (sock s i)) \<longrightarrow>
       sock s1 m = sock s m \<and> ts_refcount s1 ! m = ts_refcount s ! m" by blast
  then have "same_slot j s s1" using assms(3,4) unqueued_slotD [OF assms(5,2)] by (simp add: same_slot_def)
  then show ?thesis using assms(4,6) True d(1) by (auto simp: tcp_socket_close_int_def Let_def)
next
  case False
  then show ?thesis
    using assms(4,6) by (auto simp: tcp_socket_close_int_def Let_def split: tcp_close_action_t.splits)
qed

lemma close_other:
  assumes "tcp_inv s" "call_ok s (Call_close close index)" "j < MAX_SOCKETS" "index \<noteq> int j" "unqueued_slot s j"
    "tcp_socket_close close index s = Some (r, s')"
  shows "same_slot j s s'"
proof (cases "socket_lookup index")
  case None
  then show ?thesis using assms(6) unfolding tcp_socket_close_def None option.case by simp
next
  case (Some i)
  then have i: "index = int i" "i < MAX_SOCKETS" "i \<noteq> j" using assms(4) by auto
  have l: "i < length (ts_refcount s)" using assms(1) i by simp
  note ints = close_int_other [OF _ i(2) assms(3) i(3)]
  show ?thesis
  proof (cases "0 < ts_refcount s ! i")
    case True
    note held = inv_ref_held [OF assms(1) i(2) True]
    have inv: "tcp_inv (set_refs i 0 s)"
      using held by (intro inv_set_refs assms(1) i(2)) auto
    have u: "unqueued_slot (set_refs i 0 s) j" using assms(5) by (simp add: unqueued_slot_def)
    show ?thesis
      using assms(6) i True ints [OF inv u, of close r s']
      by (auto simp: tcp_socket_close_def tcp_ref_release_def Let_def same_slot_def split: if_splits)
  next
    case False
    then have "ts_refcount s ! i = 0" using inv_slot [OF assms(1) i(2)] by (simp add: slot_ok_def)
    then show ?thesis
      using assms(6) i ints [OF assms(1,5), of close r s'] set_refs_same [of i s]
      by (auto simp: tcp_socket_close_def tcp_ref_release_def Let_def split: if_splits)
  qed
qed

lemma calls_isolated:
  "tcp_reach (Some s) \<Longrightarrow> call_ok s c \<Longrightarrow> tcp_serve c s = Some s' \<Longrightarrow> j < MAX_SOCKETS \<Longrightarrow>
   call_slot c \<noteq> int j \<Longrightarrow> sk_state (sock s j) \<noteq> Sock_unallocated \<Longrightarrow> unqueued_slot s j \<Longrightarrow>
   sock s' j = sock s j \<and> ts_refcount s' ! j = ts_refcount s ! j"
proof -
  assume a: "tcp_reach (Some s)" "call_ok s c" "tcp_serve c s = Some s'" "j < MAX_SOCKETS"
    "call_slot c \<noteq> int j" "sk_state (sock s j) \<noteq> Sock_unallocated" "unqueued_slot s j"
  have inv: "tcp_inv s" using reach_inv [OF a(1)] by simp
  have "same_slot j s s'"
  proof (cases c)
    case Call_allocate
    obtain r s1 where "socket_allocate s = (r, s1)" by (cases "socket_allocate s")
    with allocate_ok [OF inv this] a(3,6) show ?thesis
      by (auto simp: Call_allocate same_slot_def) metis
  next
    case (Call_close close index)
    then obtain r where "tcp_socket_close close index s = Some (r, s')" using a(3) by auto
    then show ?thesis using close_other [OF inv _ a(4) _ a(7)] a(2,5) Call_close by auto
  next
    case (Resume_accept l)
    then show ?thesis using a claim_other [OF inv, of l j] by auto
  next
    case (Call_accept index nb)
    then show ?thesis
      using a claim_other [OF inv, of _ j]
      by (auto simp: tcp_socket_accept_def Let_def split: option.splits if_splits)
  next
    case (Call_recv index len nb)
    then show ?thesis
      using a(3,5)
      by (auto simp: tcp_socket_recv_def Let_def split: option.splits tcp_recv_gate_t.splits prod.splits)
  qed (use a(3,5) in \<open>auto simp: tcp_socket_init_def tcp_socket_connect_def tcp_socket_dup_def tcp_socket_write_def
      tcp_socket_listen_def tcp_socket_bind_def tcp_socket_getsockname_def tcp_socket_getpeername_def Let_def
      split: option.splits if_splits prod.splits tcp_connect_gate_t.splits tcp_write_gate_t.splits\<close>)
  then show ?thesis by (simp add: same_slot_def)
qed

text \<open>
  C11.  Isolation: whatever an application asks of one descriptor leaves every other live socket
  exactly as it was, its state, its PCB, its unread bytes, its queue and its references.  The
  slots that may change besides the one named are a free one being opened and the connections
  waiting in a backlog.
\<close>

theorem tcp_calls_isolated:
  "tcp_reach (Some s) \<Longrightarrow> call_ok s c \<Longrightarrow> tcp_serve c s = Some s' \<Longrightarrow> j < MAX_SOCKETS \<Longrightarrow>
   call_slot c \<noteq> int j \<Longrightarrow> sk_state (sock s j) \<noteq> Sock_unallocated \<Longrightarrow> unqueued_slot s j \<Longrightarrow>
   sock s' j = sock s j \<and> ts_refcount s' ! j = ts_refcount s ! j"
  by (rule calls_isolated)

lemma unqueued_slotI: "tcp_inv s \<Longrightarrow> \<not> queued_ok s j \<Longrightarrow> unqueued_slot s j"
  by (simp add: unqueued_slot_def inv_unqueued)

theorem tcp_calls_isolated_witness:
  "sock (snd (socket_allocate sample_opened)) 0 = sock sample_opened 0"
  using tcp_calls_isolated [OF reach_opened, of Call_allocate "snd (socket_allocate sample_opened)" 0]
    unqueued_slotI [of sample_opened 0] reach_inv [OF reach_opened]
  by (simp add: sample_opened_slot queued_ok_def)

text \<open>
  C33.  A socket that is closing can leave that state only through a callback of lwIP: no call of
  the application, on that descriptor or on another, frees the slot or moves it on.
\<close>

theorem tcp_closing_needs_lwip:
  "tcp_reach (Some s) \<Longrightarrow> call_ok s c \<Longrightarrow> tcp_serve c s = Some s' \<Longrightarrow> j < MAX_SOCKETS \<Longrightarrow>
   sk_state (sock s j) = Sock_closing \<Longrightarrow> sk_state (sock s' j) = Sock_closing"
proof -
  assume a: "tcp_reach (Some s)" "call_ok s c" "tcp_serve c s = Some s'" "j < MAX_SOCKETS"
    "sk_state (sock s j) = Sock_closing"
  have inv: "tcp_inv s" using reach_inv [OF a(1)] by simp
  show ?thesis
  proof (cases "call_slot c = int j")
    case False
    have "unqueued_slot s j" using inv a(5) by (intro unqueued_slotI) (auto simp: queued_ok_def)
    then show ?thesis using calls_isolated [OF a(1-4) False] a(5) by simp
  next
    case True
    note so = inv_slot [OF inv a(4)]
    then have r: "ts_refcount s ! j = 0" "backlog (sock s j) = []" "queue_ok (sock s j)"
      using a(5) by (simp_all add: slot_ok_def)
    then have "accept_claim j s = (Return (- ENOMEM), s)"
      using backlog_pop_None [OF r(3)] by (simp add: accept_claim_def)
    then show ?thesis
      using True a(3,4,5) r(1) set_refs_same [of j s]
      by (cases c) (auto simp: tcp_socket_init_def tcp_socket_connect_def tcp_socket_dup_def tcp_socket_write_def
        tcp_socket_listen_def tcp_socket_bind_def tcp_socket_getsockname_def tcp_socket_getpeername_def
        tcp_socket_recv_def tcp_socket_accept_def connect_wait_def write_wait_def tcp_write_gate_def
        tcp_recv_gate_def tcp_listen_allowed_def tcp_accept_allowed_def tcp_bind_allowed_def
        tcp_ref_acquire_def tcp_ref_release_def tcp_socket_close_def tcp_socket_close_int_def)
  qed
qed

text \<open>The listening socket, closed.\<close>

definition sample_closing :: tcp where
  "sample_closing = the (tcp_serve (Call_close (\<lambda>_. ERR_OK) 0) sample_listening)"

lemma sample_closing_slot:
  "tcp_serve (Call_close (\<lambda>_. ERR_OK) 0) sample_listening = Some sample_closing"
  "sk_state (sock sample_closing 0) = Sock_closing"
proof -
  have inv: "tcp_inv sample_listening" using reach_inv [OF reach_listening] by simp
  have r: "ts_refcount sample_listening ! 0 = 1"
    by (simp add: sample_listening_def tcp_socket_listen_def socket_lookup_def tcp_index_valid_def
        Let_def socket_set_state_def sample_opened_slot tcp_listen_allowed_def)
  have l: "tcp_ref_release (ts_refcount sample_listening ! 0) = (Ref_last, 0)" unfolding r by (simp add: tcp_ref_release_def)
  let ?s = "set_refs 0 0 sample_listening"
  have "tcp_inv ?s"
    using inv by (intro inv_set_refs) (auto simp: sample_listening_slot)
  moreover have st: "sk_state (sock ?s 0) = Sock_listening" by (simp add: sample_listening_slot)
  ultimately obtain s1 where d: "socket_drain_backlog (\<lambda>_. ERR_OK) 0 ?s = Some s1" "tcp_inv s1"
    using drain_ok [of ?s 0 "\<lambda>_. ERR_OK"] by auto
  let ?t = "lw (Tcp_close (sk_tpcb (sock (socket_set_state 0 Sock_closing s1) 0)) ERR_OK)
    (socket_set_state 0 Sock_closing s1)"
  have "tcp_serve (Call_close (\<lambda>_. ERR_OK) 0) sample_listening = Some ?t"
    using l st d(1) by (simp add: tcp_socket_close_def tcp_socket_close_int_def socket_lookup_def
        tcp_index_valid_def Let_def sample_listening_slot)
  moreover have "sk_state (sock ?t 0) = Sock_closing"
    using d(2) by (simp add: socket_set_state_def sock_on_sock)
  ultimately show "tcp_serve (Call_close (\<lambda>_. ERR_OK) 0) sample_listening = Some sample_closing"
    "sk_state (sock sample_closing 0) = Sock_closing"
    unfolding sample_closing_def by (simp_all del: tcp_serve.simps)
qed

lemma reach_closing: "tcp_reach (Some sample_closing)"
  by (rule reach_app [OF reach_listening _ sample_closing_slot(1)])
    (simp add: socket_lookup_def tcp_index_valid_def sample_listening_def tcp_socket_listen_def
      Let_def socket_set_state_def sample_opened_slot tcp_listen_allowed_def)

theorem tcp_closing_needs_lwip_witness:
  "sk_state (sock (snd (tcp_socket_dup 0 sample_closing)) 0) = Sock_closing"
  by (rule tcp_closing_needs_lwip [OF reach_closing, of "Call_dup 0"]) (simp_all add: sample_closing_slot)

section \<open>References, errors and bad descriptors\<close>

lemma set_refs_set_refs [simp]: "set_refs i m (set_refs i n s) = set_refs i m s"
  by (simp add: set_refs_def)

lemma dups:
  "i < MAX_SOCKETS \<Longrightarrow> i < length (ts_refcount s) \<Longrightarrow> 0 < ts_refcount s ! i \<Longrightarrow>
   ((\<lambda>s. snd (tcp_socket_dup (int i) s)) ^^ n) s = set_refs i (ts_refcount s ! i + int n) s"
  by (induction n) (simp_all add: tcp_socket_dup_def tcp_ref_acquire_def algebra_simps)

lemma closes:
  "i < MAX_SOCKETS \<Longrightarrow> i < length (ts_refcount s) \<Longrightarrow> int n < ts_refcount s ! i \<Longrightarrow>
   ((\<lambda>r. Option.bind r (\<lambda>(_, s). tcp_socket_close close (int i) s)) ^^ n) (Some (SOCK_SUCC, s)) =
     Some (SOCK_SUCC, set_refs i (ts_refcount s ! i - int n) s)"
proof (induction n)
  case (Suc n)
  then show ?case by (simp add: tcp_socket_close_def tcp_ref_release_def Let_def algebra_simps)
qed simp

text \<open>
  Descriptors balance: a socket duplicated any number of times and closed as often is
  exactly the socket it was, every one of those closes answering success and none of them reaching
  lwIP; only a further close tears it down.
\<close>

theorem tcp_dup_close_balanced:
  "i < MAX_SOCKETS \<Longrightarrow> length (ts_refcount s) = MAX_SOCKETS \<Longrightarrow> 0 < ts_refcount s ! i \<Longrightarrow>
   ((\<lambda>r. Option.bind r (\<lambda>(_, s). tcp_socket_close close (int i) s)) ^^ n)
     (Some (SOCK_SUCC, ((\<lambda>s. snd (tcp_socket_dup (int i) s)) ^^ n) s)) = Some (SOCK_SUCC, s)"
proof -
  assume a: "i < MAX_SOCKETS" "length (ts_refcount s) = MAX_SOCKETS" "0 < ts_refcount s ! i"
  let ?s = "set_refs i (ts_refcount s ! i + int n) s"
  have "ts_refcount ?s ! i = ts_refcount s ! i + int n" using a by simp
  then show ?thesis
    using a closes [of i ?s n close] dups [of i s n] by simp
qed

theorem tcp_dup_close_balanced_witness:
  "Option.bind (tcp_socket_close (\<lambda>_. ERR_OK) 0 (snd (tcp_socket_dup 0 (snd (tcp_socket_dup 0 sample_opened)))))
     (\<lambda>(_, s). tcp_socket_close (\<lambda>_. ERR_OK) 0 s) = Some (SOCK_SUCC, sample_opened)"
  using tcp_dup_close_balanced [where i = 0 and s = sample_opened and close = "\<lambda>_. ERR_OK" and n = 2]
  by (simp add: sample_opened_sizes sample_opened_slot numeral_2_eq_2)

text \<open>
  An error lwIP reports is never lost: its errno is positive for every code but
  \<open>ERR_OK\<close>, inside the table or not, so no failed call is answered with success.
\<close>

theorem lwip_errors_reported:
  "lwip_errno ERR_OK = 0 \<and> (err \<noteq> ERR_OK \<longrightarrow> 0 < lwip_errno err)"
proof -
  have t: "list_all (\<lambda>e. 0 \<le> e) lwip_err_to_errno" by (simp add: lwip_err_to_errno_def)
  have "0 \<le> lwip_err_to_errno ! nat (- err)" if "tcp_lwip_err_in_table err (int (length lwip_err_to_errno))"
    using that t unfolding tcp_lwip_err_in_table_def list_all_length by (simp add: nat_less_iff)
  then show ?thesis unfolding lwip_errno_def Let_def by simp (metis order_le_less)
qed

theorem lwip_errors_reported_witness: "0 < lwip_errno (-13)"
  using lwip_errors_reported [of "-13"] by simp

text \<open>
  A descriptor outside the table is refused by every operation, and nothing is touched.
\<close>

theorem tcp_bad_index:
  "index < 0 \<or> 10 \<le> index \<Longrightarrow>
   tcp_socket_init index p s = (- EBADF, s) \<and>
   tcp_socket_connect index a n nb e s = (Return (- EBADF), s) \<and>
   tcp_socket_close close index s = Some (- EBADF, s) \<and>
   tcp_socket_dup index s = (- EBADF, s) \<and>
   tcp_socket_write index len nb sb we oe s = (Return (- EBADF), s) \<and>
   tcp_socket_recv index len nb s = (Return (- EBADF), [], s) \<and>
   tcp_socket_listen index bl p s = (- EBADF, s) \<and>
   tcp_socket_accept index nb s = (Return (- EBADF), s) \<and>
   tcp_socket_bind index a n ifs e s = (- EBADF, s) \<and>
   tcp_socket_readable index s = 0 \<and> \<not> tcp_socket_writable index free s \<and>
   \<not> tcp_socket_hup index s \<and> tcp_socket_err index s = 0"
proof -
  assume "index < 0 \<or> 10 \<le> index"
  then have "socket_lookup index = None" by simp
  then show ?thesis
    by (simp add: tcp_socket_init_def tcp_socket_connect_def tcp_socket_close_def tcp_socket_dup_def
        tcp_socket_write_def tcp_socket_recv_def tcp_socket_listen_def tcp_socket_accept_def tcp_socket_bind_def
        tcp_socket_readable_def tcp_socket_writable_def tcp_socket_hup_def tcp_socket_err_def
        del: socket_lookup_None)
qed

theorem tcp_bad_index_witness:
  "tcp_socket_dup 10 tcp_zero = (- EBADF, tcp_zero)"
  using tcp_bad_index [of 10] by simp

end
