(* ===== verification/Restart_Layout.thy ===== *)
theory Restart_Layout
  imports Abi
begin

text \<open>
  The address layout of the BEAM's warm restart: \<open>src/src/pd/beam/restart/beam_restart_layout.h\<close>.
  A \<open>uintptr_t\<close> and a \<open>size_t\<close> are 64-bit words here, since what the header is about is that no
  address wraps; \<open>ckd_add\<close> is a comparison of the exact sum with the width.
\<close>

record beam_restart_layout =
  ly_snapshot_base :: u64
  ly_snapshot_size :: u64
  ly_data_off :: u64
  ly_segment_start :: u64
  ly_bss_start :: u64
  ly_bss_end :: u64
  ly_exit_fault_base :: u64
  ly_exit_fault_size :: u64

datatype beam_restart_layout_status =
    Layout_ok
  | Layout_zero_base
  | Layout_range_wraps
  | Layout_segment_order
  | Layout_bss_too_large
  | Layout_data_overflow
  | Layout_snapshot_overlaps_segment
  | Layout_exit_fault_overlaps

definition beam_range_fits :: "u64 \<Rightarrow> u64 \<Rightarrow> bool" where
  "beam_range_fits start sz \<longleftrightarrow> \<not> 2 ^ 64 \<le> unat start + unat sz"

definition beam_ranges_overlap :: "u64 \<Rightarrow> u64 \<Rightarrow> u64 \<Rightarrow> u64 \<Rightarrow> bool" where
  "beam_ranges_overlap a a_size b b_size \<longleftrightarrow>
     a_size \<noteq> 0 \<and> b_size \<noteq> 0 \<and> a < b + b_size \<and> b < a + a_size"

definition beam_range_holds_stack_top :: "u64 \<Rightarrow> u64 \<Rightarrow> u64 \<Rightarrow> bool" where
  "beam_range_holds_stack_top start sz sp \<longleftrightarrow> sp > start \<and> sp - start \<le> sz"

definition beam_restart_layout_check :: "beam_restart_layout \<Rightarrow> beam_restart_layout_status" where
  "beam_restart_layout_check ly =
     (if ly_snapshot_base ly = 0 then Layout_zero_base
      else if \<not> beam_range_fits (ly_snapshot_base ly) (ly_snapshot_size ly) \<or>
              \<not> beam_range_fits (ly_exit_fault_base ly) (ly_exit_fault_size ly)
      then Layout_range_wraps
      else if ly_segment_start ly > ly_bss_start ly \<or> ly_bss_start ly > ly_bss_end ly
      then Layout_segment_order
      else if ly_bss_end ly - ly_bss_start ly > ucast UINT32_MAX then Layout_bss_too_large
      else if ly_data_off ly > ly_snapshot_size ly \<or>
              ly_bss_start ly - ly_segment_start ly > ly_snapshot_size ly - ly_data_off ly
      then Layout_data_overflow
      else
        let segment_size = ly_bss_end ly - ly_segment_start ly
        in if beam_ranges_overlap (ly_snapshot_base ly) (ly_snapshot_size ly) (ly_segment_start ly) segment_size
           then Layout_snapshot_overlaps_segment
           else if beam_ranges_overlap (ly_exit_fault_base ly) (ly_exit_fault_size ly)
                     (ly_snapshot_base ly) (ly_snapshot_size ly) \<or>
                   beam_ranges_overlap (ly_exit_fault_base ly) (ly_exit_fault_size ly)
                     (ly_segment_start ly) segment_size
           then Layout_exit_fault_overlaps
           else Layout_ok)"

fun beam_restart_layout_status_name :: "beam_restart_layout_status \<Rightarrow> string" where
  "beam_restart_layout_status_name Layout_ok = ''ok''"
| "beam_restart_layout_status_name Layout_zero_base = ''no-snapshot-region''"
| "beam_restart_layout_status_name Layout_range_wraps = ''range-wraps''"
| "beam_restart_layout_status_name Layout_segment_order = ''segment-order''"
| "beam_restart_layout_status_name Layout_bss_too_large = ''bss-too-large''"
| "beam_restart_layout_status_name Layout_data_overflow = ''data-area-overflow''"
| "beam_restart_layout_status_name Layout_snapshot_overlaps_segment = ''snapshot-overlaps-segment''"
| "beam_restart_layout_status_name Layout_exit_fault_overlaps = ''exit-fault-mapped''"

section \<open>The checks over exact addresses\<close>

definition span :: "u64 \<Rightarrow> nat \<Rightarrow> nat set" where
  "span start sz = {unat start ..< unat start + sz}"

lemma range_fits: "beam_range_fits start sz \<Longrightarrow> unat (start + sz) = unat start + unat sz"
  by (simp add: beam_range_fits_def unat_add_fits)

lemma spans_meet:
  fixes a n b m :: nat
  shows "{a ..< a + n} \<inter> {b ..< b + m} \<noteq> {} \<longleftrightarrow> n \<noteq> 0 \<and> m \<noteq> 0 \<and> a < b + m \<and> b < a + n"
proof
  assume "n \<noteq> 0 \<and> m \<noteq> 0 \<and> a < b + m \<and> b < a + n"
  then have "max a b \<in> {a ..< a + n} \<inter> {b ..< b + m}" by auto
  then show "{a ..< a + n} \<inter> {b ..< b + m} \<noteq> {}" by blast
qed auto

lemma ranges_overlap:
  assumes "beam_range_fits a a_size" "beam_range_fits b b_size"
  shows "beam_ranges_overlap a a_size b b_size \<longleftrightarrow>
    span a (unat a_size) \<inter> span b (unat b_size) \<noteq> {}"
  unfolding span_def spans_meet beam_ranges_overlap_def word_less_unat
    range_fits [OF assms(1)] range_fits [OF assms(2)] by (simp add: unat_eq_0)

lemma layout_check_exact:
  "beam_restart_layout_check ly = Layout_ok \<longleftrightarrow>
   (let snapshot = span (ly_snapshot_base ly) (unat (ly_snapshot_size ly));
        segment = {unat (ly_segment_start ly) ..< unat (ly_bss_end ly)};
        exit = span (ly_exit_fault_base ly) (unat (ly_exit_fault_size ly))
    in ly_snapshot_base ly \<noteq> 0 \<and>
       unat (ly_snapshot_base ly) + unat (ly_snapshot_size ly) < 2 ^ 64 \<and>
       unat (ly_exit_fault_base ly) + unat (ly_exit_fault_size ly) < 2 ^ 64 \<and>
       ly_segment_start ly \<le> ly_bss_start ly \<and> ly_bss_start ly \<le> ly_bss_end ly \<and>
       unat (ly_bss_end ly) - unat (ly_bss_start ly) < 2 ^ 32 \<and>
       unat (ly_data_off ly) + (unat (ly_bss_start ly) - unat (ly_segment_start ly)) \<le> unat (ly_snapshot_size ly) \<and>
       snapshot \<inter> segment = {} \<and> exit \<inter> snapshot = {} \<and> exit \<inter> segment = {})"
proof (cases "ly_segment_start ly \<le> ly_bss_start ly \<and> ly_bss_start ly \<le> ly_bss_end ly \<and>
    beam_range_fits (ly_snapshot_base ly) (ly_snapshot_size ly) \<and>
    beam_range_fits (ly_exit_fault_base ly) (ly_exit_fault_size ly)")
  case False
  then show ?thesis
    by (auto simp: beam_restart_layout_check_def Let_def beam_range_fits_def not_le split: if_splits)
next
  case True
  then have ord: "unat (ly_segment_start ly) \<le> unat (ly_bss_start ly)" "unat (ly_bss_start ly) \<le> unat (ly_bss_end ly)"
    and fits: "beam_range_fits (ly_snapshot_base ly) (ly_snapshot_size ly)"
      "beam_range_fits (ly_exit_fault_base ly) (ly_exit_fault_size ly)"
    by (simp_all add: word_le_unat)
  let ?seg = "ly_bss_end ly - ly_segment_start ly"
  have seg: "unat ?seg = unat (ly_bss_end ly) - unat (ly_segment_start ly)"
    using ord by (intro unat_minus_le) simp
  have fseg: "beam_range_fits (ly_segment_start ly) ?seg"
    using ord unat_lt [of "ly_bss_end ly"] unfolding beam_range_fits_def seg by simp
  have sp: "span (ly_segment_start ly) (unat ?seg) = {unat (ly_segment_start ly) ..< unat (ly_bss_end ly)}"
    using ord by (simp add: span_def seg)
  note ov = ranges_overlap [OF fits(1) fseg, unfolded sp] ranges_overlap [OF fits(2) fits(1)]
    ranges_overlap [OF fits(2) fseg, unfolded sp]
  have bss: "ly_bss_end ly - ly_bss_start ly > ucast UINT32_MAX \<longleftrightarrow> \<not> unat (ly_bss_end ly) - unat (ly_bss_start ly) < 2 ^ 32"
    using ord unfolding word_less_unat by (simp add: unat_minus_le not_less)
      (auto simp: not_less Suc_le_eq)
  have data: "ly_data_off ly > ly_snapshot_size ly \<or>
       ly_bss_start ly - ly_segment_start ly > ly_snapshot_size ly - ly_data_off ly \<longleftrightarrow>
     \<not> unat (ly_data_off ly) + (unat (ly_bss_start ly) - unat (ly_segment_start ly)) \<le> unat (ly_snapshot_size ly)"
  proof (cases "unat (ly_data_off ly) \<le> unat (ly_snapshot_size ly)")
    case True
    then show ?thesis using ord unfolding word_less_unat by (simp add: unat_minus_le) linarith
  next
    case False
    then show ?thesis unfolding word_less_unat by simp
  qed
  show ?thesis
    using True fits
    unfolding beam_restart_layout_check_def ov bss data Let_def
    by (auto simp: beam_range_fits_def not_le not_less)
qed

text \<open>
  C36.  The layout check accepts exactly the layouts that are safe to restore into: a mapped
  snapshot region and an exit-fault range that do not wrap, an ordered writable segment whose
  \<open>.bss\<close> 32-bit offsets can address and whose data fits the area kept for it, and three ranges
  of addresses no two of which share a byte.
\<close>

theorem beam_layout_check_exact:
  "beam_restart_layout_check ly = Layout_ok \<longleftrightarrow>
   (let snapshot = span (ly_snapshot_base ly) (unat (ly_snapshot_size ly));
        segment = {unat (ly_segment_start ly) ..< unat (ly_bss_end ly)};
        exit = span (ly_exit_fault_base ly) (unat (ly_exit_fault_size ly))
    in ly_snapshot_base ly \<noteq> 0 \<and>
       unat (ly_snapshot_base ly) + unat (ly_snapshot_size ly) < 2 ^ 64 \<and>
       unat (ly_exit_fault_base ly) + unat (ly_exit_fault_size ly) < 2 ^ 64 \<and>
       ly_segment_start ly \<le> ly_bss_start ly \<and> ly_bss_start ly \<le> ly_bss_end ly \<and>
       unat (ly_bss_end ly) - unat (ly_bss_start ly) < 2 ^ 32 \<and>
       unat (ly_data_off ly) + (unat (ly_bss_start ly) - unat (ly_segment_start ly)) \<le> unat (ly_snapshot_size ly) \<and>
       snapshot \<inter> segment = {} \<and> exit \<inter> snapshot = {} \<and> exit \<inter> segment = {})"
  by (rule layout_check_exact)

end
