(* ===== verification/Snapshot_Codec.thy ===== *)
theory Snapshot_Codec
  imports Restart_Layout
begin

text \<open>
  The encoding of the BEAM's warm-restart snapshot:
  \<open>src/src/pd/beam/restart/beam_snapshot_codec.h\<close> and \<open>beam_snapshot_codec.c\<close>.

  A buffer a function is given is the list of its bytes, and a \<open>size_t\<close> that counts them is a
  \<open>nat\<close>: every subtraction the code makes is guarded by the comparison before it, and the one
  sum that could pass 64 bits is checked.  The 32-bit fields of a record are words.
\<close>

section \<open>Data\<close>

definition beam_snapshot_magic :: u64 where
  "beam_snapshot_magic = 0x43485259534E5031"

record beam_snapshot_hdr =
  sn_magic :: u64
  sn_generation :: u64
  sn_saved_sp :: u64
  sn_data_bytes :: u64
  sn_survivor_bytes :: u64

record beam_survivor_hdr =
  sv_offset :: u32
  sv_len :: u32

datatype beam_snapshot_status =
    Snapshot_ok
  | Snapshot_survivor_overflow
  | Snapshot_bss_too_large
  | Snapshot_not_captured
  | Snapshot_bad_generation
  | Snapshot_data_length_mismatch
  | Snapshot_survivor_length_too_large
  | Snapshot_bad_stack_pointer
  | Snapshot_survivor_truncated
  | Snapshot_survivor_out_of_bounds
  | Snapshot_survivor_empty
  | Snapshot_survivor_misaligned
  | Snapshot_survivor_out_of_order

text \<open>A record read carries its header, its payload and the cursor past it.\<close>

datatype beam_survivor_read_status =
    Survivor_record beam_survivor_hdr "u8 list" nat
  | Survivor_end
  | Survivor_truncated
  | Survivor_out_of_bounds

abbreviation (input) word_bytes :: nat where "word_bytes \<equiv> 8"
abbreviation (input) header_bytes :: nat where "header_bytes \<equiv> 8"

definition beam_snapshot_captured :: "u64 \<Rightarrow> bool" where
  "beam_snapshot_captured magic \<longleftrightarrow> magic = beam_snapshot_magic"

definition beam_snapshot_warm :: "u64 \<Rightarrow> u64 \<Rightarrow> bool" where
  "beam_snapshot_warm magic generation \<longleftrightarrow> beam_snapshot_captured magic \<and> generation > 1"

definition beam_exit_fault_addr :: "u64 \<Rightarrow> int \<Rightarrow> u64" where
  "beam_exit_fault_addr base status = base + word_of_int (status mod 256)"

section \<open>Encoding\<close>

definition load_word :: "u8 list \<Rightarrow> nat \<Rightarrow> u64" where
  "load_word bss index = load_u64le bss (index * word_bytes)"

definition survivor_hdr_bytes :: "beam_survivor_hdr \<Rightarrow> u8 list" where
  "survivor_hdr_bytes hdr = le_bytes 4 (sv_offset hdr) @ le_bytes 4 (sv_len hdr)"

definition append_run ::
  "u8 list \<Rightarrow> nat \<Rightarrow> nat \<Rightarrow> u8 list \<Rightarrow> nat \<Rightarrow> nat \<Rightarrow> (u8 list \<times> nat) option" where
  "append_run bss offset len out cap used =
     (if cap - used < header_bytes \<or> cap - used - header_bytes < len then None
      else
        let hdr = \<lparr>sv_offset = of_nat offset, sv_len = of_nat len\<rparr>;
            out = write_list out used (survivor_hdr_bytes hdr);
            out = write_list out (used + header_bytes) (take len (drop offset bss))
        in Some (out, used + header_bytes + len))"

text \<open>The inner loop: how far the run that starts before \<open>i\<close> goes.\<close>

function extend_run :: "u8 list \<Rightarrow> nat \<Rightarrow> nat \<Rightarrow> nat \<Rightarrow> nat \<Rightarrow> nat \<times> nat" where
  "extend_run bss nwords gap_words i last_word =
     (if i < nwords \<and> i - last_word \<le> gap_words
      then extend_run bss nwords gap_words (i + 1) (if load_word bss i \<noteq> 0 then i else last_word)
      else (last_word, i))"
  by pat_completeness auto
termination extend_run
  by (relation "measure (\<lambda>(bss, nwords, gap, i, last_word). nwords - i)") auto

declare extend_run.simps [simp del]

lemma extend_run_grows: "i \<le> snd (extend_run bss nwords gap_words i last_word)"
proof (induction bss nwords gap_words i last_word rule: extend_run.induct)
  case (1 bss nwords gap_words i last_word)
  then show ?case by (subst extend_run.simps) auto
qed

text \<open>The outer loop.  The buffer and the length written so far come back on failure too.\<close>

function encode_words ::
  "u8 list \<Rightarrow> nat \<Rightarrow> nat \<Rightarrow> nat \<Rightarrow> nat \<Rightarrow> u8 list \<Rightarrow> nat \<Rightarrow> bool \<times> u8 list \<times> nat" where
  "encode_words bss nwords gap_words cap i out written =
     (if \<not> i < nwords then (True, out, written)
      else if load_word bss i = 0 then encode_words bss nwords gap_words cap (i + 1) out written
      else
        let run = extend_run bss nwords gap_words (i + 1) i
        in case append_run bss (i * word_bytes) ((fst run - i + 1) * word_bytes) out cap written of
             None \<Rightarrow> (False, out, written)
           | Some ow \<Rightarrow> encode_words bss nwords gap_words cap (snd run) (fst ow) (snd ow))"
  by pat_completeness auto
termination encode_words
proof (relation "measure (\<lambda>(bss, nwords, gap, cap, i, out, written). nwords - i)", goal_cases)
  case (3 bss nwords gap_words cap i out written run ow)
  then show ?case using extend_run_grows [of "i + 1" bss nwords gap_words i] by simp
qed auto

declare encode_words.simps [simp del]

definition beam_survivors_encode ::
  "u8 list \<Rightarrow> nat \<Rightarrow> u8 list \<Rightarrow> beam_snapshot_status \<times> u8 list \<times> nat option" where
  "beam_survivors_encode bss gap_words out =
     (if length bss > unat UINT32_MAX then (Snapshot_bss_too_large, out, None)
      else
        let nwords = length bss div word_bytes;
            cap = length out
        in case encode_words bss nwords gap_words cap 0 out 0 of
             (False, out, written) \<Rightarrow> (Snapshot_survivor_overflow, out, None)
           | (True, out, written) \<Rightarrow>
               let tail_offset = nwords * word_bytes
               in if list_ex (\<lambda>b. b \<noteq> 0) (drop tail_offset bss)
                  then (case append_run bss tail_offset (length bss - tail_offset) out cap written of
                          None \<Rightarrow> (Snapshot_survivor_overflow, out, None)
                        | Some (out, written) \<Rightarrow> (Snapshot_ok, out, Some written))
                  else (Snapshot_ok, out, Some written))"

section \<open>Reading and validating\<close>

definition beam_survivor_read :: "u8 list \<Rightarrow> nat \<Rightarrow> nat \<Rightarrow> nat \<Rightarrow> beam_survivor_read_status" where
  "beam_survivor_read area len bss_len cursor =
     (if cursor = len then Survivor_end
      else if cursor > len \<or> len - cursor < header_bytes then Survivor_truncated
      else
        let hdr = \<lparr>sv_offset = load_u32le area cursor, sv_len = load_u32le area (cursor + 4)\<rparr>
        in if len - cursor - header_bytes < unat (sv_len hdr) then Survivor_truncated
           else if 2 ^ 64 \<le> unat (sv_offset hdr) + unat (sv_len hdr) \<or>
                   unat (sv_offset hdr) + unat (sv_len hdr) > bss_len
           then Survivor_out_of_bounds
           else Survivor_record hdr (take (unat (sv_len hdr)) (drop (cursor + header_bytes) area))
                  (cursor + header_bytes + unat (sv_len hdr)))"

lemma survivor_read_advances:
  "beam_survivor_read area len bss_len cursor = Survivor_record hdr payload cursor' \<Longrightarrow>
   cursor < cursor' \<and> cursor' \<le> len \<and> unat (sv_offset hdr) + unat (sv_len hdr) \<le> bss_len"
  by (auto simp: beam_survivor_read_def Let_def split: if_splits)

definition stack_top_is_valid :: "u64 \<Rightarrow> beam_restart_layout \<Rightarrow> bool" where
  "stack_top_is_valid sp ly \<longleftrightarrow>
     sp \<noteq> 0 \<and> sp mod 16 = 0 \<and>
     \<not> beam_range_holds_stack_top (ly_snapshot_base ly) (ly_snapshot_size ly) sp \<and>
     \<not> beam_range_holds_stack_top (ly_segment_start ly) (ly_bss_end ly - ly_segment_start ly) sp"

text \<open>The walk over the records.\<close>

function validate_walk :: "u8 list \<Rightarrow> nat \<Rightarrow> nat \<Rightarrow> nat \<Rightarrow> nat \<Rightarrow> beam_snapshot_status" where
  "validate_walk area used bss_len cursor previous_end =
     (case beam_survivor_read area used bss_len cursor of
        Survivor_end \<Rightarrow> Snapshot_ok
      | Survivor_truncated \<Rightarrow> Snapshot_survivor_truncated
      | Survivor_out_of_bounds \<Rightarrow> Snapshot_survivor_out_of_bounds
      | Survivor_record run payload cursor' \<Rightarrow>
          let off = unat (sv_offset run);
              len = unat (sv_len run);
              tail_offset = bss_len - bss_len mod word_bytes;
              is_tail = off = tail_offset \<and> off + len = bss_len
          in if len = 0 then Snapshot_survivor_empty
             else if off mod word_bytes \<noteq> 0 \<or> len mod word_bytes \<noteq> 0 \<and> \<not> is_tail
             then Snapshot_survivor_misaligned
             else if off < previous_end then Snapshot_survivor_out_of_order
             else validate_walk area used bss_len cursor' (off + len))"
  by pat_completeness auto
termination validate_walk
  by (relation "measure (\<lambda>(area, used, bss_len, cursor, previous_end). used - cursor)")
    (auto dest!: survivor_read_advances)

declare validate_walk.simps [simp del]

definition beam_snapshot_validate ::
  "beam_snapshot_hdr \<Rightarrow> u8 list \<Rightarrow> nat \<Rightarrow> beam_restart_layout \<Rightarrow> beam_snapshot_status" where
  "beam_snapshot_validate hdr survivors survivors_size ly =
     (if \<not> beam_snapshot_captured (sn_magic hdr) then Snapshot_not_captured
      else if sn_generation hdr = 0 \<or> sn_generation hdr = UINT64_MAX then Snapshot_bad_generation
      else if sn_data_bytes hdr \<noteq> ly_bss_start ly - ly_segment_start ly then Snapshot_data_length_mismatch
      else if unat (sn_survivor_bytes hdr) > survivors_size then Snapshot_survivor_length_too_large
      else if \<not> stack_top_is_valid (sn_saved_sp hdr) ly then Snapshot_bad_stack_pointer
      else validate_walk survivors (unat (sn_survivor_bytes hdr)) (unat (ly_bss_end ly - ly_bss_start ly)) 0 0)"

fun beam_snapshot_status_name :: "beam_snapshot_status \<Rightarrow> string" where
  "beam_snapshot_status_name Snapshot_ok = ''ok''"
| "beam_snapshot_status_name Snapshot_survivor_overflow = ''survivor-area-overflow''"
| "beam_snapshot_status_name Snapshot_bss_too_large = ''bss-too-large''"
| "beam_snapshot_status_name Snapshot_not_captured = ''reset-without-snapshot''"
| "beam_snapshot_status_name Snapshot_bad_generation = ''bad-generation''"
| "beam_snapshot_status_name Snapshot_data_length_mismatch = ''data-length-mismatch''"
| "beam_snapshot_status_name Snapshot_survivor_length_too_large = ''survivor-length-too-large''"
| "beam_snapshot_status_name Snapshot_bad_stack_pointer = ''bad-stack-pointer''"
| "beam_snapshot_status_name Snapshot_survivor_truncated = ''survivor-truncated''"
| "beam_snapshot_status_name Snapshot_survivor_out_of_bounds = ''survivor-out-of-bounds''"
| "beam_snapshot_status_name Snapshot_survivor_empty = ''survivor-empty''"
| "beam_snapshot_status_name Snapshot_survivor_misaligned = ''survivor-misaligned''"
| "beam_snapshot_status_name Snapshot_survivor_out_of_order = ''survivor-out-of-order''"

section \<open>What the encoder writes\<close>

definition enc_run :: "nat \<times> u8 list \<Rightarrow> u8 list" where
  "enc_run r = survivor_hdr_bytes \<lparr>sv_offset = of_nat (fst r), sv_len = of_nat (length (snd r))\<rparr> @ snd r"

fun wf_runs :: "nat \<Rightarrow> nat \<Rightarrow> (nat \<times> u8 list) list \<Rightarrow> bool" where
  "wf_runs n previous [] \<longleftrightarrow> True"
| "wf_runs n previous ((off, p) # rs) \<longleftrightarrow>
     p \<noteq> [] \<and> previous \<le> off \<and> off + length p \<le> n \<and> off mod 8 = 0 \<and>
     (length p mod 8 = 0 \<or> off = n - n mod 8 \<and> off + length p = n) \<and> wf_runs n (off + length p) rs"

text \<open>What replaying the records over a buffer gives.\<close>

definition paste :: "(nat \<times> u8 list) list \<Rightarrow> u8 list \<Rightarrow> u8 list" where
  "paste rs bs = fold (\<lambda>r b. write_list b (fst r) (snd r)) rs bs"

text \<open>The records a walk over an area meets.\<close>

function survivor_runs :: "u8 list \<Rightarrow> nat \<Rightarrow> nat \<Rightarrow> nat \<Rightarrow> (nat \<times> u8 list) list" where
  "survivor_runs area len bss_len cursor =
     (case beam_survivor_read area len bss_len cursor of
        Survivor_record run payload cursor' \<Rightarrow>
          (unat (sv_offset run), payload) # survivor_runs area len bss_len cursor'
      | _ \<Rightarrow> [])"
  by pat_completeness auto
termination survivor_runs
  by (relation "measure (\<lambda>(area, len, bss_len, cursor). len - cursor)")
    (auto dest!: survivor_read_advances)

declare survivor_runs.simps [simp del]

lemma length_survivor_hdr [simp]: "length (survivor_hdr_bytes h) = 8"
  by (simp add: survivor_hdr_bytes_def)

lemma length_enc_run [simp]: "length (enc_run r) = 8 + length (snd r)"
  by (simp add: enc_run_def)

lemma length_paste [simp]: "length (paste rs bs) = length bs"
  by (induction rs arbitrary: bs) (simp_all add: paste_def)

lemma load_le_bytes: "load_u32le (pre @ le_bytes 4 v @ rest) (length pre) = v"
proof -
  have "store_u32le (pre @ replicate 4 0 @ rest) (length pre) v = pre @ le_bytes 4 v @ rest"
    unfolding store_u32le_def by (subst write_list_eq) simp_all
  then show ?thesis using load_store_u32le [of "length pre" "pre @ replicate 4 0 @ rest" v] by simp
qed

lemma unat_of_small: "n < 2 ^ 32 \<Longrightarrow> unat (of_nat n :: u32) = n"
  by (simp add: unat_of_nat)

lemma read_enc_run:
  assumes "off + length p \<le> n" "n < 2 ^ 32" "length pre + 8 + length p \<le> len"
  shows "beam_survivor_read (pre @ enc_run (off, p) @ rest) len n (length pre) =
    Survivor_record \<lparr>sv_offset = of_nat off, sv_len = of_nat (length p)\<rparr> p (length pre + 8 + length p)"
proof -
  let ?a = "pre @ enc_run (off, p) @ rest"
  have "load_u32le ?a (length pre) = of_nat off"
    by (simp add: enc_run_def survivor_hdr_bytes_def load_le_bytes)
  moreover have "load_u32le ?a (length pre + 4) = of_nat (length p)"
    using load_le_bytes [of "pre @ le_bytes 4 (of_nat off :: u32)" "of_nat (length p)" "p @ rest"]
    by (simp add: enc_run_def survivor_hdr_bytes_def)
  moreover have "unat (of_nat off :: u32) = off" "unat (of_nat (length p) :: u32) = length p"
    using assms(1,2) by (simp_all add: unat_of_small)
  moreover have "take (length p) (drop (length pre + 8) ?a) = p"
    by (simp add: enc_run_def)
  moreover have "\<not> len - length pre < 8" "\<not> len - length pre - 8 < length p" "length pre < len"
    using assms(3) by linarith+
  ultimately show ?thesis using assms(1,2) unfolding beam_survivor_read_def Let_def by simp
qed

lemma walk_enc_runs:
  assumes "wf_runs n previous rs" "n < 2 ^ 32" "take len area = pre @ concat (map enc_run rs)"
    "len = length pre + length (concat (map enc_run rs))"
  shows "validate_walk area len n (length pre) previous = Snapshot_ok"
    "survivor_runs area len n (length pre) = rs"
proof -
  have "validate_walk area len n (length pre) previous = Snapshot_ok \<and>
    survivor_runs area len n (length pre) = rs"
    using assms(1,3,4)
  proof (induction rs arbitrary: previous pre)
    case Nil
    then have "beam_survivor_read area len n (length pre) = Survivor_end" by (simp add: beam_survivor_read_def)
    then show ?case by (simp add: validate_walk.simps survivor_runs.simps)
  next
    case (Cons r rs)
    obtain off p where r: "r = (off, p)" by (cases r)
    have wf: "p \<noteq> []" "previous \<le> off" "off + length p \<le> n" "off mod 8 = 0"
      "length p mod 8 = 0 \<or> off = n - n mod 8 \<and> off + length p = n" "wf_runs n (off + length p) rs"
      using Cons.prems(1) unfolding r by simp_all
    have area: "area = pre @ enc_run (off, p) @ (concat (map enc_run rs) @ drop len area)"
      using Cons.prems(2) append_take_drop_id [of len area] by (simp add: r)
    have len: "length pre + 8 + length p \<le> len" using Cons.prems(3) by (simp add: r)
    have read: "beam_survivor_read area len n (length pre) =
      Survivor_record \<lparr>sv_offset = of_nat off, sv_len = of_nat (length p)\<rparr> p (length pre + 8 + length p)"
      by (subst area) (rule read_enc_run [OF wf(3) assms(2) len])
    have u: "unat (of_nat off :: u32) = off" "unat (of_nat (length p) :: u32) = length p"
      using wf(3) assms(2) by (simp_all add: unat_of_small)
    have "take len area = (pre @ enc_run r) @ concat (map enc_run rs)" using Cons.prems(2) by simp
    moreover have "len = length (pre @ enc_run r) + length (concat (map enc_run rs))" using Cons.prems(3) by simp
    ultimately have "validate_walk area len n (length (pre @ enc_run r)) (off + length p) = Snapshot_ok \<and>
        survivor_runs area len n (length (pre @ enc_run r)) = rs"
      by (intro Cons.IH wf(6))
    then have "validate_walk area len n (length pre + 8 + length p) (off + length p) = Snapshot_ok"
      "survivor_runs area len n (length pre + 8 + length p) = rs"
      by (simp_all add: r add.assoc)
    then show ?case
      using wf(1,2,4,5) unfolding validate_walk.simps [of area len n "length pre"] survivor_runs.simps [of area len n "length pre"]
      by (auto simp: read u r Let_def)
  qed
  then show "validate_walk area len n (length pre) previous = Snapshot_ok"
    "survivor_runs area len n (length pre) = rs" by simp_all
qed

lemma or_zero: "x OR y = 0 \<longleftrightarrow> x = 0 \<and> y = 0" for x y :: "'a::len word"
  by (metis or.left_neutral or.right_neutral word_bw_lcs(2) word_bw_same(2))

lemma push_byte_zero: "n \<le> 24 \<Longrightarrow> push_bit n (ucast b :: u32) = 0 \<longleftrightarrow> b = 0" for b :: u8
proof
  assume n: "n \<le> 24" and z: "push_bit n (ucast b :: u32) = 0"
  show "b = 0"
  proof (rule bit_word_eqI)
    fix i assume "i < LENGTH(8)"
    then have "bit b i = bit (push_bit n (ucast b :: u32)) (n + i)"
      using n by (simp add: bit_simps)
    then show "bit b i = bit (0 :: u8) i" by (simp add: z)
  qed
qed simp

lemma push_half_zero: "push_bit 32 (ucast h :: u64) = 0 \<longleftrightarrow> h = 0" for h :: u32
proof
  assume z: "push_bit 32 (ucast h :: u64) = 0"
  show "h = 0"
  proof (rule bit_word_eqI)
    fix i assume "i < LENGTH(32)"
    then have "bit h i = bit (push_bit 32 (ucast h :: u64)) (32 + i)" by (simp add: bit_simps)
    then show "bit h i = bit (0 :: u32) i" by (simp add: z)
  qed
qed simp

lemma ucast_half_zero: "(ucast h :: u64) = 0 \<longleftrightarrow> h = 0" for h :: u32
  using push_half_zero [of h] by auto

lemma load_u32_zero:
  "load_u32le bs at = 0 \<longleftrightarrow> (\<forall>k < 4. bs ! (at + k) = 0)"
proof -
  have "(\<forall>k < 4. bs ! (at + k) = 0) \<longleftrightarrow> bs ! at = 0 \<and> bs ! (at + 1) = 0 \<and> bs ! (at + 2) = 0 \<and> bs ! (at + 3) = 0"
    by (auto simp: numeral_eq_Suc less_Suc_eq)
  then show ?thesis
    using push_byte_zero [of 0 "bs ! at"] by (simp add: load_u32le_def or_zero push_byte_zero)
qed

lemma load_word_zero: "load_word bss w = 0 \<Longrightarrow> 8 * w \<le> k \<Longrightarrow> k < 8 * w + 8 \<Longrightarrow> bss ! k = 0"
proof -
  assume a: "load_word bss w = 0" "8 * w \<le> k" "k < 8 * w + 8"
  then have z: "load_u32le bss (w * 8) = 0" "load_u32le bss (w * 8 + 4) = 0"
    by (simp_all add: load_word_def load_u64le_def or_zero push_half_zero ucast_half_zero)
  show ?thesis
  proof (cases "k < 8 * w + 4")
    case True
    then obtain j where "k = w * 8 + j" "j < 4" using a(2) by (metis add_less_cancel_left le_Suc_ex mult.commute)
    then show ?thesis using z(1) by (simp add: load_u32_zero)
  next
    case False
    then obtain j where "k = w * 8 + 4 + j" "j < 4"
      using a(3) by (metis (no_types) add.assoc add_less_cancel_left le_Suc_ex mult.commute not_less numeral_Bit0)
    then show ?thesis using z(2) by (simp add: load_u32_zero)
  qed
qed

lemma append_run_Some:
  assumes "append_run bss off len out cap used = Some (out', used')" "length out = cap" "used \<le> cap"
    "off + len \<le> length bss"
  shows "take used' out' = take used out @ enc_run (off, take len (drop off bss))"
    "used' = used + 8 + len" "used' \<le> cap" "length out' = cap" "drop used' out' = drop used' out"
proof -
  let ?h = "survivor_hdr_bytes \<lparr>sv_offset = of_nat off, sv_len = of_nat len\<rparr>"
  have fit: "used + 8 + len \<le> cap" and u: "used' = used + 8 + len"
    and o: "out' = write_list (write_list out used ?h) (used + 8) (take len (drop off bss))"
    using assms(1,3) by (auto simp: append_run_def Let_def split: if_splits)
  have "out' = write_list out used (?h @ take len (drop off bss))"
    by (simp add: o write_list_append)
  then have o': "out' = take used out @ ?h @ take len (drop off bss) @ drop (used + 8 + len) out"
    using fit assms(2,4) by (simp add: write_list_eq add.assoc)
  show "used' = used + 8 + len" "used' \<le> cap" by (simp_all add: u fit)
  show "length out' = cap" using assms(2) by (simp add: o)
  show "take used' out' = take used out @ enc_run (off, take len (drop off bss))"
    using fit assms(2,4) by (simp add: o' u enc_run_def)
  show "drop used' out' = drop used' out"
    using fit assms(2,4) by (simp add: o' u)
qed

text \<open>How far the encoder has come: the bytes before position \<open>m\<close> are the ones replayed.\<close>

definition coded :: "u8 list \<Rightarrow> nat \<Rightarrow> u8 list \<Rightarrow> nat \<Rightarrow> (nat \<times> u8 list) list \<Rightarrow> bool" where
  "coded bss m out written rs \<longleftrightarrow>
     written \<le> length out \<and> take written out = concat (map enc_run rs) \<and> wf_runs (length bss) 0 rs \<and>
     (\<forall>r \<in> set rs. fst r + length (snd r) \<le> m) \<and> m \<le> length bss \<and>
     (\<forall>k < length bss. paste rs (replicate (length bss) 0) ! k = (if k < m then bss ! k else 0))"

lemma wf_runs_snoc:
  "wf_runs n previous rs \<Longrightarrow> (\<forall>r \<in> set rs. fst r + length (snd r) \<le> off) \<Longrightarrow> previous \<le> off \<Longrightarrow>
   p \<noteq> [] \<Longrightarrow> off + length p \<le> n \<Longrightarrow> off mod 8 = 0 \<Longrightarrow>
   length p mod 8 = 0 \<or> off = n - n mod 8 \<and> off + length p = n \<Longrightarrow> wf_runs n previous (rs @ [(off, p)])"
  by (induction rs arbitrary: previous) (auto split: prod.splits)

lemma paste_snoc: "paste (rs @ [(off, p)]) bs = write_list (paste rs bs) off p"
  by (simp add: paste_def)

lemma coded_skip:
  "coded bss m out written rs \<Longrightarrow> m \<le> m' \<Longrightarrow> m' \<le> length bss \<Longrightarrow>
   (\<And>k. m \<le> k \<Longrightarrow> k < m' \<Longrightarrow> bss ! k = 0) \<Longrightarrow> coded bss m' out written rs"
  by (fastforce simp: coded_def)

lemma coded_run:
  assumes "coded bss m out written rs" "append_run bss m len out (length out) written = Some (out', written')"
    "0 < len" "m + len \<le> length bss" "m mod 8 = 0"
    "len mod 8 = 0 \<or> m = length bss - length bss mod 8 \<and> m + len = length bss"
  shows "coded bss (m + len) out' written' (rs @ [(m, take len (drop m bss))])"
    "length out' = length out" "drop written' out' = drop written' out" "written \<le> written'"
proof -
  let ?p = "take len (drop m bss)"
  have lp: "length ?p = len" using assms(4) by simp
  have c: "written \<le> length out" "take written out = concat (map enc_run rs)" "wf_runs (length bss) 0 rs"
    "\<forall>r \<in> set rs. fst r + length (snd r) \<le> m"
    "\<And>k. k < length bss \<Longrightarrow> paste rs (replicate (length bss) 0) ! k = (if k < m then bss ! k else 0)"
    using assms(1) by (simp_all add: coded_def)
  note ap = append_run_Some [OF assms(2) refl c(1) assms(4)]
  have "wf_runs (length bss) 0 (rs @ [(m, ?p)])"
    using c(3,4) assms(3-6) lp by (intro wf_runs_snoc) auto
  moreover have "paste (rs @ [(m, ?p)]) (replicate (length bss) 0) ! k = (if k < m + len then bss ! k else 0)"
    if k: "k < length bss" for k
    using c(5) [OF k] assms(4) lp by (auto simp: paste_snoc write_list_nth)
  moreover have "\<forall>r \<in> set (rs @ [(m, ?p)]). fst r + length (snd r) \<le> m + len"
    using c(4) lp by (auto dest: bspec intro: le_trans)
  ultimately show "coded bss (m + len) out' written' (rs @ [(m, ?p)])"
    using ap c(2) assms(4) by (simp add: coded_def)
  show "length out' = length out" "drop written' out' = drop written' out" "written \<le> written'"
    using ap by simp_all
qed

lemma extend_run_bounds:
  "last_word < i \<Longrightarrow> i \<le> nwords \<Longrightarrow> (\<And>w. last_word < w \<Longrightarrow> w < i \<Longrightarrow> load_word bss w = 0) \<Longrightarrow>
   last_word \<le> fst (extend_run bss nwords gap_words i last_word) \<and>
   fst (extend_run bss nwords gap_words i last_word) < snd (extend_run bss nwords gap_words i last_word) \<and>
   snd (extend_run bss nwords gap_words i last_word) \<le> nwords \<and>
   (\<forall>w. fst (extend_run bss nwords gap_words i last_word) < w \<and>
      w < snd (extend_run bss nwords gap_words i last_word) \<longrightarrow> load_word bss w = 0)"
proof (induction bss nwords gap_words i last_word rule: extend_run.induct)
  case (1 bss nwords gap_words i last_word)
  show ?case
  proof (cases "i < nwords \<and> i - last_word \<le> gap_words")
    case False
    then have "extend_run bss nwords gap_words i last_word = (last_word, i)" by (subst extend_run.simps) auto
    then show ?thesis using 1(2-4) by simp
  next
    case True
    define l where "l = (if load_word bss i \<noteq> 0 then i else last_word)"
    have eq: "extend_run bss nwords gap_words i last_word = extend_run bss nwords gap_words (i + 1) l"
      using True unfolding l_def by (subst extend_run.simps) simp
    have z: "load_word bss w = 0" if "l < w" "w < i + 1" for w
    proof (cases "w = i")
      case True
      then show ?thesis using that(1) by (simp add: l_def split: if_splits)
    next
      case False
      then show ?thesis using that 1(4) [of w] by (simp add: l_def split: if_splits)
    qed
    have b: "l < i + 1" "i + 1 \<le> nwords" "last_word \<le> l" using 1(2) True by (simp_all add: l_def)
    show ?thesis unfolding eq using 1(1) [OF True, folded l_def, OF b(1,2) z] b(3) by auto
  qed
qed

lemma encode_words_coded:
  "coded bss (8 * i) out written rs \<Longrightarrow> length out = cap \<Longrightarrow> nwords = length bss div 8 \<Longrightarrow> i \<le> nwords \<Longrightarrow>
   encode_words bss nwords gap_words cap i out written = (True, out', written') \<Longrightarrow>
   \<exists>rs'. coded bss (8 * nwords) out' written' rs' \<and> length out' = cap \<and>
     drop written' out' = drop written' out \<and> written \<le> written'"
proof (induction bss nwords gap_words cap i out written arbitrary: rs rule: encode_words.induct)
  case (1 bss nwords gap_words cap i out written)
  note prems = "1.prems"
  show ?case
  proof (cases "i < nwords")
    case False
    then have "out' = out" "written' = written" "i = nwords"
      using prems(4,5) by (simp_all add: encode_words.simps)
    then show ?thesis using prems(1,2) by auto
  next
    case True
    then have room: "8 * (i + 1) \<le> length bss" using prems(3) by simp
    show ?thesis
    proof (cases "load_word bss i = 0")
      case zero: True
      have "bss ! k = 0" if "8 * i \<le> k" "k < 8 * (i + 1)" for k
        using load_word_zero [OF zero that(1)] that(2) by simp
      then have "coded bss (8 * (i + 1)) out written rs"
        using coded_skip [OF prems(1) _ room] by simp
      moreover have "encode_words bss nwords gap_words cap (i + 1) out written = (True, out', written')"
        using prems(5) True zero by (simp add: encode_words.simps [of bss nwords gap_words cap i])
      ultimately show ?thesis using "1.IH"(1) True zero prems(2,3) by simp
    next
      case nonzero: False
      define run where "run = extend_run bss nwords gap_words (i + 1) i"
      have r: "i \<le> fst run" "fst run < snd run" "snd run \<le> nwords"
        "\<And>w. fst run < w \<Longrightarrow> w < snd run \<Longrightarrow> load_word bss w = 0"
        using extend_run_bounds [of i "i + 1" nwords bss gap_words] True unfolding run_def by auto
      let ?len = "(fst run - i + 1) * 8"
      obtain out1 w1 where ap: "append_run bss (i * 8) ?len out cap written = Some (out1, w1)"
        and rec: "encode_words bss nwords gap_words cap (snd run) out1 w1 = (True, out', written')"
        using prems(5) True nonzero
        by (auto simp: encode_words.simps [of bss nwords gap_words cap i] run_def Let_def split: option.splits)
      have le: "8 * i + ?len \<le> length bss"
        using r(1-3) prems(3) by (simp add: algebra_simps)
      have c1: "coded bss (8 * i + ?len) out1 w1 (rs @ [(8 * i, take ?len (drop (8 * i) bss))])"
        "length out1 = cap" "drop w1 out1 = drop w1 out" "written \<le> w1"
        using coded_run [OF prems(1), of ?len out1 w1] ap le prems(2) by (simp_all add: mult.commute)
      have "bss ! k = 0" if "8 * i + ?len \<le> k" "k < 8 * snd run" for k
      proof -
        have "fst run < k div 8" "k div 8 < snd run" using that r(1) by (simp_all add: algebra_simps)
        from r(4) [OF this] show ?thesis by (rule load_word_zero) simp_all
      qed
      moreover have "8 * snd run \<le> length bss" "8 * i + ?len \<le> 8 * snd run"
        using r(1-3) prems(3) by (simp_all add: algebra_simps)
      ultimately have c2: "coded bss (8 * snd run) out1 w1 (rs @ [(8 * i, take ?len (drop (8 * i) bss))])"
        using coded_skip [OF c1(1)] by simp
      obtain rs' where d: "coded bss (8 * nwords) out' written' rs'" "length out' = cap"
        "drop written' out' = drop written' out1" "w1 \<le> written'"
        using "1.IH"(2) [OF _ nonzero run_def ap, simplified] c2 c1(2) prems(3) r(3) rec True by blast
      have "drop written' out1 = drop written' out"
        using c1(3) d(4) by (metis drop_drop le_add_diff_inverse2)
      then show ?thesis using d c1(4) by (intro exI [of _ rs']) simp
    qed
  qed
qed

lemma encode_read_back:
  "beam_survivors_encode bss gap_words out = (Snapshot_ok, out', Some used) \<Longrightarrow>
   length out' = length out \<and> used \<le> length out \<and> drop used out' = drop used out \<and>
   validate_walk out' used (length bss) 0 0 = Snapshot_ok \<and>
   paste (survivor_runs out' used (length bss) 0) (replicate (length bss) 0) = bss"
proof -
  assume e: "beam_survivors_encode bss gap_words out = (Snapshot_ok, out', Some used)"
  let ?n = "length bss div 8"
  have small: "length bss < 2 ^ 32" using e by (simp add: beam_survivors_encode_def split: if_splits)
  obtain ok out1 w1 where enc: "encode_words bss ?n gap_words (length out) 0 out 0 = (ok, out1, w1)"
    by (cases "encode_words bss ?n gap_words (length out) 0 out 0")
  have ok: "ok" using e small enc by (cases ok) (auto simp: beam_survivors_encode_def Let_def split: if_splits)
  have "coded bss (8 * 0) out 0 []" by (simp add: coded_def paste_def)
  then obtain rs where c1: "coded bss (8 * ?n) out1 w1 rs" "length out1 = length out" "drop w1 out1 = drop w1 out"
    using encode_words_coded [of bss 0 out 0 "[]" "length out" ?n gap_words out1 w1] enc ok by auto
  have whole: "\<exists>rs. coded bss (length bss) out' used rs \<and> length out' = length out \<and> drop used out' = drop used out"
  proof (cases "list_ex (\<lambda>b. b \<noteq> 0) (drop (?n * 8) bss)")
    case False
    then have o: "out' = out1" "used = w1"
      using e small enc ok by (auto simp: beam_survivors_encode_def Let_def split: if_splits)
    have "bss ! k = 0" if "8 * ?n \<le> k" "k < length bss" for k
    proof -
      have "bss ! k \<in> set (drop (?n * 8) bss)"
        using that by (auto simp: in_set_conv_nth mult.commute intro!: exI [of _ "k - 8 * ?n"])
      then show ?thesis using False by (auto simp: list_ex_iff)
    qed
    then have "coded bss (length bss) out1 w1 rs" by (intro coded_skip [OF c1(1)]) simp_all
    then show ?thesis using c1(2,3) unfolding o by blast
  next
    case True
    then have ap: "append_run bss (8 * ?n) (length bss - 8 * ?n) out1 (length out1) w1 = Some (out', used)"
      using e small enc ok c1(2)
      by (auto simp: beam_survivors_encode_def Let_def mult.commute split: if_splits option.splits)
    have "drop (?n * 8) bss \<noteq> []" using True by auto
    then have pos: "0 < length bss - 8 * ?n" by (simp add: mult.commute)
    have tail: "8 * ?n = length bss - length bss mod 8" by (simp add: minus_mod_eq_mult_div)
    have "8 * ?n + (length bss - 8 * ?n) = length bss" by simp
    with coded_run [OF c1(1) ap pos] tail
    have "coded bss (length bss) out' used (rs @ [(8 * ?n, take (length bss - 8 * ?n) (drop (8 * ?n) bss))])"
      "length out' = length out1" "drop used out' = drop used out1" "w1 \<le> used" by auto
    moreover have "drop used out1 = drop used out" if "w1 \<le> used"
      using c1(3) that by (metis drop_drop le_add_diff_inverse2)
    ultimately show ?thesis using c1(2) by metis
  qed
  then obtain rs where c: "used \<le> length out'" "take used out' = concat (map enc_run rs)" "wf_runs (length bss) 0 rs"
    "\<And>k. k < length bss \<Longrightarrow> paste rs (replicate (length bss) 0) ! k = bss ! k"
    and l: "length out' = length out" "drop used out' = drop used out"
    by (auto simp: coded_def)
  have "used = length (concat (map enc_run rs))" using arg_cong [OF c(2), of length] c(1) by simp
  then have "validate_walk out' used (length bss) 0 0 = Snapshot_ok" "survivor_runs out' used (length bss) 0 = rs"
    using walk_enc_runs [OF c(3) small, of used out' "[]"] c(2) by simp_all
  moreover have "paste rs (replicate (length bss) 0) = bss"
    by (rule nth_equalityI) (simp_all add: c(4))
  ultimately show ?thesis using l c(1) by simp
qed

text \<open>
  C3.  Nothing is lost in a snapshot.  When the encoder answers ok, for any \<open>.bss\<close>, gap and
  buffer, it has written within the buffer, the validator's walk accepts what it wrote, and
  replaying the records the reader finds over a zeroed \<open>.bss\<close> gives back every byte.
\<close>

theorem survivors_roundtrip:
  "beam_survivors_encode bss gap_words out = (Snapshot_ok, out', Some used) \<Longrightarrow>
   length out' = length out \<and> used \<le> length out \<and> drop used out' = drop used out \<and>
   validate_walk out' used (length bss) 0 0 = Snapshot_ok \<and>
   paste (survivor_runs out' used (length bss) 0) (replicate (length bss) 0) = bss"
  by (rule encode_read_back)

definition sample_bss :: "u8 list" where
  "sample_bss = [5, 0, 0, 0, 0, 0, 0, 1, 0, 7]"

lemma le_bytes4: "le_bytes 4 v = [ucast v, ucast (drop_bit 8 v), ucast (drop_bit 16 v), ucast (drop_bit 24 v)]"
  by (simp add: le_bytes_def upt_rec)

lemmas codec_eval = beam_survivors_encode_def append_run_def load_word_def load_u64le_def load_u32le_def
  survivor_hdr_bytes_def le_bytes4 Let_def

lemma sample_encoded:
  "beam_survivors_encode sample_bss 1 (replicate 32 0) =
     (Snapshot_ok, [0, 0, 0, 0, 8, 0, 0, 0, 5, 0, 0, 0, 0, 0, 0, 1, 8, 0, 0, 0, 2, 0, 0, 0, 0, 7] @ replicate 6 0,
      Some 26)"
proof -
  have run: "extend_run sample_bss (Suc 0) (Suc 0) (Suc 0) 0 = (0, Suc 0)" by (simp add: extend_run.simps)
  have "encode_words sample_bss 1 1 32 0 (replicate 32 0) 0 =
      (True, [0, 0, 0, 0, 8, 0, 0, 0, 5, 0, 0, 0, 0, 0, 0, 1] @ replicate 16 0, 16)"
    by (simp add: encode_words.simps run codec_eval write_list_eq del: write_list.simps) (simp add: sample_bss_def)
  moreover have "append_run sample_bss 8 2 ([0, 0, 0, 0, 8, 0, 0, 0, 5, 0, 0, 0, 0, 0, 0, 1] @ replicate 16 0) 32 16 =
      Some ([0, 0, 0, 0, 8, 0, 0, 0, 5, 0, 0, 0, 0, 0, 0, 1, 8, 0, 0, 0, 2, 0, 0, 0, 0, 7] @ replicate 6 0, 26)"
    by (simp add: codec_eval write_list_eq sample_bss_def del: write_list.simps)
  moreover have "length sample_bss = 10" "list_ex (\<lambda>b. b \<noteq> 0) (drop 8 sample_bss)" by (simp_all add: sample_bss_def)
  ultimately show ?thesis by (simp add: beam_survivors_encode_def Let_def)
qed

theorem survivors_roundtrip_witness:
  "paste (survivor_runs ([0, 0, 0, 0, 8, 0, 0, 0, 5, 0, 0, 0, 0, 0, 0, 1, 8, 0, 0, 0, 2, 0, 0, 0, 0, 7] @ replicate 6 0)
     26 (length sample_bss) 0) (replicate (length sample_bss) 0) = sample_bss"
  using survivors_roundtrip [OF sample_encoded] by blast

text \<open>
  The walk accepts more than the encoder produces: a record of zeros is accepted, and the encoder
  never starts a run at a zero word.
\<close>

lemma walk_accepts_zero_record:
  "validate_walk ([0, 0, 0, 0, 8, 0, 0, 0] @ replicate 8 0) 16 8 0 0 = Snapshot_ok"
  by (simp add: validate_walk.simps beam_survivor_read_def load_u32le_def)

lemma encoder_skips_zeros:
  "beam_survivors_encode (replicate 8 0) 1 out = (Snapshot_ok, out, Some 0)"
  by (simp add: codec_eval encode_words.simps)

lemma walk_sound:
  "validate_walk area used bss_len cursor previous_end = Snapshot_ok \<Longrightarrow> used \<le> length area \<Longrightarrow>
   wf_runs bss_len previous_end (survivor_runs area used bss_len cursor)"
proof (induction area used bss_len cursor previous_end rule: validate_walk.induct)
  case (1 area used bss_len cursor previous_end)
  note prems = "1.prems"
  show ?case
  proof (cases "beam_survivor_read area used bss_len cursor")
    case (Survivor_record run payload cursor')
    note adv = survivor_read_advances [OF Survivor_record]
    have pl: "payload = take (unat (sv_len run)) (drop (cursor + 8) area)" "cursor' = cursor + 8 + unat (sv_len run)"
      using Survivor_record by (auto simp: beam_survivor_read_def Let_def split: if_splits)
    then have len: "length payload = unat (sv_len run)" using adv prems(2) by (simp add: min_def) linarith
    have v: "unat (sv_len run) \<noteq> 0" "unat (sv_offset run) mod 8 = 0" "previous_end \<le> unat (sv_offset run)"
      "unat (sv_len run) mod 8 = 0 \<or> unat (sv_offset run) = bss_len - bss_len mod 8 \<and>
         unat (sv_offset run) + unat (sv_len run) = bss_len"
      "validate_walk area used bss_len cursor' (unat (sv_offset run) + unat (sv_len run)) = Snapshot_ok"
      using prems(1) by (auto simp: validate_walk.simps [of area used bss_len cursor] Survivor_record Let_def
          not_less split: if_splits)
    have "wf_runs bss_len (unat (sv_offset run) + unat (sv_len run)) (survivor_runs area used bss_len cursor')"
      using "1.IH" [OF Survivor_record refl refl refl refl] v prems(2) by auto
    then show ?thesis
      using v(1-4) adv len by (auto simp: survivor_runs.simps [of area used bss_len cursor] Survivor_record)
  qed (simp_all add: survivor_runs.simps [of area used bss_len cursor])
qed

lemma wf_runs_spread:
  "wf_runs n previous rs \<Longrightarrow>
   sorted_wrt (\<lambda>r r'. fst r + length (snd r) \<le> fst r') rs \<and>
   (\<forall>r \<in> set rs. snd r \<noteq> [] \<and> previous \<le> fst r \<and> fst r + length (snd r) \<le> n)"
  by (induction rs arbitrary: previous) fastforce+

lemma walk_length:
  "validate_walk area used bss_len cursor previous_end = Snapshot_ok \<Longrightarrow> used \<le> length area \<Longrightarrow>
   cursor + sum_list (map (\<lambda>r. 8 + length (snd r)) (survivor_runs area used bss_len cursor)) = used"
proof (induction area used bss_len cursor previous_end rule: validate_walk.induct)
  case (1 area used bss_len cursor previous_end)
  note prems = "1.prems"
  show ?case
  proof (cases "beam_survivor_read area used bss_len cursor")
    case (Survivor_record run payload cursor')
    note adv = survivor_read_advances [OF Survivor_record]
    have pl: "payload = take (unat (sv_len run)) (drop (cursor + 8) area)" "cursor' = cursor + 8 + unat (sv_len run)"
      using Survivor_record by (auto simp: beam_survivor_read_def Let_def split: if_splits)
    then have "length payload = unat (sv_len run)" using adv prems(2) by (simp add: min_def) linarith
    moreover have "cursor' + sum_list (map (\<lambda>r. 8 + length (snd r)) (survivor_runs area used bss_len cursor')) = used"
      using "1.IH" [OF Survivor_record refl refl refl refl] prems
      by (auto simp: validate_walk.simps [of area used bss_len cursor] Survivor_record Let_def split: if_splits)
    ultimately show ?thesis
      using pl(2) by (simp add: survivor_runs.simps [of area used bss_len cursor] Survivor_record)
  next
    case Survivor_end
    then have "cursor = used" by (auto simp: beam_survivor_read_def Let_def split: if_splits)
    moreover have "survivor_runs area used bss_len cursor = []"
      using Survivor_end by (simp add: survivor_runs.simps [of area used bss_len cursor])
    ultimately show ?thesis by simp
  qed (use prems(1) in \<open>simp_all add: validate_walk.simps [of area used bss_len cursor]\<close>)
qed

text \<open>
  C35.  The validator never lets a replay leave \<open>.bss\<close>.  Whatever bytes the survivor area holds, if
  the walk over them answers ok then the records the reader produces are not empty, lie inside
  \<open>.bss\<close>, do not overlap and come in order, and they use up the recorded length exactly.
\<close>

theorem snapshot_walk_sound:
  "validate_walk area used bss_len 0 0 = Snapshot_ok \<Longrightarrow> used \<le> length area \<Longrightarrow>
   sorted_wrt (\<lambda>r r'. fst r + length (snd r) \<le> fst r') (survivor_runs area used bss_len 0) \<and>
   (\<forall>r \<in> set (survivor_runs area used bss_len 0). snd r \<noteq> [] \<and> fst r + length (snd r) \<le> bss_len) \<and>
   sum_list (map (\<lambda>r. 8 + length (snd r)) (survivor_runs area used bss_len 0)) = used"
  using wf_runs_spread [OF walk_sound, of area used bss_len 0 0] walk_length [of area used bss_len 0 0] by simp

theorem snapshot_walk_sound_witness:
  "sum_list (map (\<lambda>r. 8 + length (snd r)) (survivor_runs ([0, 0, 0, 0, 8, 0, 0, 0] @ replicate 8 0) 16 8 0)) = 16"
  using snapshot_walk_sound [OF walk_accepts_zero_record] by simp

end
