(* ===== verification/Beam_Memory.thy ===== *)
theory Beam_Memory
  imports Abi
begin

text \<open>
  Byte-addressed memory for the code that works on addresses: a function from 64-bit addresses to
  bytes, with what \<open>memcpy\<close>, \<open>memset\<close> and loads and stores through a pointer do to it.  The library
  part is the frame: a write to one range leaves a range that shares no byte with it alone.
\<close>

type_synonym mem = "u64 \<Rightarrow> u8"

definition region :: "mem \<Rightarrow> u64 \<Rightarrow> nat \<Rightarrow> u8 list" where
  "region m a n = map (\<lambda>i. m (a + of_nat i)) [0..<n]"

definition write_mem :: "u64 \<Rightarrow> u8 list \<Rightarrow> mem \<Rightarrow> mem" where
  "write_mem a bs m = (\<lambda>x. if unat (x - a) < length bs then bs ! unat (x - a) else m x)"

definition memcpy :: "u64 \<Rightarrow> u64 \<Rightarrow> nat \<Rightarrow> mem \<Rightarrow> mem" where
  "memcpy dst src n m = write_mem dst (region m src n) m"

definition memset_zero :: "u64 \<Rightarrow> nat \<Rightarrow> mem \<Rightarrow> mem" where
  "memset_zero dst n m = write_mem dst (replicate n 0) m"

definition load64 :: "mem \<Rightarrow> u64 \<Rightarrow> u64" where
  "load64 m a = load_u64le (region m a 8) 0"

definition store64 :: "u64 \<Rightarrow> u64 \<Rightarrow> mem \<Rightarrow> mem" where
  "store64 a v m = write_mem a (le_bytes 8 v) m"

definition load32 :: "mem \<Rightarrow> u64 \<Rightarrow> u32" where
  "load32 m a = load_u32le (region m a 4) 0"

definition store32 :: "u64 \<Rightarrow> u32 \<Rightarrow> mem \<Rightarrow> mem" where
  "store32 a v m = write_mem a (le_bytes 4 v) m"

section \<open>Ranges\<close>

text \<open>\<open>inside a n x\<close>: address \<open>x\<close> is one of the \<open>n\<close> from \<open>a\<close>; \<open>fits\<close>: they do not wrap.\<close>

definition inside :: "u64 \<Rightarrow> nat \<Rightarrow> u64 \<Rightarrow> bool" where
  "inside a n x \<longleftrightarrow> unat a \<le> unat x \<and> unat x < unat a + n"

definition fits :: "u64 \<Rightarrow> nat \<Rightarrow> bool" where
  "fits a n \<longleftrightarrow> unat a + n \<le> 2 ^ 64"

definition apart :: "u64 \<Rightarrow> nat \<Rightarrow> u64 \<Rightarrow> nat \<Rightarrow> bool" where
  "apart a n b k \<longleftrightarrow> unat a + n \<le> unat b \<or> unat b + k \<le> unat a"

lemma offset_inside: "fits a n \<Longrightarrow> unat (x - a) < n \<longleftrightarrow> inside a n x"
proof (cases "unat a \<le> unat x")
  case True
  then show ?thesis by (auto simp: inside_def unat_minus_le)
next
  case False
  assume f: "fits a n"
  have "unat (x - a) = unat x + 2 ^ 64 - unat a" using False by (simp add: unat_sub_if')
  then show ?thesis using f False unat_lt [of a] by (simp add: inside_def fits_def)
qed

lemma unat_offset: "fits a n \<Longrightarrow> i < n \<Longrightarrow> unat (a + of_nat i) = unat a + i"
proof -
  assume a: "fits a n" "i < n"
  then have i: "unat (of_nat i :: u64) = i" by (simp add: fits_def unat_of_nat)
  show ?thesis using a unfolding fits_def by (subst unat_add_fits) (simp_all add: i)
qed

lemma inside_offset: "fits a n \<Longrightarrow> i < n \<Longrightarrow> inside a n (a + of_nat i)"
  by (simp add: inside_def unat_offset)

lemma inside_ex: "fits a n \<Longrightarrow> inside a n x \<Longrightarrow> \<exists>i < n. x = a + of_nat i"
proof -
  assume a: "fits a n" "inside a n x"
  have "x = a + of_nat (unat (x - a))" by simp
  moreover have "unat (x - a) < n" using a offset_inside by blast
  ultimately show ?thesis by blast
qed

lemma apart_inside: "apart a n b k \<Longrightarrow> inside b k x \<Longrightarrow> \<not> inside a n x"
  by (auto simp: apart_def inside_def)

lemma apart_sym: "apart a n b k \<Longrightarrow> apart b k a n"
  by (auto simp: apart_def)

section \<open>Reading back what was written\<close>

lemma length_region [simp]: "length (region m a n) = n"
  by (simp add: region_def)

lemma region_nth: "i < n \<Longrightarrow> region m a n ! i = m (a + of_nat i)"
  by (simp add: region_def)

lemma region_cong: "fits a n \<Longrightarrow> (\<And>x. inside a n x \<Longrightarrow> m x = m' x) \<Longrightarrow> region m a n = region m' a n"
  by (auto simp: region_def inside_offset)

lemma region_eqD: "fits a n \<Longrightarrow> region m a n = region m' a n \<Longrightarrow> inside a n x \<Longrightarrow> m x = m' x"
  by (metis inside_ex region_nth)

lemma write_mem_out: "fits a (length bs) \<Longrightarrow> \<not> inside a (length bs) x \<Longrightarrow> write_mem a bs m x = m x"
  by (simp add: write_mem_def offset_inside)

lemma write_mem_in: "fits a (length bs) \<Longrightarrow> i < length bs \<Longrightarrow> write_mem a bs m (a + of_nat i) = bs ! i"
  by (simp add: write_mem_def fits_def unat_of_nat)

lemma region_write_self: "fits a (length bs) \<Longrightarrow> region (write_mem a bs m) a (length bs) = bs"
  by (rule nth_equalityI) (simp_all add: region_nth write_mem_in)

lemma region_write_other:
  "fits a (length bs) \<Longrightarrow> fits b k \<Longrightarrow> apart a (length bs) b k \<Longrightarrow> region (write_mem a bs m) b k = region m b k"
  by (rule region_cong) (simp_all add: write_mem_out apart_inside)

lemma region_write_part:
  assumes "fits b k" "off + length bs \<le> k"
  shows "region (write_mem (b + of_nat off) bs m) b k = write_list (region m b k) off bs"
proof (cases "length bs = 0")
  case True
  then show ?thesis by (simp add: write_mem_def)
next
  case False
  then have "0 < length bs" by simp
  then have "off < k" using assms(2) by linarith
  then have uo: "unat (b + of_nat off) = unat b + off" by (rule unat_offset [OF assms(1)])
  then have f: "fits (b + of_nat off) (length bs)" using assms by (simp add: fits_def)
  show ?thesis
  proof (rule nth_equalityI)
    fix i assume i: "i < length (region (write_mem (b + of_nat off) bs m) b k)"
    have ui: "unat (b + of_nat i) = unat b + i" using assms(1) i by (intro unat_offset) auto
    show "region (write_mem (b + of_nat off) bs m) b k ! i = write_list (region m b k) off bs ! i"
    proof (cases "off \<le> i \<and> i < off + length bs")
      case True
      then have "b + of_nat i = (b + of_nat off) + of_nat (i - off)" by (simp add: of_nat_diff)
      then have "write_mem (b + of_nat off) bs m (b + of_nat i) = bs ! (i - off)"
        using write_mem_in [OF f, of "i - off" m] True by (simp add: less_diff_conv2)
      then show ?thesis using i True assms(2) by (simp add: region_nth write_list_nth)
    next
      case False
      then have "\<not> inside (b + of_nat off) (length bs) (b + of_nat i)" using ui uo by (auto simp: inside_def)
      then show ?thesis using i False assms(2) by (auto simp: region_nth write_list_nth write_mem_out [OF f])
    qed
  qed simp
qed

lemma region_memcpy:
  "fits dst n \<Longrightarrow> region (memcpy dst src n m) dst n = region m src n"
  using region_write_self [of dst "region m src n"] by (simp add: memcpy_def)

lemma load64_cong: "region m a 8 = region m' a 8 \<Longrightarrow> load64 m a = load64 m' a"
  by (simp add: load64_def)

lemma load_le_bytes64: "load_u64le (le_bytes 8 v) 0 = v"
proof -
  have "store_u64le (replicate 8 0) 0 v = le_bytes 8 v"
    unfolding store_u64le_def by (subst write_list_eq) simp_all
  then show ?thesis using load_store_u64le [of 0 "replicate 8 0" v] by simp
qed

lemma load64_store64: "fits a 8 \<Longrightarrow> load64 (store64 a v m) a = v"
  using region_write_self [of a "le_bytes 8 v" m] by (simp add: load64_def store64_def load_le_bytes64)

lemma load64_other: "fits a (length bs) \<Longrightarrow> fits b 8 \<Longrightarrow> apart a (length bs) b 8 \<Longrightarrow>
   load64 (write_mem a bs m) b = load64 m b"
  by (intro load64_cong region_write_other)

end
