(* ===== verification/Beam_Restart.thy ===== *)
theory Beam_Restart
  imports Snapshot_Codec Beam_Memory
begin

text \<open>
  The BEAM's warm restart: \<open>src/src/pd/beam/restart/restart.c\<close>, the capture of the loaded image on
  the first boot and its restore on every reset, over one byte-addressed memory.  The region sizes
  are build-time constants and the segment bounds linker symbols; both are the fields of an image.
  \<open>__builtin_trap\<close> and a store to an unmapped address end the protection domain, so they are the
  left of a sum.  The stack the C code runs on is not part of this memory.
\<close>

section \<open>The image and the state\<close>

record beam_image =
  bi_snapshot_size :: u64
  bi_stack_off :: u64
  bi_stack_size :: u64
  bi_stack_top :: u64
  bi_survivors_off :: u64
  bi_survivors_size :: u64
  bi_data_off :: u64
  bi_exit_base :: u64
  bi_exit_size :: u64
  bi_segment_start :: u64
  bi_bss_start :: u64
  bi_bss_end :: u64
  bi_snapshot_var :: u64
  bi_boots_var :: u64

record beam_state =
  bs_mem :: mem
  bs_console :: string

datatype beam_stop = Brk | Fault u64

text \<open>The static assertions of the file.\<close>

definition beam_abi_ok :: "beam_image \<Rightarrow> bool" where
  "beam_abi_ok img \<longleftrightarrow>
     unat (bi_snapshot_size img) mod 4096 = 0 \<and>
     40 \<le> unat (bi_stack_off img) \<and>
     unat (bi_stack_top img) = unat (bi_stack_off img) + unat (bi_stack_size img) \<and>
     unat (bi_stack_top img) mod 16 = 0 \<and>
     unat (bi_stack_top img) \<le> 0xffff \<and>
     unat (bi_stack_top img) \<le> unat (bi_survivors_off img) \<and>
     unat (bi_survivors_off img) + unat (bi_survivors_size img) \<le> unat (bi_data_off img) \<and>
     unat (bi_data_off img) < unat (bi_snapshot_size img) \<and>
     256 \<le> unat (bi_exit_size img)"

abbreviation (input) beam_survivor_gap_words :: nat where "beam_survivor_gap_words \<equiv> 8"

definition snapshot_base :: "beam_image \<Rightarrow> mem \<Rightarrow> u64" where
  "snapshot_base img m = load64 m (bi_snapshot_var img)"

definition snapshot_hdr :: "mem \<Rightarrow> u64 \<Rightarrow> beam_snapshot_hdr" where
  "snapshot_hdr m base =
     \<lparr>sn_magic = load64 m base, sn_generation = load64 m (base + 8), sn_saved_sp = load64 m (base + 16),
      sn_data_bytes = load64 m (base + 24), sn_survivor_bytes = load64 m (base + 32)\<rparr>"

definition current_layout :: "beam_image \<Rightarrow> u64 \<Rightarrow> beam_restart_layout" where
  "current_layout img base =
     \<lparr>ly_snapshot_base = base, ly_snapshot_size = bi_snapshot_size img, ly_data_off = bi_data_off img,
      ly_segment_start = bi_segment_start img, ly_bss_start = bi_bss_start img, ly_bss_end = bi_bss_end img,
      ly_exit_fault_base = bi_exit_base img, ly_exit_fault_size = bi_exit_size img\<rparr>"

definition dbg_puts :: "string \<Rightarrow> beam_state \<Rightarrow> beam_state" where
  "dbg_puts text s = s\<lparr>bs_console := bs_console s @ text\<rparr>"

definition on_mem :: "(mem \<Rightarrow> mem) \<Rightarrow> beam_state \<Rightarrow> beam_state" where
  "on_mem f s = s\<lparr>bs_mem := f (bs_mem s)\<rparr>"

definition restart_fail :: "string \<Rightarrow> beam_state \<Rightarrow> (beam_stop + 'a) \<times> beam_state" where
  "restart_fail why s =
     (Inl Brk, dbg_puts ''\<newline>'' (dbg_puts why (dbg_puts ''BEAM|restart|FATAL|'' s)))"

section \<open>Capture\<close>

definition survivor_area :: "beam_image \<Rightarrow> u64 \<Rightarrow> mem \<Rightarrow> u8 list" where
  "survivor_area img base m = region m (base + bi_survivors_off img) (unat (bi_survivors_size img))"

definition bss_length :: "beam_image \<Rightarrow> nat" where
  "bss_length img = unat (bi_bss_end img - bi_bss_start img)"

definition capture_survivors ::
  "beam_image \<Rightarrow> u64 \<Rightarrow> beam_state \<Rightarrow> (beam_stop + u64) \<times> beam_state" where
  "capture_survivors img base s =
     (case beam_survivors_encode (region (bs_mem s) (bi_bss_start img) (bss_length img)) beam_survivor_gap_words
             (survivor_area img base (bs_mem s)) of
        (status, out, used) \<Rightarrow>
          let s = on_mem (write_mem (base + bi_survivors_off img) out) s
          in if status \<noteq> Snapshot_ok then restart_fail (beam_snapshot_status_name status) s
             else (Inr (of_nat (case used of None \<Rightarrow> 0 | Some n \<Rightarrow> n)), s))"

definition beam_boot_capture :: "beam_image \<Rightarrow> u64 \<Rightarrow> beam_state \<Rightarrow> (beam_stop + unit) \<times> beam_state" where
  "beam_boot_capture img sp s =
     (let base = snapshot_base img (bs_mem s)
      in if base = 0 then (Inr (), dbg_puts ''BEAM|restart|unavailable|no-snapshot-region\<newline>'' s)
         else if beam_snapshot_captured (sn_magic (snapshot_hdr (bs_mem s) base)) then (Inr (), s)
         else
           let layout = current_layout img base;
               layout_status = beam_restart_layout_check layout
           in if layout_status \<noteq> Layout_ok then restart_fail (beam_restart_layout_status_name layout_status) s
              else
                let data_len = ly_bss_start layout - ly_segment_start layout;
                    s = on_mem (memcpy (base + bi_data_off img) (bi_segment_start img) (unat data_len)) s;
                    s = on_mem (store64 (base + 16) sp) s;
                    s = on_mem (store64 (base + 24) data_len) s
                in case capture_survivors img base s of
                     (Inl stop, s) \<Rightarrow> (Inl stop, s)
                   | (Inr used, s) \<Rightarrow>
                       let s = on_mem (store64 (base + 32) used) s;
                           s = on_mem (store64 (base + 8) 1) s
                       in (Inr (), on_mem (store64 base beam_snapshot_magic) s))"

section \<open>Restore\<close>

text \<open>The loop that puts the survivors back, reading each record from memory as it is by then.\<close>

function replay :: "beam_image \<Rightarrow> u64 \<Rightarrow> nat \<Rightarrow> nat \<Rightarrow> mem \<Rightarrow> mem" where
  "replay img base survivor_len cursor m =
     (case beam_survivor_read (survivor_area img base m) survivor_len (bss_length img) cursor of
        Survivor_record run payload cursor' \<Rightarrow>
          replay img base survivor_len cursor' (write_mem (bi_bss_start img + ucast (sv_offset run)) payload m)
      | _ \<Rightarrow> m)"
  by pat_completeness auto
termination replay
  by (relation "measure (\<lambda>(img, base, survivor_len, cursor, m). survivor_len - cursor)")
    (auto dest!: survivor_read_advances)

declare replay.simps [simp del]

definition beam_reset_restore :: "beam_image \<Rightarrow> beam_state \<Rightarrow> (beam_stop + u64) \<times> beam_state" where
  "beam_reset_restore img s =
     (let base = snapshot_base img (bs_mem s);
          layout = current_layout img base;
          layout_status = beam_restart_layout_check layout
      in if layout_status \<noteq> Layout_ok then restart_fail (beam_restart_layout_status_name layout_status) s
         else
           let hdr = snapshot_hdr (bs_mem s) base;
               status = beam_snapshot_validate hdr (survivor_area img base (bs_mem s))
                          (unat (bi_survivors_size img)) layout
           in if status \<noteq> Snapshot_ok then restart_fail (beam_snapshot_status_name status) s
              else
                let s = on_mem (memcpy (bi_segment_start img) (base + bi_data_off img) (unat (sn_data_bytes hdr))) s;
                    s = on_mem (memset_zero (bi_bss_start img) (bss_length img)) s;
                    s = on_mem (replay img base (unat (sn_survivor_bytes hdr)) 0) s;
                    s = on_mem (\<lambda>m. store64 (base + 8) (load64 m (base + 8) + 1) m) s
                in (Inr (sn_saved_sp hdr), s))"

definition beam_warm_start :: "beam_image \<Rightarrow> beam_state \<Rightarrow> bool" where
  "beam_warm_start img s =
     (let base = snapshot_base img (bs_mem s)
      in if base = 0 then False
         else beam_snapshot_warm (sn_magic (snapshot_hdr (bs_mem s) base)) (sn_generation (snapshot_hdr (bs_mem s) base)))"

section \<open>The entry points\<close>

text \<open>What the two assembly entries hand to \<open>main\<close>: the stack pointer it starts with.\<close>

definition start_entry :: "beam_image \<Rightarrow> u64 \<Rightarrow> beam_state \<Rightarrow> (beam_stop + u64) \<times> beam_state" where
  "start_entry img sp s =
     (case beam_boot_capture img sp s of
        (Inl stop, s) \<Rightarrow> (Inl stop, s)
      | (Inr _, s) \<Rightarrow> (Inr sp, s))"

definition reset_entry :: "beam_image \<Rightarrow> beam_state \<Rightarrow> (beam_stop + u64) \<times> beam_state" where
  "reset_entry img s =
     (if snapshot_base img (bs_mem s) = 0 then (Inl Brk, s) else beam_reset_restore img s)"

section \<open>Reports\<close>

function dec_digits64 :: "u64 \<Rightarrow> string \<Rightarrow> string" where
  "dec_digits64 v buf =
     (let buf = char_of (48 + unat (v mod 10)) # buf; v = v div 10
      in if v \<noteq> 0 then dec_digits64 v buf else buf)"
  by pat_completeness auto
termination dec_digits64
proof (relation "measure (\<lambda>(v, buf). unat v)")
  fix v :: u64 and buf x y
  assume "y = v div 10" "y \<noteq> 0"
  then have "unat v div 10 \<noteq> 0" by (simp add: word_unat_eq_iff unat_div)
  then show "((y, x), v, buf) \<in> measure (\<lambda>(v, buf). unat v)"
    using \<open>y = v div 10\<close> by (simp add: unat_div)
qed simp

definition beam_put_dec :: "u64 \<Rightarrow> beam_state \<Rightarrow> beam_state" where
  "beam_put_dec v = dbg_puts (dec_digits64 v [])"

definition beam_put_hex :: "u64 \<Rightarrow> beam_state \<Rightarrow> beam_state" where
  "beam_put_hex v =
     dbg_puts (''0x'' @ map (\<lambda>i. ''0123456789abcdef'' ! unat (drop_bit ((15 - i) * 4) v AND 0xf)) [0..<16])"

function report_runs :: "beam_image \<Rightarrow> u8 list \<Rightarrow> nat \<Rightarrow> nat \<Rightarrow> beam_state \<Rightarrow> beam_state" where
  "report_runs img area survivor_len cursor s =
     (case beam_survivor_read area survivor_len (bss_length img) cursor of
        Survivor_record run payload cursor' \<Rightarrow>
          let s = dbg_puts ''BEAM|snapshot|survivor|vaddr='' s;
              s = beam_put_hex (bi_bss_start img + ucast (sv_offset run)) s;
              s = dbg_puts ''|len='' s;
              s = beam_put_dec (ucast (sv_len run)) s
          in report_runs img area survivor_len cursor' (dbg_puts ''\<newline>'' s)
      | _ \<Rightarrow> s)"
  by pat_completeness auto
termination report_runs
  by (relation "measure (\<lambda>(img, area, survivor_len, cursor, s). survivor_len - cursor)")
    (auto dest!: survivor_read_advances)

declare report_runs.simps [simp del]

definition beam_restart_report :: "beam_image \<Rightarrow> beam_state \<Rightarrow> beam_state" where
  "beam_restart_report img s =
     (let base = snapshot_base img (bs_mem s)
      in if base = 0 then s
         else
           let hdr = snapshot_hdr (bs_mem s) base;
               s = dbg_puts ''BEAM|snapshot|data='' s;
               s = beam_put_dec (sn_data_bytes hdr) s;
               s = dbg_puts ''|survivor-bytes='' s;
               s = beam_put_dec (sn_survivor_bytes hdr) s;
               s = dbg_puts ''|bss='' s;
               s = beam_put_dec (bi_bss_end img - bi_bss_start img) s;
               s = dbg_puts ''\<newline>'' s
           in report_runs img (survivor_area img base (bs_mem s)) (unat (sn_survivor_bytes hdr)) 0 s)"

definition beam_boot_banner :: "beam_image \<Rightarrow> beam_state \<Rightarrow> beam_state" where
  "beam_boot_banner img s =
     (let base = snapshot_base img (bs_mem s);
          s = on_mem (\<lambda>m. store32 (bi_boots_var img) (load32 m (bi_boots_var img) + 1) m) s;
          s = dbg_puts ''BEAM|boot|generation='' s;
          s = beam_put_dec (if base = 0 then 0 else sn_generation (snapshot_hdr (bs_mem s) base)) s;
          s = dbg_puts ''|bss-counter='' s;
          s = beam_put_dec (ucast (load32 (bs_mem s) (bi_boots_var img))) s;
          s = dbg_puts ''\<newline>'' s
      in if \<not> beam_warm_start img s then beam_restart_report img s else s)"

text \<open>\<open>mapped\<close> tells which addresses the domain may store to.\<close>

definition beam_request_restart ::
  "beam_image \<Rightarrow> (u64 \<Rightarrow> bool) \<Rightarrow> int \<Rightarrow> beam_state \<Rightarrow> (beam_stop + unit) \<times> beam_state" where
  "beam_request_restart img mapped status s =
     (let s = dbg_puts ''BEAM|exit|code='' s;
          s = beam_put_dec (word_of_int (status mod 2 ^ 32)) s;
          s = dbg_puts ''|requesting-restart\<newline>'' s;
          addr = beam_exit_fault_addr (bi_exit_base img) status
      in if mapped addr then (Inl Brk, on_mem (write_mem addr [0]) s) else (Inl (Fault addr), s))"

section \<open>Where everything lies\<close>

abbreviation (input) data_length :: "beam_image \<Rightarrow> nat" where
  "data_length img \<equiv> unat (bi_bss_start img - bi_segment_start img)"

text \<open>What the build guarantees of an image whose layout check passes at \<open>base\<close>.\<close>

definition placed :: "beam_image \<Rightarrow> u64 \<Rightarrow> bool" where
  "placed img base \<longleftrightarrow>
     beam_abi_ok img \<and> beam_restart_layout_check (current_layout img base) = Layout_ok \<and>
     unat (bi_bss_start img) \<le> unat (bi_snapshot_var img) \<and>
     unat (bi_snapshot_var img) + 8 \<le> unat (bi_bss_end img)"

lemma spans_apart:
  assumes "{unat a ..< unat a + n} \<inter> {unat b ..< unat b + k} = {}"
    "unat a \<le> x" "x + l \<le> unat a + n" "unat b \<le> y" "y + j \<le> unat b + k" "0 < l" "0 < j"
  shows "x + l \<le> y \<or> y + j \<le> x"
proof (rule ccontr)
  assume c: "\<not> (x + l \<le> y \<or> y + j \<le> x)"
  then have "max x y \<in> {unat a ..< unat a + n} \<inter> {unat b ..< unat b + k}" using assms(2-7) by auto
  then show False using assms(1) by blast
qed


lemma placed_ranges:
  assumes "placed img base"
  shows "base \<noteq> 0" "unat base + unat (bi_snapshot_size img) < 2 ^ 64"
    "unat (bi_segment_start img) \<le> unat (bi_bss_start img)" "unat (bi_bss_start img) \<le> unat (bi_bss_end img)"
    "data_length img = unat (bi_bss_start img) - unat (bi_segment_start img)"
    "bss_length img = unat (bi_bss_end img) - unat (bi_bss_start img)"
    "bss_length img < 2 ^ 32"
    "unat (bi_data_off img) + data_length img \<le> unat (bi_snapshot_size img)"
    "{unat base ..< unat base + unat (bi_snapshot_size img)} \<inter>
       {unat (bi_segment_start img) ..< unat (bi_bss_end img)} = {}"
    "40 \<le> unat (bi_survivors_off img)"
    "unat (bi_survivors_off img) + unat (bi_survivors_size img) \<le> unat (bi_data_off img)"
proof -
  have c: "beam_restart_layout_check (current_layout img base) = Layout_ok" and a: "beam_abi_ok img"
    using assms by (simp_all add: placed_def)
  note e = c [unfolded layout_check_exact Let_def span_def current_layout_def, simplified]
  show "base \<noteq> 0" "unat base + unat (bi_snapshot_size img) < 2 ^ 64"
    "{unat base ..< unat base + unat (bi_snapshot_size img)} \<inter>
       {unat (bi_segment_start img) ..< unat (bi_bss_end img)} = {}" using e by simp_all
  show o: "unat (bi_segment_start img) \<le> unat (bi_bss_start img)" "unat (bi_bss_start img) \<le> unat (bi_bss_end img)"
    using e by (simp_all add: word_le_unat)
  show d: "data_length img = unat (bi_bss_start img) - unat (bi_segment_start img)"
    "bss_length img = unat (bi_bss_end img) - unat (bi_bss_start img)"
    using o by (simp_all add: unat_minus_le bss_length_def)
  show "bss_length img < 2 ^ 32" "unat (bi_data_off img) + data_length img \<le> unat (bi_snapshot_size img)"
    unfolding d using e by simp_all
  show "40 \<le> unat (bi_survivors_off img)"
    "unat (bi_survivors_off img) + unat (bi_survivors_size img) \<le> unat (bi_data_off img)"
    using a by (simp_all add: beam_abi_ok_def)
qed

lemma placed_order:
  assumes "placed img base"
  shows "unat (bi_bss_end img) \<le> unat base \<or> unat base + unat (bi_snapshot_size img) \<le> unat (bi_segment_start img)"
    "unat (bi_bss_start img) + 8 \<le> unat (bi_bss_end img)"
proof -
  note r = placed_ranges [OF assms]
  have v: "unat (bi_bss_start img) \<le> unat (bi_snapshot_var img)" "unat (bi_snapshot_var img) + 8 \<le> unat (bi_bss_end img)"
    and z: "unat (bi_data_off img) < unat (bi_snapshot_size img)"
    using assms by (simp_all add: placed_def beam_abi_ok_def)
  then show "unat (bi_bss_start img) + 8 \<le> unat (bi_bss_end img)" by linarith
  show "unat (bi_bss_end img) \<le> unat base \<or> unat base + unat (bi_snapshot_size img) \<le> unat (bi_segment_start img)"
    using spans_apart [of base "unat (bi_snapshot_size img)" "bi_segment_start img"
        "unat (bi_bss_end img) - unat (bi_segment_start img)" "unat base" "unat (bi_snapshot_size img)"
        "unat (bi_segment_start img)" "unat (bi_bss_end img) - unat (bi_segment_start img)"] r(3,4,9) v z
    by auto
qed

lemma unat_add_below: "unat a + unat b < 2 ^ 64 \<Longrightarrow> unat (a + b) = unat a + unat b" for a b :: u64
  by (simp add: unat_add_fits)

lemma placed_addrs:
  assumes "placed img base"
  shows "unat (base + 8) = unat base + 8" "unat (base + 16) = unat base + 16" "unat (base + 24) = unat base + 24"
    "unat (base + 32) = unat base + 32"
    "unat (base + bi_survivors_off img) = unat base + unat (bi_survivors_off img)"
    "unat (base + bi_data_off img) = unat base + unat (bi_data_off img)"
proof -
  note r = placed_ranges [OF assms]
  show "unat (base + 8) = unat base + 8" "unat (base + 16) = unat base + 16" "unat (base + 24) = unat base + 24"
    "unat (base + 32) = unat base + 32"
    "unat (base + bi_survivors_off img) = unat base + unat (bi_survivors_off img)"
    "unat (base + bi_data_off img) = unat base + unat (bi_data_off img)"
    using r(2,8,10,11) by (subst unat_add_below; simp)+
qed

lemmas placed_arith = placed_ranges(2-8,10,11) placed_order placed_addrs

lemma placed_fits:
  assumes "placed img base"
  shows "fits base 8" "fits (base + 8) 8" "fits (base + 16) 8" "fits (base + 24) 8" "fits (base + 32) 8"
    "fits (base + bi_survivors_off img) (unat (bi_survivors_size img))"
    "fits (base + bi_data_off img) (data_length img)"
    "fits (bi_segment_start img) (data_length img)" "fits (bi_bss_start img) (bss_length img)"
    "fits (bi_snapshot_var img) 8"
proof -
  note a = placed_arith [OF assms]
  have v: "unat (bi_snapshot_var img) + 8 \<le> unat (bi_bss_end img)" using assms by (simp add: placed_def)
  show "fits base 8" "fits (base + 8) 8" "fits (base + 16) 8" "fits (base + 24) 8" "fits (base + 32) 8"
    "fits (base + bi_survivors_off img) (unat (bi_survivors_size img))"
    "fits (base + bi_data_off img) (data_length img)"
    "fits (bi_segment_start img) (data_length img)" "fits (bi_bss_start img) (bss_length img)"
    "fits (bi_snapshot_var img) 8"
    unfolding fits_def a(4,5) using a v unat_lt [of "bi_bss_end img"] unat_lt [of "bi_bss_start img"] by simp_all
qed

text \<open>The three areas of the snapshot are apart, and all of them from the segment's two parts.\<close>

lemma placed_apart:
  assumes "placed img base" "x \<in> {base, base + 8, base + 16, base + 24, base + 32}"
  shows "apart x 8 (base + bi_survivors_off img) (unat (bi_survivors_size img))"
    "apart x 8 (base + bi_data_off img) (data_length img)"
    "apart x 8 (bi_segment_start img) (data_length img)" "apart x 8 (bi_bss_start img) (bss_length img)"
    "apart (base + bi_survivors_off img) (unat (bi_survivors_size img)) (base + bi_data_off img) (data_length img)"
    "apart (base + bi_survivors_off img) (unat (bi_survivors_size img)) (bi_segment_start img) (data_length img)"
    "apart (base + bi_survivors_off img) (unat (bi_survivors_size img)) (bi_bss_start img) (bss_length img)"
    "apart (base + bi_data_off img) (data_length img) (bi_segment_start img) (data_length img)"
    "apart (base + bi_data_off img) (data_length img) (bi_bss_start img) (bss_length img)"
    "apart (bi_segment_start img) (data_length img) (bi_bss_start img) (bss_length img)"
    "y \<in> {base, base + 8, base + 16, base + 24, base + 32} \<Longrightarrow> x \<noteq> y \<Longrightarrow> apart x 8 y 8"
proof -
  note a = placed_arith [OF assms(1)]
  have x: "unat base \<le> unat x" "unat x + 8 \<le> unat base + 40" using assms(2) a by auto
  show "apart x 8 (base + bi_survivors_off img) (unat (bi_survivors_size img))"
    "apart x 8 (base + bi_data_off img) (data_length img)"
    unfolding apart_def using a x by simp_all
  show "apart x 8 (bi_segment_start img) (data_length img)" "apart x 8 (bi_bss_start img) (bss_length img)"
    unfolding apart_def a(4,5) using a x by linarith+
  show "apart (base + bi_survivors_off img) (unat (bi_survivors_size img)) (base + bi_data_off img) (data_length img)"
    unfolding apart_def using a by simp
  show "apart (base + bi_survivors_off img) (unat (bi_survivors_size img)) (bi_segment_start img) (data_length img)"
    "apart (base + bi_survivors_off img) (unat (bi_survivors_size img)) (bi_bss_start img) (bss_length img)"
    "apart (base + bi_data_off img) (data_length img) (bi_segment_start img) (data_length img)"
    "apart (base + bi_data_off img) (data_length img) (bi_bss_start img) (bss_length img)"
    "apart (bi_segment_start img) (data_length img) (bi_bss_start img) (bss_length img)"
    unfolding apart_def a(4,5) using a by linarith+
  show "y \<in> {base, base + 8, base + 16, base + 24, base + 32} \<Longrightarrow> x \<noteq> y \<Longrightarrow> apart x 8 y 8"
    unfolding apart_def using assms(2) a by auto
qed

end
