(* ===== verification/Restart_Pristine.thy ===== *)
theory Restart_Pristine
  imports Beam_Restart
begin

text \<open>
  A reset gives back the image the loader left: what a capture records and what a restore makes of it.
\<close>

section \<open>What a capture leaves and a restore reads\<close>

lemma region_store64_other:
  "fits a 8 \<Longrightarrow> fits b k \<Longrightarrow> apart a 8 b k \<Longrightarrow> region (store64 a v m) b k = region m b k"
  unfolding store64_def by (rule region_write_other) simp_all

lemma load64_store64_other:
  "fits a 8 \<Longrightarrow> fits b 8 \<Longrightarrow> apart a 8 b 8 \<Longrightarrow> load64 (store64 a v m) b = load64 m b"
  unfolding store64_def by (rule load64_other) simp_all

definition holds_snapshot :: "beam_image \<Rightarrow> u64 \<Rightarrow> mem \<Rightarrow> u64 \<Rightarrow> u64 \<Rightarrow> u64 \<Rightarrow> mem \<Rightarrow> bool" where
  "holds_snapshot img base pristine sp g used m \<longleftrightarrow>
     snapshot_hdr m base = \<lparr>sn_magic = beam_snapshot_magic, sn_generation = g, sn_saved_sp = sp,
       sn_data_bytes = bi_bss_start img - bi_segment_start img, sn_survivor_bytes = used\<rparr> \<and>
     unat used \<le> unat (bi_survivors_size img) \<and>
     region m (base + bi_data_off img) (data_length img) = region pristine (bi_segment_start img) (data_length img) \<and>
     validate_walk (survivor_area img base m) (unat used) (bss_length img) 0 0 = Snapshot_ok \<and>
     paste (survivor_runs (survivor_area img base m) (unat used) (bss_length img) 0) (replicate (bss_length img) 0) =
       region pristine (bi_bss_start img) (bss_length img)"

lemma capture_survivors_ok:
  assumes "placed img base" "capture_survivors img base s = (Inr used, s')"
  obtains out where "bs_mem s' = write_mem (base + bi_survivors_off img) out (bs_mem s)"
    "length out = unat (bi_survivors_size img)" "survivor_area img base (bs_mem s') = out"
    "unat used \<le> unat (bi_survivors_size img)"
    "validate_walk out (unat used) (bss_length img) 0 0 = Snapshot_ok"
    "paste (survivor_runs out (unat used) (bss_length img) 0) (replicate (bss_length img) 0) =
       region (bs_mem s) (bi_bss_start img) (bss_length img)"
proof -
  let ?bss = "region (bs_mem s) (bi_bss_start img) (bss_length img)"
  obtain out n where e: "beam_survivors_encode ?bss 8 (survivor_area img base (bs_mem s)) = (Snapshot_ok, out, Some n)"
    and s': "s' = on_mem (write_mem (base + bi_survivors_off img) out) s" and u: "used = of_nat n"
    using assms(2)
    by (auto simp: capture_survivors_def Let_def restart_fail_def beam_survivors_encode_def
        split: if_splits prod.splits option.splits bool.splits)
  note rt = encode_read_back [OF e]
  have len: "length out = unat (bi_survivors_size img)" using rt by (simp add: survivor_area_def)
  have n: "unat used = n" "n \<le> unat (bi_survivors_size img)"
    using rt unat_lt [of "bi_survivors_size img"] by (simp_all add: survivor_area_def u unat_of_nat)
  have "survivor_area img base (bs_mem s') = out"
    using region_write_self [of "base + bi_survivors_off img" out "bs_mem s"] placed_fits(6) [OF assms(1)]
    by (simp add: survivor_area_def s' on_mem_def len)
  then show thesis using that [of out] rt n len by (simp add: s' on_mem_def)
qed

lemma capture_holds:
  assumes "placed img base" "snapshot_base img (bs_mem s) = base"
    "\<not> beam_snapshot_captured (load64 (bs_mem s) base)" "beam_boot_capture img sp s = (Inr (), s')"
  shows "\<exists>used. holds_snapshot img base (bs_mem s) sp 1 used (bs_mem s')"
    "region (bs_mem s') (bi_segment_start img) (data_length img) = region (bs_mem s) (bi_segment_start img) (data_length img)"
    "region (bs_mem s') (bi_bss_start img) (bss_length img) = region (bs_mem s) (bi_bss_start img) (bss_length img)"
proof -
  note f = placed_fits [OF assms(1)]
  note ap = placed_apart(1-4) [OF assms(1)] and ar = placed_apart(5-10) [OF assms(1) insertI1]
    and ah = placed_apart(11) [OF assms(1)]
  let ?m = "bs_mem s" and ?d = "bi_bss_start img - bi_segment_start img"
  let ?s1 = "on_mem (memcpy (base + bi_data_off img) (bi_segment_start img) (data_length img)) s"
  let ?s3 = "on_mem (store64 (base + 24) ?d) (on_mem (store64 (base + 16) sp) ?s1)"
  have b0: "base \<noteq> 0" and ly: "beam_restart_layout_check (current_layout img base) = Layout_ok"
    using assms(1) placed_ranges(1) [OF assms(1)] by (simp_all add: placed_def)
  obtain used s4 where cs: "capture_survivors img base ?s3 = (Inr used, s4)"
    and s': "s' = on_mem (store64 base beam_snapshot_magic) (on_mem (store64 (base + 8) 1) (on_mem (store64 (base + 32) used) s4))"
    using assms(4) b0 ly assms(3)
    by (auto simp: beam_boot_capture_def assms(2) Let_def snapshot_hdr_def current_layout_def
        split: prod.splits sum.splits)
  let ?m3 = "store64 (base + 24) ?d (store64 (base + 16) sp
    (memcpy (base + bi_data_off img) (bi_segment_start img) (data_length img) ?m))"
  have m3: "bs_mem ?s3 = ?m3" by (simp add: on_mem_def)
  have m': "bs_mem s' = store64 base beam_snapshot_magic (store64 (base + 8) 1 (store64 (base + 32) used (bs_mem s4)))"
    by (simp add: s' on_mem_def)
  obtain a where c: "bs_mem s4 = write_mem (base + bi_survivors_off img) a ?m3"
    "length a = unat (bi_survivors_size img)" "survivor_area img base (bs_mem s4) = a"
    "unat used \<le> unat (bi_survivors_size img)"
    "validate_walk a (unat used) (bss_length img) 0 0 = Snapshot_ok"
    "paste (survivor_runs a (unat used) (bss_length img) 0) (replicate (bss_length img) 0) =
       region ?m3 (bi_bss_start img) (bss_length img)"
    by (rule capture_survivors_ok [OF assms(1) cs, unfolded m3])
  have bss3: "region ?m3 (bi_bss_start img) (bss_length img) = region ?m (bi_bss_start img) (bss_length img)"
    using f ap ar by (simp add: region_store64_other memcpy_def region_write_other)
  have seg3: "region ?m3 (bi_segment_start img) (data_length img) = region ?m (bi_segment_start img) (data_length img)"
    using f ap ar by (simp add: region_store64_other memcpy_def region_write_other)
  have data3: "region ?m3 (base + bi_data_off img) (data_length img) = region ?m (bi_segment_start img) (data_length img)"
    using f ap by (simp add: region_store64_other region_memcpy)
  have r4: "region (bs_mem s4) b k = region ?m3 b k"
    if "fits b k" "apart (base + bi_survivors_off img) (unat (bi_survivors_size img)) b k" for b k
    using that f(6) c(2) unfolding c(1) by (intro region_write_other) simp_all
  have r': "region (bs_mem s') b k = region (bs_mem s4) b k"
    if "fits b k" "\<And>x. x \<in> {base, base + 8, base + 16, base + 24, base + 32} \<Longrightarrow> apart x 8 b k" for b k
    using that f unfolding m' by (simp add: region_store64_other)
  show seg: "region (bs_mem s') (bi_segment_start img) (data_length img) = region ?m (bi_segment_start img) (data_length img)"
    using r' [OF f(8)] r4 [OF f(8)] ap(3) ar(2) seg3 by simp
  show bss: "region (bs_mem s') (bi_bss_start img) (bss_length img) = region ?m (bi_bss_start img) (bss_length img)"
    using r' [OF f(9)] r4 [OF f(9)] ap(4) ar(3) bss3 by simp
  have area: "survivor_area img base (bs_mem s') = a"
    using r' [OF f(6)] ap(1) c(3) by (simp add: survivor_area_def)
  have h4: "load64 (bs_mem s4) x = load64 ?m3 x" if "x \<in> {base + 16, base + 24}" for x
    using that r4 [of x 8] f ap(1) [of x] by (auto simp: apart_sym intro!: load64_cong)
  have ne: "base \<noteq> base + 8" "base + 8 \<noteq> base + 16" "base + 8 \<noteq> base + 24" "base + 8 \<noteq> base + 32"
    "base + 16 \<noteq> base + 24" "base + 32 \<noteq> base + 16" "base + 32 \<noteq> base + 24" "base \<noteq> base + 16" "base \<noteq> base + 24"
    "base \<noteq> base + 32"
    by simp_all
  have "snapshot_hdr (bs_mem s') base = \<lparr>sn_magic = beam_snapshot_magic, sn_generation = 1, sn_saved_sp = sp,
      sn_data_bytes = ?d, sn_survivor_bytes = used\<rparr>"
    unfolding snapshot_hdr_def m'
    using f ah ne h4 by (simp add: load64_store64 load64_store64_other)
  moreover have "region (bs_mem s') (base + bi_data_off img) (data_length img) =
      region ?m (bi_segment_start img) (data_length img)"
    using r' [OF f(7)] r4 [OF f(7)] ap(2) ar(1) data3 by simp
  ultimately show "\<exists>used. holds_snapshot img base ?m sp 1 used (bs_mem s')"
    unfolding holds_snapshot_def area using c(4,5,6) bss3 by auto
qed

lemma ucast_of_nat_unat: "ucast x = (of_nat (unat x) :: u64)" for x :: u32
  by simp

lemma replay_paste:
  assumes "placed img base"
  shows "region (replay img base len cursor m) (bi_bss_start img) (bss_length img) =
      paste (survivor_runs (survivor_area img base m) len (bss_length img) cursor)
        (region m (bi_bss_start img) (bss_length img)) \<and>
    (\<forall>x. \<not> inside (bi_bss_start img) (bss_length img) x \<longrightarrow> replay img base len cursor m x = m x)"
proof -
  note f = placed_fits [OF assms] and ar = placed_apart(5-10) [OF assms insertI1]
  show ?thesis
  proof (induction img\<equiv>img base\<equiv>base len cursor m rule: replay.induct)
    case (1 len cursor m)
    show ?case
    proof (cases "beam_survivor_read (survivor_area img base m) len (bss_length img) cursor")
      case (Survivor_record run payload cursor')
      let ?o = "unat (sv_offset run)"
      have off: "?o + unat (sv_len run) \<le> bss_length img" using survivor_read_advances [OF Survivor_record] by simp
      moreover have "length payload \<le> unat (sv_len run)"
        using Survivor_record by (auto simp: beam_survivor_read_def Let_def split: if_splits)
      ultimately have fit: "?o + length payload \<le> bss_length img" by simp
      define m1 where "m1 = write_mem (bi_bss_start img + ucast (sv_offset run)) payload m"
      have r: "region m1 (bi_bss_start img) (bss_length img) =
          write_list (region m (bi_bss_start img) (bss_length img)) ?o payload"
        unfolding m1_def ucast_of_nat_unat by (rule region_write_part [OF f(9) fit])
      have out: "m1 x = m x" if "\<not> inside (bi_bss_start img) (bss_length img) x" for x
      proof (cases "payload = []")
        case False
        then have o: "unat (bi_bss_start img + of_nat ?o) = unat (bi_bss_start img) + ?o"
          using fit by (intro unat_offset [OF f(9)]) (cases payload; simp)
        then have "fits (bi_bss_start img + of_nat ?o) (length payload)"
          using fit f(9) by (simp add: fits_def)
        moreover have "\<not> inside (bi_bss_start img + of_nat ?o) (length payload) x"
          using that fit o by (auto simp: inside_def)
        ultimately show ?thesis unfolding m1_def ucast_of_nat_unat by (rule write_mem_out)
      qed (simp add: m1_def write_mem_def)
      have "survivor_area img base m1 = survivor_area img base m"
        unfolding survivor_area_def using apart_inside [OF apart_sym [OF ar(3)]] out
        by (intro region_cong f(6)) blast
      moreover have "replay img base len cursor m = replay img base len cursor' m1"
        by (subst replay.simps) (simp add: Survivor_record m1_def)
      moreover note "1.hyps" [OF Survivor_record, folded m1_def]
      ultimately show ?thesis
        using r out by (simp add: survivor_runs.simps [of _ len "bss_length img" cursor] Survivor_record paste_def)
    qed (simp_all add: replay.simps [of img base len cursor] survivor_runs.simps [of _ len "bss_length img" cursor] paste_def)
  qed
qed

abbreviation (input) in_segment :: "beam_image \<Rightarrow> u64 \<Rightarrow> bool" where
  "in_segment img x \<equiv> unat (bi_segment_start img) \<le> unat x \<and> unat x < unat (bi_bss_end img)"

lemma segment_parts:
  "placed img base \<Longrightarrow> in_segment img x \<longleftrightarrow>
     inside (bi_segment_start img) (data_length img) x \<or> inside (bi_bss_start img) (bss_length img) x"
  unfolding inside_def using placed_ranges(3-6) [of img base] by (auto simp: not_less)

lemma holds_valid:
  assumes "holds_snapshot img base p sp g used m" "g \<noteq> 0" "g \<noteq> UINT64_MAX"
    "stack_top_is_valid sp (current_layout img base)"
  shows "beam_snapshot_validate (snapshot_hdr m base) (survivor_area img base m) (unat (bi_survivors_size img))
    (current_layout img base) = Snapshot_ok"
  using assms
  by (simp add: beam_snapshot_validate_def holds_snapshot_def beam_snapshot_captured_def current_layout_def bss_length_def)

text \<open>The snapshot lies outside the segment, so it outlives whatever happens there.\<close>

lemma holds_cong:
  assumes "placed img base" "holds_snapshot img base p sp g used m"
    "\<And>x. inside base (unat (bi_snapshot_size img)) x \<Longrightarrow> \<not> inside (base + 8) 8 x \<Longrightarrow> m' x = m x"
    "load64 m' (base + 8) = g'"
  shows "holds_snapshot img base p sp g' used m'"
proof -
  note f = placed_fits [OF assms(1)] and a = placed_arith [OF assms(1)]
  have same: "region m' b k = region m b k"
    if "fits b k" "unat base \<le> unat b" "unat b + k \<le> unat base + unat (bi_snapshot_size img)" "apart (base + 8) 8 b k" for b k
    using that(2-4) by (intro region_cong that(1) assms(3)) (auto simp: inside_def apart_def)
  have "load64 m' b = load64 m b" if "b \<in> {base, base + 16, base + 24, base + 32}" for b
    using that a f by (intro load64_cong same) (auto simp: apart_def)
  moreover have "survivor_area img base m' = survivor_area img base m"
    unfolding survivor_area_def using a by (intro same f(6)) (simp_all add: apart_def)
  moreover have "region m' (base + bi_data_off img) (data_length img) = region m (base + bi_data_off img) (data_length img)"
    using a by (intro same f(7)) (simp_all add: apart_def)
  ultimately show ?thesis using assms(2,4) by (simp add: holds_snapshot_def snapshot_hdr_def)
qed

lemma restore_holds:
  assumes "placed img base" "snapshot_base img (bs_mem s) = base" "holds_snapshot img base p sp g used (bs_mem s)"
    "g \<noteq> 0" "g \<noteq> UINT64_MAX" "stack_top_is_valid sp (current_layout img base)"
  obtains s' where "beam_reset_restore img s = (Inr sp, s')" "bs_console s' = bs_console s"
    "\<And>x. in_segment img x \<Longrightarrow> bs_mem s' x = p x"
    "\<And>x. \<not> in_segment img x \<Longrightarrow> \<not> inside (base + 8) 8 x \<Longrightarrow> bs_mem s' x = bs_mem s x"
    "holds_snapshot img base p sp (g + 1) used (bs_mem s')"
proof -
  note f = placed_fits [OF assms(1)] and a = placed_arith [OF assms(1)]
  note ap = placed_apart(1-4) [OF assms(1)] and ar = placed_apart(5-10) [OF assms(1) insertI1]
  let ?m = "bs_mem s"
  let ?m1 = "memcpy (bi_segment_start img) (base + bi_data_off img) (data_length img) ?m"
  let ?m2 = "memset_zero (bi_bss_start img) (bss_length img) ?m1"
  let ?m3 = "replay img base (unat used) 0 ?m2"
  let ?m4 = "store64 (base + 8) (load64 ?m3 (base + 8) + 1) ?m3"
  have h: "snapshot_hdr ?m base = \<lparr>sn_magic = beam_snapshot_magic, sn_generation = g, sn_saved_sp = sp,
       sn_data_bytes = bi_bss_start img - bi_segment_start img, sn_survivor_bytes = used\<rparr>"
    "region ?m (base + bi_data_off img) (data_length img) = region p (bi_segment_start img) (data_length img)"
    "paste (survivor_runs (survivor_area img base ?m) (unat used) (bss_length img) 0) (replicate (bss_length img) 0) =
       region p (bi_bss_start img) (bss_length img)"
    using assms(3) by (simp_all add: holds_snapshot_def)
  have ly: "beam_restart_layout_check (current_layout img base) = Layout_ok" using assms(1) by (simp add: placed_def)
  have eq: "beam_reset_restore img s = (Inr sp, s\<lparr>bs_mem := ?m4\<rparr>)"
    using holds_valid [OF assms(3-6)] ly h(1)
    by (simp add: beam_reset_restore_def assms(2) Let_def on_mem_def)
  have o1: "?m1 x = ?m x" if "\<not> inside (bi_segment_start img) (data_length img) x" for x
    using that f(8) by (simp add: memcpy_def write_mem_out)
  have o2: "?m2 x = ?m1 x" if "\<not> inside (bi_bss_start img) (bss_length img) x" for x
    using that f(9) by (simp add: memset_zero_def write_mem_out)
  note rp = replay_paste [OF assms(1), of "unat used" 0 ?m2]
  have o4: "?m4 x = ?m3 x" if "\<not> inside (base + 8) 8 x" for x
    using that f(2) by (simp add: store64_def write_mem_out)
  have frame: "?m4 x = ?m x" if "\<not> in_segment img x" "\<not> inside (base + 8) 8 x" for x
    using that o1 o2 o4 rp segment_parts [OF assms(1), of x] by auto
  have "survivor_area img base ?m2 = survivor_area img base ?m"
    unfolding survivor_area_def
    using o1 o2 apart_inside [OF apart_sym [OF ar(2)]] apart_inside [OF apart_sym [OF ar(3)]]
    by (intro region_cong f(6)) metis
  moreover have "region ?m2 (bi_bss_start img) (bss_length img) = replicate (bss_length img) 0"
    using region_write_self [of "bi_bss_start img" "replicate (bss_length img) 0" ?m1] f(9)
    by (simp add: memset_zero_def)
  ultimately have bss3: "region ?m3 (bi_bss_start img) (bss_length img) = region p (bi_bss_start img) (bss_length img)"
    using rp h(3) by simp
  have "region ?m3 (bi_segment_start img) (data_length img) = region ?m1 (bi_segment_start img) (data_length img)"
    using rp o2 apart_inside [OF apart_sym [OF ar(6)]] by (intro region_cong f(8)) metis
  then have data3: "region ?m3 (bi_segment_start img) (data_length img) = region p (bi_segment_start img) (data_length img)"
    using region_memcpy [OF f(8)] h(2) by simp
  have hd: "\<not> inside (base + 8) 8 x" if "in_segment img x" for x
    using that apart_inside [OF ap(3)] apart_inside [OF ap(4)] segment_parts [OF assms(1), of x] by blast
  have pristine: "?m4 x = p x" if "in_segment img x" for x
    using that o4 [OF hd [OF that]] region_eqD [OF f(9) bss3] region_eqD [OF f(8) data3] segment_parts [OF assms(1), of x]
    by auto
  have "load64 ?m3 (base + 8) = load64 ?m (base + 8)"
  proof (intro load64_cong region_cong f(2))
    fix x assume "inside (base + 8) 8 x"
    then have "\<not> in_segment img x" using hd by blast
    then show "?m3 x = ?m x" using o1 o2 rp segment_parts [OF assms(1), of x] by auto
  qed
  then have "load64 ?m3 (base + 8) = g" using h(1) by (simp add: snapshot_hdr_def)
  then have g': "load64 ?m4 (base + 8) = g + 1" using f(2) by (simp add: load64_store64)
  have "?m4 x = ?m x" if "inside base (unat (bi_snapshot_size img)) x" "\<not> inside (base + 8) 8 x" for x
  proof (rule frame [OF _ that(2)])
    show "\<not> in_segment img x" using that(1) a by (auto simp: inside_def)
  qed
  then have "holds_snapshot img base p sp (g + 1) used ?m4" by (rule holds_cong [OF assms(1,3) _ g'])
  then show thesis using that [OF eq] pristine frame by simp
qed

end
