(* ===== verification/Beam_Lives.thy ===== *)
theory Beam_Lives
  imports Restart_Pristine
begin

text \<open>
  The lives of the BEAM: one boot and any number of resets, with anything done to the memory in
  between that keeps the snapshot, and what each reset gives back.
\<close>

section \<open>Any number of lives\<close>

text \<open>
  What a life of the domain may not touch: the header, the survivors and the data of the snapshot,
  and the variable that says where it is.  Everything else, the reset stack included, is free.
\<close>

definition snapshot_kept :: "beam_image \<Rightarrow> u64 \<Rightarrow> mem \<Rightarrow> mem \<Rightarrow> bool" where
  "snapshot_kept img base m m' \<longleftrightarrow>
     (\<forall>x \<in> {base, base + 8, base + 16, base + 24, base + 32, bi_snapshot_var img}. load64 m' x = load64 m x) \<and>
     survivor_area img base m' = survivor_area img base m \<and>
     region m' (base + bi_data_off img) (data_length img) = region m (base + bi_data_off img) (data_length img)"

text \<open>
  Lives of one domain: \<open>beam_life img base pristine sp g s\<close>, where \<open>pristine\<close> is the memory the
  loader left, \<open>sp\<close> the stack pointer it set and \<open>g\<close> the generation.  The first life starts at
  \<open>_start\<close>, every later one at \<open>_reset\<close>, and within one anything happens that keeps the snapshot.
\<close>

inductive beam_life :: "beam_image \<Rightarrow> u64 \<Rightarrow> mem \<Rightarrow> u64 \<Rightarrow> u64 \<Rightarrow> beam_state \<Rightarrow> bool"
  for img base pristine sp where
  life_boot: "pristine = bs_mem s \<Longrightarrow> snapshot_base img pristine = base \<Longrightarrow>
    \<not> beam_snapshot_captured (load64 pristine base) \<Longrightarrow>
    start_entry img sp s = (Inr sp', s') \<Longrightarrow> beam_life img base pristine sp 1 s'"
| life_run: "beam_life img base pristine sp g s \<Longrightarrow> snapshot_kept img base (bs_mem s) (bs_mem s') \<Longrightarrow>
    beam_life img base pristine sp g s'"
| life_reset: "beam_life img base pristine sp g s \<Longrightarrow> reset_entry img s = (Inr sp', s') \<Longrightarrow>
    beam_life img base pristine sp (g + 1) s'"

lemma holds_kept:
  "holds_snapshot img base p sp g used m \<Longrightarrow> snapshot_kept img base m m' \<Longrightarrow> holds_snapshot img base p sp g used m'"
  by (simp add: holds_snapshot_def snapshot_kept_def snapshot_hdr_def)

lemma var_in_segment:
  assumes "placed img base" "inside (bi_snapshot_var img) 8 x"
  shows "inside (bi_bss_start img) (bss_length img) x"
  using assms placed_ranges(6) [OF assms(1)] by (auto simp: placed_def inside_def)

lemma snapshot_base_bss:
  assumes "placed img base" "\<And>x. inside (bi_bss_start img) (bss_length img) x \<Longrightarrow> m' x = m x"
  shows "snapshot_base img m' = snapshot_base img m"
  unfolding snapshot_base_def
  using assms var_in_segment [OF assms(1)] by (intro load64_cong region_cong placed_fits(10) [OF assms(1)]) blast

lemma reset_gives_back:
  assumes "placed img base" "stack_top_is_valid sp (current_layout img base)"
    "snapshot_base img p = base" "snapshot_base img (bs_mem s) = base"
    "holds_snapshot img base p sp g used (bs_mem s)" "g \<noteq> 0" "g \<noteq> UINT64_MAX"
  obtains s' where "reset_entry img s = (Inr sp, s')" "bs_console s' = bs_console s"
    "\<And>x. in_segment img x \<Longrightarrow> bs_mem s' x = p x"
    "\<And>x. \<not> in_segment img x \<Longrightarrow> \<not> inside (base + 8) 8 x \<Longrightarrow> bs_mem s' x = bs_mem s x"
    "holds_snapshot img base p sp (g + 1) used (bs_mem s')" "snapshot_base img (bs_mem s') = base"
proof (rule restore_holds [OF assms(1,4,5,6,7,2)])
  fix s' assume r: "beam_reset_restore img s = (Inr sp, s')" "bs_console s' = bs_console s"
    "\<And>x. in_segment img x \<Longrightarrow> bs_mem s' x = p x"
    "\<And>x. \<not> in_segment img x \<Longrightarrow> \<not> inside (base + 8) 8 x \<Longrightarrow> bs_mem s' x = bs_mem s x"
    "holds_snapshot img base p sp (g + 1) used (bs_mem s')"
  have "snapshot_base img (bs_mem s') = base"
    using snapshot_base_bss [OF assms(1), of "bs_mem s'" p] r(3) segment_parts [OF assms(1)] assms(3) by metis
  moreover have "reset_entry img s = (Inr sp, s')"
    using r(1) placed_ranges(1) [OF assms(1)] by (simp add: reset_entry_def assms(4))
  ultimately show thesis using that [of s'] r(2-5) by blast
qed

lemma reset_at_last_generation:
  assumes "holds_snapshot img base p sp UINT64_MAX used (bs_mem s)" "snapshot_base img (bs_mem s) = base"
  shows "reset_entry img s \<noteq> (Inr sp', s')"
  using assms
  by (auto simp: reset_entry_def beam_reset_restore_def Let_def restart_fail_def holds_snapshot_def
      beam_snapshot_validate_def)

lemma generation_climbs: "g \<noteq> UINT64_MAX \<Longrightarrow> unat (g + 1) = unat g + 1"
proof -
  assume g: "g \<noteq> UINT64_MAX"
  have "unat g \<noteq> unat (UINT64_MAX :: u64)" using g word_unat_eq_iff by blast
  then have "unat g + 1 < 2 ^ 64" using unat_lt [of g] by simp
  then show ?thesis using unat_add_below [of g 1] by simp
qed

lemma life_holds:
  assumes "beam_life img base p sp g s" "placed img base" "stack_top_is_valid sp (current_layout img base)"
  shows "g \<noteq> 0 \<and> snapshot_base img p = base \<and> snapshot_base img (bs_mem s) = base \<and>
    (\<exists>used. holds_snapshot img base p sp g used (bs_mem s))"
  using assms(1)
proof (induction rule: beam_life.induct)
  case (life_boot s sp' s')
  then have c: "beam_boot_capture img sp s = (Inr (), s')"
    by (auto simp: start_entry_def split: prod.splits sum.splits)
  note h = capture_holds [OF assms(2) _ _ c, of, folded life_boot(1), OF life_boot(2,3)]
  have "snapshot_base img (bs_mem s') = snapshot_base img p"
    using region_eqD [OF placed_fits(9) [OF assms(2)] h(3)] by (intro snapshot_base_bss [OF assms(2)])
  then show ?case using h(1) life_boot(2) by simp
next
  case (life_run g s s')
  obtain used where h: "holds_snapshot img base p sp g used (bs_mem s)" using life_run.IH by blast
  have "snapshot_base img (bs_mem s') = snapshot_base img (bs_mem s)"
    using life_run.hyps(2) by (simp add: snapshot_kept_def snapshot_base_def)
  then show ?case using life_run.IH by (intro conjI exI [of _ used] holds_kept [OF h life_run.hyps(2)]) simp_all
next
  case (life_reset g s sp' s')
  obtain used where h: "holds_snapshot img base p sp g used (bs_mem s)" using life_reset.IH by blast
  have b: "g \<noteq> 0" "snapshot_base img p = base" "snapshot_base img (bs_mem s) = base"
    using life_reset.IH by simp_all
  have g: "g \<noteq> UINT64_MAX" using reset_at_last_generation [of img base p sp used s] h b(3) life_reset.hyps(2) by blast
  obtain s'' where r: "reset_entry img s = (Inr sp, s'')" "snapshot_base img (bs_mem s'') = base"
    "holds_snapshot img base p sp (g + 1) used (bs_mem s'')"
    by (rule reset_gives_back [OF assms(2,3) b(2,3) h b(1) g]) (rule that)
  have "g + 1 \<noteq> 0" using generation_climbs [OF g] by (metis Suc_eq_plus1 nat.simps(3) unat_0)
  moreover have "s'' = s'" using r(1) life_reset.hyps(2) by simp
  ultimately show ?case using r(2,3) b(2) by blast
qed

text \<open>
  C2.  A restart is a fresh boot.  However many lives the BEAM has had, and whatever each of them
  did to memory short of overwriting the snapshot, the next reset succeeds until the generation
  counter is spent: it hands \<open>main\<close> the stack pointer of the first boot, every byte of the
  writable segment is what the loader left before that boot, nothing outside the segment but the
  generation changes, nothing is printed, and the start is seen as a warm one.
\<close>

theorem beam_restart_pristine:
  assumes "beam_life img base pristine sp g s" "placed img base"
    "stack_top_is_valid sp (current_layout img base)" "g \<noteq> UINT64_MAX"
  shows "\<exists>s'. reset_entry img s = (Inr sp, s') \<and> bs_console s' = bs_console s \<and>
    (\<forall>x. bs_mem s' x = (if in_segment img x then pristine x
        else if inside (base + 8) 8 x then bs_mem s' x else bs_mem s x)) \<and>
    sn_generation (snapshot_hdr (bs_mem s') base) = g + 1 \<and> beam_warm_start img s'"
proof -
  obtain used where h: "g \<noteq> 0" "snapshot_base img pristine = base" "snapshot_base img (bs_mem s) = base"
    "holds_snapshot img base pristine sp g used (bs_mem s)"
    using life_holds [OF assms(1-3)] by blast
  obtain s' where r: "reset_entry img s = (Inr sp, s')" "bs_console s' = bs_console s"
    "\<And>x. in_segment img x \<Longrightarrow> bs_mem s' x = pristine x"
    "\<And>x. \<not> in_segment img x \<Longrightarrow> \<not> inside (base + 8) 8 x \<Longrightarrow> bs_mem s' x = bs_mem s x"
    "holds_snapshot img base pristine sp (g + 1) used (bs_mem s')" "snapshot_base img (bs_mem s') = base"
    by (rule reset_gives_back [OF assms(2,3) h(2,3,4,1) assms(4)]) (rule that)
  have "1 < g + 1" using h(1) assms(4) generation_climbs [of g] by (simp add: word_less_unat unat_gt_0)
  then show ?thesis
    using r h(4) placed_ranges(1) [OF assms(2)]
    by (intro exI [of _ s']) (auto simp: holds_snapshot_def beam_warm_start_def beam_snapshot_warm_def beam_snapshot_captured_def)
qed

section \<open>Refusals\<close>

text \<open>
  C4.  A reset that cannot give back the pristine image writes nothing.  The entry stops exactly
  when there is no snapshot region, the layout is unsafe or the snapshot does not validate; it
  stops by faulting, with every byte of memory as it was, and otherwise hands on the saved stack
  pointer.
\<close>

theorem beam_restore_refused_inert:
  "let base = snapshot_base img (bs_mem s);
       restorable = (base \<noteq> 0 \<and> beam_restart_layout_check (current_layout img base) = Layout_ok \<and>
         beam_snapshot_validate (snapshot_hdr (bs_mem s) base) (survivor_area img base (bs_mem s))
           (unat (bi_survivors_size img)) (current_layout img base) = Snapshot_ok)
   in case reset_entry img s of
        (Inl e, s') \<Rightarrow> \<not> restorable \<and> e = Brk \<and> bs_mem s' = bs_mem s
      | (Inr sp, s') \<Rightarrow> restorable \<and> sp = sn_saved_sp (snapshot_hdr (bs_mem s) base)"
  by (simp add: reset_entry_def beam_reset_restore_def restart_fail_def dbg_puts_def Let_def split: prod.split)

lemma append_run_length: "append_run bss off len out cap w = Some (out', w') \<Longrightarrow> length out' = length out"
  by (auto simp: append_run_def Let_def split: if_splits)

lemma encode_words_length: "length (fst (snd (encode_words bss nwords gap cap i out w))) = length out"
proof (induction bss nwords gap cap i out w rule: encode_words.induct)
  case (1 bss nwords gap cap i out w)
  show ?case
  proof (cases "i < nwords \<and> load_word bss i \<noteq> 0")
    case True
    let ?run = "extend_run bss nwords gap (i + 1) i"
    show ?thesis
    proof (cases "append_run bss (i * 8) ((fst ?run - i + 1) * 8) out cap w")
      case None
      then show ?thesis using True by (subst encode_words.simps) (simp add: Let_def)
    next
      case (Some ow)
      then have "length (fst ow) = length out" by (cases ow) (simp add: append_run_length)
      then show ?thesis using True Some "1.IH"(2) [OF _ _ refl Some] by (subst encode_words.simps) (simp add: Let_def)
    qed
  next
    case False
    then show ?thesis using "1.IH"(1) by (subst encode_words.simps) auto
  qed
qed

lemma encode_length: "beam_survivors_encode bss gap out = (st, out', n) \<Longrightarrow> length out' = length out"
proof -
  assume e: "beam_survivors_encode bss gap out = (st, out', n)"
  obtain ok o1 w1 where w: "encode_words bss (length bss div 8) gap (length out) 0 out 0 = (ok, o1, w1)"
    by (cases "encode_words bss (length bss div 8) gap (length out) 0 out 0")
  then have "length o1 = length out" using encode_words_length [of bss "length bss div 8" gap "length out" 0 out 0] by simp
  then show ?thesis
    using e unfolding beam_survivors_encode_def Let_def w
    by (cases ok) (auto dest!: append_run_length split: if_splits option.splits)
qed

lemma capture_survivors_frame:
  assumes "capture_survivors img base s = (r, s')"
  shows "\<exists>out. bs_mem s' = write_mem (base + bi_survivors_off img) out (bs_mem s) \<and>
      length out = unat (bi_survivors_size img)"
    "r = Inl e \<Longrightarrow> e = Brk"
proof -
  obtain st out n where e: "beam_survivors_encode (region (bs_mem s) (bi_bss_start img) (bss_length img)) 8
      (survivor_area img base (bs_mem s)) = (st, out, n)"
    by (cases "beam_survivors_encode (region (bs_mem s) (bi_bss_start img) (bss_length img)) 8
      (survivor_area img base (bs_mem s))")
  note d = assms [unfolded capture_survivors_def e, simplified Let_def]
  show "\<exists>out. bs_mem s' = write_mem (base + bi_survivors_off img) out (bs_mem s) \<and>
      length out = unat (bi_survivors_size img)"
    using d encode_length [OF e]
    by (intro exI [of _ out]) (auto simp: survivor_area_def restart_fail_def dbg_puts_def on_mem_def split: if_splits)
  show "r = Inl e \<Longrightarrow> e = Brk" using d by (auto simp: restart_fail_def split: if_splits)
qed

lemma failed_capture_frame:
  assumes "placed img base" "snapshot_base img (bs_mem s) = base" "\<not> beam_snapshot_captured (load64 (bs_mem s) base)"
    "beam_boot_capture img sp s = (Inl e, s')"
  shows "e = Brk" "load64 (bs_mem s') base = load64 (bs_mem s) base" "snapshot_base img (bs_mem s') = base"
    "\<And>x. in_segment img x \<Longrightarrow> bs_mem s' x = bs_mem s x"
proof -
  note f = placed_fits [OF assms(1)]
  note ap = placed_apart(1-4) [OF assms(1)] and ar = placed_apart(5-10) [OF assms(1) insertI1]
    and ah = placed_apart(11) [OF assms(1)]
  let ?d = "bi_bss_start img - bi_segment_start img"
  let ?m3 = "store64 (base + 24) ?d (store64 (base + 16) sp
    (memcpy (base + bi_data_off img) (bi_segment_start img) (data_length img) (bs_mem s)))"
  define s3 where "s3 = on_mem (store64 (base + 24) ?d) (on_mem (store64 (base + 16) sp)
    (on_mem (memcpy (base + bi_data_off img) (bi_segment_start img) (data_length img)) s))"
  have m3: "bs_mem s3 = ?m3" by (simp add: s3_def on_mem_def)
  have "capture_survivors img base s3 = (Inl e, s')"
    using assms(1,3,4) placed_ranges(1) [OF assms(1)]
    by (auto simp: beam_boot_capture_def assms(2) Let_def snapshot_hdr_def placed_def current_layout_def s3_def
        split: prod.splits sum.splits)
  then obtain out where out: "bs_mem s' = write_mem (base + bi_survivors_off img) out ?m3"
    "length out = unat (bi_survivors_size img)" and e: "e = Brk"
    using capture_survivors_frame [of img base s3] m3 by metis
  have keep: "region (bs_mem s') b k = region (bs_mem s) b k"
    if "fits b k" "apart (base + bi_survivors_off img) (unat (bi_survivors_size img)) b k" "apart (base + 24) 8 b k"
      "apart (base + 16) 8 b k" "apart (base + bi_data_off img) (data_length img) b k" for b k
    using that f out(2) unfolding out(1)
    by (simp add: region_write_other region_store64_other memcpy_def)
  have ne: "base + 24 \<noteq> base" "base + 16 \<noteq> base" by simp_all
  show "e = Brk" by (rule e)
  show "load64 (bs_mem s') base = load64 (bs_mem s) base"
    using f ap ah ne by (intro load64_cong keep) (simp_all add: apart_sym)
  have bss: "region (bs_mem s') (bi_bss_start img) (bss_length img) = region (bs_mem s) (bi_bss_start img) (bss_length img)"
    using f ap ar by (intro keep) simp_all
  have seg: "region (bs_mem s') (bi_segment_start img) (data_length img) = region (bs_mem s) (bi_segment_start img) (data_length img)"
    using f ap ar by (intro keep) simp_all
  show "snapshot_base img (bs_mem s') = base"
    unfolding assms(2) [symmetric] using region_eqD [OF f(9) bss] by (intro snapshot_base_bss [OF assms(1)])
  show "\<And>x. in_segment img x \<Longrightarrow> bs_mem s' x = bs_mem s x"
    using region_eqD [OF f(9) bss] region_eqD [OF f(8) seg] segment_parts [OF assms(1)] by blast
qed

text \<open>
  C34.  A capture that fails leaves no snapshot.  If the layout is unsafe or the survivors do not
  fit, \<open>_start\<close> stops by faulting with the magic number still unset and the writable segment as
  the loader left it, so that a later reset faults in turn, before it writes anything.
\<close>

theorem beam_failed_capture_leaves_no_snapshot:
  assumes "beam_abi_ok img" "unat (bi_bss_start img) \<le> unat (bi_snapshot_var img)"
    "unat (bi_snapshot_var img) + 8 \<le> unat (bi_bss_end img)" "start_entry img sp s = (Inl e, s')"
  shows "e = Brk \<and> \<not> beam_snapshot_captured (load64 (bs_mem s') (snapshot_base img (bs_mem s'))) \<and>
    (\<forall>x. bs_mem s' x = (if in_segment img x then bs_mem s x else bs_mem s' x)) \<and>
    (\<exists>s''. reset_entry img s' = (Inl Brk, s'') \<and> bs_mem s'' = bs_mem s')"
proof -
  define base where "base = snapshot_base img (bs_mem s)"
  have b: "beam_boot_capture img sp s = (Inl e, s')"
    using assms(4) by (auto simp: start_entry_def split: prod.splits sum.splits)
  then have pre: "base \<noteq> 0" "\<not> beam_snapshot_captured (load64 (bs_mem s) base)"
    by (auto simp: beam_boot_capture_def Let_def snapshot_hdr_def base_def split: if_splits)
  show ?thesis
  proof (cases "beam_restart_layout_check (current_layout img base) = Layout_ok")
    case False
    then have "e = Brk" "bs_mem s' = bs_mem s"
      using b pre by (auto simp: beam_boot_capture_def base_def [symmetric] Let_def snapshot_hdr_def restart_fail_def
          dbg_puts_def)
    then show ?thesis
      using False pre
      by (auto simp: base_def [symmetric] reset_entry_def beam_reset_restore_def Let_def restart_fail_def dbg_puts_def)
  next
    case True
    then have p: "placed img base" using assms(1-3) by (simp add: placed_def)
    show ?thesis using failed_capture_frame [OF p base_def [symmetric] pre(2) b] placed_ranges(1) [OF p] pre(2)
      by (auto simp: reset_entry_def beam_reset_restore_def Let_def restart_fail_def dbg_puts_def True
          beam_snapshot_validate_def snapshot_hdr_def)
  qed
qed

lemma capture_keeps_bss:
  assumes "placed img base"
  shows "region (store64 (base + 24) a (store64 (base + 16) b
      (memcpy (base + bi_data_off img) (bi_segment_start img) (data_length img) m))) (bi_bss_start img) (bss_length img) =
    region m (bi_bss_start img) (bss_length img)"
  using placed_fits [OF assms] placed_apart(4) [OF assms] placed_apart(5-10) [OF assms insertI1]
  by (simp add: region_store64_other memcpy_def region_write_other)

lemma boot_succeeds:
  assumes "placed img base" "snapshot_base img (bs_mem s) = base" "\<not> beam_snapshot_captured (load64 (bs_mem s) base)"
    "\<And>out. length out = unat (bi_survivors_size img) \<Longrightarrow>
       \<exists>out' n. beam_survivors_encode (region (bs_mem s) (bi_bss_start img) (bss_length img)) 8 out = (Snapshot_ok, out', Some n)"
  shows "\<exists>s'. start_entry img sp s = (Inr sp, s')"
proof -
  let ?d = "bi_bss_start img - bi_segment_start img"
  define s3 where "s3 = on_mem (store64 (base + 24) ?d) (on_mem (store64 (base + 16) sp)
    (on_mem (memcpy (base + bi_data_off img) (bi_segment_start img) (data_length img)) s))"
  obtain out' n where "beam_survivors_encode (region (bs_mem s3) (bi_bss_start img) (bss_length img)) 8
      (survivor_area img base (bs_mem s3)) = (Snapshot_ok, out', Some n)"
    using assms(4) [of "survivor_area img base (bs_mem s3)"]
    by (auto simp: s3_def on_mem_def capture_keeps_bss [OF assms(1)] survivor_area_def)
  then have "\<exists>used s4. capture_survivors img base s3 = (Inr used, s4)"
    by (simp add: capture_survivors_def)
  then obtain used s4 where "capture_survivors img base s3 = (Inr used, s4)" by blast
  then show ?thesis
    using assms(1,3) placed_ranges(1) [OF assms(1)]
    by (simp add: start_entry_def beam_boot_capture_def assms(2) Let_def snapshot_hdr_def placed_def s3_def
        current_layout_def)
qed

section \<open>A small image\<close>

definition tiny_image :: beam_image where
  "tiny_image = \<lparr>bi_snapshot_size = 4096, bi_stack_off = 64, bi_stack_size = 64, bi_stack_top = 128,
     bi_survivors_off = 128, bi_survivors_size = 64, bi_data_off = 256, bi_exit_base = 0x30000,
     bi_exit_size = 256, bi_segment_start = 0x20000, bi_bss_start = 0x20008, bi_bss_end = 0x20020,
     bi_snapshot_var = 0x20008, bi_boots_var = 0x20010\<rparr>"

definition tiny_boot :: beam_state where
  "tiny_boot = \<lparr>bs_mem = (\<lambda>x. if x = 0x2000A then 1 else if x = 0x20003 then 7 else 0), bs_console = ''''\<rparr>"

definition tiny_bss :: "u8 list" where
  "tiny_bss = [0, 0, 1, 0, 0, 0, 0, 0, 0, 0, 0, 0, 0, 0, 0, 0, 0, 0, 0, 0, 0, 0, 0, 0]"

lemma tiny_placed: "placed tiny_image 0x10000"
  by (simp add: placed_def beam_abi_ok_def beam_restart_layout_check_def current_layout_def tiny_image_def
      beam_range_fits_def beam_ranges_overlap_def)

lemma tiny_stack: "stack_top_is_valid 0x40000 (current_layout tiny_image 0x10000)"
  by (simp add: stack_top_is_valid_def beam_range_holds_stack_top_def current_layout_def tiny_image_def)

lemma tiny_region: "region (bs_mem tiny_boot) 0x20008 24 = tiny_bss"
  by (simp add: region_def tiny_boot_def tiny_bss_def upt_rec)

lemma tiny_encoded:
  assumes "length out = 64"
  shows "\<exists>out'. beam_survivors_encode tiny_bss 8 out = (Snapshot_ok, out', Some 16)"
proof -
  have l: "load_word tiny_bss 0 = 0x10000" "load_word tiny_bss 1 = 0" "load_word tiny_bss 2 = 0"
    by (simp_all add: load_word_def load_u64le_def load_u32le_def tiny_bss_def)
  have e: "extend_run tiny_bss 3 8 1 0 = (0, 3)"
    using l by (simp add: extend_run.simps numeral_2_eq_2)
  have "encode_words tiny_bss 3 8 64 0 out 0 =
      (True, fst (the (append_run tiny_bss 0 8 out 64 0)), 16)"
    using l e assms by (simp add: encode_words.simps append_run_def Let_def)
  then show ?thesis
    using assms by (simp add: beam_survivors_encode_def Let_def tiny_bss_def)
qed

lemma tiny_cold:
  "snapshot_base tiny_image (bs_mem tiny_boot) = 0x10000"
  "\<not> beam_snapshot_captured (load64 (bs_mem tiny_boot) 0x10000)"
  by (simp_all add: snapshot_base_def beam_snapshot_captured_def beam_snapshot_magic_def load64_def region_def upt_rec
      load_u64le_def load_u32le_def tiny_image_def tiny_boot_def)

lemma tiny_life:
  obtains s where "beam_life tiny_image 0x10000 (bs_mem tiny_boot) 0x40000 1 s"
    "start_entry tiny_image 0x40000 tiny_boot = (Inr 0x40000, s)"
proof -
  have "bss_length tiny_image = 24" "bi_bss_start tiny_image = 0x20008" "unat (bi_survivors_size tiny_image) = 64"
    by (simp_all add: bss_length_def tiny_image_def)
  then have "\<exists>s. start_entry tiny_image 0x40000 tiny_boot = (Inr 0x40000, s)"
    using tiny_encoded tiny_region by (intro boot_succeeds [OF tiny_placed tiny_cold]) fastforce
  then obtain s where s: "start_entry tiny_image 0x40000 tiny_boot = (Inr 0x40000, s)" by blast
  show thesis by (rule that [OF life_boot [OF refl tiny_cold s] s])
qed

theorem beam_restart_pristine_witness:
  "\<exists>s s'. start_entry tiny_image 0x40000 tiny_boot = (Inr 0x40000, s) \<and>
     reset_entry tiny_image s = (Inr 0x40000, s') \<and> bs_mem s' 0x20003 = 7 \<and> bs_mem s' 0x2000A = 1 \<and>
     beam_warm_start tiny_image s'"
proof (rule tiny_life)
  fix s assume s: "beam_life tiny_image 0x10000 (bs_mem tiny_boot) 0x40000 1 s"
    "start_entry tiny_image 0x40000 tiny_boot = (Inr 0x40000, s)"
  obtain s' where "reset_entry tiny_image s = (Inr 0x40000, s')" "beam_warm_start tiny_image s'"
    and m: "\<And>x. bs_mem s' x = (if in_segment tiny_image x then bs_mem tiny_boot x
        else if inside (0x10000 + 8) 8 x then bs_mem s' x else bs_mem s x)"
    using beam_restart_pristine [OF s(1) tiny_placed tiny_stack] by auto
  moreover have "bs_mem s' 0x20003 = 7" "bs_mem s' 0x2000A = 1"
    by (subst m; simp add: tiny_image_def tiny_boot_def)+
  ultimately show ?thesis using s(2) by blast
qed

text \<open>The same image with the exit address inside the snapshot.\<close>

definition clashing_image :: beam_image where
  "clashing_image = tiny_image\<lparr>bi_exit_base := 0x10000\<rparr>"

lemma clashing_stops: "fst (start_entry clashing_image 0x40000 tiny_boot) = Inl Brk"
proof -
  have "snapshot_base clashing_image (bs_mem tiny_boot) = 0x10000"
    using tiny_cold(1) by (simp add: snapshot_base_def clashing_image_def)
  moreover have "beam_restart_layout_check (current_layout clashing_image 0x10000) \<noteq> Layout_ok"
    by (simp add: beam_restart_layout_check_def current_layout_def clashing_image_def tiny_image_def
        beam_range_fits_def beam_ranges_overlap_def)
  ultimately show ?thesis
    using tiny_cold(2) by (simp add: start_entry_def beam_boot_capture_def Let_def snapshot_hdr_def restart_fail_def)
qed

theorem beam_failed_capture_leaves_no_snapshot_witness:
  "\<exists>s' s''. start_entry clashing_image 0x40000 tiny_boot = (Inl Brk, s') \<and> bs_mem s' 0x20003 = 7 \<and>
     reset_entry clashing_image s' = (Inl Brk, s'')"
proof -
  obtain s' where s: "start_entry clashing_image 0x40000 tiny_boot = (Inl Brk, s')"
    using clashing_stops by (cases "start_entry clashing_image 0x40000 tiny_boot") auto
  have "beam_abi_ok clashing_image" "unat (bi_bss_start clashing_image) \<le> unat (bi_snapshot_var clashing_image)"
    "unat (bi_snapshot_var clashing_image) + 8 \<le> unat (bi_bss_end clashing_image)"
    by (simp_all add: beam_abi_ok_def clashing_image_def tiny_image_def)
  note r = beam_failed_capture_leaves_no_snapshot [OF this s]
  have "bs_mem s' 0x20003 = (if in_segment clashing_image 0x20003 then bs_mem tiny_boot 0x20003 else bs_mem s' 0x20003)"
    using r by blast
  then have "bs_mem s' 0x20003 = 7" by (simp add: clashing_image_def tiny_image_def tiny_boot_def)
  then show ?thesis using s r by blast
qed

end
