(* ===== verification/Posix_Fd.thy ===== *)
theory Posix_Fd
  imports Chryso_Prelude Errno
begin

text \<open>
  Synthetic descriptors: \<open>src/src/pd/beam/compat/fd/runtime_fd.h\<close>, \<open>runtime_fd.c\<close>,
  \<open>runtime_fd_pair.h\<close> and \<open>runtime_fd_pair.c\<close>.

  The descriptor table belongs to the libc, which is not part of the sources: it is a state the
  functions are given together with the four operations they use on it, and what they rely on is
  named \<open>libc_fd_laws\<close>.  A callback of an entry is its name.  A call that suspends its cothread
  answers \<open>Parked\<close>: what it does when it runs again is the call made again.
\<close>

datatype fd_read_func = Fd_bad_read | Fd_eof_read | Fd_empty_read | Fd_pipe_read | Fd_stat_read | Fd_ctl_read | Libc_read nat
datatype fd_write_func = Fd_bad_write | Fd_discard_write | Fd_pipe_write | Fd_ctl_write | Fd_pd_restart_write | Libc_write nat
datatype fd_close_func = Fd_close | Fd_pipe_close | Fd_epoll_close | Fd_ctl_close | Libc_close nat
datatype fd_dup3_func = Fd_dup3 | Fd_pipe_dup3 | Fd_epoll_dup3 | Fd_ctl_dup3 | Libc_dup3 nat
datatype fd_fstat_func = Fd_bad_fstat | Fd_stat_fstat | Fd_ctl_fstat | Fd_pd_restart_fstat | Libc_fstat nat

record fd_entry =
  fe_read :: fd_read_func
  fe_write :: fd_write_func
  fe_close :: fd_close_func
  fe_dup3 :: fd_dup3_func
  fe_fstat :: fd_fstat_func
  fe_flags :: u32
  fe_file_ptr :: int

record runtime_fd_ops =
  op_read :: "fd_read_func option"
  op_write :: "fd_write_func option"
  op_fstat :: "fd_fstat_func option"
  op_close :: "fd_close_func option"
  op_dup3 :: "fd_dup3_func option"

definition no_fd_ops :: runtime_fd_ops where
  "no_fd_ops = \<lparr>op_read = None, op_write = None, op_fstat = None, op_close = None, op_dup3 = None\<rparr>"

record 't libc_fd =
  posix_fd_allocate :: "'t \<Rightarrow> int \<times> 't"
  posix_fd_entry :: "'t \<Rightarrow> int \<Rightarrow> fd_entry option"
  posix_fd_store :: "'t \<Rightarrow> int \<Rightarrow> fd_entry \<Rightarrow> 't"
  posix_fd_deallocate :: "'t \<Rightarrow> int \<Rightarrow> int \<times> 't"

text \<open>
  What the callers state they rely on: a failed allocation changes no entry, a successful one
  marks a slot that was not active, a store through the entry's pointer changes that entry, and
  deallocation removes one.
\<close>

definition libc_fd_laws :: "'t libc_fd \<Rightarrow> bool" where
  "libc_fd_laws L \<longleftrightarrow>
     (\<forall>t fd t' x. posix_fd_allocate L t = (fd, t') \<longrightarrow>
        (fd < 0 \<longrightarrow> posix_fd_entry L t' x = posix_fd_entry L t x) \<and>
        (0 \<le> fd \<longrightarrow> posix_fd_entry L t fd = None \<and>
           (x \<noteq> fd \<longrightarrow> posix_fd_entry L t' x = posix_fd_entry L t x))) \<and>
     (\<forall>t fd e x. posix_fd_entry L t fd \<noteq> None \<longrightarrow>
        posix_fd_entry L (posix_fd_store L t fd e) x = (if x = fd then Some e else posix_fd_entry L t x)) \<and>
     (\<forall>t fd x. posix_fd_entry L (snd (posix_fd_deallocate L t fd)) x =
        (if x = fd then None else posix_fd_entry L t x)) \<and>
     (\<forall>t fd. fd < 0 \<longrightarrow> posix_fd_entry L t fd = None)"

datatype 'a io_result = Done 'a | Parked | Parked_forever

section \<open>The shared callbacks\<close>

definition runtime_fd_bad_write :: int where "runtime_fd_bad_write = - EBADF"
definition runtime_fd_bad_read :: int where "runtime_fd_bad_read = - EBADF"
definition runtime_fd_bad_fstat :: int where "runtime_fd_bad_fstat = - EBADF"
definition runtime_fd_dup3 :: int where "runtime_fd_dup3 = 0"
definition runtime_fd_eof_read :: int where "runtime_fd_eof_read = 0"

text \<open>The number is how many pulses the waiting cothreads have been given.\<close>

definition runtime_fd_discard_write :: "nat \<Rightarrow> nat \<Rightarrow> int \<times> nat" where
  "runtime_fd_discard_write count wakes = (int count, wakes + 1)"

definition runtime_fd_empty_read :: "'t libc_fd \<Rightarrow> 't \<Rightarrow> int \<Rightarrow> int io_result" where
  "runtime_fd_empty_read L t fd =
     (case posix_fd_entry L t fd of
        Some e \<Rightarrow> if bit (fe_flags e) O_NONBLOCK_BIT then Done (- EAGAIN) else Parked_forever
      | None \<Rightarrow> Parked_forever)"

section \<open>Allocation\<close>

definition runtime_fd_close :: "'t libc_fd \<Rightarrow> int \<Rightarrow> 't \<Rightarrow> int \<times> 't" where
  "runtime_fd_close L fd t = posix_fd_deallocate L t fd"

definition fd_entry_of :: "runtime_fd_ops \<Rightarrow> u32 \<Rightarrow> fd_entry" where
  "fd_entry_of ops flags =
     \<lparr>fe_read = (case op_read ops of Some f \<Rightarrow> f | None \<Rightarrow> Fd_bad_read),
      fe_write = (case op_write ops of Some f \<Rightarrow> f | None \<Rightarrow> Fd_bad_write),
      fe_close = (case op_close ops of Some f \<Rightarrow> f | None \<Rightarrow> Fd_close),
      fe_dup3 = (case op_dup3 ops of Some f \<Rightarrow> f | None \<Rightarrow> Fd_dup3),
      fe_fstat = (case op_fstat ops of Some f \<Rightarrow> f | None \<Rightarrow> Fd_bad_fstat),
      fe_flags = flags, fe_file_ptr = 0\<rparr>"

definition runtime_fd_alloc_ops :: "'t libc_fd \<Rightarrow> runtime_fd_ops \<Rightarrow> u32 \<Rightarrow> 't \<Rightarrow> int \<times> 't" where
  "runtime_fd_alloc_ops L ops flags t =
     (case posix_fd_allocate L t of
        (fd, t) \<Rightarrow>
          if fd < 0 then (- EMFILE, t)
          else case posix_fd_entry L t fd of
                 None \<Rightarrow> (- EMFILE, snd (posix_fd_deallocate L t fd))
               | Some _ \<Rightarrow> (fd, posix_fd_store L t fd (fd_entry_of ops flags)))"

definition runtime_fd_alloc ::
  "'t libc_fd \<Rightarrow> fd_read_func option \<Rightarrow> fd_write_func option \<Rightarrow> fd_fstat_func option \<Rightarrow> u32 \<Rightarrow> 't \<Rightarrow> int \<times> 't" where
  "runtime_fd_alloc L read write fstat flags =
     runtime_fd_alloc_ops L (no_fd_ops\<lparr>op_read := read, op_write := write, op_fstat := fstat\<rparr>) flags"

text \<open>
  Two descriptors or none.  The callbacks act on a state; the two descriptors come back only on
  success.
\<close>

definition runtime_fd_alloc_pair ::
  "(nat \<Rightarrow> 's \<Rightarrow> int \<times> 's) \<Rightarrow> (int \<Rightarrow> 's \<Rightarrow> int \<times> 's) \<Rightarrow> 's \<Rightarrow> (int \<times> (int \<times> int) option) \<times> 's" where
  "runtime_fd_alloc_pair alloc close s =
     (case alloc 0 s of
        (first, s) \<Rightarrow>
          if first < 0 then ((first, None), s)
          else case alloc 1 s of
                 (second, s) \<Rightarrow>
                   if second < 0 then ((second, None), snd (close first s))
                   else ((0, Some (first, second)), s))"

section \<open>What allocation does to the table\<close>

lemma fd_lawsD:
  assumes "libc_fd_laws L"
  shows "posix_fd_allocate L t = (fd, t') \<Longrightarrow> fd < 0 \<Longrightarrow> posix_fd_entry L t' x = posix_fd_entry L t x"
    "posix_fd_allocate L t = (fd, t') \<Longrightarrow> 0 \<le> fd \<Longrightarrow> posix_fd_entry L t fd = None"
    "posix_fd_allocate L t = (fd, t') \<Longrightarrow> x \<noteq> fd \<Longrightarrow> posix_fd_entry L t' x = posix_fd_entry L t x"
    "posix_fd_entry L t fd = Some e' \<Longrightarrow>
       posix_fd_entry L (posix_fd_store L t fd e) x = (if x = fd then Some e else posix_fd_entry L t x)"
    "posix_fd_entry L (snd (posix_fd_deallocate L t fd)) x = (if x = fd then None else posix_fd_entry L t x)"
    "fd < 0 \<Longrightarrow> posix_fd_entry L t fd = None"
  using assms unfolding libc_fd_laws_def by (metis linorder_not_less, metis, metis linorder_not_less, simp, simp, simp)

lemma alloc_ops_cases:
  assumes "libc_fd_laws L" "runtime_fd_alloc_ops L ops flags t = (fd, t')"
  shows "fd < 0 \<Longrightarrow> fd = - EMFILE \<and> posix_fd_entry L t' = posix_fd_entry L t"
    "0 \<le> fd \<Longrightarrow> posix_fd_entry L t fd = None \<and>
       posix_fd_entry L t' = (posix_fd_entry L t)(fd \<mapsto> fd_entry_of ops flags)"
proof -
  obtain a ta where a: "posix_fd_allocate L t = (a, ta)" by (cases "posix_fd_allocate L t")
  note l = fd_lawsD [OF assms(1)] and d = assms(2) [unfolded runtime_fd_alloc_ops_def a, simplified]
  have n: "posix_fd_entry L t a = None" if "0 \<le> a" using l(2) [OF a that] .
  have e: "posix_fd_entry L ta x = posix_fd_entry L t x" if "x \<noteq> a \<or> a < 0" for x using l(1,3) [OF a] that by metis
  show "fd = - EMFILE \<and> posix_fd_entry L t' = posix_fd_entry L t" if "fd < 0"
    using d that n e l(5) by (auto split: if_splits option.splits)
  show "posix_fd_entry L t fd = None \<and> posix_fd_entry L t' = (posix_fd_entry L t)(fd \<mapsto> fd_entry_of ops flags)" if "0 \<le> fd"
    using d that n e by (auto simp: l(4) split: if_splits option.splits)
qed

end
