(* ===== verification/Wake_Pipe.thy ===== *)
theory Wake_Pipe
  imports Chryso_Prelude
begin

text \<open>
  The byte-counting pipes behind ERTS's self-pipes:
  \<open>src/src/pd/beam/compat/fd/runtime_wake_pipe.h\<close> and \<open>runtime_wake_pipe.c\<close>.

  The caller's table is a list of slots and \<open>count\<close> is its length.  A descriptor is an \<open>int\<close>, a
  \<open>size_t\<close> a \<open>nat\<close>, and the 32-bit count of unread bytes a word.
\<close>

datatype runtime_pipe_state = Pipe_free | Pipe_empty | Pipe_readable

datatype runtime_pipe_status = Pipe_ok | Pipe_would_block | Pipe_eof | Pipe_broken | Pipe_no_slot | Pipe_unknown_fd

record runtime_pipe_slot =
  pp_state :: runtime_pipe_state
  pp_read_open :: bool
  pp_write_open :: bool
  pp_read_fd :: int
  pp_write_fd :: int
  pp_pending :: u32

abbreviation (input) runtime_pipe_capacity :: u32 where "runtime_pipe_capacity \<equiv> 4096"

definition pipe_slot_zero :: runtime_pipe_slot where
  "pipe_slot_zero = \<lparr>pp_state = Pipe_free, pp_read_open = False, pp_write_open = False,
     pp_read_fd = 0, pp_write_fd = 0, pp_pending = 0\<rparr>"

text \<open>The first index at which a property holds, as the scans find it.\<close>

fun find_index :: "('a \<Rightarrow> bool) \<Rightarrow> 'a list \<Rightarrow> nat option" where
  "find_index P [] = None"
| "find_index P (x # xs) = (if P x then Some 0 else map_option Suc (find_index P xs))"

definition is_read_end :: "int \<Rightarrow> runtime_pipe_slot \<Rightarrow> bool" where
  "is_read_end fd k \<longleftrightarrow> pp_state k \<noteq> Pipe_free \<and> pp_read_open k \<and> pp_read_fd k = fd"

definition is_write_end :: "int \<Rightarrow> runtime_pipe_slot \<Rightarrow> bool" where
  "is_write_end fd k \<longleftrightarrow> pp_state k \<noteq> Pipe_free \<and> pp_write_open k \<and> pp_write_fd k = fd"

definition slot_of_read :: "runtime_pipe_slot list \<Rightarrow> int \<Rightarrow> nat option" where
  "slot_of_read tab fd = find_index (is_read_end fd) tab"

definition slot_of_write :: "runtime_pipe_slot list \<Rightarrow> int \<Rightarrow> nat option" where
  "slot_of_write tab fd = find_index (is_write_end fd) tab"

definition runtime_pipe_open ::
  "runtime_pipe_slot list \<Rightarrow> int \<Rightarrow> int \<Rightarrow> runtime_pipe_status \<times> runtime_pipe_slot list" where
  "runtime_pipe_open tab read_fd write_fd =
     (case find_index (\<lambda>k. pp_state k = Pipe_free) tab of
        None \<Rightarrow> (Pipe_no_slot, tab)
      | Some i \<Rightarrow>
          (Pipe_ok, tab[i := \<lparr>pp_state = Pipe_empty, pp_read_open = True, pp_write_open = True,
             pp_read_fd = read_fd, pp_write_fd = write_fd, pp_pending = 0\<rparr>]))"

text \<open>The count the C functions give through their out-parameter is the middle component.\<close>

definition runtime_pipe_write ::
  "runtime_pipe_slot list \<Rightarrow> int \<Rightarrow> nat \<Rightarrow> runtime_pipe_status \<times> nat \<times> runtime_pipe_slot list" where
  "runtime_pipe_write tab fd bytes =
     (case slot_of_write tab fd of
        None \<Rightarrow> (Pipe_unknown_fd, 0, tab)
      | Some i \<Rightarrow>
          let k = tab ! i
          in if \<not> pp_read_open k then (Pipe_broken, 0, tab)
             else
               let room = runtime_pipe_capacity - pp_pending k
               in if bytes \<noteq> 0 \<and> room = 0 then (Pipe_would_block, 0, tab)
                  else
                    let took = (if bytes < unat room then of_nat bytes else room);
                        k = k\<lparr>pp_pending := pp_pending k + took\<rparr>;
                        k = (if pp_pending k \<noteq> 0 then k\<lparr>pp_state := Pipe_readable\<rparr> else k)
                    in (Pipe_ok, unat took, tab[i := k]))"

definition runtime_pipe_read ::
  "runtime_pipe_slot list \<Rightarrow> int \<Rightarrow> nat \<Rightarrow> runtime_pipe_status \<times> nat \<times> runtime_pipe_slot list" where
  "runtime_pipe_read tab fd bytes =
     (case slot_of_read tab fd of
        None \<Rightarrow> (Pipe_unknown_fd, 0, tab)
      | Some i \<Rightarrow>
          let k = tab ! i
          in if pp_state k = Pipe_empty
             then (if pp_write_open k then Pipe_would_block else Pipe_eof, 0, tab)
             else
               let took = (if bytes < unat (pp_pending k) then of_nat bytes else pp_pending k);
                   k = k\<lparr>pp_pending := pp_pending k - took\<rparr>;
                   k = (if pp_pending k = 0 then k\<lparr>pp_state := Pipe_empty\<rparr> else k)
               in (Pipe_ok, unat took, tab[i := k]))"

definition runtime_pipe_ready :: "runtime_pipe_slot list \<Rightarrow> int \<Rightarrow> bool" where
  "runtime_pipe_ready tab fd =
     (case slot_of_read tab fd of
        None \<Rightarrow> False
      | Some i \<Rightarrow> pp_state (tab ! i) = Pipe_readable \<or> \<not> pp_write_open (tab ! i))"

definition runtime_pipe_close ::
  "runtime_pipe_slot list \<Rightarrow> int \<Rightarrow> runtime_pipe_status \<times> runtime_pipe_slot list" where
  "runtime_pipe_close tab fd =
     (let closed = (case slot_of_read tab fd of
            Some i \<Rightarrow> Some (i, (tab ! i)\<lparr>pp_read_open := False\<rparr>)
          | None \<Rightarrow>
              (case slot_of_write tab fd of
                 Some i \<Rightarrow> Some (i, (tab ! i)\<lparr>pp_write_open := False\<rparr>)
               | None \<Rightarrow> None))
      in case closed of
           None \<Rightarrow> (Pipe_unknown_fd, tab)
         | Some (i, k) \<Rightarrow>
             (Pipe_ok, tab[i := if \<not> pp_read_open k \<and> \<not> pp_write_open k then pipe_slot_zero else k]))"

section \<open>Scans\<close>

lemma find_index_Some: "find_index P xs = Some i \<Longrightarrow> i < length xs \<and> P (xs ! i) \<and> (\<forall>j < i. \<not> P (xs ! j))"
proof (induction xs arbitrary: i)
  case (Cons x xs)
  show ?case
  proof (cases i)
    case 0
    then show ?thesis using Cons.prems by (auto split: if_splits)
  next
    case (Suc n)
    then have "\<not> P x" "find_index P xs = Some n" using Cons.prems by (auto split: if_splits)
    then show ?thesis using Cons.IH [of n] Suc by (auto simp: nth_Cons split: nat.splits)
  qed
qed simp

lemma find_index_None: "find_index P xs = None \<longleftrightarrow> (\<forall>x \<in> set xs. \<not> P x)"
  by (induction xs) auto

lemma find_index_ex: "i < length xs \<Longrightarrow> P (xs ! i) \<Longrightarrow> \<exists>j. find_index P xs = Some j"
  using find_index_None [of P xs] by (cases "find_index P xs") auto

lemma find_index_unique:
  "i < length xs \<Longrightarrow> P (xs ! i) \<Longrightarrow> (\<And>j. j < length xs \<Longrightarrow> P (xs ! j) \<Longrightarrow> j = i) \<Longrightarrow> find_index P xs = Some i"
  using find_index_ex [of i xs P] find_index_Some [of P xs] by metis

section \<open>Well-formed tables\<close>

definition is_end :: "int \<Rightarrow> runtime_pipe_slot \<Rightarrow> bool" where
  "is_end fd k \<longleftrightarrow> is_read_end fd k \<or> is_write_end fd k"

definition pipe_slot_ok :: "runtime_pipe_slot \<Rightarrow> bool" where
  "pipe_slot_ok k \<longleftrightarrow>
     (case pp_state k of
        Pipe_free \<Rightarrow> k = pipe_slot_zero
      | Pipe_empty \<Rightarrow> pp_pending k = 0
      | Pipe_readable \<Rightarrow> 0 < unat (pp_pending k) \<and> unat (pp_pending k) \<le> 4096) \<and>
     (pp_state k \<noteq> Pipe_free \<longrightarrow> pp_read_open k \<or> pp_write_open k) \<and>
     (\<forall>fd. \<not> (is_read_end fd k \<and> is_write_end fd k))"

text \<open>No descriptor is an open end of two slots.\<close>

definition pipes_ok :: "runtime_pipe_slot list \<Rightarrow> bool" where
  "pipes_ok tab \<longleftrightarrow>
     (\<forall>k \<in> set tab. pipe_slot_ok k) \<and>
     (\<forall>i j fd. i < length tab \<longrightarrow> j < length tab \<longrightarrow> is_end fd (tab ! i) \<longrightarrow> is_end fd (tab ! j) \<longrightarrow> i = j)"

definition pipe_ends :: "runtime_pipe_slot list \<Rightarrow> int set" where
  "pipe_ends tab = {fd. \<exists>i < length tab. is_end fd (tab ! i)}"

lemma pipe_zero [simp]: "pp_state pipe_slot_zero = Pipe_free" "pp_pending pipe_slot_zero = 0" "pipe_slot_ok pipe_slot_zero"
  "\<not> is_read_end fd pipe_slot_zero" "\<not> is_write_end fd pipe_slot_zero" "\<not> is_end fd pipe_slot_zero"
  by (simp_all add: pipe_slot_zero_def pipe_slot_ok_def is_read_end_def is_write_end_def is_end_def)

lemma pipes_ok_zero: "pipes_ok (replicate n pipe_slot_zero)"
  by (simp add: pipes_ok_def)

lemma pipe_slotD: "pipes_ok tab \<Longrightarrow> i < length tab \<Longrightarrow> pipe_slot_ok (tab ! i)"
  by (simp add: pipes_ok_def)

lemma pipe_end_unique:
  "pipes_ok tab \<Longrightarrow> is_end fd (tab ! i) \<Longrightarrow> is_end fd (tab ! j) \<Longrightarrow> i < length tab \<Longrightarrow> j < length tab \<Longrightarrow> i = j"
  unfolding pipes_ok_def by blast

lemma slot_of_end:
  assumes "pipes_ok tab" "i < length tab"
  shows "is_read_end fd (tab ! i) \<Longrightarrow> slot_of_read tab fd = Some i"
    "is_read_end fd (tab ! i) \<Longrightarrow> slot_of_write tab fd = None"
    "is_write_end fd (tab ! i) \<Longrightarrow> slot_of_write tab fd = Some i"
    "is_write_end fd (tab ! i) \<Longrightarrow> slot_of_read tab fd = None"
proof -
  have u: "j = i" if "is_end fd (tab ! i)" "j < length tab" "is_end fd (tab ! j)" for j
    using pipe_end_unique [OF assms(1) that(3,1)] that(2) assms(2) by simp
  have x: "\<not> (is_read_end fd (tab ! i) \<and> is_write_end fd (tab ! i))"
    using pipe_slotD [OF assms] by (auto simp: pipe_slot_ok_def)
  show "slot_of_read tab fd = Some i" if "is_read_end fd (tab ! i)"
    unfolding slot_of_read_def
    by (rule find_index_unique [OF assms(2), of "is_read_end fd", OF that]) (rule u; simp add: is_end_def that)
  show "slot_of_write tab fd = Some i" if "is_write_end fd (tab ! i)"
    unfolding slot_of_write_def
    by (rule find_index_unique [OF assms(2), of "is_write_end fd", OF that]) (rule u; simp add: is_end_def that)
  show "slot_of_write tab fd = None" if r: "is_read_end fd (tab ! i)"
  proof (rule ccontr)
    assume "slot_of_write tab fd \<noteq> None"
    then obtain j where "j < length tab" "is_write_end fd (tab ! j)"
      by (auto simp: slot_of_write_def dest: find_index_Some)
    then show False using u [of j] x r by (simp add: is_end_def)
  qed
  show "slot_of_read tab fd = None" if w: "is_write_end fd (tab ! i)"
  proof (rule ccontr)
    assume "slot_of_read tab fd \<noteq> None"
    then obtain j where "j < length tab" "is_read_end fd (tab ! j)"
      by (auto simp: slot_of_read_def dest: find_index_Some)
    then show False using u [of j] x w by (simp add: is_end_def)
  qed
qed

lemma slot_of_Some:
  "slot_of_read tab fd = Some i \<Longrightarrow> i < length tab \<and> is_read_end fd (tab ! i)"
  "slot_of_write tab fd = Some i \<Longrightarrow> i < length tab \<and> is_write_end fd (tab ! i)"
  by (auto simp: slot_of_read_def slot_of_write_def dest: find_index_Some)

lemma slot_of_None:
  "slot_of_read tab fd = None \<Longrightarrow> slot_of_write tab fd = None \<Longrightarrow> fd \<notin> pipe_ends tab"
  unfolding slot_of_read_def slot_of_write_def find_index_None pipe_ends_def is_end_def by (auto dest: nth_mem)

text \<open>Replacing a slot by one with no new end keeps the table well formed.\<close>

lemma pipes_ok_update:
  assumes "pipes_ok tab" "i < length tab" "pipe_slot_ok k"
    "\<And>fd. is_end fd k \<Longrightarrow> is_end fd (tab ! i) \<or> fd \<notin> pipe_ends tab"
  shows "pipes_ok (tab[i := k])"
proof -
  have "a = b" if "a < length tab" "b < length tab" "is_end fd (tab[i := k] ! a)" "is_end fd (tab[i := k] ! b)" for a b fd
  proof -
    have t: "is_end fd (tab ! x) \<or> x = i \<and> fd \<notin> pipe_ends tab" if "x < length tab" "is_end fd (tab[i := k] ! x)" for x
      using that assms(2,4) by (auto simp: nth_list_update_if split: if_splits)
    have m: "fd \<in> pipe_ends tab" if "x < length tab" "is_end fd (tab ! x)" for x using that by (auto simp: pipe_ends_def)
    show ?thesis using t [OF that(1,3)] t [OF that(2,4)] m that(1,2) assms(1) by (auto simp: pipes_ok_def)
  qed
  moreover have "\<forall>k' \<in> set (tab[i := k]). pipe_slot_ok k'"
    using assms(1,3) by (auto simp: pipes_ok_def dest!: set_update_subset_insert [THEN subsetD])
  ultimately show ?thesis by (auto simp: pipes_ok_def)
qed

lemma pipe_ends_update:
  "i < length tab \<Longrightarrow> pipes_ok tab \<Longrightarrow>
   pipe_ends (tab[i := k]) = (pipe_ends tab - {fd. is_end fd (tab ! i)}) \<union> {fd. is_end fd k}"
proof -
  assume a: "i < length tab" "pipes_ok tab"
  have "(\<exists>j < length tab. is_end fd (tab[i := k] ! j)) \<longleftrightarrow>
      (\<exists>j < length tab. is_end fd (tab ! j)) \<and> \<not> is_end fd (tab ! i) \<or> is_end fd k" for fd
    using a by (auto simp: pipes_ok_def nth_list_update_if)
  then show ?thesis by (auto simp: pipe_ends_def)
qed

lemma end_pending [simp]: "is_read_end fd (k\<lparr>pp_pending := n\<rparr>) = is_read_end fd k"
  "is_write_end fd (k\<lparr>pp_pending := n\<rparr>) = is_write_end fd k"
  by (simp_all add: is_read_end_def is_write_end_def)

lemma end_state: "pp_state k \<noteq> Pipe_free \<Longrightarrow> st \<noteq> Pipe_free \<Longrightarrow> is_read_end fd (k\<lparr>pp_state := st\<rparr>) = is_read_end fd k"
  "pp_state k \<noteq> Pipe_free \<Longrightarrow> st \<noteq> Pipe_free \<Longrightarrow> is_write_end fd (k\<lparr>pp_state := st\<rparr>) = is_write_end fd k"
  by (simp_all add: is_read_end_def is_write_end_def)

section \<open>What each call does\<close>

definition set_pending :: "nat \<Rightarrow> runtime_pipe_slot \<Rightarrow> runtime_pipe_slot" where
  "set_pending n k = k\<lparr>pp_pending := of_nat n, pp_state := if n = 0 then Pipe_empty else Pipe_readable\<rparr>"

lemma set_pending_sel [simp]: "pp_read_open (set_pending n k) = pp_read_open k" "pp_write_open (set_pending n k) = pp_write_open k"
  "pp_read_fd (set_pending n k) = pp_read_fd k" "pp_write_fd (set_pending n k) = pp_write_fd k"
  "n \<le> 4096 \<Longrightarrow> unat (pp_pending (set_pending n k)) = n" "pp_state (set_pending n k) \<noteq> Pipe_free"
  by (simp_all add: set_pending_def unat_of_nat)

lemma set_pending_ends: "pp_state k \<noteq> Pipe_free \<Longrightarrow> is_read_end fd (set_pending n k) = is_read_end fd k"
  "pp_state k \<noteq> Pipe_free \<Longrightarrow> is_write_end fd (set_pending n k) = is_write_end fd k"
  "pp_state k \<noteq> Pipe_free \<Longrightarrow> is_end fd (set_pending n k) = is_end fd k"
  by (simp_all add: is_read_end_def is_write_end_def is_end_def)

lemma set_pending_ok: "pipe_slot_ok k \<Longrightarrow> pp_state k \<noteq> Pipe_free \<Longrightarrow> n \<le> 4096 \<Longrightarrow> pipe_slot_ok (set_pending n k)"
  by (auto simp: pipe_slot_ok_def is_read_end_def is_write_end_def set_pending_def unat_of_nat)

lemma pending_le: "pipe_slot_ok k \<Longrightarrow> unat (pp_pending k) \<le> 4096"
  by (cases "pp_state k") (auto simp: pipe_slot_ok_def)

lemma pending_zero: "pipe_slot_ok k \<Longrightarrow> pp_state k \<noteq> Pipe_free \<Longrightarrow> pp_state k = Pipe_empty \<longleftrightarrow> unat (pp_pending k) = 0"
  by (cases "pp_state k") (auto simp: pipe_slot_ok_def)

lemma pipe_write_effect:
  assumes "pipes_ok tab" "i < length tab" "is_write_end fd (tab ! i)"
  shows "runtime_pipe_write tab fd bytes =
    (let p = unat (pp_pending (tab ! i))
     in if \<not> pp_read_open (tab ! i) then (Pipe_broken, 0, tab)
        else if bytes \<noteq> 0 \<and> p = 4096 then (Pipe_would_block, 0, tab)
        else (Pipe_ok, min bytes (4096 - p), tab[i := set_pending (p + min bytes (4096 - p)) (tab ! i)]))"
proof -
  let ?k = "tab ! i" and ?p = "unat (pp_pending (tab ! i))"
  note ok = pipe_slotD [OF assms(1,2)]
  have nf: "pp_state ?k \<noteq> Pipe_free" using assms(3) by (simp add: is_write_end_def)
  have p: "?p \<le> 4096" by (rule pending_le [OF ok])
  have room: "unat (4096 - pp_pending ?k) = 4096 - ?p" using p by (subst unat_minus_le) simp_all
  have full: "4096 - pp_pending ?k = 0 \<longleftrightarrow> ?p = 4096" using room p unat_eq_0 [of "4096 - pp_pending ?k"] by auto
  define tk :: u32 where "tk = (if bytes < unat (4096 - pp_pending ?k) then of_nat bytes else 4096 - pp_pending ?k)"
  define n where "n = ?p + min bytes (4096 - ?p)"
  have t: "unat tk = min bytes (4096 - ?p)" unfolding tk_def room using p room by (simp add: unat_of_nat)
  have sum: "unat (pp_pending ?k + tk) = n"
    unfolding n_def t [symmetric] using p t by (intro unat_add_fits) simp
  then have s: "pp_pending ?k + tk = of_nat n" by (metis of_nat_unat ucast_id)
  have e: "pp_state ?k = Pipe_empty" if "n = 0" using that pending_zero [OF ok nf] by (simp add: n_def)
  have "pp_pending ?k + tk = 0 \<longleftrightarrow> n = 0" using sum by (metis unat_eq_0)
  then have "(if pp_pending (?k\<lparr>pp_pending := pp_pending ?k + tk\<rparr>) \<noteq> 0
      then ?k\<lparr>pp_pending := pp_pending ?k + tk, pp_state := Pipe_readable\<rparr>
      else ?k\<lparr>pp_pending := pp_pending ?k + tk\<rparr>) = set_pending n ?k"
    using e unfolding set_pending_def s by auto
  then show ?thesis
    unfolding runtime_pipe_write_def slot_of_end(3) [OF assms] Let_def full option.case tk_def [symmetric] t n_def [symmetric]
    by simp
qed

lemma pipe_read_effect:
  assumes "pipes_ok tab" "i < length tab" "is_read_end fd (tab ! i)"
  shows "runtime_pipe_read tab fd bytes =
    (let p = unat (pp_pending (tab ! i))
     in if p = 0 then (if pp_write_open (tab ! i) then Pipe_would_block else Pipe_eof, 0, tab)
        else (Pipe_ok, min bytes p, tab[i := set_pending (p - min bytes p) (tab ! i)]))"
proof -
  let ?k = "tab ! i" and ?p = "unat (pp_pending (tab ! i))"
  note ok = pipe_slotD [OF assms(1,2)]
  have nf: "pp_state ?k \<noteq> Pipe_free" using assms(3) by (simp add: is_read_end_def)
  have p: "?p \<le> 4096" by (rule pending_le [OF ok])
  define tk where "tk = (if bytes < ?p then of_nat bytes else pp_pending ?k)"
  define n where "n = ?p - min bytes ?p"
  have t: "unat tk = min bytes ?p" unfolding tk_def using p by (simp add: unat_of_nat)
  have sum: "unat (pp_pending ?k - tk) = n" unfolding n_def t [symmetric] using t by (intro unat_minus_le) simp
  then have s: "pp_pending ?k - tk = of_nat n" by (metis of_nat_unat ucast_id)
  have "pp_pending ?k - tk = 0 \<longleftrightarrow> n = 0" using sum by (metis unat_eq_0)
  moreover have "pp_state ?k = Pipe_readable" if "?p \<noteq> 0"
    using that pending_zero [OF ok nf] nf by (cases "pp_state ?k") simp_all
  ultimately have k: "(if pp_pending (?k\<lparr>pp_pending := pp_pending ?k - tk\<rparr>) = 0
      then ?k\<lparr>pp_pending := pp_pending ?k - tk, pp_state := Pipe_empty\<rparr>
      else ?k\<lparr>pp_pending := pp_pending ?k - tk\<rparr>) = set_pending n ?k" if "?p \<noteq> 0"
    using that unfolding set_pending_def s by auto
  show ?thesis
    unfolding runtime_pipe_read_def slot_of_end(1) [OF assms] Let_def option.case pending_zero [OF ok nf]
      tk_def [symmetric] t n_def [symmetric]
    using k by simp
qed

lemma pipe_close_effect:
  assumes "pipes_ok tab" "i < length tab"
  shows "is_read_end fd (tab ! i) \<Longrightarrow> runtime_pipe_close tab fd =
      (Pipe_ok, tab[i := if pp_write_open (tab ! i) then (tab ! i)\<lparr>pp_read_open := False\<rparr> else pipe_slot_zero])"
    "is_write_end fd (tab ! i) \<Longrightarrow> runtime_pipe_close tab fd =
      (Pipe_ok, tab[i := if pp_read_open (tab ! i) then (tab ! i)\<lparr>pp_write_open := False\<rparr> else pipe_slot_zero])"
  using slot_of_end [OF assms, of fd] by (simp_all add: runtime_pipe_close_def)

lemma pipe_ready_effect:
  assumes "pipes_ok tab" "i < length tab" "is_read_end fd (tab ! i)"
  shows "runtime_pipe_ready tab fd \<longleftrightarrow> 0 < unat (pp_pending (tab ! i)) \<or> \<not> pp_write_open (tab ! i)"
proof -
  have nf: "pp_state (tab ! i) \<noteq> Pipe_free" using assms(3) by (simp add: is_read_end_def)
  then have "pp_state (tab ! i) = Pipe_readable \<longleftrightarrow> pp_state (tab ! i) \<noteq> Pipe_empty" by (cases "pp_state (tab ! i)") simp_all
  then show ?thesis
    using pending_zero [OF pipe_slotD [OF assms(1,2)] nf] by (simp add: runtime_pipe_ready_def slot_of_end(1) [OF assms])
qed

section \<open>Runs of calls\<close>

datatype pipe_event = Ev_open int int | Ev_write int nat | Ev_read int nat | Ev_close int

fun pipe_step :: "pipe_event \<Rightarrow> runtime_pipe_slot list \<Rightarrow> runtime_pipe_slot list" where
  "pipe_step (Ev_open r w) tab = snd (runtime_pipe_open tab r w)"
| "pipe_step (Ev_write w n) tab = snd (snd (runtime_pipe_write tab w n))"
| "pipe_step (Ev_read r n) tab = snd (snd (runtime_pipe_read tab r n))"
| "pipe_step (Ev_close fd) tab = snd (runtime_pipe_close tab fd)"

text \<open>How many bytes a call moved.\<close>

fun pipe_moved :: "pipe_event \<Rightarrow> runtime_pipe_slot list \<Rightarrow> nat" where
  "pipe_moved (Ev_write w n) tab = fst (snd (runtime_pipe_write tab w n))"
| "pipe_moved (Ev_read r n) tab = fst (snd (runtime_pipe_read tab r n))"
| "pipe_moved _ tab = 0"

text \<open>The header leaves opening a descriptor that is already in the table unchecked.\<close>

fun pipe_may :: "pipe_event \<Rightarrow> runtime_pipe_slot list \<Rightarrow> bool" where
  "pipe_may (Ev_open r w) tab \<longleftrightarrow> r \<noteq> w \<and> r \<notin> pipe_ends tab \<and> w \<notin> pipe_ends tab"
| "pipe_may _ tab \<longleftrightarrow> True"

text \<open>The slot a descriptor is an end of keeps its other slots alone.\<close>

lemma pipe_open_cases:
  "runtime_pipe_open tab r w = (Pipe_no_slot, tab) \<or>
   (\<exists>i < length tab. tab ! i = pipe_slot_zero \<and> runtime_pipe_open tab r w =
      (Pipe_ok, tab[i := \<lparr>pp_state = Pipe_empty, pp_read_open = True, pp_write_open = True,
         pp_read_fd = r, pp_write_fd = w, pp_pending = 0\<rparr>]))"
  if "pipes_ok tab"
proof (cases "find_index (\<lambda>k. pp_state k = Pipe_free) tab")
  case None
  then show ?thesis by (simp add: runtime_pipe_open_def)
next
  case (Some i)
  note f = find_index_Some [OF Some]
  have "pipe_slot_ok (tab ! i)" using pipe_slotD that f by blast
  then have "tab ! i = pipe_slot_zero" using f by (simp add: pipe_slot_ok_def)
  then show ?thesis using f Some by (auto simp: runtime_pipe_open_def)
qed

definition pipe_here :: "int \<Rightarrow> int \<Rightarrow> nat \<Rightarrow> runtime_pipe_slot list \<Rightarrow> bool" where
  "pipe_here r w i tab \<longleftrightarrow>
     pipes_ok tab \<and> i < length tab \<and> is_read_end r (tab ! i) \<and> is_write_end w (tab ! i)"

text \<open>What a slot becomes when one of its ends is closed.\<close>

definition close_ends :: "runtime_pipe_slot \<Rightarrow> runtime_pipe_slot set" where
  "close_ends k =
     {if pp_write_open k then k\<lparr>pp_read_open := False\<rparr> else pipe_slot_zero,
      if pp_read_open k then k\<lparr>pp_write_open := False\<rparr> else pipe_slot_zero}"

lemma close_ends_ok:
  "pipe_slot_ok k \<Longrightarrow> k' \<in> close_ends k \<Longrightarrow> pipe_slot_ok k'"
  "k' \<in> close_ends k \<Longrightarrow> is_end fd k' \<Longrightarrow> is_end fd k"
  by (auto simp: close_ends_def pipe_slot_ok_def is_end_def is_read_end_def is_write_end_def pipe_slot_zero_def
      split: runtime_pipe_state.splits if_splits)

lemma pipe_step_ok [keeps]:
  assumes "pipes_ok tab" "pipe_may e tab"
  shows "pipes_ok (pipe_step e tab)" "length (pipe_step e tab) = length tab"
proof -
  have "pipes_ok (pipe_step e tab) \<and> length (pipe_step e tab) = length tab"
  proof (cases e)
    case (Ev_open r w)
    let ?k = "\<lparr>pp_state = Pipe_empty, pp_read_open = True, pp_write_open = True, pp_read_fd = r, pp_write_fd = w, pp_pending = 0\<rparr>"
    have k: "pipe_slot_ok ?k" "\<And>fd. is_end fd ?k \<Longrightarrow> fd = r \<or> fd = w"
      using assms(2) by (auto simp: Ev_open pipe_slot_ok_def is_end_def is_read_end_def is_write_end_def)
    have "pipes_ok (tab[i := ?k])" if "i < length tab" for i
      using k assms by (intro pipes_ok_update that) (auto simp: Ev_open)
    then show ?thesis using pipe_open_cases [OF assms(1), of r w] assms(1) by (auto simp: Ev_open)
  next
    case (Ev_write w n)
    show ?thesis
    proof (cases "slot_of_write tab w")
      case None
      then show ?thesis using assms(1) by (simp add: Ev_write runtime_pipe_write_def)
    next
      case (Some i)
      note s = slot_of_Some(2) [OF Some]
      then have nf: "pp_state (tab ! i) \<noteq> Pipe_free" by (simp add: is_write_end_def)
      have "pipes_ok (tab[i := set_pending q (tab ! i)])" if "q \<le> 4096" for q
        using s nf that pipe_slotD [OF assms(1)] by (intro pipes_ok_update assms(1) set_pending_ok) (auto simp: set_pending_ends)
      moreover have "unat (pp_pending (tab ! i)) \<le> 4096" using pending_le pipe_slotD [OF assms(1)] s by blast
      ultimately show ?thesis
        using assms(1) s by (simp add: Ev_write pipe_write_effect [OF assms(1) conjunct1 [OF s] conjunct2 [OF s]] Let_def)
    qed
  next
    case (Ev_read r n)
    show ?thesis
    proof (cases "slot_of_read tab r")
      case None
      then show ?thesis using assms(1) by (simp add: Ev_read runtime_pipe_read_def)
    next
      case (Some i)
      note s = slot_of_Some(1) [OF Some]
      then have nf: "pp_state (tab ! i) \<noteq> Pipe_free" by (simp add: is_read_end_def)
      have "pipes_ok (tab[i := set_pending q (tab ! i)])" if "q \<le> 4096" for q
        using s nf that pipe_slotD [OF assms(1)] by (intro pipes_ok_update assms(1) set_pending_ok) (auto simp: set_pending_ends)
      moreover have "unat (pp_pending (tab ! i)) \<le> 4096" using pending_le pipe_slotD [OF assms(1)] s by blast
      ultimately show ?thesis
        using assms(1) s by (simp add: Ev_read pipe_read_effect [OF assms(1) conjunct1 [OF s] conjunct2 [OF s]] Let_def)
    qed
  next
    case (Ev_close fd)
    have up: "pipes_ok (tab[i := k])" if "i < length tab" "k \<in> close_ends (tab ! i)" for i k
      using that close_ends_ok pipe_slotD [OF assms(1)] by (intro pipes_ok_update assms(1)) blast+
    show ?thesis
    proof (cases "slot_of_read tab fd")
      case (Some i)
      note c = slot_of_Some(1) [OF Some]
      show ?thesis
        using up [of i] c assms(1) pipe_close_effect(1) [OF assms(1) conjunct1 [OF c] conjunct2 [OF c]]
        by (simp add: Ev_close close_ends_def)
    next
      case None
      show ?thesis
      proof (cases "slot_of_write tab fd")
        case (Some i)
        note c = slot_of_Some(2) [OF Some]
        show ?thesis
          using up [of i] c assms(1) pipe_close_effect(2) [OF assms(1) conjunct1 [OF c] conjunct2 [OF c]]
          by (simp add: Ev_close close_ends_def)
      next
        case None': None
        then show ?thesis using None assms(1) by (simp add: Ev_close runtime_pipe_close_def)
      qed
    qed
  qed
  then show "pipes_ok (pipe_step e tab)" "length (pipe_step e tab) = length tab" by simp_all
qed

lemma set_pending_same: "pipe_slot_ok k \<Longrightarrow> pp_state k \<noteq> Pipe_free \<Longrightarrow> set_pending (unat (pp_pending k)) k = k"
  using pending_zero [of k] by (cases "pp_state k") (auto simp: set_pending_def pipe_slot_ok_def)

lemma pipe_here_moved:
  assumes "pipe_here r w i tab"
  shows "pipe_moved (Ev_write w n) tab = min n (4096 - unat (pp_pending (tab ! i)))"
    "pipe_moved (Ev_read r n) tab = min n (unat (pp_pending (tab ! i)))"
    "pipe_step (Ev_write w n) tab = tab[i := set_pending (unat (pp_pending (tab ! i)) + min n (4096 - unat (pp_pending (tab ! i)))) (tab ! i)]"
    "pipe_step (Ev_read r n) tab = tab[i := set_pending (unat (pp_pending (tab ! i)) - min n (unat (pp_pending (tab ! i)))) (tab ! i)]"
proof -
  have h: "pipes_ok tab" "i < length tab" "is_read_end r (tab ! i)" "is_write_end w (tab ! i)"
    using assms by (simp_all add: pipe_here_def)
  then have o: "pp_read_open (tab ! i)" "pp_state (tab ! i) \<noteq> Pipe_free" by (simp_all add: is_read_end_def)
  have same: "tab[i := set_pending q (tab ! i)] = tab" if "unat (pp_pending (tab ! i)) = q" for q
    using set_pending_same [OF pipe_slotD [OF h(1,2)] o(2)] that by simp
  show "pipe_moved (Ev_write w n) tab = min n (4096 - unat (pp_pending (tab ! i)))"
    "pipe_moved (Ev_read r n) tab = min n (unat (pp_pending (tab ! i)))"
    using o by (simp_all add: pipe_write_effect [OF h(1,2,4)] pipe_read_effect [OF h(1-3)] Let_def)
  show "pipe_step (Ev_write w n) tab = tab[i := set_pending (unat (pp_pending (tab ! i)) + min n (4096 - unat (pp_pending (tab ! i)))) (tab ! i)]"
    "pipe_step (Ev_read r n) tab = tab[i := set_pending (unat (pp_pending (tab ! i)) - min n (unat (pp_pending (tab ! i)))) (tab ! i)]"
    using o same by (simp_all add: pipe_write_effect [OF h(1,2,4)] pipe_read_effect [OF h(1-3)] Let_def)
      (auto intro!: same [symmetric])
qed

text \<open>A call on a descriptor of another slot leaves this one alone.\<close>

lemma pipe_other_slot:
  assumes "pipe_here r w i tab" "pipe_may e tab"
    "\<And>n. e \<noteq> Ev_write w n" "\<And>n. e \<noteq> Ev_read r n" "e \<noteq> Ev_close r" "e \<noteq> Ev_close w"
  shows "pipe_step e tab ! i = tab ! i"
proof -
  have h: "pipes_ok tab" "i < length tab" "is_read_end r (tab ! i)" "is_write_end w (tab ! i)"
    using assms(1) by (simp_all add: pipe_here_def)
  then have fd: "is_read_end fd (tab ! i) \<Longrightarrow> fd = r" "is_write_end fd (tab ! i) \<Longrightarrow> fd = w"
    and nz: "tab ! i \<noteq> pipe_slot_zero" for fd
    by (auto simp: is_read_end_def is_write_end_def)
  show ?thesis
  proof (cases e)
    case (Ev_open a b)
    then show ?thesis using pipe_open_cases [OF h(1), of a b] nz by (auto simp: nth_list_update_if)
  next
    case (Ev_write a n)
    then have "slot_of_write tab a \<noteq> Some i" using assms(3) fd(2) slot_of_Some(2) [of tab a i] by auto
    then show ?thesis
      by (cases "slot_of_write tab a") (auto simp: Ev_write runtime_pipe_write_def Let_def)
  next
    case (Ev_read a n)
    then have "slot_of_read tab a \<noteq> Some i" using assms(4) fd(1) slot_of_Some(1) [of tab a i] by auto
    then show ?thesis
      by (cases "slot_of_read tab a") (auto simp: Ev_read runtime_pipe_read_def Let_def)
  next
    case (Ev_close a)
    then have "slot_of_read tab a \<noteq> Some i" "slot_of_write tab a \<noteq> Some i"
      using assms(5,6) fd slot_of_Some [of tab a i] by auto
    then show ?thesis
      by (auto simp: Ev_close runtime_pipe_close_def Let_def split: option.splits)
  qed
qed

lemma pipe_here_step:
  assumes "pipe_here r w i tab" "pipe_may e tab" "e \<noteq> Ev_close r" "e \<noteq> Ev_close w"
  shows "pipe_here r w i (pipe_step e tab)"
    "unat (pp_pending (pipe_step e tab ! i)) + (case e of Ev_read fd n \<Rightarrow> if fd = r then pipe_moved e tab else 0 | _ \<Rightarrow> 0) =
     unat (pp_pending (tab ! i)) + (case e of Ev_write fd n \<Rightarrow> if fd = w then pipe_moved e tab else 0 | _ \<Rightarrow> 0)"
proof -
  have h: "pipes_ok tab" "i < length tab" "is_read_end r (tab ! i)" "is_write_end w (tab ! i)"
    using assms(1) by (simp_all add: pipe_here_def)
  then have nf: "pp_state (tab ! i) \<noteq> Pipe_free" by (simp add: is_read_end_def)
  note ok = pipe_step_ok [OF h(1) assms(2)] and p = pending_le [OF pipe_slotD [OF h(1,2)]]
  consider (w) n where "e = Ev_write w n" | (r) n where "e = Ev_read r n"
    | (other) "\<And>n. e \<noteq> Ev_write w n" "\<And>n. e \<noteq> Ev_read r n" by blast
  then have "pipe_here r w i (pipe_step e tab) \<and>
    unat (pp_pending (pipe_step e tab ! i)) + (case e of Ev_read fd n \<Rightarrow> if fd = r then pipe_moved e tab else 0 | _ \<Rightarrow> 0) =
    unat (pp_pending (tab ! i)) + (case e of Ev_write fd n \<Rightarrow> if fd = w then pipe_moved e tab else 0 | _ \<Rightarrow> 0)"
  proof cases
    case w
    show ?thesis
      using ok h(2-4) nf p unfolding w pipe_here_moved [OF assms(1)] pipe_here_def
      by (simp add: set_pending_ends pipe_here_moved [OF assms(1)] del: pipe_moved.simps)
  next
    case r
    show ?thesis
      using ok h(2-4) nf p unfolding r pipe_here_moved [OF assms(1)] pipe_here_def
      by (simp add: set_pending_ends pipe_here_moved [OF assms(1)] del: pipe_moved.simps)
  next
    case other
    have "pipe_step e tab ! i = tab ! i" by (rule pipe_other_slot [OF assms(1,2) other assms(3,4)])
    then show ?thesis using ok h(2-4) other by (auto simp: pipe_here_def split: pipe_event.splits)
  qed
  then show "pipe_here r w i (pipe_step e tab)"
    "unat (pp_pending (pipe_step e tab ! i)) + (case e of Ev_read fd n \<Rightarrow> if fd = r then pipe_moved e tab else 0 | _ \<Rightarrow> 0) =
     unat (pp_pending (tab ! i)) + (case e of Ev_write fd n \<Rightarrow> if fd = w then pipe_moved e tab else 0 | _ \<Rightarrow> 0)"
    by simp_all
qed

section \<open>A source of wakeups\<close>

text \<open>
  What the code that waits relies on: once something has woken the source it stays ready until it
  is drained, whatever else happens.
\<close>

locale wake_source =
  fixes ok :: "'s \<Rightarrow> bool" and step :: "'e \<Rightarrow> 's \<Rightarrow> 's" and may :: "'e \<Rightarrow> 's \<Rightarrow> bool"
    and wakes :: "'e \<Rightarrow> bool" and drains :: "'e \<Rightarrow> bool" and ready :: "'s \<Rightarrow> bool"
  assumes step_ok: "ok s \<Longrightarrow> may e s \<Longrightarrow> ok (step e s)"
    and wakes_ready: "ok s \<Longrightarrow> may e s \<Longrightarrow> wakes e \<Longrightarrow> ready (step e s)"
    and stays_ready: "ok s \<Longrightarrow> may e s \<Longrightarrow> ready s \<Longrightarrow> \<not> drains e \<Longrightarrow> ready (step e s)"
begin

fun run :: "'e list \<Rightarrow> 's \<Rightarrow> 's" where
  "run [] s = s"
| "run (e # es) s = run es (step e s)"

fun permitted :: "'e list \<Rightarrow> 's \<Rightarrow> bool" where
  "permitted [] s \<longleftrightarrow> True"
| "permitted (e # es) s \<longleftrightarrow> may e s \<and> permitted es (step e s)"

lemma run_ok: "ok s \<Longrightarrow> permitted es s \<Longrightarrow> ok (run es s)"
  by (induction es arbitrary: s) (simp_all add: step_ok)

lemma stays: "ok s \<Longrightarrow> permitted es s \<Longrightarrow> ready s \<Longrightarrow> list_all (\<lambda>e. \<not> drains e) es \<Longrightarrow> ready (run es s)"
  by (induction es arbitrary: s) (simp_all add: step_ok stays_ready)

lemma not_lost:
  "ok s \<Longrightarrow> permitted (es @ e # es') s \<Longrightarrow> wakes e \<Longrightarrow> list_all (\<lambda>e. \<not> drains e) es' \<Longrightarrow>
   ready (run (es @ e # es') s)"
  by (induction es arbitrary: s) (simp_all add: step_ok wakes_ready stays)

end

lemma pipe_here_ready: "pipe_here r w i tab \<Longrightarrow> runtime_pipe_ready tab r \<longleftrightarrow> 0 < unat (pp_pending (tab ! i))"
  using pipe_ready_effect [of tab i r] by (auto simp: pipe_here_def is_write_end_def)

interpretation wake_pipe: wake_source "pipe_here r w i" pipe_step
    "\<lambda>e tab. pipe_may e tab \<and> e \<noteq> Ev_close r \<and> e \<noteq> Ev_close w"
    "\<lambda>e. \<exists>n > 0. e = Ev_write w n" "\<lambda>e. \<exists>n. e = Ev_read r n" "\<lambda>tab. runtime_pipe_ready tab r" for r w i
proof
  fix s e assume h: "pipe_here r w i s" and m: "pipe_may e s \<and> e \<noteq> Ev_close r \<and> e \<noteq> Ev_close w"
  note st = pipe_here_step [OF h conjunct1 [OF m] conjunct1 [OF conjunct2 [OF m]] conjunct2 [OF conjunct2 [OF m]]]
  show "pipe_here r w i (pipe_step e s)" by (rule st(1))
  have p: "unat (pp_pending (s ! i)) \<le> 4096" using h by (auto simp: pipe_here_def intro: pending_le pipe_slotD)
  show "runtime_pipe_ready (pipe_step e s) r" if "\<exists>n > 0. e = Ev_write w n"
    using that st(2) p pipe_here_moved(1) [OF h] by (auto simp: pipe_here_ready [OF st(1)] simp del: pipe_moved.simps pipe_step.simps)
  show "runtime_pipe_ready (pipe_step e s) r" if "runtime_pipe_ready s r" "\<not> (\<exists>n. e = Ev_read r n)"
    using that st(2) by (auto simp: pipe_here_ready [OF st(1)] pipe_here_ready [OF h] simp del: pipe_moved.simps pipe_step.simps
        split: pipe_event.splits if_splits)
qed

section \<open>Properties\<close>

text \<open>Bytes moved by the calls a test picks, over a run.\<close>

fun bytes_moved :: "(pipe_event \<Rightarrow> bool) \<Rightarrow> pipe_event list \<Rightarrow> runtime_pipe_slot list \<Rightarrow> nat" where
  "bytes_moved f [] tab = 0"
| "bytes_moved f (e # es) tab = (if f e then pipe_moved e tab else 0) + bytes_moved f es (pipe_step e tab)"

fun pipe_run :: "pipe_event list \<Rightarrow> runtime_pipe_slot list \<Rightarrow> runtime_pipe_slot list" where
  "pipe_run [] tab = tab"
| "pipe_run (e # es) tab = pipe_run es (pipe_step e tab)"

text \<open>The run opens no descriptor twice and closes neither end of the pipe watched.\<close>

fun pipe_permitted :: "int \<Rightarrow> int \<Rightarrow> pipe_event list \<Rightarrow> runtime_pipe_slot list \<Rightarrow> bool" where
  "pipe_permitted r w [] tab \<longleftrightarrow> True"
| "pipe_permitted r w (e # es) tab \<longleftrightarrow>
     (pipe_may e tab \<and> e \<noteq> Ev_close r \<and> e \<noteq> Ev_close w) \<and> pipe_permitted r w es (pipe_step e tab)"

lemma pipe_run_source: "wake_pipe.run es tab = pipe_run es tab"
  by (induction es arbitrary: tab) simp_all

lemma pipe_permitted_source: "wake_pipe.permitted r w es tab = pipe_permitted r w es tab"
  by (induction es arbitrary: tab) simp_all

definition on_reads :: "int \<Rightarrow> pipe_event \<Rightarrow> bool" where
  "on_reads r e \<longleftrightarrow> (case e of Ev_read fd n \<Rightarrow> fd = r | _ \<Rightarrow> False)"

definition on_writes :: "int \<Rightarrow> pipe_event \<Rightarrow> bool" where
  "on_writes w e \<longleftrightarrow> (case e of Ev_write fd n \<Rightarrow> fd = w | _ \<Rightarrow> False)"


text \<open>
  A wakeup is not lost.  Once a byte has been written to a pipe, its read end reads as ready
  after any further calls until the reader reads: other pipes opened, written, read and closed,
  further writes, and even writes refused because the pipe is full.
\<close>

theorem wake_pipe_not_lost:
  "pipe_here r w i tab \<Longrightarrow> pipe_permitted r w (before @ Ev_write w n # after) tab \<Longrightarrow> 0 < n \<Longrightarrow>
   list_all (\<lambda>e. \<not> on_reads r e) after \<Longrightarrow>
   runtime_pipe_ready (pipe_run (before @ Ev_write w n # after) tab) r"
proof -
  assume a: "pipe_here r w i tab" "pipe_permitted r w (before @ Ev_write w n # after) tab" "0 < n"
    "list_all (\<lambda>e. \<not> on_reads r e) after"
  have "list_all (\<lambda>e. \<not> (\<exists>n. e = Ev_read r n)) after"
    using a(4) by (auto simp: list_all_iff on_reads_def)
  then show ?thesis
    using wake_pipe.not_lost [where r = r and w = w, OF a(1), of before "Ev_write w n" after] a(2,3)
    by (auto simp: pipe_run_source pipe_permitted_source)
qed

definition sample_pipes :: "runtime_pipe_slot list" where
  "sample_pipes = snd (runtime_pipe_open (replicate 8 pipe_slot_zero) 5 6)"

lemma sample_pipes_here: "pipe_here 5 6 0 sample_pipes"
proof -
  have "pipes_ok (pipe_step (Ev_open 5 6) (replicate 8 pipe_slot_zero))"
    by (rule pipe_step_ok(1) [OF pipes_ok_zero]) (simp add: pipe_ends_def)
  then show ?thesis
    by (simp add: pipe_here_def sample_pipes_def)
      (simp add: runtime_pipe_open_def is_read_end_def is_write_end_def numeral_eq_Suc)
qed

lemma sample_permitted: "pipe_permitted 5 6 [Ev_close 7, Ev_write 6 3, Ev_read 5 1] sample_pipes"
  "pipe_permitted 5 6 ([Ev_read 5 2] @ Ev_write 6 3 # [Ev_close 7, Ev_write 6 9]) sample_pipes"
  by (simp_all del: pipe_step.simps)


theorem wake_pipe_not_lost_witness:
  "runtime_pipe_ready (pipe_run ([Ev_read 5 2] @ Ev_write 6 3 # [Ev_close 7, Ev_write 6 9]) sample_pipes) 5"
  by (rule wake_pipe_not_lost [OF sample_pipes_here sample_permitted(2)]) (simp_all add: on_reads_def)

end
