(* ===== verification/Sys_Fd.thy ===== *)
theory Sys_Fd
  imports Posix_Fd Wake_Pipe
begin

text \<open>
  pipe2, timerfd_create and socketpair: \<open>src/src/pd/beam/compat/fd/runtime_sys_fd.c\<close>.  A null
  pointer argument is a \<open>bool\<close>; what a handler stores through one is an \<open>option\<close> beside its
  result.  The thread that waits in a blocking read is \<open>Parked\<close>, and reads again when woken.
\<close>

abbreviation (input) pipe_slots :: nat where "pipe_slots \<equiv> 8"

record 't fd_state =
  fs_libc :: 't
  fs_pipes :: "runtime_pipe_slot list"
  fs_wakes :: nat

definition on_libc :: "('t \<Rightarrow> 'a \<times> 't) \<Rightarrow> ('t, 'z) fd_state_scheme \<Rightarrow> 'a \<times> ('t, 'z) fd_state_scheme" where
  "on_libc f s = (case f (fs_libc s) of (r, t) \<Rightarrow> (r, s\<lparr>fs_libc := t\<rparr>))"

definition thread_io_wake :: "('t, 'z) fd_state_scheme \<Rightarrow> ('t, 'z) fd_state_scheme" where
  "thread_io_wake s = s\<lparr>fs_wakes := fs_wakes s + 1\<rparr>"

fun pipe_errno :: "runtime_pipe_status \<Rightarrow> nat \<Rightarrow> int" where
  "pipe_errno Pipe_ok bytes = int bytes"
| "pipe_errno Pipe_would_block bytes = - EAGAIN"
| "pipe_errno Pipe_eof bytes = 0"
| "pipe_errno Pipe_broken bytes = - EPIPE"
| "pipe_errno Pipe_no_slot bytes = - ENFILE"
| "pipe_errno Pipe_unknown_fd bytes = - EBADF"

text \<open>One turn of the read loop, with the bytes stored into the caller's buffer.\<close>

definition pipe_read ::
  "'t libc_fd \<Rightarrow> nat \<Rightarrow> int \<Rightarrow> ('t, 'z) fd_state_scheme \<Rightarrow> (int \<times> u8 list) io_result \<times> ('t, 'z) fd_state_scheme" where
  "pipe_read L count fd s =
     (case runtime_pipe_read (fs_pipes s) fd count of
        (status, taken, pipes) \<Rightarrow>
          let s = s\<lparr>fs_pipes := pipes\<rparr>;
              nonblock = (case posix_fd_entry L (fs_libc s) fd of
                            Some e \<Rightarrow> bit (fe_flags e) O_NONBLOCK_BIT
                          | None \<Rightarrow> False)
          in if status \<noteq> Pipe_would_block \<or> nonblock
             then (Done (pipe_errno status taken, replicate taken 0), s)
             else (Parked, s))"

definition pipe_write :: "nat \<Rightarrow> int \<Rightarrow> ('t, 'z) fd_state_scheme \<Rightarrow> int \<times> ('t, 'z) fd_state_scheme" where
  "pipe_write count fd s =
     (case runtime_pipe_write (fs_pipes s) fd count of
        (status, accepted, pipes) \<Rightarrow> (pipe_errno status accepted, thread_io_wake (s\<lparr>fs_pipes := pipes\<rparr>)))"

definition pipe_close :: "'t libc_fd \<Rightarrow> int \<Rightarrow> ('t, 'z) fd_state_scheme \<Rightarrow> int \<times> ('t, 'z) fd_state_scheme" where
  "pipe_close L fd s =
     on_libc (runtime_fd_close L fd) (s\<lparr>fs_pipes := snd (runtime_pipe_close (fs_pipes s) fd)\<rparr>)"

definition pipe_dup3 :: "'t libc_fd \<Rightarrow> int \<Rightarrow> int \<Rightarrow> ('t, 'z) fd_state_scheme \<Rightarrow> int \<times> ('t, 'z) fd_state_scheme" where
  "pipe_dup3 L oldfd newfd s = (- EBUSY, snd (on_libc (runtime_fd_close L newfd) s))"

definition runtime_pipe_fd_ready :: "('t, 'z) fd_state_scheme \<Rightarrow> int \<Rightarrow> bool" where
  "runtime_pipe_fd_ready s fd = runtime_pipe_ready (fs_pipes s) fd"

definition pipe_alloc :: "'t libc_fd \<Rightarrow> u32 \<Rightarrow> nat \<Rightarrow> ('t, 'z) fd_state_scheme \<Rightarrow> int \<times> ('t, 'z) fd_state_scheme" where
  "pipe_alloc L flags which s =
     (let nonblock = flags AND push_bit O_NONBLOCK_BIT 1;
          base = no_fd_ops\<lparr>op_close := Some Fd_pipe_close, op_dup3 := Some Fd_pipe_dup3\<rparr>
      in if which = 0
         then on_libc (runtime_fd_alloc_ops L (base\<lparr>op_read := Some Fd_pipe_read\<rparr>) (of_nat O_RDONLY OR nonblock)) s
         else on_libc (runtime_fd_alloc_ops L (base\<lparr>op_write := Some Fd_pipe_write\<rparr>) (of_nat O_WRONLY OR nonblock)) s)"

definition socketpair_alloc :: "'t libc_fd \<Rightarrow> nat \<Rightarrow> ('t, 'z) fd_state_scheme \<Rightarrow> int \<times> ('t, 'z) fd_state_scheme" where
  "socketpair_alloc L which =
     on_libc (runtime_fd_alloc L (Some Fd_empty_read) (Some Fd_discard_write) None
       (of_nat O_RDWR OR push_bit O_NONBLOCK_BIT 1))"

definition pair_close :: "'t libc_fd \<Rightarrow> int \<Rightarrow> ('t, 'z) fd_state_scheme \<Rightarrow> int \<times> ('t, 'z) fd_state_scheme" where
  "pair_close L fd = on_libc (runtime_fd_close L fd)"

definition runtime_sys_pipe2 ::
  "'t libc_fd \<Rightarrow> bool \<Rightarrow> u32 \<Rightarrow> ('t, 'z) fd_state_scheme \<Rightarrow> (int \<times> (int \<times> int) option) \<times> ('t, 'z) fd_state_scheme" where
  "runtime_sys_pipe2 L null flags s =
     (if null then ((- EFAULT, None), s)
      else case runtime_fd_alloc_pair (pipe_alloc L flags) (pair_close L) s of
             ((status, None), s) \<Rightarrow> ((status, None), s)
           | ((status, Some (r, w)), s) \<Rightarrow>
               case runtime_pipe_open (fs_pipes s) r w of
                 (opened, pipes) \<Rightarrow>
                   let s = s\<lparr>fs_pipes := pipes\<rparr>
                   in if opened \<noteq> Pipe_ok
                      then ((- ENFILE, None),
                            snd (on_libc (runtime_fd_close L w) (snd (on_libc (runtime_fd_close L r) s))))
                      else ((0, Some (r, w)), s))"

definition runtime_sys_timerfd_create ::
  "'t libc_fd \<Rightarrow> ('t, 'z) fd_state_scheme \<Rightarrow> int \<times> ('t, 'z) fd_state_scheme" where
  "runtime_sys_timerfd_create L =
     on_libc (runtime_fd_alloc L (Some Fd_empty_read) (Some Fd_discard_write) None
       (of_nat O_RDWR OR push_bit O_NONBLOCK_BIT 1))"

definition runtime_sys_socketpair ::
  "'t libc_fd \<Rightarrow> bool \<Rightarrow> ('t, 'z) fd_state_scheme \<Rightarrow> (int \<times> (int \<times> int) option) \<times> ('t, 'z) fd_state_scheme" where
  "runtime_sys_socketpair L null s =
     (if null then ((- EFAULT, None), s)
      else runtime_fd_alloc_pair (socketpair_alloc L) (pair_close L) s)"

section \<open>Pairs\<close>

abbreviation entries :: "'t libc_fd \<Rightarrow> ('t, 'z) fd_state_scheme \<Rightarrow> int \<Rightarrow> fd_entry option" where
  "entries L s \<equiv> posix_fd_entry L (fs_libc s)"

lemma on_libc_alloc:
  assumes "libc_fd_laws L" "on_libc (runtime_fd_alloc_ops L ops flags) s = (fd, s')"
  shows "fd < 0 \<Longrightarrow> fd = - EMFILE \<and> entries L s' = entries L s"
    "0 \<le> fd \<Longrightarrow> entries L s fd = None \<and> entries L s' = (entries L s)(fd \<mapsto> fd_entry_of ops flags)"
    "fs_pipes s' = fs_pipes s \<and> fs_wakes s' = fs_wakes s \<and> fd_state.more s' = fd_state.more s"
  using assms(2) alloc_ops_cases [OF assms(1), of ops flags "fs_libc s" fd]
  by (auto simp: on_libc_def split: prod.splits)

lemma on_libc_close:
  assumes "libc_fd_laws L" "on_libc (runtime_fd_close L fd) s = (r, s')"
  shows "entries L s' = (entries L s)(fd := None)"
    "fs_pipes s' = fs_pipes s \<and> fs_wakes s' = fs_wakes s \<and> fd_state.more s' = fd_state.more s"
  using assms(2) fd_lawsD(5) [OF assms(1), of "fs_libc s" fd]
  by (auto simp: on_libc_def runtime_fd_close_def fun_eq_iff split: prod.splits)

lemma alloc_pair_cases:
  assumes "libc_fd_laws L" "alloc = (\<lambda>which. on_libc (runtime_fd_alloc_ops L (ops which) (flags which)))"
    "runtime_fd_alloc_pair alloc (pair_close L) s = ((status, out), s')"
  shows "out = None \<Longrightarrow> status = - EMFILE \<and> entries L s' = entries L s"
    "out = Some (r, w) \<Longrightarrow> status = 0 \<and> 0 \<le> r \<and> 0 \<le> w \<and> r \<noteq> w \<and> entries L s r = None \<and> entries L s w = None \<and>
       entries L s' = (entries L s)(r \<mapsto> fd_entry_of (ops 0) (flags 0), w \<mapsto> fd_entry_of (ops 1) (flags 1))"
    "fs_pipes s' = fs_pipes s \<and> fs_wakes s' = fs_wakes s \<and> fd_state.more s' = fd_state.more s"
proof -
  obtain a sa where a: "alloc 0 s = (a, sa)" by (cases "alloc 0 s")
  obtain b sb where b: "alloc 1 sa = (b, sb)" by (cases "alloc 1 sa")
  note la = on_libc_alloc [OF assms(1) a [unfolded assms(2)]] and lb = on_libc_alloc [OF assms(1) b [unfolded assms(2)]]
  obtain c sc where c: "pair_close L a sb = (c, sc)" by (cases "pair_close L a sb")
  note lc = on_libc_close [OF assms(1) c [unfolded pair_close_def]]
  note d = assms(3) [unfolded runtime_fd_alloc_pair_def a prod.case b c snd_conv]
  consider (first) "a < 0" "status = a" "out = None" "s' = sa"
    | (second) "0 \<le> a" "b < 0" "status = b" "out = None" "s' = sc"
    | (both) "0 \<le> a" "0 \<le> b" "status = 0" "out = Some (a, b)" "s' = sb"
    using d by (auto split: if_splits)
  then have "(out = None \<longrightarrow> status = - EMFILE \<and> entries L s' = entries L s) \<and>
    (out = Some (r, w) \<longrightarrow> status = 0 \<and> 0 \<le> r \<and> 0 \<le> w \<and> r \<noteq> w \<and> entries L s r = None \<and> entries L s w = None \<and>
       entries L s' = (entries L s)(r \<mapsto> fd_entry_of (ops 0) (flags 0), w \<mapsto> fd_entry_of (ops 1) (flags 1))) \<and>
    fs_pipes s' = fs_pipes s \<and> fs_wakes s' = fs_wakes s \<and> fd_state.more s' = fd_state.more s"
  proof cases
    case first
    then show ?thesis using la(1,3) by simp
  next
    case second
    have "entries L s' = entries L s" using second la(2) lb(1) lc(1) by (simp add: fun_upd_idem)
    then show ?thesis using second la(3) lb(1,3) lc(2) by simp
  next
    case both
    have "entries L sa b = None" "entries L s a = None" using both la(2) lb(2) by simp_all
    moreover from this have "a \<noteq> b" "entries L s b = None" using both la(2) by (auto split: if_splits)
    ultimately show ?thesis using both la(2,3) lb(2,3) by auto
  qed
  then show "out = None \<Longrightarrow> status = - EMFILE \<and> entries L s' = entries L s"
    "out = Some (r, w) \<Longrightarrow> status = 0 \<and> 0 \<le> r \<and> 0 \<le> w \<and> r \<noteq> w \<and> entries L s r = None \<and> entries L s w = None \<and>
       entries L s' = (entries L s)(r \<mapsto> fd_entry_of (ops 0) (flags 0), w \<mapsto> fd_entry_of (ops 1) (flags 1))"
    "fs_pipes s' = fs_pipes s \<and> fs_wakes s' = fs_wakes s \<and> fd_state.more s' = fd_state.more s"
    by blast+
qed

section \<open>Pipes and descriptors agree\<close>

text \<open>The open ends in the pipe table are the descriptors whose entry closes a pipe.\<close>

definition pipes_agree :: "'t libc_fd \<Rightarrow> ('t, 'z) fd_state_scheme \<Rightarrow> bool" where
  "pipes_agree L s \<longleftrightarrow>
     pipes_ok (fs_pipes s) \<and>
     pipe_ends (fs_pipes s) = {fd. \<exists>e. entries L s fd = Some e \<and> fe_close e = Fd_pipe_close}"

abbreviation (input) new_pipe :: "int \<Rightarrow> int \<Rightarrow> runtime_pipe_slot" where
  "new_pipe r w \<equiv> \<lparr>pp_state = Pipe_empty, pp_read_open = True, pp_write_open = True,
     pp_read_fd = r, pp_write_fd = w, pp_pending = 0\<rparr>"

definition pipe_entry :: "fd_read_func \<Rightarrow> fd_write_func \<Rightarrow> u32 \<Rightarrow> fd_entry" where
  "pipe_entry read write flags = \<lparr>fe_read = read, fe_write = write, fe_close = Fd_pipe_close,
     fe_dup3 = Fd_pipe_dup3, fe_fstat = Fd_bad_fstat, fe_flags = flags, fe_file_ptr = 0\<rparr>"

lemma pipes_agree_entry:
  "pipes_agree L s \<Longrightarrow> fd \<in> pipe_ends (fs_pipes s) \<longleftrightarrow> (\<exists>e. entries L s fd = Some e \<and> fe_close e = Fd_pipe_close)"
  by (simp add: pipes_agree_def)

lemma new_pipe_opened:
  assumes "pipes_ok tab" "i < length tab" "tab ! i = pipe_slot_zero"
    "runtime_pipe_open tab r w = (Pipe_ok, tab[i := new_pipe r w])" "r \<noteq> w" "r \<notin> pipe_ends tab" "w \<notin> pipe_ends tab"
  shows "pipe_here r w i (tab[i := new_pipe r w])" "\<not> runtime_pipe_ready (tab[i := new_pipe r w]) r"
    "pipe_ends (tab[i := new_pipe r w]) = insert r (insert w (pipe_ends tab))" "tab[i := new_pipe r w, i := tab ! i] = tab"
proof -
  have ok: "pipes_ok (tab[i := new_pipe r w])"
    using pipe_step_ok(1) [OF assms(1), of "Ev_open r w"] assms(4-7) by simp
  show here: "pipe_here r w i (tab[i := new_pipe r w])"
    using ok assms(2) by (simp add: pipe_here_def is_read_end_def is_write_end_def)
  show "\<not> runtime_pipe_ready (tab[i := new_pipe r w]) r" using assms(2) by (simp add: pipe_here_ready [OF here])
  have "is_end fd (new_pipe r w) \<longleftrightarrow> fd = r \<or> fd = w" for fd by (auto simp: is_end_def is_read_end_def is_write_end_def)
  then show "pipe_ends (tab[i := new_pipe r w]) = insert r (insert w (pipe_ends tab))"
    using pipe_ends_update [OF assms(2,1), of "new_pipe r w"] assms(3) by auto
qed simp

text \<open>pipe2 either fails with nothing changed or fills a free slot with a pipe between two new descriptors.\<close>

lemma pipe2_cases:
  assumes "libc_fd_laws L" "pipes_agree L s" "runtime_sys_pipe2 L null flags s = ((status, out), s')"
  obtains (failed) "status < 0" "out = None" "entries L s' = entries L s" "fs_pipes s' = fs_pipes s"
      "fd_state.more s' = fd_state.more s"
    | (made) r w i where "status = 0" "out = Some (r, w)" "r \<noteq> w" "entries L s r = None" "entries L s w = None"
      "i < length (fs_pipes s)" "fs_pipes s ! i = pipe_slot_zero" "fs_pipes s' = (fs_pipes s)[i := new_pipe r w]"
      "runtime_pipe_open (fs_pipes s) r w = (Pipe_ok, (fs_pipes s)[i := new_pipe r w])"
      "entries L s' = (entries L s)
         (r \<mapsto> pipe_entry Fd_pipe_read Fd_bad_write (flags AND push_bit 11 1),
          w \<mapsto> pipe_entry Fd_bad_read Fd_pipe_write (1 OR flags AND push_bit 11 1))"
      "fd_state.more s' = fd_state.more s"
proof -
  define nb where "nb = flags AND push_bit 11 1"
  define ops where "ops = (\<lambda>which :: nat. if which = 0
      then no_fd_ops\<lparr>op_close := Some Fd_pipe_close, op_dup3 := Some Fd_pipe_dup3, op_read := Some Fd_pipe_read\<rparr>
      else no_fd_ops\<lparr>op_close := Some Fd_pipe_close, op_dup3 := Some Fd_pipe_dup3, op_write := Some Fd_pipe_write\<rparr>)"
  define flg where "flg = (\<lambda>which :: nat. if which = 0 then of_nat O_RDONLY OR nb else of_nat O_WRONLY OR nb)"
  have al: "pipe_alloc L flags = (\<lambda>which. on_libc (runtime_fd_alloc_ops L (ops which) (flg which)))"
    by (intro ext) (simp add: pipe_alloc_def ops_def flg_def nb_def Let_def)
  have en: "fd_entry_of (ops 0) (flg 0) = pipe_entry Fd_pipe_read Fd_bad_write nb"
    "fd_entry_of (ops 1) (flg 1) = pipe_entry Fd_bad_read Fd_pipe_write (1 OR nb)"
    by (simp_all add: fd_entry_of_def ops_def flg_def pipe_entry_def no_fd_ops_def)
  show thesis
  proof (cases null)
    case True
    then show thesis using assms(3) failed by (auto simp: runtime_sys_pipe2_def)
  next
    case False
    obtain st po s1 where pr: "runtime_fd_alloc_pair (pipe_alloc L flags) (pair_close L) s = ((st, po), s1)"
      by (metis prod.exhaust)
    note pc = alloc_pair_cases [OF assms(1) al pr, unfolded en]
    show thesis
    proof (cases po)
      case None
      then have "out = None" "status = st" "s' = s1" using assms(3) False pr by (simp_all add: runtime_sys_pipe2_def)
      then show thesis using failed pc(1) [OF None] pc(3) by simp
    next
      case (Some rw)
      obtain r w where rw: "po = Some (r, w)" using Some by (cases rw) simp
      note pa = pc(2) [OF rw]
      have ok: "pipes_ok (fs_pipes s)" using assms(2) by (simp add: pipes_agree_def)
      show thesis
        using pipe_open_cases [OF ok, of r w]
      proof
        assume full: "runtime_pipe_open (fs_pipes s) r w = (Pipe_no_slot, fs_pipes s)"
        define s1' where "s1' = s1\<lparr>fs_pipes := fs_pipes s\<rparr>"
        obtain c1 s2 where c1: "on_libc (runtime_fd_close L r) s1' = (c1, s2)" by (metis prod.exhaust)
        obtain c2 s3 where c2: "on_libc (runtime_fd_close L w) s2 = (c2, s3)" by (metis prod.exhaust)
        note k = on_libc_close [OF assms(1) c1] on_libc_close [OF assms(1) c2]
        have o: "out = None" "status = - ENFILE" "s' = s3"
          using assms(3) False pr rw full c1 c2 pc(3) by (simp_all add: runtime_sys_pipe2_def Let_def s1'_def)
        have "entries L s3 = entries L s" using k pa by (auto simp: fun_eq_iff s1'_def)
        moreover have "fs_pipes s3 = fs_pipes s" "fd_state.more s3 = fd_state.more s" using k pc(3) by (simp_all add: s1'_def)
        ultimately show thesis using failed o by simp
      next
        assume "\<exists>i < length (fs_pipes s). fs_pipes s ! i = pipe_slot_zero \<and>
          runtime_pipe_open (fs_pipes s) r w = (Pipe_ok, (fs_pipes s)[i := new_pipe r w])"
        then obtain i where i: "i < length (fs_pipes s)" "fs_pipes s ! i = pipe_slot_zero"
          "runtime_pipe_open (fs_pipes s) r w = (Pipe_ok, (fs_pipes s)[i := new_pipe r w])" by blast
        have o: "out = Some (r, w)" "status = 0" "s' = s1\<lparr>fs_pipes := (fs_pipes s)[i := new_pipe r w]\<rparr>"
          using assms(3) False pr rw pc(3) i(3) by (simp_all add: runtime_sys_pipe2_def Let_def)
        show thesis by (rule made [of r w i]) (use pa i o pc(3) in \<open>simp_all add: nb_def\<close>)
      qed
    qed
  qed
qed

text \<open>
  A pipe is made whole or not at all.  If pipe2 gives out two descriptors they were not in
  use, they are now the two ends of one empty pipe whose read end is not ready, and no other
  descriptor or pipe changed.  If it fails, whichever of the two tables was full, every descriptor
  and every pipe is as before.  Either way the two tables still agree.
\<close>

theorem pipe2_all_or_nothing:
  assumes "libc_fd_laws L" "pipes_agree L s" "runtime_sys_pipe2 L null flags s = ((status, out), s')"
  shows "pipes_agree L s' \<and>
    (case out of
       None \<Rightarrow> status < 0 \<and> entries L s' = entries L s \<and> fs_pipes s' = fs_pipes s
     | Some (r, w) \<Rightarrow> status = 0 \<and> entries L s r = None \<and> entries L s w = None \<and>
         (\<exists>i. pipe_here r w i (fs_pipes s') \<and> (fs_pipes s')[i := fs_pipes s ! i] = fs_pipes s) \<and>
         \<not> runtime_pipe_ready (fs_pipes s') r \<and>
         entries L s' = (entries L s)
           (r \<mapsto> pipe_entry Fd_pipe_read Fd_bad_write (flags AND push_bit 11 1),
            w \<mapsto> pipe_entry Fd_bad_read Fd_pipe_write (1 OR flags AND push_bit 11 1)))"
  using assms
proof (cases rule: pipe2_cases)
  case failed
  then show ?thesis using assms(2) by (simp add: pipes_agree_def)
next
  case (made r w i)
  have ok: "pipes_ok (fs_pipes s)" using assms(2) by (simp add: pipes_agree_def)
  have "r \<notin> pipe_ends (fs_pipes s)" "w \<notin> pipe_ends (fs_pipes s)" using made(4,5) pipes_agree_entry [OF assms(2)] by simp_all
  note np = new_pipe_opened [OF ok made(6,7,9,3) this]
  have "pipes_agree L s'" using np made(8,10) assms(2) by (auto simp: pipes_agree_def pipe_here_def pipe_entry_def)
  then show ?thesis using np made by auto
qed

section \<open>A descriptor table\<close>

definition blank_entry :: fd_entry where
  "blank_entry = \<lparr>fe_read = Fd_bad_read, fe_write = Fd_bad_write, fe_close = Fd_close, fe_dup3 = Fd_dup3,
     fe_fstat = Fd_bad_fstat, fe_flags = 0, fe_file_ptr = 0\<rparr>"

definition list_libc :: "fd_entry option list libc_fd" where
  "list_libc =
     \<lparr>posix_fd_allocate = (\<lambda>t. case find_index (\<lambda>e. e = None) t of
          None \<Rightarrow> (- 1, t) | Some i \<Rightarrow> (int i, t[i := Some blank_entry])),
      posix_fd_entry = (\<lambda>t fd. if 0 \<le> fd \<and> nat fd < length t then t ! nat fd else None),
      posix_fd_store = (\<lambda>t fd e. t[nat fd := Some e]),
      posix_fd_deallocate = (\<lambda>t fd. if 0 \<le> fd then (0, t[nat fd := None]) else (- 9, t))\<rparr>"

lemma list_libc_laws: "libc_fd_laws list_libc"
  by (auto simp: libc_fd_laws_def list_libc_def nth_list_update_if dest!: find_index_Some split: option.splits if_splits)

definition sample_fds :: "fd_entry option list fd_state" where
  "sample_fds = \<lparr>fs_libc = replicate 3 (Some blank_entry) @ replicate 5 None,
     fs_pipes = replicate 8 pipe_slot_zero, fs_wakes = 0\<rparr>"

lemma sample_fds_agree: "pipes_agree list_libc sample_fds"
proof -
  have "posix_fd_entry list_libc (fs_libc sample_fds) fd = Some e \<Longrightarrow> fe_close e \<noteq> Fd_pipe_close" for fd e
    by (auto simp: list_libc_def sample_fds_def blank_entry_def nth_append split: if_splits)
  then show ?thesis by (auto simp: pipes_agree_def sample_fds_def pipes_ok_zero pipe_ends_def)
qed

lemma sample_pipe2: "fst (runtime_sys_pipe2 list_libc False (push_bit 11 1) sample_fds) = (0, Some (3, 4))"
  by (simp add: runtime_sys_pipe2_def runtime_fd_alloc_pair_def pipe_alloc_def on_libc_def runtime_fd_alloc_ops_def
      list_libc_def sample_fds_def numeral_eq_Suc runtime_pipe_open_def Let_def pipe_slot_zero_def)

theorem pipe2_all_or_nothing_witness:
  "\<exists>i s'. runtime_sys_pipe2 list_libc False (push_bit 11 1) sample_fds = ((0, Some (3, 4)), s') \<and>
     pipe_here 3 4 i (fs_pipes s') \<and> \<not> runtime_pipe_ready (fs_pipes s') 3"
proof -
  obtain s' where s: "runtime_sys_pipe2 list_libc False (push_bit 11 1) sample_fds = ((0, Some (3, 4)), s')"
    using sample_pipe2 by (metis prod.collapse)
  show ?thesis using pipe2_all_or_nothing [OF list_libc_laws sample_fds_agree s] s by auto
qed

end
