(* ===== verification/Epoll_Table.thy ===== *)
theory Epoll_Table
  imports Wake_Pipe
begin

text \<open>
  The epoll registration table and the readiness masks:
  \<open>src/src/pd/beam/compat/poll/runtime_epoll_table.h\<close> and \<open>runtime_epoll_table.c\<close>.  The table is a
  list and its capacity the length; the readiness callback is an argument, and what is reported is
  the list of the reports.
\<close>

abbreviation (input) runtime_epoll_in :: u32 where "runtime_epoll_in \<equiv> 0x001"
abbreviation (input) runtime_epoll_out :: u32 where "runtime_epoll_out \<equiv> 0x004"
abbreviation (input) runtime_epoll_err :: u32 where "runtime_epoll_err \<equiv> 0x008"
abbreviation (input) runtime_epoll_hup :: u32 where "runtime_epoll_hup \<equiv> 0x010"
abbreviation (input) runtime_epoll_oneshot :: u32 where "runtime_epoll_oneshot \<equiv> 0x40000000"

record runtime_epoll_entry =
  ep_fd :: int
  ep_events :: u32
  ep_data :: u64
  ep_active :: bool
  ep_armed :: bool
  ep_is_sock :: bool
  ep_sock_handle :: int

datatype runtime_epoll_status = Epoll_ok | Epoll_no_space

definition find_entry :: "runtime_epoll_entry list \<Rightarrow> int \<Rightarrow> nat option" where
  "find_entry tab fd = find_index (\<lambda>e. ep_active e \<and> ep_fd e = fd) tab"

definition runtime_epoll_table_set ::
  "runtime_epoll_entry list \<Rightarrow> int \<Rightarrow> u32 \<Rightarrow> u64 \<Rightarrow> bool \<Rightarrow> int \<Rightarrow> runtime_epoll_status \<times> runtime_epoll_entry list" where
  "runtime_epoll_table_set tab fd events data is_sock sock_handle =
     (case (case find_entry tab fd of Some i \<Rightarrow> Some i | None \<Rightarrow> find_index (\<lambda>e. \<not> ep_active e) tab) of
        None \<Rightarrow> (Epoll_no_space, tab)
      | Some i \<Rightarrow>
          (Epoll_ok, tab[i := \<lparr>ep_fd = fd, ep_events = events, ep_data = data, ep_active = True, ep_armed = True,
             ep_is_sock = is_sock, ep_sock_handle = (if is_sock then sock_handle else - 1)\<rparr>]))"

definition runtime_epoll_table_remove :: "runtime_epoll_entry list \<Rightarrow> int \<Rightarrow> runtime_epoll_entry list" where
  "runtime_epoll_table_remove tab fd =
     (case find_entry tab fd of
        None \<Rightarrow> tab
      | Some i \<Rightarrow> tab[i := (tab ! i)\<lparr>ep_active := False\<rparr>])"

text \<open>\<open>room\<close> is how many reports are still allowed.\<close>

fun runtime_epoll_table_scan ::
  "(runtime_epoll_entry \<Rightarrow> u32) \<Rightarrow> nat \<Rightarrow> runtime_epoll_entry list \<Rightarrow> (u32 \<times> u64) list \<times> runtime_epoll_entry list" where
  "runtime_epoll_table_scan readiness room [] = ([], [])"
| "runtime_epoll_table_scan readiness room (entry # rest) =
     (if room = 0 then ([], entry # rest)
      else if \<not> ep_active entry \<or> \<not> ep_armed entry
      then case runtime_epoll_table_scan readiness room rest of (reports, rest) \<Rightarrow> (reports, entry # rest)
      else
        let conditions = readiness entry AND (ep_events entry OR runtime_epoll_err OR runtime_epoll_hup)
        in if conditions = 0
           then case runtime_epoll_table_scan readiness room rest of (reports, rest) \<Rightarrow> (reports, entry # rest)
           else
             let entry' = (if ep_events entry AND runtime_epoll_oneshot \<noteq> 0 then entry\<lparr>ep_armed := False\<rparr> else entry)
             in case runtime_epoll_table_scan readiness (room - 1) rest of
                  (reports, rest) \<Rightarrow> ((conditions, ep_data entry) # reports, entry' # rest))"

definition runtime_poll_wanted_mask :: "u32 \<Rightarrow> u32" where
  "runtime_poll_wanted_mask requested =
     (requested AND (runtime_epoll_in OR runtime_epoll_out)) OR runtime_epoll_hup OR runtime_epoll_err"

definition runtime_select_nfds_valid :: "int \<Rightarrow> int \<Rightarrow> bool" where
  "runtime_select_nfds_valid nfds setsize \<longleftrightarrow> nfds \<ge> 0 \<and> nfds \<le> setsize"

record runtime_select_ready =
  sl_read :: bool
  sl_write :: bool
  sl_except :: bool

definition runtime_select_from_revents :: "u32 \<Rightarrow> runtime_select_ready" where
  "runtime_select_from_revents revents =
     (let failed = revents AND (runtime_epoll_err OR runtime_epoll_hup) \<noteq> 0
      in \<lparr>sl_read = (revents AND runtime_epoll_in \<noteq> 0 \<or> failed),
          sl_write = (revents AND runtime_epoll_out \<noteq> 0 \<or> failed), sl_except = False\<rparr>)"

section \<open>A table is a map\<close>

text \<open>No two active entries are of one descriptor.\<close>

definition epoll_ok :: "runtime_epoll_entry list \<Rightarrow> bool" where
  "epoll_ok tab \<longleftrightarrow>
     (\<forall>i j. i < length tab \<longrightarrow> j < length tab \<longrightarrow> ep_active (tab ! i) \<longrightarrow> ep_active (tab ! j) \<longrightarrow>
        ep_fd (tab ! i) = ep_fd (tab ! j) \<longrightarrow> i = j)"

definition registration :: "runtime_epoll_entry list \<Rightarrow> int \<Rightarrow> runtime_epoll_entry option" where
  "registration tab fd = map_option (nth tab) (find_entry tab fd)"

lemma find_entry_Some: "find_entry tab fd = Some i \<Longrightarrow> i < length tab \<and> ep_active (tab ! i) \<and> ep_fd (tab ! i) = fd"
  by (auto simp: find_entry_def dest: find_index_Some)

lemma epoll_okD:
  "epoll_ok tab \<Longrightarrow> i < length tab \<Longrightarrow> j < length tab \<Longrightarrow> ep_active (tab ! i) \<Longrightarrow> ep_active (tab ! j) \<Longrightarrow>
   ep_fd (tab ! i) = ep_fd (tab ! j) \<Longrightarrow> i = j"
  unfolding epoll_ok_def by blast

lemma find_entry_unique:
  assumes "epoll_ok tab" "i < length tab" "ep_active (tab ! i)"
  shows "find_entry tab (ep_fd (tab ! i)) = Some i"
  unfolding find_entry_def
proof (rule find_index_unique)
  fix j assume "j < length tab" "ep_active (tab ! j) \<and> ep_fd (tab ! j) = ep_fd (tab ! i)"
  then show "j = i" using assms unfolding epoll_ok_def by blast
qed (use assms in simp_all)

lemma registration_Some:
  "epoll_ok tab \<Longrightarrow> registration tab fd = Some e \<longleftrightarrow> e \<in> set tab \<and> ep_active e \<and> ep_fd e = fd"
proof
  assume "registration tab fd = Some e"
  then show "e \<in> set tab \<and> ep_active e \<and> ep_fd e = fd"
    by (auto simp: registration_def dest: find_entry_Some)
next
  assume ok: "epoll_ok tab" and "e \<in> set tab \<and> ep_active e \<and> ep_fd e = fd"
  then obtain i where i: "i < length tab" "tab ! i = e" "ep_active e" "ep_fd e = fd" by (auto simp: in_set_conv_nth)
  then show "registration tab fd = Some e" using find_entry_unique [OF ok i(1)] by (simp add: registration_def)
qed

lemma registration_None: "registration tab fd = None \<longleftrightarrow> (\<forall>e \<in> set tab. ep_active e \<longrightarrow> ep_fd e \<noteq> fd)"
  by (auto simp: registration_def find_entry_def find_index_None)

text \<open>Replacing an entry, when no other entry is of the new one's descriptor.\<close>

lemma epoll_update:
  assumes "epoll_ok tab" "i < length tab"
    "ep_active e \<Longrightarrow> registration tab (ep_fd e) = None \<or> find_entry tab (ep_fd e) = Some i"
  shows "epoll_ok (tab[i := e])"
    "registration (tab[i := e]) fd =
       (if ep_active e \<and> ep_fd e = fd then Some e
        else if ep_active (tab ! i) \<and> ep_fd (tab ! i) = fd then None else registration tab fd)"
proof -
  have other: "j = i" if "ep_active e" "j < length tab" "ep_active (tab ! j)" "ep_fd (tab ! j) = ep_fd e" for j
  proof -
    have "find_entry tab (ep_fd e) = Some j" using find_entry_unique [OF assms(1) that(2,3)] that(4) by simp
    then show ?thesis using assms(3) [OF that(1)] by (auto simp: registration_def)
  qed
  have live: "j = i \<and> ep_active e \<and> ep_fd e = f \<or> j \<noteq> i \<and> ep_active (tab ! j) \<and> ep_fd (tab ! j) = f"
    if "j < length (tab[i := e])" "ep_active (tab[i := e] ! j)" "ep_fd (tab[i := e] ! j) = f" for j f
    using that assms(2) by (cases "j = i") simp_all
  have same: "y = i" if "y < length tab" "ep_active e" "ep_active (tab[i := e] ! y)" "ep_fd (tab[i := e] ! y) = ep_fd e" for y
  proof (rule ccontr)
    assume n: "y \<noteq> i"
    then have "tab[i := e] ! y = tab ! y" by simp
    then show False using other [OF that(2,1)] that(3,4) n by metis
  qed
  show ok: "epoll_ok (tab[i := e])"
    unfolding epoll_ok_def
  proof (intro allI impI)
    fix a b
    assume ab: "a < length (tab[i := e])" "b < length (tab[i := e])" "ep_active (tab[i := e] ! a)" "ep_active (tab[i := e] ! b)"
      "ep_fd (tab[i := e] ! a) = ep_fd (tab[i := e] ! b)"
    have at: "tab[i := e] ! i = e" using assms(2) by simp
    have lens: "a < length tab" "b < length tab" using ab(1,2) by simp_all
    consider "a = i" | "b = i" | "a \<noteq> i" "b \<noteq> i" by blast
    then show "a = b"
    proof cases
      case 1
      then have "b = i" using same [OF lens(2) _ ab(4)] ab(3,5) at by metis
      then show ?thesis using 1 by simp
    next
      case 2
      then have "a = i" using same [OF lens(1) _ ab(3)] ab(4,5) at by metis
      then show ?thesis using 2 by simp
    next
      case 3
      then have "tab[i := e] ! a = tab ! a" "tab[i := e] ! b = tab ! b" by simp_all
      then show ?thesis using epoll_okD [OF assms(1) lens] ab(3-5) by metis
    qed
  qed
  have new: "registration (tab[i := e]) fd = Some x" if "j < length (tab[i := e])" "tab[i := e] ! j = x" "ep_active x" "ep_fd x = fd" for j x
    unfolding registration_Some [OF ok] using that nth_mem by blast
  show "registration (tab[i := e]) fd =
       (if ep_active e \<and> ep_fd e = fd then Some e
        else if ep_active (tab ! i) \<and> ep_fd (tab ! i) = fd then None else registration tab fd)"
  proof (cases "ep_active e \<and> ep_fd e = fd")
    case True
    then show ?thesis using new [of i e] assms(2) by simp
  next
    case e: False
    show ?thesis
    proof (cases "ep_active (tab ! i) \<and> ep_fd (tab ! i) = fd")
      case True
      have "ep_fd x \<noteq> fd" if x: "x \<in> set (tab[i := e])" "ep_active x" for x
      proof
        assume f: "ep_fd x = fd"
        obtain j where j: "j < length (tab[i := e])" "tab[i := e] ! j = x" using x(1) in_set_conv_nth [of x "tab[i := e]"] by blast
        have "j \<noteq> i \<and> ep_active (tab ! j) \<and> ep_fd (tab ! j) = fd" using live [OF j(1)] j(2) x(2) f e by simp
        then show False using epoll_okD [OF assms(1), of j i] True assms(2) j(1) by simp
      qed
      then have "registration (tab[i := e]) fd = None" unfolding registration_None by blast
      then show ?thesis using e True by simp
    next
      case False
      show ?thesis
      proof (cases "registration tab fd")
        case None
        have "ep_fd x \<noteq> fd" if "x \<in> set (tab[i := e])" "ep_active x" for x
          using that set_update_subset_insert [of tab i e] None e unfolding registration_None by blast
        then have "registration (tab[i := e]) fd = None" unfolding registration_None by blast
        then show ?thesis using None e False by simp
      next
        case (Some x)
        then obtain j where j: "j < length tab" "tab ! j = x" "ep_active x" "ep_fd x = fd"
          unfolding registration_Some [OF assms(1)] in_set_conv_nth by blast
        then have "j \<noteq> i" using False by blast
        then have "registration (tab[i := e]) fd = Some x" using new [of j x] j by simp
        then show ?thesis using Some e False by auto
      qed
    qed
  qed
qed

lemma epoll_table_laws:
  assumes "epoll_ok tab" "runtime_epoll_table_set tab fd events data is_sock h = (status, tab')"
  shows "epoll_ok tab' \<and> epoll_ok (runtime_epoll_table_remove tab fd) \<and>
    registration (runtime_epoll_table_remove tab fd) = (registration tab)(fd := None) \<and>
    (case status of
       Epoll_ok \<Rightarrow> registration tab' = (registration tab)(fd \<mapsto> \<lparr>ep_fd = fd, ep_events = events, ep_data = data,
         ep_active = True, ep_armed = True, ep_is_sock = is_sock, ep_sock_handle = (if is_sock then h else - 1)\<rparr>)
     | Epoll_no_space \<Rightarrow> registration tab fd = None \<and> list_all ep_active tab \<and> tab' = tab)"
proof -
  let ?e = "\<lparr>ep_fd = fd, ep_events = events, ep_data = data, ep_active = True, ep_armed = True,
    ep_is_sock = is_sock, ep_sock_handle = (if is_sock then h else - 1)\<rparr>"
  have rem: "epoll_ok (runtime_epoll_table_remove tab fd) \<and>
      registration (runtime_epoll_table_remove tab fd) = (registration tab)(fd := None)"
  proof (cases "find_entry tab fd")
    case None
    then have "registration tab fd = None" by (simp add: registration_def)
    then show ?thesis using None assms(1) by (simp add: runtime_epoll_table_remove_def fun_upd_idem)
  next
    case (Some i)
    note f = find_entry_Some [OF Some]
    show ?thesis
      using epoll_update [OF assms(1) conjunct1 [OF f], of "(tab ! i)\<lparr>ep_active := False\<rparr>"] f Some
      by (auto simp: runtime_epoll_table_remove_def)
  qed
  have setting: "epoll_ok (tab[i := ?e]) \<and> registration (tab[i := ?e]) = (registration tab)(fd \<mapsto> ?e)"
    if "i < length tab" "find_entry tab fd = Some i \<or> find_entry tab fd = None \<and> \<not> ep_active (tab ! i)" for i
  proof -
    have "registration tab (ep_fd ?e) = None \<or> find_entry tab (ep_fd ?e) = Some i"
      using that(2) by (auto simp: registration_def)
    note u = epoll_update [OF assms(1) that(1) this]
    have "ep_active (tab ! i) \<Longrightarrow> ep_fd (tab ! i) = fd" using that(2) find_entry_Some [of tab fd i] by auto
    then have "registration (tab[i := ?e]) x = ((registration tab)(fd \<mapsto> ?e)) x" for x
      using u(2) [of x] by (simp del: fun_upd_apply) (auto simp: fun_upd_def)
    then show ?thesis using u(1) by (intro conjI ext)
  qed
  show ?thesis
  proof (cases "find_entry tab fd")
    case (Some i)
    then show ?thesis
      using setting [of i] rem assms(2) find_entry_Some [OF Some] by (auto simp: runtime_epoll_table_set_def)
  next
    case None
    then have r: "registration tab fd = None" by (simp add: registration_def)
    show ?thesis
    proof (cases "find_index (\<lambda>e. \<not> ep_active e) tab")
      case None': None
      then have "list_all ep_active tab" by (simp add: find_index_None list_all_iff)
      then show ?thesis using r rem assms None None' by (auto simp: runtime_epoll_table_set_def)
    next
      case (Some i)
      note f = find_index_Some [OF Some]
      show ?thesis using setting [of i] rem assms(2) f None Some by (auto simp: runtime_epoll_table_set_def)
    qed
  qed
qed

text \<open>
  C38.  The registration table is a finite map.  Setting a descriptor makes the table hold the new,
  armed registration for it and what it held for every other; it fails only when the descriptor
  is not registered and no entry is free, and then changes nothing.  Removing makes the
  descriptor unregistered and touches no other.  No descriptor is ever registered twice.
\<close>

theorem epoll_table_is_a_map:
  assumes "epoll_ok tab" "runtime_epoll_table_set tab fd events data is_sock h = (status, tab')"
  shows "epoll_ok tab' \<and> epoll_ok (runtime_epoll_table_remove tab fd) \<and>
    registration (runtime_epoll_table_remove tab fd) = (registration tab)(fd := None) \<and>
    (case status of
       Epoll_ok \<Rightarrow> registration tab' = (registration tab)(fd \<mapsto> \<lparr>ep_fd = fd, ep_events = events, ep_data = data,
         ep_active = True, ep_armed = True, ep_is_sock = is_sock, ep_sock_handle = (if is_sock then h else - 1)\<rparr>)
     | Epoll_no_space \<Rightarrow> registration tab fd = None \<and> list_all ep_active tab \<and> tab' = tab)"
  using assms by (rule epoll_table_laws)

definition no_entry :: runtime_epoll_entry where
  "no_entry = \<lparr>ep_fd = 0, ep_events = 0, ep_data = 0, ep_active = False, ep_armed = False, ep_is_sock = False,
     ep_sock_handle = 0\<rparr>"

lemma epoll_ok_empty: "epoll_ok (replicate n no_entry)"
  by (simp add: epoll_ok_def no_entry_def)

theorem epoll_table_is_a_map_witness:
  "registration (snd (runtime_epoll_table_set (replicate 64 no_entry) 5 1 9 False 0)) 5 =
     Some \<lparr>ep_fd = 5, ep_events = 1, ep_data = 9, ep_active = True, ep_armed = True, ep_is_sock = False, ep_sock_handle = - 1\<rparr>"
proof -
  obtain tab' where s: "runtime_epoll_table_set (replicate 64 no_entry) 5 1 9 False 0 = (Epoll_ok, tab')"
    by (simp add: runtime_epoll_table_set_def find_entry_def no_entry_def numeral_eq_Suc)
  from epoll_table_is_a_map [OF epoll_ok_empty s] show ?thesis by (simp add: s)
qed

section \<open>A scan reports the first ready entries\<close>

definition epoll_conditions :: "(runtime_epoll_entry \<Rightarrow> u32) \<Rightarrow> runtime_epoll_entry \<Rightarrow> u32" where
  "epoll_conditions readiness e = readiness e AND (ep_events e OR runtime_epoll_err OR runtime_epoll_hup)"

definition epoll_due :: "(runtime_epoll_entry \<Rightarrow> u32) \<Rightarrow> runtime_epoll_entry \<Rightarrow> bool" where
  "epoll_due readiness e \<longleftrightarrow> ep_active e \<and> ep_armed e \<and> epoll_conditions readiness e \<noteq> 0"

definition disarm :: "runtime_epoll_entry \<Rightarrow> runtime_epoll_entry" where
  "disarm e = (if ep_events e AND runtime_epoll_oneshot \<noteq> 0 then e\<lparr>ep_armed := False\<rparr> else e)"

lemma scan_step:
  "runtime_epoll_table_scan readiness room (e # rest) =
     (if room = 0 then ([], e # rest)
      else if epoll_due readiness e
      then case runtime_epoll_table_scan readiness (room - 1) rest of
             (reports, rest) \<Rightarrow> ((epoll_conditions readiness e, ep_data e) # reports, disarm e # rest)
      else case runtime_epoll_table_scan readiness room rest of (reports, rest) \<Rightarrow> (reports, e # rest))"
  by (simp add: epoll_due_def epoll_conditions_def disarm_def Let_def)

text \<open>
  A scan is: take the first ready registrations.  Its reports are those of the first
  \<open>room\<close> entries that are active, armed and have a wanted condition, in table order, each with the
  conditions asked for and with error and hangup; and the only change to the table is that the
  one-shot entries among them are disarmed.
\<close>

theorem epoll_scan_exact:
  "runtime_epoll_table_scan readiness room tab =
    (map (\<lambda>e. (epoll_conditions readiness e, ep_data e)) (take room (filter (epoll_due readiness) tab)),
     map (\<lambda>i. if epoll_due readiness (tab ! i) \<and> length (filter (epoll_due readiness) (take i tab)) < room
              then disarm (tab ! i) else tab ! i) [0..<length tab])"
proof (induction tab arbitrary: room)
  case (Cons e rest)
  have upt: "[0..<length (e # rest)] = 0 # map Suc [0..<length rest]" by (simp add: upt_conv_Cons map_Suc_upt del: upt_Suc)
  show ?case
  proof (cases "room = 0")
    case True
    then show ?thesis unfolding scan_step upt by (simp add: o_def map_nth)
  next
    case False
    then obtain r where r: "room = Suc r" by (cases room) auto
    show ?thesis unfolding scan_step upt Cons.IH by (auto simp: r o_def)
  qed
qed simp

end
