(* ===== verification/Deadline.thy ===== *)
theory Deadline
  imports Chryso_Prelude Errno
begin

text \<open>
  Time in the BEAM's syscall handlers: \<open>src/src/pd/beam/compat/time/runtime_deadline.h\<close>,
  \<open>compat/syscall/runtime_futex_cmd.h\<close>, \<open>io/timer/runtime_timer_slot.h\<close>,
  \<open>io/timer/runtime_timer.c\<close>, \<open>compat/time/runtime_sys_time.c\<close> and
  \<open>compat/syscall/runtime_sys_sync.c\<close>.

  The clock is the sDDF timer: each reading a handler takes is an argument of the step that takes
  it, and the timeouts it programs are a trace.  A handler that waits answers \<open>Wait\<close> with what it
  remembers; the rest of its loop is a step of its own, run when the cothread is woken.
\<close>

section \<open>Timeout arithmetic\<close>

record timespec =
  tv_sec :: u64
  tv_nsec :: u64

abbreviation (input) runtime_ns_per_sec :: u64 where "runtime_ns_per_sec \<equiv> 1000000000"
abbreviation (input) runtime_timeout_max_ns :: u64 where "runtime_timeout_max_ns \<equiv> 0x7FFFFFFFFFFFFFFF"

definition runtime_timespec_valid :: "timespec \<Rightarrow> bool" where
  "runtime_timespec_valid ts \<longleftrightarrow>
     0 \<le> sint (tv_sec ts) \<and> 0 \<le> sint (tv_nsec ts) \<and> tv_nsec ts < runtime_ns_per_sec"

definition runtime_timespec_ns :: "timespec \<Rightarrow> u64" where
  "runtime_timespec_ns ts =
     (let sec = tv_sec ts; nsec = tv_nsec ts
      in if sec > (runtime_timeout_max_ns - nsec) div runtime_ns_per_sec then runtime_timeout_max_ns
         else sec * runtime_ns_per_sec + nsec)"

definition runtime_deadline_after :: "u64 \<Rightarrow> u64 \<Rightarrow> u64" where
  "runtime_deadline_after now_ns timeout_ns =
     (let timeout_ns = (if timeout_ns > runtime_timeout_max_ns then runtime_timeout_max_ns else timeout_ns)
      in if timeout_ns > UINT64_MAX - now_ns then UINT64_MAX else now_ns + timeout_ns)"

definition runtime_timespec_is_zero :: "timespec \<Rightarrow> bool" where
  "runtime_timespec_is_zero ts \<longleftrightarrow> tv_sec ts = 0 \<and> tv_nsec ts = 0"

definition runtime_timeout_ms_ns :: "int \<Rightarrow> u64" where
  "runtime_timeout_ms_ns ms = (if ms \<le> 0 then 0 else word_of_int ms * 1000000)"

definition runtime_deadline_is_realtime :: "timespec \<Rightarrow> u64 \<Rightarrow> bool" where
  "runtime_deadline_is_realtime ts epoch_sec \<longleftrightarrow> tv_sec ts \<ge> epoch_sec"

definition runtime_realtime_to_monotonic_ns :: "u64 \<Rightarrow> u64 \<Rightarrow> u64" where
  "runtime_realtime_to_monotonic_ns realtime_ns epoch_sec =
     (let epoch_ns = (if 2 ^ 64 \<le> unat epoch_sec * unat runtime_ns_per_sec then UINT64_MAX
                      else epoch_sec * runtime_ns_per_sec)
      in if realtime_ns > epoch_ns then realtime_ns - epoch_ns else 0)"

section \<open>The timer multiplexer\<close>

text \<open>The slot afterwards, and the relative timeout when the timer has to be programmed.\<close>

definition runtime_timer_slot_update :: "u64 \<Rightarrow> u64 \<Rightarrow> u64 \<Rightarrow> u64 \<times> u64 option" where
  "runtime_timer_slot_update slot now_ns deadline_ns =
     (let deadline_ns = (if deadline_ns \<le> now_ns
                         then (if now_ns = UINT64_MAX then UINT64_MAX else now_ns + 1) else deadline_ns)
      in if slot \<noteq> 0 \<and> deadline_ns \<ge> slot then (slot, None)
         else (deadline_ns, Some (deadline_ns - now_ns)))"

record timer_state =
  tm_slot :: u64
  tm_timeouts :: "(u64 \<times> u64) list"

text \<open>A timeout programmed is recorded with the time it was programmed at.\<close>

definition beam_timer_arm :: "u64 \<Rightarrow> u64 \<Rightarrow> timer_state \<Rightarrow> timer_state" where
  "beam_timer_arm now deadline_ns s =
     (case runtime_timer_slot_update (tm_slot s) now deadline_ns of
        (slot, None) \<Rightarrow> s
      | (slot, Some relative_ns) \<Rightarrow> s\<lparr>tm_slot := slot, tm_timeouts := tm_timeouts s @ [(now, relative_ns)]\<rparr>)"

definition runtime_timer_notified :: "nat \<Rightarrow> nat \<Rightarrow> timer_state \<Rightarrow> timer_state" where
  "runtime_timer_notified driver_id ch s = (if ch = driver_id then s\<lparr>tm_slot := 0\<rparr> else s)"

section \<open>Sleeping\<close>

datatype ('a, 'w) waiting = Finished 'a | Wait 'w

definition runtime_sys_clock_getres :: "timespec option \<Rightarrow> int \<times> timespec option" where
  "runtime_sys_clock_getres res = (0, map_option (\<lambda>_. \<lparr>tv_sec = 0, tv_nsec = 1\<rparr>) res)"

abbreviation (input) CLOCK_REALTIME :: int where "CLOCK_REALTIME \<equiv> 0"

text \<open>Up to the loop: an error, or the target the loop waits for.  \<open>flags\<close> bit 0 is \<open>TIMER_ABSTIME\<close>.\<close>

definition clock_nanosleep_target :: "int \<Rightarrow> u32 \<Rightarrow> timespec option \<Rightarrow> u64 \<Rightarrow> u64 \<Rightarrow> int + u64" where
  "clock_nanosleep_target clockid flags req epoch now =
     (case req of
        None \<Rightarrow> Inl (- EFAULT)
      | Some req \<Rightarrow>
          if \<not> runtime_timespec_valid req then Inl (- EINVAL)
          else
            let absolute = bit flags 0;
                reqns = runtime_timespec_ns req;
                reqns = (if absolute \<and> clockid = CLOCK_REALTIME
                         then runtime_realtime_to_monotonic_ns reqns epoch else reqns)
            in Inr (if absolute then reqns else runtime_deadline_after now reqns))"

definition clock_nanosleep_turn :: "u64 \<Rightarrow> u64 \<Rightarrow> timer_state \<Rightarrow> (int, u64) waiting \<times> timer_state" where
  "clock_nanosleep_turn target now s =
     (if now < target then (Wait target, beam_timer_arm now target s) else (Finished 0, s))"

definition runtime_sys_clock_nanosleep ::
  "int \<Rightarrow> u32 \<Rightarrow> timespec option \<Rightarrow> u64 \<Rightarrow> u64 \<Rightarrow> u64 \<Rightarrow> timer_state \<Rightarrow> (int, u64) waiting \<times> timer_state" where
  "runtime_sys_clock_nanosleep clockid flags req epoch now now' s =
     (case clock_nanosleep_target clockid flags req epoch now of
        Inl e \<Rightarrow> (Finished e, s)
      | Inr target \<Rightarrow> clock_nanosleep_turn target now' s)"

text \<open>\<open>ret\<close> and \<open>tp\<close> are what the chained handler returned and left.\<close>

definition runtime_sys_clock_gettime :: "int option \<Rightarrow> int \<Rightarrow> timespec option \<Rightarrow> u64 \<Rightarrow> int \<times> timespec option" where
  "runtime_sys_clock_gettime previous clk_id tp epoch =
     (let ret = (case previous of Some ret \<Rightarrow> ret | None \<Rightarrow> - ENOSYS)
      in if ret \<noteq> 0 then (ret, tp)
         else (ret, case tp of
                      Some t \<Rightarrow> Some (if clk_id = CLOCK_REALTIME then t\<lparr>tv_sec := tv_sec t + epoch\<rparr> else t)
                    | None \<Rightarrow> None))"

section \<open>Futex\<close>

datatype runtime_futex_cmd = Futex_wait | Futex_wake | Futex_unsupported

definition runtime_futex_classify :: "u32 \<Rightarrow> runtime_futex_cmd" where
  "runtime_futex_classify op =
     (let cmd = op AND 0x7f
      in if cmd = 0 \<or> cmd = 9 then Futex_wait
         else if cmd = 1 \<or> cmd = 10 then Futex_wake
         else Futex_unsupported)"

definition runtime_futex_deadline :: "u32 \<Rightarrow> u64 \<Rightarrow> u64 \<Rightarrow> u64 \<Rightarrow> u64" where
  "runtime_futex_deadline op timeout_ns now_ns epoch_sec =
     (if op AND 0x7f \<noteq> 9 then runtime_deadline_after now_ns timeout_ns
      else if op AND 256 \<noteq> 0 then runtime_realtime_to_monotonic_ns timeout_ns epoch_sec
      else timeout_ns)"

text \<open>
  A turn of the wait loop: \<open>word\<close> is what the futex word holds when it is read.  The last
  component says whether the idle cothreads are woken.
\<close>

definition futex_turn :: "u32 \<Rightarrow> u64 option \<Rightarrow> u32 \<Rightarrow> u64 \<Rightarrow> timer_state \<Rightarrow> (int, u64 option) waiting \<times> timer_state" where
  "futex_turn val target word now s =
     (if word \<noteq> val then (Finished 0, s)
      else case target of
             None \<Rightarrow> (Wait None, s)
           | Some t \<Rightarrow>
               if now \<ge> t then (Finished (- ETIMEDOUT), s)
               else (Wait (Some t), beam_timer_arm now t s))"

definition runtime_sys_futex ::
  "u32 option \<Rightarrow> u32 \<Rightarrow> u32 \<Rightarrow> timespec option \<Rightarrow> u64 \<Rightarrow> u64 \<Rightarrow> u64 \<Rightarrow> timer_state \<Rightarrow>
   ((int, u64 option) waiting \<times> bool) \<times> timer_state" where
  "runtime_sys_futex uaddr op val timeout epoch now now' s =
     (case runtime_futex_classify op of
        Futex_wake \<Rightarrow> ((Finished 0, True), s)
      | Futex_unsupported \<Rightarrow> ((Finished (- ENOSYS), False), s)
      | Futex_wait \<Rightarrow>
          (case uaddr of
             None \<Rightarrow> ((Finished (- EFAULT), False), s)
           | Some word \<Rightarrow>
               if (case timeout of Some t \<Rightarrow> \<not> runtime_timespec_valid t | None \<Rightarrow> False)
               then ((Finished (- EINVAL), False), s)
               else if word \<noteq> val then ((Finished (- EAGAIN), False), s)
               else
                 let target = map_option (\<lambda>t. runtime_futex_deadline op (runtime_timespec_ns t) now epoch) timeout
                 in case futex_turn val target word now' s of (r, s) \<Rightarrow> ((r, False), s)))"

section \<open>Exact arithmetic\<close>

lemma nonneg_small: "0 \<le> sint x \<Longrightarrow> unat x < 2 ^ 63" for x :: u64
proof -
  assume a: "0 \<le> sint x"
  have b: "sint x < 2 ^ 63" using sint_less [of x] by simp
  have "uint x = sint x" using a b by (simp add: uint_sint take_bit_int_eq_self)
  then show ?thesis using b by (simp add: unat_eq_nat_uint nat_less_iff)
qed

abbreviation (input) nanoseconds :: "timespec \<Rightarrow> nat" where
  "nanoseconds ts \<equiv> unat (tv_sec ts) * 10 ^ 9 + unat (tv_nsec ts)"

lemma timespec_ns_exact:
  assumes "runtime_timespec_valid ts"
  shows "unat (runtime_timespec_ns ts) = min (nanoseconds ts) (2 ^ 63 - 1)"
proof -
  let ?s = "unat (tv_sec ts)" and ?n = "unat (tv_nsec ts)"
  have v: "?n < 10 ^ 9" using assms by (simp add: runtime_timespec_valid_def word_less_unat)
  have q: "unat ((0x7FFFFFFFFFFFFFFF - tv_nsec ts) div 1000000000) = (2 ^ 63 - 1 - ?n) div 10 ^ 9"
    using v by (simp add: unat_div unat_minus_le)
  show ?thesis
  proof (cases "?s > (2 ^ 63 - 1 - ?n) div 10 ^ 9")
    case True
    then have "2 ^ 63 - 1 - ?n < ?s * 10 ^ 9" by (simp add: div_less_iff_less_mult)
    then show ?thesis using True by (simp add: runtime_timespec_ns_def Let_def word_less_unat q)
  next
    case False
    then have le: "?s * 10 ^ 9 + ?n \<le> 2 ^ 63 - 1"
      using v by (simp add: not_less less_eq_div_iff_mult_less_eq)
    then have "unat (tv_sec ts * 1000000000 + tv_nsec ts) = ?s * 10 ^ 9 + ?n"
      by (subst unat_add_fits; subst unat_mult_fits) simp_all
    then show ?thesis using False le by (simp add: runtime_timespec_ns_def Let_def word_less_unat q)
  qed
qed

lemma deadline_after_exact:
  "unat (runtime_deadline_after now t) = min (unat now + min (unat t) (2 ^ 63 - 1)) (2 ^ 64 - 1)"
proof -
  define c where "c = (if t > 0x7FFFFFFFFFFFFFFF then 0x7FFFFFFFFFFFFFFF else t)"
  have c: "unat c = min (unat t) (2 ^ 63 - 1)" by (simp add: c_def word_less_unat)
  have r: "unat (UINT64_MAX - now) = 2 ^ 64 - 1 - unat now"
    using unat_lt [of now] by (subst unat_minus_le) simp_all
  have d: "runtime_deadline_after now t = (if c > UINT64_MAX - now then UINT64_MAX else now + c)"
    by (simp only: runtime_deadline_after_def c_def Let_def)
  have big: "c > UINT64_MAX - now \<longleftrightarrow> \<not> unat now + unat c < 2 ^ 64"
    using unat_lt [of now] unfolding word_less_unat r by (simp add: not_less) linarith
  have "unat (if c > UINT64_MAX - now then UINT64_MAX else now + c) = min (unat now + unat c) (2 ^ 64 - 1)"
  proof (cases "unat now + unat c < 2 ^ 64")
    case True
    then have "unat (now + c) = unat now + unat c" by (intro unat_add_fits) simp
    then show ?thesis using True by (simp add: big)
  next
    case False
    then show ?thesis by (simp add: big)
  qed
  then show ?thesis unfolding d c .
qed

lemma realtime_to_monotonic_exact:
  "unat (runtime_realtime_to_monotonic_ns rt epoch) = unat rt - unat epoch * 10 ^ 9"
proof (cases "unat epoch * 10 ^ 9 < 2 ^ 64")
  case True
  then have e: "unat (epoch * 1000000000) = unat epoch * 10 ^ 9" by (subst unat_mult_fits) simp_all
  show ?thesis
    using True e by (auto simp: runtime_realtime_to_monotonic_ns_def Let_def word_less_unat unat_minus_le not_less)
next
  case False
  then show ?thesis using unat_lt [of rt] by (simp add: runtime_realtime_to_monotonic_ns_def Let_def word_less_unat)
qed

text \<open>
  Timeout arithmetic never wraps.  A valid timespec is its number of nanoseconds, capped at
  the largest relative timeout; a deadline is the exact sum with the capped timeout, saturated; a
  millisecond timeout is exact for every \<open>int\<close>; and an absolute real-time deadline moves to the
  monotonic clock by exactly the epoch, or to 0 when it lies before it.
\<close>

theorem timeout_arithmetic_exact:
  assumes "runtime_timespec_valid ts" "ms < 2 ^ 31"
  shows "unat (runtime_timespec_ns ts) = min (nanoseconds ts) (2 ^ 63 - 1) \<and>
    unat (runtime_deadline_after now (runtime_timespec_ns ts)) =
      min (unat now + min (nanoseconds ts) (2 ^ 63 - 1)) (2 ^ 64 - 1) \<and>
    unat (runtime_timeout_ms_ns ms) = nat ms * 10 ^ 6 \<and>
    unat (runtime_realtime_to_monotonic_ns (runtime_timespec_ns ts) epoch) =
      min (nanoseconds ts) (2 ^ 63 - 1) - unat epoch * 10 ^ 9"
proof -
  have "unat (runtime_timeout_ms_ns ms) = nat ms * 10 ^ 6"
  proof (cases "ms \<le> 0")
    case False
    then have n: "nat ms < 2 ^ 31" using assms(2) by (simp add: nat_less_iff)
    then have "unat (word_of_int ms :: u64) = nat ms"
      using False by (simp add: unsigned_of_int take_bit_int_eq_self nat_less_iff)
    then show ?thesis using False n by (simp add: runtime_timeout_ms_ns_def) (subst unat_mult_fits; simp)
  qed (simp add: runtime_timeout_ms_ns_def)
  then show ?thesis
    by (simp add: timespec_ns_exact [OF assms(1)] deadline_after_exact realtime_to_monotonic_exact)
qed

theorem timeout_arithmetic_exact_witness:
  "unat (runtime_deadline_after 7 (runtime_timespec_ns \<lparr>tv_sec = 2, tv_nsec = 5\<rparr>)) = 2000000012 \<and>
   unat (runtime_timeout_ms_ns 30) = 30000000"
proof -
  have "runtime_timespec_valid \<lparr>tv_sec = 2, tv_nsec = 5\<rparr>" "(30 :: int) < 2 ^ 31"
    by (simp_all add: runtime_timespec_valid_def)
  from timeout_arithmetic_exact [OF this, of 7 0] show ?thesis by simp
qed

text \<open>
  The two clocks agree.  What clock_gettime tells as real time, taken as the deadline of an
  absolute real-time sleep, is the monotonic time it was read at: a sleep until a told time ends
  when the clock tells it again.
\<close>

theorem realtime_sleep_roundtrip:
  assumes "runtime_sys_clock_gettime (Some 0) CLOCK_REALTIME (Some mt) epoch = (0, Some told)"
    "tv_nsec mt < 1000000000" "(unat (tv_sec mt) + unat epoch) * 10 ^ 9 + 10 ^ 9 \<le> 2 ^ 63" "bit flags 0"
  shows "\<exists>target. clock_nanosleep_target CLOCK_REALTIME flags (Some told) epoch now = Inr target \<and>
    unat target = nanoseconds mt"
proof -
  have told: "told = mt\<lparr>tv_sec := tv_sec mt + epoch\<rparr>"
    using assms(1) by (simp add: runtime_sys_clock_gettime_def)
  have sum: "unat (tv_sec mt + epoch) = unat (tv_sec mt) + unat epoch"
    using assms(3) by (intro unat_add_fits) simp
  have n: "unat (tv_nsec mt) < 10 ^ 9" using assms(2) by (simp add: word_less_unat)
  have pos: "0 \<le> sint x" if "unat x < 2 ^ 63" for x :: u64
  proof -
    have "int (unat x) < int (2 ^ 63)" using that by (simp only: of_nat_less_iff)
    then have "uint x < 2 ^ 63" by simp
    then have "signed_take_bit 63 (uint x) = uint x"
      by (intro signed_take_bit_int_eq_self) (simp_all add: order_trans [OF _ unsigned_greater_eq])
    then show ?thesis by (simp add: sint_uint)
  qed
  have "unat (tv_sec mt) + unat epoch < 2 ^ 63" using assms(3) by simp
  then have "0 \<le> sint (tv_sec told)" using pos [of "tv_sec told"] sum by (simp add: told)
  moreover have "0 \<le> sint (tv_nsec told)" using pos [of "tv_nsec told"] n by (simp add: told)
  ultimately have v: "runtime_timespec_valid told" using assms(2) by (simp add: runtime_timespec_valid_def told)
  have "nanoseconds told = (unat (tv_sec mt) + unat epoch) * 10 ^ 9 + unat (tv_nsec mt)" by (simp add: told sum)
  then have "unat (runtime_timespec_ns told) = (unat (tv_sec mt) + unat epoch) * 10 ^ 9 + unat (tv_nsec mt)"
    using timespec_ns_exact [OF v] assms(3) n by linarith
  then have "unat (runtime_realtime_to_monotonic_ns (runtime_timespec_ns told) epoch) = nanoseconds mt"
    unfolding realtime_to_monotonic_exact by (simp add: distrib_right)
  then show ?thesis
    using v assms(4) unfolding clock_nanosleep_target_def Let_def by simp
qed

theorem realtime_sleep_roundtrip_witness:
  "\<exists>target. clock_nanosleep_target 0 1 (Some \<lparr>tv_sec = 1700000003, tv_nsec = 4\<rparr>) 1700000000 9 = Inr target \<and>
     unat target = 3000000004"
  using realtime_sleep_roundtrip [of "\<lparr>tv_sec = 3, tv_nsec = 4\<rparr>" 1700000000 "\<lparr>tv_sec = 1700000003, tv_nsec = 4\<rparr>" 1 9]
  by (simp add: runtime_sys_clock_gettime_def)

section \<open>Sleepers\<close>

text \<open>
  Every timed wait shares the one timer.  The system is the multiplexer, the time the timer will
  fire at, the clock, and the targets of the waits that are parked: a wait that finds its target
  ahead arms the timer and parks; a notification of any channel wakes all of them, and one of the
  timer's, when it fires or when a restarted driver has lost the timeout, also clears the slot.
\<close>

record sleepers =
  sl_timer :: timer_state
  sl_fires :: "u64 option"
  sl_now :: u64
  sl_parked :: "u64 list"

definition fires_at :: "timer_state \<Rightarrow> timer_state \<Rightarrow> u64 option \<Rightarrow> u64 option" where
  "fires_at before after fires =
     (if tm_timeouts after = tm_timeouts before then fires
      else case last (tm_timeouts after) of (t, rel) \<Rightarrow> Some (t + rel))"

inductive sleep_step :: "sleepers \<Rightarrow> sleepers \<Rightarrow> bool" where
  sleeps: "clock_nanosleep_turn target (sl_now s) (sl_timer s) = (Wait t, tm) \<Longrightarrow>
    sleep_step s (s\<lparr>sl_timer := tm, sl_fires := fires_at (sl_timer s) tm (sl_fires s), sl_parked := t # sl_parked s\<rparr>)"
| futex_waits: "futex_turn val (Some target) word (sl_now s) (sl_timer s) = (Wait (Some t), tm) \<Longrightarrow>
    sleep_step s (s\<lparr>sl_timer := tm, sl_fires := fires_at (sl_timer s) tm (sl_fires s), sl_parked := t # sl_parked s\<rparr>)"
| passes: "sl_now s \<le> t \<Longrightarrow> sleep_step s (s\<lparr>sl_now := t\<rparr>)"
| pulsed: "ch \<noteq> driver \<Longrightarrow> sleep_step s (s\<lparr>sl_timer := runtime_timer_notified driver ch (sl_timer s), sl_parked := []\<rparr>)"
| fired: "sleep_step s (s\<lparr>sl_timer := runtime_timer_notified driver driver (sl_timer s), sl_fires := None, sl_parked := []\<rparr>)"

definition sleepers_armed :: "sleepers \<Rightarrow> bool" where
  "sleepers_armed s \<longleftrightarrow>
     (tm_slot (sl_timer s) \<noteq> 0 \<longrightarrow> sl_fires s = Some (tm_slot (sl_timer s))) \<and>
     (\<forall>t \<in> set (sl_parked s). tm_slot (sl_timer s) \<noteq> 0 \<and> tm_slot (sl_timer s) \<le> t)"

lemma arm_keeps:
  assumes "sleepers_armed s" "sl_now s < target" "tm = beam_timer_arm (sl_now s) target (sl_timer s)"
  shows "sleepers_armed (s\<lparr>sl_timer := tm, sl_fires := fires_at (sl_timer s) tm (sl_fires s), sl_parked := target # sl_parked s\<rparr>)"
proof -
  have nz: "target \<noteq> 0" using assms(2) by auto
  have "tm = sl_timer s \<and> tm_slot (sl_timer s) \<noteq> 0 \<and> tm_slot (sl_timer s) \<le> target \<or>
      tm = (sl_timer s)\<lparr>tm_slot := target, tm_timeouts := tm_timeouts (sl_timer s) @ [(sl_now s, target - sl_now s)]\<rparr> \<and>
      (tm_slot (sl_timer s) \<noteq> 0 \<longrightarrow> target < tm_slot (sl_timer s))"
    using assms(2,3) by (auto simp: beam_timer_arm_def runtime_timer_slot_update_def Let_def not_le split: if_splits)
  then show ?thesis
    using assms(1) nz by (auto simp: sleepers_armed_def fires_at_def)
qed

lemma sleep_step_armed: "sleep_step s s' \<Longrightarrow> sleepers_armed s \<Longrightarrow> sleepers_armed s'"
proof (induction rule: sleep_step.induct)
  case (sleeps target s t tm)
  then show ?case using arm_keeps [of s target tm] by (auto simp: clock_nanosleep_turn_def split: if_splits)
next
  case (futex_waits val target word s t tm)
  then show ?case using arm_keeps [of s target tm] by (auto simp: futex_turn_def not_le split: if_splits)
qed (auto simp: sleepers_armed_def runtime_timer_notified_def)


definition two_sleepers :: sleepers where
  "two_sleepers = \<lparr>sl_timer = \<lparr>tm_slot = 40, tm_timeouts = [(10, 90), (10, 30)]\<rparr>, sl_fires = Some 40, sl_now = 10,
     sl_parked = [40, 100]\<rparr>"


end
