(* ===== verification/Sys_Poll.thy ===== *)
theory Sys_Poll
  imports Sys_Fd Epoll_Table Deadline Tcp_Socket
begin

text \<open>
  epoll, ppoll and pselect6: \<open>src/src/pd/beam/compat/poll/runtime_sys_poll.c\<close>.

  What a scan reads outside the descriptor tables is its \<open>poll_world\<close>: the console queue, the
  sockets as \<open>tcp.c\<close> keeps them, and the libc's \<open>fstat\<close> callbacks and descriptor-to-socket map.
  A call that waits is two steps, because everything may change while it is parked: the call
  itself, up to \<open>thread_io_wait\<close>, which answers \<open>Wait\<close> with what it remembers, and the rest of it
  in the world it wakes in.  Each step's world is the one after its \<open>beam_net_pump\<close>.
\<close>

abbreviation (input) epoll_max_fds :: nat where "epoll_max_fds \<equiv> 64"
abbreviation (input) epoll_instances :: nat where "epoll_instances \<equiv> 4"
abbreviation (input) runtime_fd_limit :: nat where "runtime_fd_limit \<equiv> 1024"
abbreviation (input) FD_SETSIZE :: int where "FD_SETSIZE \<equiv> 1024"

abbreviation (input) S_IFMT :: u32 where "S_IFMT \<equiv> 0xF000"
abbreviation (input) S_IFSOCK :: u32 where "S_IFSOCK \<equiv> 0xC000"
abbreviation (input) S_IFCHR :: u32 where "S_IFCHR \<equiv> 0x2000"

record epoll_instance =
  ei_epfd :: int
  ei_table :: "runtime_epoll_entry list"

definition epoll_instance_of :: "int \<Rightarrow> epoll_instance" where
  "epoll_instance_of fd = \<lparr>ei_epfd = fd, ei_table = replicate epoll_max_fds no_entry\<rparr>"

record 't poll_state = "'t fd_state" +
  ps_epolls :: "epoll_instance list"
  ps_timer :: timer_state

record poll_world =
  pw_console_readable :: bool
  pw_tcp :: tcp
  pw_tx_pool_free :: bool
  pw_socket_index :: "int \<Rightarrow> int"
  pw_libc_fstat :: "nat \<Rightarrow> (int \<Rightarrow> int \<times> u32) option"

section \<open>Instances\<close>

text \<open>The table of an instance is named by the index of its instance, as its pointer does.\<close>

definition epoll_table_of :: "('t, 'z) poll_state_scheme \<Rightarrow> int \<Rightarrow> nat option" where
  "epoll_table_of s epfd = find_index (\<lambda>p. ei_epfd p = epfd \<and> epfd \<ge> 0) (ps_epolls s)"

definition epoll_close :: "'t libc_fd \<Rightarrow> int \<Rightarrow> ('t, 'z) poll_state_scheme \<Rightarrow> int \<times> ('t, 'z) poll_state_scheme" where
  "epoll_close L fd s =
     on_libc (runtime_fd_close L fd)
       (s\<lparr>ps_epolls := map (\<lambda>p. if ei_epfd p = fd then epoll_instance_of (- 1) else p) (ps_epolls s)\<rparr>)"

definition epoll_dup3 :: "'t libc_fd \<Rightarrow> int \<Rightarrow> int \<Rightarrow> ('t, 'z) poll_state_scheme \<Rightarrow> int \<times> ('t, 'z) poll_state_scheme" where
  "epoll_dup3 L oldfd newfd s = (- EBUSY, snd (on_libc (runtime_fd_close L newfd) s))"

text \<open>An \<open>fstat\<close> callback: what it returns and the mode it stores.\<close>

fun fstat_callback :: "poll_world \<Rightarrow> fd_fstat_func \<Rightarrow> (int \<Rightarrow> int \<times> u32) option" where
  "fstat_callback w Fd_bad_fstat = Some (\<lambda>fd. (runtime_fd_bad_fstat, 0))"
| "fstat_callback w Fd_stat_fstat = Some (\<lambda>fd. (0, S_IFCHR OR 0x124))"
| "fstat_callback w Fd_ctl_fstat = Some (\<lambda>fd. (0, S_IFCHR OR 0x180))"
| "fstat_callback w Fd_pd_restart_fstat = Some (\<lambda>fd. (0, S_IFCHR OR 0x92))"
| "fstat_callback w (Libc_fstat n) = pw_libc_fstat w n"

definition fd_is_socket :: "'t libc_fd \<Rightarrow> poll_world \<Rightarrow> ('t, 'z) fd_state_scheme \<Rightarrow> int \<Rightarrow> bool" where
  "fd_is_socket L w s fd =
     (case posix_fd_entry L (fs_libc s) fd of
        None \<Rightarrow> False
      | Some e \<Rightarrow>
          (case fstat_callback w (fe_fstat e) of
             None \<Rightarrow> False
           | Some fstat \<Rightarrow> (case fstat fd of (r, st_mode) \<Rightarrow> r = 0 \<and> st_mode AND S_IFMT = S_IFSOCK)))"

definition socket_revents :: "poll_world \<Rightarrow> int \<Rightarrow> u32" where
  "socket_revents w handle =
     (let revents = 0;
          revents = (if tcp_socket_readable handle (pw_tcp w) \<noteq> 0 then revents OR runtime_epoll_in else revents);
          revents = (if tcp_socket_writable handle (pw_tx_pool_free w) (pw_tcp w)
                     then revents OR runtime_epoll_out else revents);
          revents = (if tcp_socket_hup handle (pw_tcp w) then revents OR runtime_epoll_hup else revents);
          revents = (if tcp_socket_err handle (pw_tcp w) \<noteq> 0 then revents OR runtime_epoll_err else revents)
      in revents)"

text \<open>The clock is read twice: for the deadline, and by the multiplexer.\<close>

definition arm_timeout :: "u64 \<Rightarrow> u64 \<Rightarrow> u64 \<Rightarrow> ('t, 'z) poll_state_scheme \<Rightarrow> ('t, 'z) poll_state_scheme" where
  "arm_timeout now now' timeout_ns s =
     s\<lparr>ps_timer := beam_timer_arm now' (runtime_deadline_after now timeout_ns) (ps_timer s)\<rparr>"

section \<open>epoll\<close>

definition runtime_sys_epoll_create1 :: "'t libc_fd \<Rightarrow> ('t, 'z) poll_state_scheme \<Rightarrow> int \<times> ('t, 'z) poll_state_scheme" where
  "runtime_sys_epoll_create1 L s =
     (case find_index (\<lambda>p. ei_epfd p < 0) (ps_epolls s) of
        None \<Rightarrow> (- EMFILE, s)
      | Some slot \<Rightarrow>
          (case on_libc (runtime_fd_alloc_ops L
                  (no_fd_ops\<lparr>op_read := Some Fd_eof_read, op_write := Some Fd_discard_write,
                     op_close := Some Fd_epoll_close, op_dup3 := Some Fd_epoll_dup3\<rparr>) (of_nat O_RDWR)) s of
             (fd, s) \<Rightarrow>
               (fd, if fd \<ge> 0 then s\<lparr>ps_epolls := (ps_epolls s)[slot := epoll_instance_of fd]\<rparr> else s)))"

definition on_table ::
  "nat \<Rightarrow> (runtime_epoll_entry list \<Rightarrow> 'a \<times> runtime_epoll_entry list) \<Rightarrow> ('t, 'z) poll_state_scheme \<Rightarrow> 'a \<times> ('t, 'z) poll_state_scheme" where
  "on_table i f s =
     (case f (ei_table (ps_epolls s ! i)) of
        (r, tab) \<Rightarrow> (r, s\<lparr>ps_epolls := (ps_epolls s)[i := (ps_epolls s ! i)\<lparr>ei_table := tab\<rparr>]\<rparr>))"

text \<open>The operations are 1 (ADD), 2 (DEL) and 3 (MOD); \<open>event\<close> is the events and the data.\<close>

definition runtime_sys_epoll_ctl ::
  "'t libc_fd \<Rightarrow> poll_world \<Rightarrow> int \<Rightarrow> int \<Rightarrow> int \<Rightarrow> (u32 \<times> u64) option \<Rightarrow> ('t, 'z) poll_state_scheme \<Rightarrow> int \<times> ('t, 'z) poll_state_scheme" where
  "runtime_sys_epoll_ctl L w epfd op fd event s =
     (case epoll_table_of s epfd of
        None \<Rightarrow> (- EBADF, s)
      | Some i \<Rightarrow>
          if op = 1 \<or> op = 3
          then case event of
                 None \<Rightarrow> (- EFAULT, s)
               | Some (events, data) \<Rightarrow>
                   if posix_fd_entry L (fs_libc s) fd = None then (- EBADF, s)
                   else
                     let is_sock = fd_is_socket L w s fd
                     in case on_table i (\<lambda>tab. runtime_epoll_table_set tab fd events data is_sock
                               (if is_sock then pw_socket_index w fd else - 1)) s of
                          (status, s) \<Rightarrow> (if status \<noteq> Epoll_ok then - ENOSPC else 0, s)
          else if op = 2
          then (0, snd (on_table i (\<lambda>tab. ((), runtime_epoll_table_remove tab fd)) s))
          else (0, s))"

definition epoll_readiness :: "poll_world \<Rightarrow> ('t, 'z) fd_state_scheme \<Rightarrow> runtime_epoll_entry \<Rightarrow> u32" where
  "epoll_readiness w s entry =
     (if ep_is_sock entry then socket_revents w (ep_sock_handle entry)
      else if ep_fd entry = 0 then (if pw_console_readable w then runtime_epoll_in else 0)
      else if runtime_pipe_fd_ready s (ep_fd entry) then runtime_epoll_in else 0)"

definition epoll_scan :: "poll_world \<Rightarrow> nat \<Rightarrow> int \<Rightarrow> ('t, 'z) poll_state_scheme \<Rightarrow> (u32 \<times> u64) list \<times> ('t, 'z) poll_state_scheme" where
  "epoll_scan w i maxevents s =
     on_table i (runtime_epoll_table_scan (epoll_readiness w s) (nat maxevents)) s"

text \<open>A waiting call remembers its table and how many events there is room for.\<close>

definition runtime_sys_epoll_pwait ::
  "poll_world \<Rightarrow> u64 \<Rightarrow> u64 \<Rightarrow> int \<Rightarrow> bool \<Rightarrow> int \<Rightarrow> int \<Rightarrow> ('t, 'z) poll_state_scheme \<Rightarrow>
   (int \<times> (u32 \<times> u64) list, nat \<times> int) waiting \<times> ('t, 'z) poll_state_scheme" where
  "runtime_sys_epoll_pwait w now now' epfd null maxevents timeout s =
     (if null \<or> maxevents \<le> 0 then (Finished (- EINVAL, []), s)
      else case epoll_table_of s epfd of
             None \<Rightarrow> (Finished (- EBADF, []), s)
           | Some i \<Rightarrow>
               (case epoll_scan w i maxevents s of
                  (reports, s) \<Rightarrow>
                    if reports = [] \<and> timeout \<noteq> 0
                    then (Wait (i, maxevents),
                          if timeout > 0 then arm_timeout now now' (runtime_timeout_ms_ns timeout) s else s)
                    else (Finished (int (length reports), reports), s)))"

definition epoll_pwait_woken ::
  "poll_world \<Rightarrow> nat \<times> int \<Rightarrow> ('t, 'z) poll_state_scheme \<Rightarrow> (int \<times> (u32 \<times> u64) list) \<times> ('t, 'z) poll_state_scheme" where
  "epoll_pwait_woken w waiter s =
     (case waiter of (i, maxevents) \<Rightarrow>
        case epoll_scan w i maxevents s of (reports, s) \<Rightarrow> ((int (length reports), reports), s))"

section \<open>ppoll\<close>

record pollfd =
  pf_fd :: int
  pf_events :: u16
  pf_revents :: u16

fun poll_scan ::
  "'t libc_fd \<Rightarrow> poll_world \<Rightarrow> ('t, 'z) fd_state_scheme \<Rightarrow> pollfd list \<Rightarrow> nat \<Rightarrow> int \<times> pollfd list" where
  "poll_scan L w s [] nfds = (0, [])"
| "poll_scan L w s (p # fds) 0 = (0, p # fds)"
| "poll_scan L w s (p # fds) (Suc nfds) =
     (let p = p\<lparr>pf_revents := 0\<rparr>;
          p = (if pf_fd p < 0 then p
               else if pf_fd p = 0
               then (if pf_events p AND 1 \<noteq> 0 \<and> pw_console_readable w then p\<lparr>pf_revents := 1\<rparr> else p)
               else if fd_is_socket L w s (pf_fd p)
               then (let wanted = runtime_poll_wanted_mask (scast (pf_events p))
                     in p\<lparr>pf_revents := ucast (socket_revents w (pw_socket_index w (pf_fd p)) AND wanted)\<rparr>)
               else if pf_events p AND 1 \<noteq> 0 \<and> runtime_pipe_fd_ready s (pf_fd p) then p\<lparr>pf_revents := 1\<rparr>
               else p)
      in case poll_scan L w s fds nfds of
           (ready, fds) \<Rightarrow> (if pf_revents p \<noteq> 0 then ready + 1 else ready, p # fds))"

text \<open>A null array is \<open>None\<close>; the array as the call leaves it is part of the result.\<close>

definition runtime_sys_ppoll ::
  "'t libc_fd \<Rightarrow> poll_world \<Rightarrow> u64 \<Rightarrow> u64 \<Rightarrow> pollfd list option \<Rightarrow> nat \<Rightarrow> timespec option \<Rightarrow> ('t, 'z) poll_state_scheme \<Rightarrow>
   (int \<times> pollfd list, pollfd list \<times> nat) waiting \<times> ('t, 'z) poll_state_scheme" where
  "runtime_sys_ppoll L w now now' fds nfds tmo s =
     (if fds = None \<and> nfds > 0 then (Finished (- EFAULT, []), s)
      else
        let array = (case fds of Some a \<Rightarrow> a | None \<Rightarrow> [])
        in if nfds > runtime_fd_limit then (Finished (- EINVAL, array), s)
           else if (case tmo of Some t \<Rightarrow> \<not> runtime_timespec_valid t | None \<Rightarrow> False)
           then (Finished (- EINVAL, array), s)
           else case poll_scan L w s array nfds of
                  (ready, array) \<Rightarrow>
                    let zero_timeout = (case tmo of Some t \<Rightarrow> runtime_timespec_is_zero t | None \<Rightarrow> False)
                    in if ready = 0 \<and> \<not> zero_timeout
                       then (Wait (array, nfds),
                             case tmo of Some t \<Rightarrow> arm_timeout now now' (runtime_timespec_ns t) s | None \<Rightarrow> s)
                       else (Finished (ready, array), s))"

definition ppoll_woken ::
  "'t libc_fd \<Rightarrow> poll_world \<Rightarrow> pollfd list \<times> nat \<Rightarrow> ('t, 'z) fd_state_scheme \<Rightarrow> int \<times> pollfd list" where
  "ppoll_woken L w waiter s = (case waiter of (array, nfds) \<Rightarrow> poll_scan L w s array nfds)"

section \<open>pselect6\<close>

record select_request =
  rq_read :: "int set"
  rq_write :: "int set"
  rq_watch_read :: bool
  rq_watch_write :: bool

definition select_request_of :: "int \<Rightarrow> int set option \<Rightarrow> int set option \<Rightarrow> select_request" where
  "select_request_of nfds readfds writefds =
     \<lparr>rq_read = (case readfds of Some r \<Rightarrow> if nfds > 0 then r else {} | None \<Rightarrow> {}),
      rq_write = (case writefds of Some x \<Rightarrow> if nfds > 0 then x else {} | None \<Rightarrow> {}),
      rq_watch_read = (nfds > 0 \<and> readfds \<noteq> None), rq_watch_write = (nfds > 0 \<and> writefds \<noteq> None)\<rparr>"

type_synonym select_answer = "int \<times> int set option \<times> int set option"

abbreviation (input) not_ready :: runtime_select_ready where
  "not_ready \<equiv> \<lparr>sl_read = False, sl_write = False, sl_except = False\<rparr>"

definition select_turn ::
  "'t libc_fd \<Rightarrow> poll_world \<Rightarrow> ('t, 'z) fd_state_scheme \<Rightarrow> select_request \<Rightarrow> int \<Rightarrow> select_answer \<Rightarrow> select_answer" where
  "select_turn L w s req fd answer =
     (let want_read = rq_watch_read req \<and> fd \<in> rq_read req;
          want_write = rq_watch_write req \<and> fd \<in> rq_write req
      in if \<not> want_read \<and> \<not> want_write then answer
         else
           let state =
                 (if fd = 0 then Some (not_ready\<lparr>sl_read := pw_console_readable w\<rparr>)
                  else if fd_is_socket L w s fd
                  then Some (runtime_select_from_revents (socket_revents w (pw_socket_index w fd)))
                  else if runtime_pipe_fd_ready s fd then Some (not_ready\<lparr>sl_read := True\<rparr>)
                  else None)
           in case state of
                None \<Rightarrow> answer
              | Some state \<Rightarrow>
                  (case answer of
                     (ready, readfds, writefds) \<Rightarrow>
                       (case (if want_read \<and> sl_read state
                              then (ready + 1, map_option (insert fd) readfds) else (ready, readfds)) of
                          (ready, readfds) \<Rightarrow>
                            if want_write \<and> sl_write state
                            then (ready + 1, readfds, map_option (insert fd) writefds)
                            else (ready, readfds, writefds))))"

definition select_scan ::
  "'t libc_fd \<Rightarrow> poll_world \<Rightarrow> ('t, 'z) fd_state_scheme \<Rightarrow> int \<Rightarrow> select_request \<Rightarrow>
   int set option \<Rightarrow> int set option \<Rightarrow> select_answer" where
  "select_scan L w s nfds req readfds writefds =
     fold (select_turn L w s req) (map int [0..<nat nfds])
       (0, map_option (\<lambda>_. {}) readfds, map_option (\<lambda>_. {}) writefds)"

text \<open>The result, the three sets as the call leaves them, or what it waits with.\<close>

type_synonym select_result = "int \<times> int set option \<times> int set option \<times> int set option"

definition runtime_sys_pselect6 ::
  "'t libc_fd \<Rightarrow> poll_world \<Rightarrow> u64 \<Rightarrow> u64 \<Rightarrow> int \<Rightarrow> int set option \<Rightarrow> int set option \<Rightarrow> int set option \<Rightarrow>
   timespec option \<Rightarrow> ('t, 'z) poll_state_scheme \<Rightarrow>
   (select_result, int \<times> select_request \<times> int set option \<times> int set option \<times> int set option) waiting \<times> ('t, 'z) poll_state_scheme" where
  "runtime_sys_pselect6 L w now now' nfds readfds writefds exceptfds timeout s =
     (if \<not> runtime_select_nfds_valid nfds FD_SETSIZE
      then (Finished (- EINVAL, readfds, writefds, exceptfds), s)
      else if (case timeout of Some t \<Rightarrow> \<not> runtime_timespec_valid t | None \<Rightarrow> False)
      then (Finished (- EINVAL, readfds, writefds, exceptfds), s)
      else
        let req = select_request_of nfds readfds writefds;
            zero_timeout = (case timeout of Some t \<Rightarrow> runtime_timespec_is_zero t | None \<Rightarrow> False)
        in case select_scan L w s nfds req readfds writefds of
             (ready, readfds, writefds) \<Rightarrow>
               if ready = 0 \<and> \<not> zero_timeout
               then (Wait (nfds, req, readfds, writefds, exceptfds),
                     case timeout of Some t \<Rightarrow> arm_timeout now now' (runtime_timespec_ns t) s | None \<Rightarrow> s)
               else (Finished (ready, readfds, writefds, map_option (\<lambda>_. {}) exceptfds), s))"

definition pselect6_woken ::
  "'t libc_fd \<Rightarrow> poll_world \<Rightarrow> int \<times> select_request \<times> int set option \<times> int set option \<times> int set option \<Rightarrow>
   ('t, 'z) fd_state_scheme \<Rightarrow> select_result" where
  "pselect6_woken L w waiter s =
     (case waiter of (nfds, req, readfds, writefds, exceptfds) \<Rightarrow>
        case select_scan L w s nfds req readfds writefds of
          (ready, readfds, writefds) \<Rightarrow> (ready, readfds, writefds, map_option (\<lambda>_. {}) exceptfds))"

end
