(* ===== verification/Ctl_Device.thy ===== *)
theory Ctl_Device
  imports Abi Errno
begin

text \<open>
  The control and status devices' decisions: \<open>src/src/pd/beam/control/runtime_ctl_device.{h,c}\<close>,
  with the \<open>CtlCommand\<close> and \<open>CtlReply\<close> records of \<open>src/interfaces/orchestrator_abi.zig\<close> and the
  rules of \<open>src/tools/abi/checks.zig\<close> the generated checkers follow.

  A caller's buffer is its bytes, or \<open>None\<close> when it is null; what a function stores through a
  pointer is an \<open>option\<close> in its result.  The phase has the four values of the enumeration, so the
  guard against a fifth is always passed.
\<close>

section \<open>Records\<close>

abbreviation (input) chryso_magic_command :: u64 where "chryso_magic_command \<equiv> 0x31444D4359524843"
abbreviation (input) chryso_magic_reply :: u64 where "chryso_magic_reply \<equiv> 0x3150455259524843"
abbreviation (input) ctl_record_size :: nat where "ctl_record_size \<equiv> 64"
abbreviation (input) runtime_ctl_words :: nat where "runtime_ctl_words \<equiv> 4"

definition load_u16le :: "u8 list \<Rightarrow> nat \<Rightarrow> u16" where
  "load_u16le bs at = ucast (bs ! at) OR push_bit 8 (ucast (bs ! (at + 1)))"

record chryso_ctl_command =
  cc_magic :: u64
  cc_version :: u16
  cc_opcode :: u16
  cc_reserved0 :: u32
  cc_args :: "u64 list"
  cc_reserved :: "u8 list"

record chryso_ctl_reply =
  cr_magic :: u64
  cr_version :: u16
  cr_result :: u16
  cr_reserved0 :: u32
  cr_values :: "u64 list"
  cr_reserved :: "u8 list"

definition ctl_reply_zero :: chryso_ctl_reply where
  "ctl_reply_zero = \<lparr>cr_magic = 0, cr_version = 0, cr_result = 0, cr_reserved0 = 0,
     cr_values = replicate runtime_ctl_words 0, cr_reserved = replicate 16 0\<rparr>"

text \<open>Copying a record in from memory, and out to it.\<close>

definition load_ctl_command :: "u8 list \<Rightarrow> chryso_ctl_command" where
  "load_ctl_command bs =
     \<lparr>cc_magic = load_u64le bs 0, cc_version = load_u16le bs 8, cc_opcode = load_u16le bs 10,
      cc_reserved0 = load_u32le bs 12, cc_args = map (\<lambda>i. load_u64le bs (16 + 8 * i)) [0..<runtime_ctl_words],
      cc_reserved = take 16 (drop 48 bs)\<rparr>"

definition ctl_reply_bytes :: "chryso_ctl_reply \<Rightarrow> u8 list" where
  "ctl_reply_bytes r =
     le_bytes 8 (cr_magic r) @ le_bytes 2 (cr_version r) @ le_bytes 2 (cr_result r) @ le_bytes 4 (cr_reserved0 r) @
     concat (map (le_bytes 8) (cr_values r)) @ cr_reserved r"

definition chryso_pp_opcode_is_member :: "u16 \<Rightarrow> bool" where
  "chryso_pp_opcode_is_member v \<longleftrightarrow> v \<le> 7"

definition chryso_ctl_result_is_member :: "u16 \<Rightarrow> bool" where
  "chryso_ctl_result_is_member v \<longleftrightarrow> v \<le> 9"

definition ctl_rules :: "u64 \<Rightarrow> (u16 \<Rightarrow> bool) \<Rightarrow> u8 list \<Rightarrow> (abi_reject \<times> bool) list" where
  "ctl_rules magic is_member bs =
     [(Abi_magic, load_u64le bs 0 = magic),
      (Abi_version, load_u16le bs 8 = ucast chryso_abi_version),
      (Abi_reserved, zero_span bs 12 4),
      (Abi_reserved, zero_span bs 48 16),
      (Abi_unknown_kind, load_u16le bs 10 \<noteq> 0 \<and> is_member (load_u16le bs 10))]"

definition chryso_check_ctl_command :: "u8 list \<Rightarrow> abi_reject" where
  "chryso_check_ctl_command bs =
     (if length bs \<noteq> ctl_record_size then Abi_size
      else first_violation (ctl_rules chryso_magic_command chryso_pp_opcode_is_member bs))"

definition chryso_check_ctl_reply :: "u8 list \<Rightarrow> abi_reject" where
  "chryso_check_ctl_reply bs =
     (if length bs \<noteq> ctl_record_size then Abi_size
      else first_violation (ctl_rules chryso_magic_reply chryso_ctl_result_is_member bs))"

section \<open>The command owner\<close>

datatype runtime_ctl_phase = Ctl_closed | Ctl_idle | Ctl_calling | Ctl_reply_ready

datatype runtime_ctl_status =
    Ctls_ok | Ctls_busy | Ctls_size | Ctls_malformed | Ctls_no_reply | Ctls_unavailable | Ctls_not_owner | Ctls_out_of_order

record runtime_ctl_owner =
  ow_phase :: runtime_ctl_phase
  ow_fd :: int
  ow_reply :: chryso_ctl_reply

record runtime_ctl_call =
  ca_opcode :: u16
  ca_args :: "u64 list"

definition ctl_owner_zero :: runtime_ctl_owner where
  "ctl_owner_zero = \<lparr>ow_phase = Ctl_closed, ow_fd = 0, ow_reply = ctl_reply_zero\<rparr>"

datatype ctl_event = Event_open | Event_write | Event_reply | Event_read | Event_close

fun gate :: "runtime_ctl_phase \<Rightarrow> ctl_event \<Rightarrow> runtime_ctl_status" where
  "gate Ctl_closed Event_open = Ctls_ok"
| "gate Ctl_closed Event_write = Ctls_not_owner"
| "gate Ctl_closed Event_reply = Ctls_not_owner"
| "gate Ctl_closed Event_read = Ctls_not_owner"
| "gate Ctl_closed Event_close = Ctls_not_owner"
| "gate Ctl_idle Event_open = Ctls_busy"
| "gate Ctl_idle Event_write = Ctls_ok"
| "gate Ctl_idle Event_reply = Ctls_out_of_order"
| "gate Ctl_idle Event_read = Ctls_no_reply"
| "gate Ctl_idle Event_close = Ctls_ok"
| "gate Ctl_calling Event_open = Ctls_busy"
| "gate Ctl_calling Event_write = Ctls_busy"
| "gate Ctl_calling Event_reply = Ctls_ok"
| "gate Ctl_calling Event_read = Ctls_busy"
| "gate Ctl_calling Event_close = Ctls_ok"
| "gate Ctl_reply_ready Event_open = Ctls_busy"
| "gate Ctl_reply_ready Event_write = Ctls_busy"
| "gate Ctl_reply_ready Event_reply = Ctls_out_of_order"
| "gate Ctl_reply_ready Event_read = Ctls_ok"
| "gate Ctl_reply_ready Event_close = Ctls_ok"

definition admit :: "runtime_ctl_owner \<Rightarrow> int \<Rightarrow> ctl_event \<Rightarrow> runtime_ctl_status" where
  "admit owner fd ev =
     (if ow_phase owner \<noteq> Ctl_closed \<and> ev \<noteq> Event_open \<and> ow_fd owner \<noteq> fd then Ctls_not_owner
      else gate (ow_phase owner) ev)"

definition runtime_ctl_open :: "int \<Rightarrow> runtime_ctl_owner \<Rightarrow> runtime_ctl_status \<times> runtime_ctl_owner" where
  "runtime_ctl_open fd owner =
     (let admitted = admit owner fd Event_open
      in if admitted \<noteq> Ctls_ok then (admitted, owner)
         else (Ctls_ok, ctl_owner_zero\<lparr>ow_phase := Ctl_idle, ow_fd := fd\<rparr>))"

definition runtime_ctl_write ::
  "int \<Rightarrow> u8 list option \<Rightarrow> nat \<Rightarrow> runtime_ctl_owner \<Rightarrow> (runtime_ctl_status \<times> runtime_ctl_call option) \<times> runtime_ctl_owner" where
  "runtime_ctl_write fd buf count owner =
     (let admitted = admit owner fd Event_write
      in if admitted \<noteq> Ctls_ok then ((admitted, None), owner)
         else case buf of
                None \<Rightarrow> ((Ctls_size, None), owner)
              | Some bs \<Rightarrow>
                  if count \<noteq> ctl_record_size then ((Ctls_size, None), owner)
                  else if chryso_check_ctl_command (take count bs) \<noteq> Abi_ok then ((Ctls_malformed, None), owner)
                  else
                    let command = load_ctl_command bs
                    in ((Ctls_ok, Some \<lparr>ca_opcode = cc_opcode command, ca_args = cc_args command\<rparr>),
                        owner\<lparr>ow_phase := Ctl_calling\<rparr>))"

definition reply_frame_valid :: "u64 \<Rightarrow> u64 \<Rightarrow> bool" where
  "reply_frame_valid label count \<longleftrightarrow>
     count = of_nat runtime_ctl_words \<and> label \<noteq> 0 \<and> label \<le> 0xFFFF \<and> chryso_ctl_result_is_member (ucast label)"

definition runtime_ctl_reply ::
  "int \<Rightarrow> u64 \<Rightarrow> u64 \<Rightarrow> u64 list \<Rightarrow> runtime_ctl_owner \<Rightarrow> runtime_ctl_status \<times> runtime_ctl_owner" where
  "runtime_ctl_reply fd label count values owner =
     (let admitted = admit owner fd Event_reply
      in if admitted \<noteq> Ctls_ok then (admitted, owner)
         else if \<not> reply_frame_valid label count then (Ctls_unavailable, owner\<lparr>ow_phase := Ctl_idle\<rparr>)
         else (Ctls_ok, owner\<lparr>ow_reply := ctl_reply_zero\<lparr>cr_magic := chryso_magic_reply,
                 cr_version := ucast chryso_abi_version, cr_result := ucast label, cr_values := values\<rparr>,
               ow_phase := Ctl_reply_ready\<rparr>))"

text \<open>A null buffer is \<open>False\<close>.\<close>

definition runtime_ctl_read ::
  "int \<Rightarrow> bool \<Rightarrow> nat \<Rightarrow> runtime_ctl_owner \<Rightarrow> (runtime_ctl_status \<times> u8 list option) \<times> runtime_ctl_owner" where
  "runtime_ctl_read fd buf count owner =
     (let admitted = admit owner fd Event_read
      in if admitted \<noteq> Ctls_ok then ((admitted, None), owner)
         else if \<not> buf \<or> count \<noteq> ctl_record_size then ((Ctls_size, None), owner)
         else ((Ctls_ok, Some (ctl_reply_bytes (ow_reply owner))),
               owner\<lparr>ow_reply := ctl_reply_zero, ow_phase := Ctl_idle\<rparr>))"

definition runtime_ctl_close :: "int \<Rightarrow> runtime_ctl_owner \<Rightarrow> runtime_ctl_status \<times> runtime_ctl_owner" where
  "runtime_ctl_close fd owner =
     (let admitted = admit owner fd Event_close
      in if admitted \<noteq> Ctls_ok then (admitted, owner) else (Ctls_ok, ctl_owner_zero))"

datatype runtime_stat_step = Stat_copy | Stat_eof | Stat_short

definition runtime_stat_read_decide :: "nat \<Rightarrow> u64 \<Rightarrow> nat \<Rightarrow> runtime_stat_step" where
  "runtime_stat_read_decide count position page_size =
     (if position \<noteq> 0 then Stat_eof else if count < page_size then Stat_short else Stat_copy)"

section \<open>The reply on the wire\<close>

lemma load_le64: "load_u64le (pre @ le_bytes 8 v @ post) (length pre) = v"
proof -
  have w: "le_bytes 8 v = store_u64le (replicate 8 0) 0 v" by (simp add: store_u64le_def write_list_eq)
  have "load_u64le (le_bytes 8 v) 0 = v" unfolding w by (rule load_store_u64le) simp
  then show ?thesis
    using le64.load_append_right [of pre "le_bytes 8 v @ post" 0] le64.load_append_left [of 0 "le_bytes 8 v" post] by simp
qed

lemma load_le16: "load_u16le (pre @ le_bytes 2 v @ post) (length pre) = v" for v :: u16
proof -
  have "ucast (ucast v :: u8) OR push_bit 8 (ucast (ucast (drop_bit 8 v) :: u8)) = v"
  proof (rule bit_word_eqI)
    fix n assume "n < LENGTH(16)"
    then have "n < 8 \<or> (8 \<le> n \<and> n < 16)" by auto
    then show "bit ((ucast (ucast v :: u8) :: u16) OR push_bit 8 (ucast (ucast (drop_bit 8 v) :: u8))) n = bit v n"
      by (elim disjE) (auto simp: bit_simps)
  qed
  then show ?thesis by (simp add: load_u16le_def nth_append nth_le_bytes)
qed

lemma load_words:
  "i < length vs \<Longrightarrow> load_u64le (pre @ concat (map (le_bytes 8) vs) @ post) (length pre + 8 * i) = vs ! i" for vs :: "u64 list"
proof (induction vs arbitrary: pre i)
  case (Cons v vs)
  show ?case
  proof (cases i)
    case 0
    then show ?thesis using load_le64 [of pre v "concat (map (le_bytes 8) vs) @ post"] by simp
  next
    case (Suc j)
    then show ?thesis using Cons.IH [of j "pre @ le_bytes 8 v"] Cons.prems by (simp add: add.assoc)
  qed
qed simp

text \<open>What \<open>runtime_ctl_reply\<close> stores.\<close>

definition ctl_answer :: "u64 \<Rightarrow> u64 list \<Rightarrow> chryso_ctl_reply" where
  "ctl_answer label values = ctl_reply_zero\<lparr>cr_magic := chryso_magic_reply, cr_version := 1, cr_result := ucast label,
     cr_values := values\<rparr>"

lemma answer_bytes:
  fixes label :: u64
  assumes "length values = 4"
  defines "bs \<equiv> ctl_reply_bytes (ctl_answer label values)"
  shows "length bs = 64" "load_u64le bs 0 = chryso_magic_reply" "load_u16le bs 8 = 1" "load_u16le bs 10 = ucast label"
    "zero_span bs 12 4" "zero_span bs 48 16" "map (\<lambda>i. load_u64le bs (16 + 8 * i)) [0..<4] = values"
proof -
  let ?m = "le_bytes 8 chryso_magic_reply" and ?v = "le_bytes 2 (1 :: u16)" and ?r = "le_bytes 2 (ucast label :: u16)"
    and ?z = "le_bytes 4 (0 :: u32)" and ?w = "concat (map (le_bytes 8) values)" and ?t = "replicate 16 (0 :: u8)"
  have bs: "bs = ?m @ ?v @ ?r @ ?z @ ?w @ ?t" by (simp add: bs_def ctl_reply_bytes_def ctl_answer_def ctl_reply_zero_def)
  have lw: "length (?m @ ?v @ ?r @ ?z) = 16" "length ?w = 32"
    using assms by (simp_all add: length_concat comp_def sum_list_triv)
  show "length bs = 64" using lw by (simp add: bs)
  show "load_u64le bs 0 = chryso_magic_reply" using load_le64 [of "[]" "0x3150455259524843" "?v @ ?r @ ?z @ ?w @ ?t"] by (simp add: bs)
  show "load_u16le bs 8 = 1" using load_le16 [of ?m 1 "?r @ ?z @ ?w @ ?t"] by (simp add: bs)
  show "load_u16le bs 10 = ucast label" using load_le16 [of "?m @ ?v" "ucast label" "?z @ ?w @ ?t"] by (simp add: bs)
  have z: "le_bytes 4 (0 :: u32) = replicate 4 0" by (rule nth_equalityI) (simp_all add: nth_le_bytes)
  have "take 4 (drop 12 bs) = ?z" by (simp add: bs)
  then show "zero_span bs 12 4" by (simp add: zero_span_def z list_all_iff)
  have "bs = ((?m @ ?v @ ?r @ ?z) @ ?w) @ ?t" by (simp add: bs)
  then have "take 16 (drop 48 bs) = ?t" using lw by simp
  then show "zero_span bs 48 16" by (simp add: zero_span_def list_all_iff)
  show "map (\<lambda>i. load_u64le bs (16 + 8 * i)) [0..<4] = values"
  proof (rule nth_equalityI)
    fix i assume "i < length (map (\<lambda>i. load_u64le bs (16 + 8 * i)) [0..<4])"
    then show "map (\<lambda>i. load_u64le bs (16 + 8 * i)) [0..<4] ! i = values ! i"
      using load_words [of i "values" "?m @ ?v @ ?r @ ?z" ?t] assms lw(1) by (simp add: bs)
  qed (simp add: assms)
qed

lemma answer_accepted:
  assumes "length values = 4" "label \<noteq> 0" "label \<le> 9"
  shows "chryso_check_ctl_reply (ctl_reply_bytes (ctl_answer label values)) = Abi_ok"
proof -
  have "unat label \<le> 9" "unat label \<noteq> 0" using assms(2,3) by (simp_all add: word_le_unat unat_eq_0)
  then have "unat (ucast label :: u16) = unat label" by (intro unat_ucast_down) simp
  then have "(ucast label :: u16) \<noteq> 0" "(ucast label :: u16) \<le> 9"
    using \<open>unat label \<le> 9\<close> \<open>unat label \<noteq> 0\<close> by (auto simp: word_le_unat)
  then show ?thesis
    using answer_bytes [OF assms(1), of label] by (simp add: chryso_check_ctl_reply_def ctl_rules_def chryso_ctl_result_is_member_def)
qed

section \<open>Conversations\<close>

datatype ctl_input =
    In_open int
  | In_write int "u8 list option" nat
  | In_reply int u64 u64 "u64 list"
  | In_read int bool nat
  | In_close int

text \<open>What an input that was not refused did, and for whom.\<close>

datatype ctl_moment =
    Opened int
  | Wrote int runtime_ctl_call
  | Answered int u64 "u64 list"
  | Unanswered int
  | Got int "u8 list"
  | Closed int

fun ctl_serve :: "ctl_input \<Rightarrow> runtime_ctl_owner \<Rightarrow> ctl_moment option \<times> runtime_ctl_owner" where
  "ctl_serve (In_open fd) owner =
     (case runtime_ctl_open fd owner of (st, owner) \<Rightarrow> (if st = Ctls_ok then Some (Opened fd) else None, owner))"
| "ctl_serve (In_write fd buf count) owner =
     (case runtime_ctl_write fd buf count owner of ((st, call), owner) \<Rightarrow>
        (if st = Ctls_ok then Some (Wrote fd (the call)) else None, owner))"
| "ctl_serve (In_reply fd label count values) owner =
     (case runtime_ctl_reply fd label count values owner of (st, owner) \<Rightarrow>
        (if st = Ctls_ok then Some (Answered fd label values)
         else if st = Ctls_unavailable then Some (Unanswered fd) else None, owner))"
| "ctl_serve (In_read fd buf count) owner =
     (case runtime_ctl_read fd buf count owner of ((st, out), owner) \<Rightarrow>
        (if st = Ctls_ok then Some (Got fd (the out)) else None, owner))"
| "ctl_serve (In_close fd) owner =
     (case runtime_ctl_close fd owner of (st, owner) \<Rightarrow> (if st = Ctls_ok then Some (Closed fd) else None, owner))"

fun ctl_trace :: "ctl_input list \<Rightarrow> runtime_ctl_owner \<Rightarrow> ctl_moment list" where
  "ctl_trace [] owner = []"
| "ctl_trace (i # ins) owner =
     (case ctl_serve i owner of
        (None, owner) \<Rightarrow> ctl_trace ins owner
      | (Some m, owner) \<Rightarrow> m # ctl_trace ins owner)"

text \<open>
  The language of conversations: sessions of one descriptor each, in which every command is
  answered before the next, and an answer is read once, whole, or dropped by the close.
\<close>

fun sessions :: "ctl_moment list \<Rightarrow> bool"
  and between :: "int \<Rightarrow> ctl_moment list \<Rightarrow> bool"
  and in_flight :: "int \<Rightarrow> ctl_moment list \<Rightarrow> bool"
  and unread :: "int \<Rightarrow> chryso_ctl_reply \<Rightarrow> ctl_moment list \<Rightarrow> bool" where
  "sessions [] \<longleftrightarrow> True"
| "sessions (m # ms) \<longleftrightarrow> (case m of Opened fd \<Rightarrow> between fd ms | _ \<Rightarrow> False)"
| "between fd [] \<longleftrightarrow> True"
| "between fd (m # ms) \<longleftrightarrow>
     (case m of Wrote fd' call \<Rightarrow> fd' = fd \<and> in_flight fd ms | Closed fd' \<Rightarrow> fd' = fd \<and> sessions ms | _ \<Rightarrow> False)"
| "in_flight fd [] \<longleftrightarrow> True"
| "in_flight fd (m # ms) \<longleftrightarrow>
     (case m of Answered fd' label values \<Rightarrow> fd' = fd \<and> unread fd (ctl_answer label values) ms
      | Unanswered fd' \<Rightarrow> fd' = fd \<and> between fd ms
      | Closed fd' \<Rightarrow> fd' = fd \<and> sessions ms | _ \<Rightarrow> False)"
| "unread fd reply [] \<longleftrightarrow> True"
| "unread fd reply (m # ms) \<longleftrightarrow>
     (case m of Got fd' bytes \<Rightarrow> fd' = fd \<and> bytes = ctl_reply_bytes reply \<and> between fd ms
      | Closed fd' \<Rightarrow> fd' = fd \<and> sessions ms | _ \<Rightarrow> False)"

fun converses :: "runtime_ctl_owner \<Rightarrow> ctl_moment list \<Rightarrow> bool" where
  "converses owner ms \<longleftrightarrow>
     (case ow_phase owner of
        Ctl_closed \<Rightarrow> sessions ms
      | Ctl_idle \<Rightarrow> between (ow_fd owner) ms
      | Ctl_calling \<Rightarrow> in_flight (ow_fd owner) ms
      | Ctl_reply_ready \<Rightarrow> unread (ow_fd owner) (ow_reply owner) ms)"

lemmas ctl_calls = runtime_ctl_open_def runtime_ctl_write_def runtime_ctl_reply_def runtime_ctl_read_def
  runtime_ctl_close_def admit_def Let_def

lemma ctl_refused: "ctl_serve i owner = (None, owner') \<Longrightarrow> owner' = owner"
  by (cases i; cases "ow_phase owner") (auto simp: ctl_calls split: if_splits option.splits)

lemma ctl_serve_step:
  assumes "ctl_serve i owner = (Some m, owner')" "converses owner' ms"
  shows "converses owner (m # ms)"
  using assms
  by (cases i; cases "ow_phase owner")
    (auto simp: ctl_calls ctl_owner_zero_def ctl_answer_def split: if_splits option.splits)

lemma ctl_trace_converses: "converses owner (ctl_trace ins owner)"
proof (induction ins arbitrary: owner)
  case Nil
  show ?case by (simp split: runtime_ctl_phase.split)
next
  case (Cons i ins)
  obtain r owner' where s: "ctl_serve i owner = (r, owner')" by (cases "ctl_serve i owner")
  show ?case
  proof (cases r)
    case None
    have "owner' = owner" using ctl_refused s None by simp
    then show ?thesis using Cons s None by simp
  next
    case (Some m)
    show ?thesis using ctl_serve_step [OF s [unfolded Some] Cons.IH] s Some by (simp del: converses.simps)
  qed
qed

text \<open>
  C17.  The control device holds one conversation at a time.  Whatever calls arrive, from whatever
  descriptors and in whatever order, what the device lets through is a sequence of sessions: one
  descriptor opens it and only that one acts until it closes; every command it writes is answered,
  or found unanswered, before it may write another; and an answer is read at most once, as exactly
  the record made from the label and the values of the frame that answered that command.  A
  call that is refused changes nothing.
\<close>

theorem ctl_one_conversation:
  "sessions (ctl_trace ins ctl_owner_zero) \<and>
   (case ctl_serve i owner of (None, owner') \<Rightarrow> owner' = owner | (Some m, owner') \<Rightarrow> True)"
proof
  show "sessions (ctl_trace ins ctl_owner_zero)"
    using ctl_trace_converses [of ctl_owner_zero ins] by (simp add: ctl_owner_zero_def)
  show "case ctl_serve i owner of (None, owner') \<Rightarrow> owner' = owner | (Some m, owner') \<Rightarrow> True"
    using ctl_refused [of i owner] by (auto split: prod.split option.split)
qed

end
