(* ===== verification/Control_Dev.thy ===== *)
theory Control_Dev
  imports Sys_Poll Ctl_Device Status_Reader
begin

text \<open>
  The control and status devices: \<open>src/src/pd/beam/control/runtime_control_dev.c\<close>.

  The call into Root is an argument, a function on the other side's state: it is given the opcode
  and the four message registers and answers with the label, the word count and the registers of
  Root's frame.  The status page is read as \<open>Status_Reader\<close> does, and copied out as the page it
  is.  The two static buffers are their addresses.
\<close>

abbreviation (input) O_ACCMODE :: u32 where "O_ACCMODE \<equiv> 0x200003"
abbreviation (input) stat_attempts :: nat where "stat_attempts \<equiv> 3"
abbreviation (input) status_page_size :: nat where "status_page_size \<equiv> 16384"

record 't dev_state = "'t poll_state" +
  ds_owner :: runtime_ctl_owner

record control_env =
  ce_root_status_view :: u64
  ce_status_vaddr :: u64
  ce_stat_scratch :: u64
  ce_stat_copy :: u64
  ce_microkit_pps :: u64
  ce_pp_channel :: nat

fun ctl_errno :: "runtime_ctl_status \<Rightarrow> int" where
  "ctl_errno Ctls_ok = 0"
| "ctl_errno Ctls_busy = - EBUSY"
| "ctl_errno Ctls_size = - EMSGSIZE"
| "ctl_errno Ctls_malformed = - EBADMSG"
| "ctl_errno Ctls_no_reply = - ENODATA"
| "ctl_errno Ctls_not_owner = - EBADF"
| "ctl_errno Ctls_unavailable = - EIO"
| "ctl_errno Ctls_out_of_order = - EIO"

definition stat_read ::
  "'t libc_fd \<Rightarrow> control_env \<Rightarrow> (nat \<Rightarrow> attempt_reads) \<Rightarrow> nat \<Rightarrow> int \<Rightarrow> ('t, 'z) fd_state_scheme \<Rightarrow>
   (int \<times> root_status_page option) \<times> ('t, 'z) fd_state_scheme" where
  "stat_read L env reads count fd s =
     (case posix_fd_entry L (fs_libc s) fd of
        None \<Rightarrow> ((- EBADF, None), s)
      | Some e \<Rightarrow>
          if fe_file_ptr e < 0 then ((- EBADF, None), s)
          else case runtime_stat_read_decide count (word_of_int (fe_file_ptr e)) status_page_size of
                 Stat_eof \<Rightarrow> ((0, None), s)
               | Stat_short \<Rightarrow> ((- EMSGSIZE, None), s)
               | Stat_copy \<Rightarrow>
                   if ce_root_status_view env \<noteq> ce_status_vaddr env then ((- ENODEV, None), s)
                   else case root_status_read (Some (ce_root_status_view env)) (Some (ce_stat_scratch env))
                               (Some (ce_stat_copy env)) (of_nat status_page_size) reads stat_attempts of
                          (Read_torn, _) \<Rightarrow> ((- EAGAIN, None), s)
                        | (Read_invalid, _) \<Rightarrow> ((- EIO, None), s)
                        | (Read_size, _) \<Rightarrow> ((- EIO, None), s)
                        | (Read_ok, page) \<Rightarrow>
                            ((int status_page_size, page),
                             s\<lparr>fs_libc := posix_fd_store L (fs_libc s) fd (e\<lparr>fe_file_ptr := int status_page_size\<rparr>)\<rparr>))"

definition stat_fstat :: "int \<times> u32" where
  "stat_fstat = (0, S_IFCHR OR 0x124)"

type_synonym 'r ppcall = "u16 \<Rightarrow> u64 list \<Rightarrow> 'r \<Rightarrow> (u64 \<times> u64 \<times> (nat \<Rightarrow> u64)) \<times> 'r"

definition ctl_write ::
  "'r ppcall \<Rightarrow> u8 list option \<Rightarrow> nat \<Rightarrow> int \<Rightarrow> 't dev_state \<times> 'r \<Rightarrow> int \<times> 't dev_state \<times> 'r" where
  "ctl_write ppcall data count fd = (\<lambda>(s, root).
     case runtime_ctl_write fd data count (ds_owner s) of
       ((admitted, call), owner) \<Rightarrow>
         let s = s\<lparr>ds_owner := owner\<rparr>
         in if admitted \<noteq> Ctls_ok then (ctl_errno admitted, s, root)
            else case ppcall (ca_opcode (the call)) (ca_args (the call)) root of
                   ((label, words, mr), root) \<Rightarrow>
                     let values = (if words = of_nat runtime_ctl_words then map mr [0..<runtime_ctl_words]
                                   else replicate runtime_ctl_words 0)
                     in case runtime_ctl_reply fd label words values (ds_owner s) of
                          (replied, owner) \<Rightarrow>
                            (if replied = Ctls_ok then int count else ctl_errno replied, s\<lparr>ds_owner := owner\<rparr>, root))"

definition ctl_read :: "bool \<Rightarrow> nat \<Rightarrow> int \<Rightarrow> 't dev_state \<Rightarrow> (int \<times> u8 list option) \<times> 't dev_state" where
  "ctl_read data count fd s =
     (case runtime_ctl_read fd data count (ds_owner s) of
        ((status, out), owner) \<Rightarrow>
          ((if status = Ctls_ok then int count else ctl_errno status, out), s\<lparr>ds_owner := owner\<rparr>))"

definition ctl_fstat :: "int \<times> u32" where
  "ctl_fstat = (0, S_IFCHR OR 0x180)"

definition ctl_close :: "'t libc_fd \<Rightarrow> int \<Rightarrow> 't dev_state \<Rightarrow> int \<times> 't dev_state" where
  "ctl_close L fd s = on_libc (runtime_fd_close L fd) (s\<lparr>ds_owner := snd (runtime_ctl_close fd (ds_owner s))\<rparr>)"

definition ctl_dup3 :: "'t libc_fd \<Rightarrow> int \<Rightarrow> int \<Rightarrow> ('t, 'z) fd_state_scheme \<Rightarrow> int \<times> ('t, 'z) fd_state_scheme" where
  "ctl_dup3 L oldfd newfd s = (- EBUSY, snd (on_libc (runtime_fd_close L newfd) s))"

section \<open>Opening\<close>

definition is_stat_path :: "string \<Rightarrow> bool" where
  "is_stat_path path \<longleftrightarrow> path = ''/dev/chrysostat'' \<or> path = ''dev/chrysostat''"

definition is_ctl_path :: "string \<Rightarrow> bool" where
  "is_ctl_path path \<longleftrightarrow> path = ''/dev/chrysoctl'' \<or> path = ''dev/chrysoctl''"

definition runtime_control_dev_handles_path :: "string \<Rightarrow> bool" where
  "runtime_control_dev_handles_path path \<longleftrightarrow> is_stat_path path \<or> is_ctl_path path"

definition stat_open :: "'t libc_fd \<Rightarrow> control_env \<Rightarrow> u32 \<Rightarrow> ('t, 'z) fd_state_scheme \<Rightarrow> int \<times> ('t, 'z) fd_state_scheme" where
  "stat_open L env flags s =
     (if flags AND O_ACCMODE \<noteq> of_nat O_RDONLY then (- EACCES, s)
      else if ce_root_status_view env \<noteq> ce_status_vaddr env then (- ENODEV, s)
      else on_libc (runtime_fd_alloc L (Some Fd_stat_read) None (Some Fd_stat_fstat) (of_nat O_RDONLY)) s)"

definition ctl_open :: "'t libc_fd \<Rightarrow> control_env \<Rightarrow> u32 \<Rightarrow> 't dev_state \<Rightarrow> int \<times> 't dev_state" where
  "ctl_open L env flags s =
     (if flags AND O_ACCMODE \<noteq> of_nat O_RDWR then (- EACCES, s)
      else if ce_microkit_pps env AND push_bit (ce_pp_channel env) 1 = 0 then (- ENODEV, s)
      else case on_libc (runtime_fd_alloc_ops L
                  \<lparr>op_read = Some Fd_ctl_read, op_write = Some Fd_ctl_write, op_fstat = Some Fd_ctl_fstat,
                   op_close = Some Fd_ctl_close, op_dup3 = Some Fd_ctl_dup3\<rparr> (of_nat O_RDWR)) s of
             (fd, s) \<Rightarrow>
               if fd < 0 then (fd, s)
               else case runtime_ctl_open fd (ds_owner s) of
                      (opened, owner) \<Rightarrow>
                        let s = s\<lparr>ds_owner := owner\<rparr>
                        in if opened \<noteq> Ctls_ok then (ctl_errno opened, snd (on_libc (runtime_fd_close L fd) s))
                           else (fd, s))"

definition runtime_control_dev_open ::
  "'t libc_fd \<Rightarrow> control_env \<Rightarrow> string \<Rightarrow> u32 \<Rightarrow> 't dev_state \<Rightarrow> int \<times> 't dev_state" where
  "runtime_control_dev_open L env path flags s =
     (if is_stat_path path then stat_open L env flags s
      else if is_ctl_path path then ctl_open L env flags s
      else (- ENOENT, s))"

end
