(* ===== verification/Poll_Wakeup.thy ===== *)
theory Poll_Wakeup
  imports Sys_Poll
begin

text \<open>
  What the three polling calls promise together (\<open>runtime_sys_poll.c\<close> over
  \<open>runtime_epoll_table.c\<close>, \<open>runtime_sys_fd.c\<close> and \<open>tcp.c\<close>): they report one notion of readiness, and
  a byte in a wakeup pipe reaches whoever watches it.
\<close>

section \<open>One notion of readiness\<close>

definition descriptor_ready :: "'t libc_fd \<Rightarrow> poll_world \<Rightarrow> ('t, 'z) fd_state_scheme \<Rightarrow> int \<Rightarrow> u32" where
  "descriptor_ready L w s fd =
     (if fd = 0 then (if pw_console_readable w then 1 else 0)
      else if fd_is_socket L w s fd then socket_revents w (pw_socket_index w fd)
      else if runtime_pipe_fd_ready s fd then 1
      else 0)"

definition polled :: "'t libc_fd \<Rightarrow> poll_world \<Rightarrow> ('t, 'z) fd_state_scheme \<Rightarrow> pollfd \<Rightarrow> pollfd" where
  "polled L w s p = p\<lparr>pf_revents :=
     (if pf_fd p < 0 then 0
      else ucast (descriptor_ready L w s (pf_fd p) AND runtime_poll_wanted_mask (scast (pf_events p))))\<rparr>"

lemma wanted_in: "1 AND runtime_poll_wanted_mask (scast e) = (if e AND 1 = 0 then 0 else 1)" for e :: u16
proof -
  have "bit (1 AND runtime_poll_wanted_mask (scast e)) n = bit (if e AND 1 = 0 then 0 else (1 :: u32)) n" if "n < 32" for n
    using push_bit_and [of 0 e]
    by (cases n) (auto simp: runtime_poll_wanted_mask_def bit_simps bit_numeral_rec)
  then show ?thesis by (intro bit_word_eqI) simp
qed

lemma poll_scan_polled:
  "nfds \<le> length fds \<Longrightarrow> poll_scan L w s fds nfds =
    (int (length (filter (\<lambda>p. pf_revents p \<noteq> 0) (map (polled L w s) (take nfds fds)))),
     map (polled L w s) (take nfds fds) @ drop nfds fds)"
proof (induction L w s fds nfds rule: poll_scan.induct)
  case (3 L w s p fds nfds)
  have p: "polled L w s p =
      (let p = p\<lparr>pf_revents := 0\<rparr>
       in if pf_fd p < 0 then p
          else if pf_fd p = 0 then (if pf_events p AND 1 \<noteq> 0 \<and> pw_console_readable w then p\<lparr>pf_revents := 1\<rparr> else p)
          else if fd_is_socket L w s (pf_fd p)
          then (let wanted = runtime_poll_wanted_mask (scast (pf_events p))
                in p\<lparr>pf_revents := ucast (socket_revents w (pw_socket_index w (pf_fd p)) AND wanted)\<rparr>)
          else if pf_events p AND 1 \<noteq> 0 \<and> runtime_pipe_fd_ready s (pf_fd p) then p\<lparr>pf_revents := 1\<rparr>
          else p)"
    by (simp add: polled_def descriptor_ready_def Let_def wanted_in)
  show ?case using 3 by (simp add: p [unfolded Let_def] Let_def)
qed simp_all

lemma select_console: "runtime_select_from_revents 1 = \<lparr>sl_read = True, sl_write = False, sl_except = False\<rparr>"
  "runtime_select_from_revents 0 = \<lparr>sl_read = False, sl_write = False, sl_except = False\<rparr>"
  by (simp_all add: runtime_select_from_revents_def)

definition select_wants :: "select_request \<Rightarrow> int \<Rightarrow> bool \<times> bool" where
  "select_wants req fd = (rq_watch_read req \<and> fd \<in> rq_read req, rq_watch_write req \<and> fd \<in> rq_write req)"

lemma select_turn_ready:
  "select_turn L w s req fd (n, r, x) =
     (let st = runtime_select_from_revents (descriptor_ready L w s fd);
          rd = fst (select_wants req fd) \<and> sl_read st; wr = snd (select_wants req fd) \<and> sl_write st
      in (n + of_bool rd + of_bool wr, if rd then map_option (insert fd) r else r, if wr then map_option (insert fd) x else x))"
  by (auto simp: select_turn_def select_wants_def descriptor_ready_def select_console Let_def split: option.splits)

definition select_reads ::
  "'t libc_fd \<Rightarrow> poll_world \<Rightarrow> ('t, 'z) fd_state_scheme \<Rightarrow> int \<Rightarrow> select_request \<Rightarrow> int set" where
  "select_reads L w s nfds req = {fd. 0 \<le> fd \<and> fd < nfds \<and> rq_watch_read req \<and> fd \<in> rq_read req \<and>
     sl_read (runtime_select_from_revents (descriptor_ready L w s fd))}"

definition select_writes ::
  "'t libc_fd \<Rightarrow> poll_world \<Rightarrow> ('t, 'z) fd_state_scheme \<Rightarrow> int \<Rightarrow> select_request \<Rightarrow> int set" where
  "select_writes L w s nfds req = {fd. 0 \<le> fd \<and> fd < nfds \<and> rq_watch_write req \<and> fd \<in> rq_write req \<and>
     sl_write (runtime_select_from_revents (descriptor_ready L w s fd))}"

lemma select_scan_ready:
  assumes "req = select_request_of nfds readfds writefds"
  shows "select_scan L w s nfds req readfds' writefds' =
    (int (card (select_reads L w s nfds req)) + int (card (select_writes L w s nfds req)),
     map_option (\<lambda>_. select_reads L w s nfds req) readfds', map_option (\<lambda>_. select_writes L w s nfds req) writefds')"
proof -
  let ?st = "\<lambda>fd. runtime_select_from_revents (descriptor_ready L w s fd)"
  define R W where "R = select_reads L w s nfds req" and "W = select_writes L w s nfds req"
  note R_def' = R_def [unfolded select_reads_def] and W_def' = W_def [unfolded select_writes_def]
  have below: "fold (select_turn L w s req) (map int [0..<n]) (0, map_option (\<lambda>_. {}) readfds', map_option (\<lambda>_. {}) writefds') =
    (int (card {fd \<in> R. fd < int n}) + int (card {fd \<in> W. fd < int n}),
     map_option (\<lambda>_. {fd \<in> R. fd < int n}) readfds', map_option (\<lambda>_. {fd \<in> W. fd < int n}) writefds')"
    if "n \<le> nat nfds" for n
    using that
  proof (induction n)
    case 0
    have e: "{fd \<in> R. fd < int 0} = {}" "{fd \<in> W. fd < int 0} = {}" by (auto simp: R_def' W_def')
    show ?case unfolding e by simp
  next
    case (Suc n)
    have cut: "{fd \<in> A. fd < int (Suc n)} = (if int n \<in> A then insert (int n) {fd \<in> A. fd < int n} else {fd \<in> A. fd < int n})"
      for A
    proof -
      have "fd < int (Suc n) \<longleftrightarrow> fd = int n \<or> fd < int n" for fd by auto
      then show ?thesis by auto
    qed
    have fin: "finite {fd \<in> R. fd < int n}" "finite {fd \<in> W. fd < int n}"
      by (rule finite_subset [of _ "{0..<int n}"]; auto simp: R_def' W_def')+
    have mem: "int n \<in> R \<longleftrightarrow> fst (select_wants req (int n)) \<and> sl_read (?st (int n))"
      "int n \<in> W \<longleftrightarrow> snd (select_wants req (int n)) \<and> sl_write (?st (int n))"
      using Suc.prems by (auto simp: R_def' W_def' select_wants_def)
    have "n \<le> nat nfds" using Suc.prems by simp
    note ih = Suc.IH [OF this]
    have turn: "select_turn L w s req (int n) (k, r, x) = (k + of_bool (int n \<in> R) + of_bool (int n \<in> W),
        if int n \<in> R then map_option (insert (int n)) r else r, if int n \<in> W then map_option (insert (int n)) x else x)"
      for k r x by (simp add: select_turn_ready mem Let_def)
    show ?case
      unfolding upt_Suc_append [OF le0] map_append fold_append o_apply ih list.map fold_simps turn cut
      by (auto simp: fin option.map_comp o_def)
  qed
  have all: "{fd \<in> R. fd < int (nat nfds)} = R" "{fd \<in> W. fd < int (nat nfds)} = W" by (auto simp: R_def' W_def')
  show ?thesis
    using below [OF order_refl] unfolding all unfolding select_scan_def R_def W_def .
qed

section \<open>Registrations\<close>

lemma epoll_table_of_Some:
  "epoll_table_of s epfd = Some i \<Longrightarrow> i < length (ps_epolls s) \<and> ei_epfd (ps_epolls s ! i) = epfd \<and> 0 \<le> epfd"
  by (auto simp: epoll_table_of_def dest: find_index_Some)

lemma on_table_Pair:
  "on_table i f s = (r, s') \<Longrightarrow> i < length (ps_epolls s) \<Longrightarrow>
   f (ei_table (ps_epolls s ! i)) = (r, ei_table (ps_epolls s' ! i)) \<and> map ei_epfd (ps_epolls s') = map ei_epfd (ps_epolls s) \<and>
   fs_libc s' = fs_libc s \<and> fs_pipes s' = fs_pipes s"
  by (auto simp: on_table_def map_update split: prod.splits intro!: nth_equalityI simp: nth_list_update_if)

lemma epoll_table_of_ids: "map ei_epfd (ps_epolls s') = map ei_epfd (ps_epolls s) \<Longrightarrow> epoll_table_of s' epfd = epoll_table_of s epfd"
proof -
  have g: "find_index (\<lambda>p. ei_epfd p = epfd \<and> 0 \<le> epfd) xs = find_index (\<lambda>n. n = epfd \<and> 0 \<le> epfd) (map ei_epfd xs)" for xs
    by (induction xs) auto
  show "map ei_epfd (ps_epolls s') = map ei_epfd (ps_epolls s) \<Longrightarrow> epoll_table_of s' epfd = epoll_table_of s epfd"
    by (simp add: epoll_table_of_def g)
qed

text \<open>A registration that succeeds is the one the table then holds.\<close>

lemma epoll_add_registers:
  assumes "runtime_sys_epoll_ctl L w epfd op fd (Some (events, data)) s = (0, s')" "op = 1 \<or> op = 3"
    "epoll_table_of s epfd = Some i" "epoll_ok (ei_table (ps_epolls s ! i))"
  shows "epoll_table_of s' epfd = Some i \<and> fs_libc s' = fs_libc s \<and> fs_pipes s' = fs_pipes s \<and>
    registration (ei_table (ps_epolls s' ! i)) fd = Some \<lparr>ep_fd = fd, ep_events = events, ep_data = data, ep_active = True,
      ep_armed = True, ep_is_sock = fd_is_socket L w s fd,
      ep_sock_handle = (if fd_is_socket L w s fd then pw_socket_index w fd else - 1)\<rparr>"
proof -
  let ?f = "\<lambda>tab. runtime_epoll_table_set tab fd events data (fd_is_socket L w s fd)
    (if fd_is_socket L w s fd then pw_socket_index w fd else - 1)"
  obtain status s1 where t: "on_table i ?f s = (status, s1)" by (cases "on_table i ?f s")
  have s: "status = Epoll_ok" "s' = s1"
    using assms(1-3) t by (auto simp: runtime_sys_epoll_ctl_def Let_def split: if_splits)
  have i: "i < length (ps_epolls s)" using epoll_table_of_Some [OF assms(3)] by simp
  note o = on_table_Pair [OF t i]
  show ?thesis
    using epoll_table_laws [OF assms(4) conjunct1 [OF o]] o assms(3) epoll_table_of_ids [of s1 s epfd]
    by (simp add: s)
qed

lemma fd_is_socket_cong: "fs_libc s' = fs_libc s \<Longrightarrow> fd_is_socket L w s' fd = fd_is_socket L w s fd"
  by (simp add: fd_is_socket_def)

text \<open>
  C18.  The three polling calls report one notion of readiness, \<open>descriptor_ready\<close>.  ppoll leaves
  in each entry exactly the conditions that hold among those asked for and error and hangup, and
  counts the entries with any; select leaves exactly the requested descriptors below the limit
  whose conditions make that set ready, and counts them once for each set; and a registration
  epoll accepted is later found ready under exactly those conditions, as long as the descriptor
  still is what it was.
\<close>

theorem polling_calls_agree:
  assumes "nfds \<le> length fds" "req = select_request_of limit readfds writefds"
    "runtime_sys_epoll_ctl L w epfd op fd (Some (events, data)) s = (0, s')" "op = 1 \<or> op = 3"
    "epoll_table_of s epfd = Some i" "epoll_ok (ei_table (ps_epolls s ! i))"
    "fd_is_socket L w' s' fd = fd_is_socket L w s fd" "pw_socket_index w' fd = pw_socket_index w fd"
    "fd_is_socket L w s 0 = False"
  shows "poll_scan L w s fds nfds =
      (int (length (filter (\<lambda>p. pf_revents p \<noteq> 0) (map (polled L w s) (take nfds fds)))),
       map (polled L w s) (take nfds fds) @ drop nfds fds) \<and>
    select_scan L w s limit req readfds writefds =
      (int (card (select_reads L w s limit req)) + int (card (select_writes L w s limit req)),
       map_option (\<lambda>_. select_reads L w s limit req) readfds, map_option (\<lambda>_. select_writes L w s limit req) writefds) \<and>
    (\<exists>e. registration (ei_table (ps_epolls s' ! i)) fd = Some e \<and> ep_events e = events \<and> ep_data e = data \<and> ep_armed e \<and>
       epoll_readiness w' s' e = descriptor_ready L w' s' fd)"
  using epoll_add_registers [OF assms(3-6)] assms(7-9)
  by (auto simp: poll_scan_polled [OF assms(1)] select_scan_ready [OF assms(2)] epoll_readiness_def descriptor_ready_def)

section \<open>Wakeups\<close>

lemma scan_reports: "e \<in> set tab \<Longrightarrow> epoll_due readiness e \<Longrightarrow> 0 < room \<Longrightarrow> fst (runtime_epoll_table_scan readiness room tab) \<noteq> []"
proof (induction tab)
  case (Cons x tab)
  show ?case unfolding scan_step using Cons by (auto split: prod.split)
qed simp

text \<open>A waiter on the epoll descriptor is registered, armed, for reading from the pipe.\<close>

definition epoll_watches :: "('t, 'z) poll_state_scheme \<Rightarrow> nat \<Rightarrow> int \<Rightarrow> bool" where
  "epoll_watches s i fd \<longleftrightarrow>
     (\<exists>e \<in> set (ei_table (ps_epolls s ! i)). ep_active e \<and> ep_armed e \<and> ep_fd e = fd \<and> \<not> ep_is_sock e \<and> ep_events e AND 1 \<noteq> 0)"

lemma epoll_sees:
  assumes "runtime_pipe_fd_ready s fd" "fd \<noteq> 0" "epoll_watches s i fd" "0 < maxevents" "i < length (ps_epolls s)"
  shows "fst (epoll_scan w i maxevents s) \<noteq> []"
proof -
  obtain e where e: "e \<in> set (ei_table (ps_epolls s ! i))" "ep_active e" "ep_armed e" "ep_fd e = fd" "\<not> ep_is_sock e" "ep_events e AND 1 \<noteq> 0"
    using assms(3) unfolding epoll_watches_def by blast
  have "bit (ep_events e) 0" using e(6) push_bit_and [of 0 "ep_events e"] by simp
  then have "bit (1 AND (ep_events e OR 0x008 OR 0x010)) 0" by (simp add: bit_simps)
  then have "1 AND (ep_events e OR 0x008 OR 0x010) \<noteq> 0" by auto
  then have "epoll_due (epoll_readiness w s) e"
    using e assms(1,2) by (simp add: epoll_due_def epoll_conditions_def epoll_readiness_def)
  from scan_reports [OF e(1) this, of "nat maxevents"] assms(4)
  show ?thesis by (simp add: epoll_scan_def on_table_def split: prod.split) (metis fst_conv)
qed

lemma poll_sees:
  assumes "runtime_pipe_fd_ready s fd" "0 < fd" "\<not> fd_is_socket L w s fd" "p \<in> set fds" "pf_fd p = fd" "pf_events p AND 1 \<noteq> 0"
  shows "0 < fst (poll_scan L w s fds (length fds))"
proof -
  have "pf_revents (polled L w s p) = 1"
    using assms by (simp add: polled_def descriptor_ready_def wanted_in)
  then have "polled L w s p \<in> set (filter (\<lambda>p. pf_revents p \<noteq> 0) (map (polled L w s) fds))" using assms(4) by simp
  then have "filter (\<lambda>p. pf_revents p \<noteq> 0) (map (polled L w s) fds) \<noteq> []" by (metis empty_iff empty_set)
  then show ?thesis by (simp only: poll_scan_polled [OF order_refl] take_all [OF order_refl] fst_conv) (simp only: of_nat_0_less_iff length_greater_0_conv simp_thms)
qed

lemma select_sees:
  assumes "runtime_pipe_fd_ready s fd" "0 < fd" "\<not> fd_is_socket L w s fd" "fd \<in> rd" "fd < nfds"
    "req = select_request_of nfds (Some rd) writefds"
  shows "fd \<in> select_reads L w s nfds req" "0 < fst (select_scan L w s nfds req readfds' writefds')"
proof -
  show m: "fd \<in> select_reads L w s nfds req"
    using assms by (auto simp: select_reads_def select_request_of_def descriptor_ready_def select_console)
  have "finite (select_reads L w s nfds req)" by (rule finite_subset [of _ "{0..<nfds}"]) (auto simp: select_reads_def)
  then have "0 < card (select_reads L w s nfds req)" using m by (auto simp: card_gt_0_iff)
  then show "0 < fst (select_scan L w s nfds req readfds' writefds')" by (simp add: select_scan_ready [OF assms(6)])
qed

lemma pipe_write_wakes:
  "pipe_write n w s = (r, s') \<Longrightarrow> fs_wakes s' = fs_wakes s + 1 \<and> fs_pipes s' = pipe_step (Ev_write w n) (fs_pipes s)"
  by (auto simp: pipe_write_def thread_io_wake_def split: prod.splits)

text \<open>
  C15.  A wakeup reaches every waiter.  Writing to a pipe gives the parked threads a pulse, and
  from then on, whatever else happens to the pipes short of a read from this one or a close of
  it, no call that watches its read end parks: epoll_pwait, ppoll and pselect6 return at once
  with a positive count, whatever their timeout, and a call that was already parked returns the
  same when the pulse resumes it.
\<close>

theorem wakeup_reaches_every_waiter:
  assumes "pipe_here r w i (fs_pipes s)" "0 < count" "pipe_write count w s = (status, s')"
    "pipe_permitted r w (Ev_write w count # es) (fs_pipes s)" "list_all (\<lambda>e. \<not> on_reads r e) es"
    "fs_pipes t = pipe_run es (fs_pipes s')" "0 < r" "\<not> fd_is_socket L world t r"
  shows "fs_wakes s' = fs_wakes s + 1 \<and>
    (epoll_table_of t epfd = Some j \<and> epoll_watches t j r \<and> 0 < maxevents \<longrightarrow>
       (\<exists>n reports t'. runtime_sys_epoll_pwait world now now' epfd False maxevents timeout t = (Finished (n, reports), t') \<and> 0 < n) \<and>
       0 < fst (fst (epoll_pwait_woken world (j, maxevents) t))) \<and>
    (p \<in> set fds \<and> pf_fd p = r \<and> pf_events p AND 1 \<noteq> 0 \<and> length fds \<le> runtime_fd_limit \<and> pred_option runtime_timespec_valid tmo \<longrightarrow>
       (\<exists>n fds'. runtime_sys_ppoll L world now now' (Some fds) (length fds) tmo t = (Finished (n, fds'), t) \<and> 0 < n) \<and>
       0 < fst (ppoll_woken L world (fds, length fds) t)) \<and>
    (r \<in> rd \<and> r < nfds \<and> nfds \<le> FD_SETSIZE \<and> pred_option runtime_timespec_valid tmo \<longrightarrow>
       (\<exists>n rd' wr' ex'. runtime_sys_pselect6 L world now now' nfds (Some rd) wr ex tmo t = (Finished (n, Some rd', wr', ex'), t) \<and>
          0 < n \<and> r \<in> rd') \<and>
       0 < fst (pselect6_woken L world (nfds, select_request_of nfds (Some rd) wr, rd0, wr0, ex) t))"
proof -
  note pw = pipe_write_wakes [OF assms(3)]
  have "runtime_pipe_ready (pipe_run (Ev_write w count # es) (fs_pipes s)) r"
    using wake_pipe_not_lost [OF assms(1), of "[]" count es] assms(2,4,5) by simp
  then have ready: "runtime_pipe_fd_ready t r" using pw assms(6) by (simp add: runtime_pipe_fd_ready_def)
  have ep: "(\<exists>n reports t'. runtime_sys_epoll_pwait world now now' epfd False maxevents timeout t = (Finished (n, reports), t') \<and> 0 < n) \<and>
      0 < fst (fst (epoll_pwait_woken world (j, maxevents) t))"
    if e: "epoll_table_of t epfd = Some j" "epoll_watches t j r" "0 < maxevents"
  proof -
    have "fst (epoll_scan world j maxevents t) \<noteq> []"
      using epoll_sees [OF ready] e assms(7) epoll_table_of_Some [OF e(1)] by simp
    then show ?thesis
      using e by (cases "epoll_scan world j maxevents t") (simp add: runtime_sys_epoll_pwait_def epoll_pwait_woken_def)
  qed
  have po: "(\<exists>n fds'. runtime_sys_ppoll L world now now' (Some fds) (length fds) tmo t = (Finished (n, fds'), t) \<and> 0 < n) \<and>
       0 < fst (ppoll_woken L world (fds, length fds) t)"
    if "p \<in> set fds" "pf_fd p = r" "pf_events p AND 1 \<noteq> 0" "length fds \<le> 1024" "pred_option runtime_timespec_valid tmo"
    using poll_sees [OF ready assms(7,8) that(1-3)] that(4,5)
    by (cases "poll_scan L world t fds (length fds)")
      (auto simp: runtime_sys_ppoll_def ppoll_woken_def Let_def split: option.splits)
  have se: "(\<exists>n rd' wr' ex'. runtime_sys_pselect6 L world now now' nfds (Some rd) wr ex tmo t = (Finished (n, Some rd', wr', ex'), t) \<and>
        0 < n \<and> r \<in> rd') \<and>
      0 < fst (pselect6_woken L world (nfds, select_request_of nfds (Some rd) wr, rd0, wr0, ex) t)"
    if q: "r \<in> rd" "r < nfds" "nfds \<le> 1024" "pred_option runtime_timespec_valid tmo"
  proof -
    let ?q = "select_request_of nfds (Some rd) wr"
    let ?R = "select_reads L world t nfds ?q" and ?W = "select_writes L world t nfds ?q"
    note k = select_sees [OF ready assms(7,8) q(1,2) refl [of ?q]]
    have sc: "\<exists>n. select_scan L world t nfds ?q a b = (n, map_option (\<lambda>_. ?R) a, map_option (\<lambda>_. ?W) b) \<and> 0 < n" for a b
      using k(2) [of a b] by (simp add: select_scan_ready)
    obtain n m where n: "select_scan L world t nfds ?q (Some rd) wr = (n, Some ?R, map_option (\<lambda>_. ?W) wr)" "0 < n"
      and m: "select_scan L world t nfds ?q rd0 wr0 = (m, map_option (\<lambda>_. ?R) rd0, map_option (\<lambda>_. ?W) wr0)" "0 < m"
      using sc [of "Some rd" wr] sc [of rd0 wr0] by auto
    show ?thesis
      using k(1) q(2-4) assms(7) n m
      by (auto simp: runtime_sys_pselect6_def pselect6_woken_def runtime_select_nfds_valid_def Let_def split: option.splits)
  qed
  show ?thesis using pw ep po se by blast
qed

section \<open>A pipe and an epoll descriptor\<close>

definition sample_world :: poll_world where
  "sample_world = \<lparr>pw_console_readable = False, pw_tcp = tcp_zero, pw_tx_pool_free = True,
     pw_socket_index = (\<lambda>_. - 1), pw_libc_fstat = (\<lambda>_. None)\<rparr>"

definition sample_watch :: runtime_epoll_entry where
  "sample_watch = \<lparr>ep_fd = 3, ep_events = 1, ep_data = 9, ep_active = True, ep_armed = True, ep_is_sock = False,
     ep_sock_handle = - 1\<rparr>"

definition sample_poll :: "fd_entry option list poll_state" where
  "sample_poll = \<lparr>fs_libc = replicate 3 (Some blank_entry) @
       [Some (pipe_entry Fd_pipe_read Fd_bad_write 0), Some (pipe_entry Fd_bad_read Fd_pipe_write 1), Some blank_entry],
     fs_pipes = new_pipe 3 4 # replicate 7 pipe_slot_zero, fs_wakes = 0,
     ps_epolls = \<lparr>ei_epfd = 5, ei_table = sample_watch # replicate 63 no_entry\<rparr> # replicate 3 (epoll_instance_of (- 1)),
     ps_timer = \<lparr>tm_slot = 0, tm_timeouts = []\<rparr>\<rparr>"

lemma sample_poll_pipe: "pipe_here 3 4 0 (fs_pipes sample_poll)"
proof -
  have "pipes_ok ((replicate 8 pipe_slot_zero)[0 := new_pipe 3 4])"
    by (rule pipes_ok_update [OF pipes_ok_zero])
      (auto simp: pipe_slot_ok_def is_end_def is_read_end_def is_write_end_def pipe_ends_def)
  then show ?thesis by (simp add: pipe_here_def sample_poll_def is_read_end_def is_write_end_def numeral_eq_Suc)
qed

lemma sample_poll_sockets: "\<not> fd_is_socket list_libc sample_world sample_poll fd"
  by (auto simp: fd_is_socket_def list_libc_def sample_poll_def blank_entry_def pipe_entry_def nth_append nth_Cons
      runtime_fd_bad_fstat_def split: option.splits if_splits nat.splits)

lemma sample_poll_table: "epoll_table_of sample_poll 5 = Some 0" "epoll_ok (ei_table (ps_epolls sample_poll ! 0))"
  by (simp_all add: epoll_table_of_def sample_poll_def epoll_ok_def no_entry_def nth_Cons split: nat.splits)

lemma sample_poll_watched:
  "fs_pipes t = fs_pipes s \<Longrightarrow> ps_epolls t = ps_epolls sample_poll \<Longrightarrow> epoll_watches t 0 3"
  by (simp add: epoll_watches_def sample_poll_def sample_watch_def)

theorem wakeup_reaches_every_waiter_witness:
  "0 < fst (fst (epoll_pwait_woken sample_world (0, 8) (snd (pipe_write 1 4 sample_poll))))"
proof -
  obtain status t where t: "pipe_write 1 4 sample_poll = (status, t)" by (cases "pipe_write 1 4 sample_poll")
  have f: "fs_libc t = fs_libc sample_poll" "ps_epolls t = ps_epolls sample_poll"
    using t by (auto simp: pipe_write_def thread_io_wake_def split: prod.splits)
  have "epoll_table_of t 5 = Some 0 \<and> epoll_watches t 0 3 \<and> (0 :: int) < 8"
    using sample_poll_table(1) epoll_table_of_ids [of t sample_poll 5] sample_poll_watched [OF refl f(2)] by (simp add: f)
  then show ?thesis
    using wakeup_reaches_every_waiter [of 3 4 0 sample_poll 1 status t "[]" t list_libc sample_world 5 0 8,
        OF sample_poll_pipe _ t] sample_poll_sockets fd_is_socket_cong [OF f(1)]
    unfolding t snd_conv by simp
qed

theorem polling_calls_agree_witness:
  "\<exists>e. registration (ei_table (ps_epolls (snd (runtime_sys_epoll_ctl list_libc sample_world 5 1 4 (Some (1, 7)) sample_poll)) ! 0)) 4 = Some e \<and>
     ep_data e = 7 \<and> epoll_readiness sample_world (snd (runtime_sys_epoll_ctl list_libc sample_world 5 1 4 (Some (1, 7)) sample_poll)) e =
       descriptor_ready list_libc sample_world (snd (runtime_sys_epoll_ctl list_libc sample_world 5 1 4 (Some (1, 7)) sample_poll)) 4"
proof -
  obtain r s' where s: "runtime_sys_epoll_ctl list_libc sample_world 5 1 4 (Some (1, 7)) sample_poll = (r, s')"
    by (metis prod.exhaust)
  have "fst (runtime_sys_epoll_ctl list_libc sample_world 5 1 4 (Some (1, 7)) sample_poll) = 0"
    using sample_poll_table(1)
    by (simp add: runtime_sys_epoll_ctl_def on_table_def list_libc_def sample_poll_sockets Let_def split: prod.split)
      (auto simp: sample_poll_def runtime_epoll_table_set_def find_entry_def sample_watch_def no_entry_def numeral_eq_Suc)
  then have s0: "runtime_sys_epoll_ctl list_libc sample_world 5 1 4 (Some (1, 7)) sample_poll = (0, s')" using s by simp
  have "fs_libc s' = fs_libc sample_poll"
    using epoll_add_registers [OF s0 _ sample_poll_table] by simp
  note k = fd_is_socket_cong [OF this]
  note agree = conjunct2 [OF conjunct2 [OF polling_calls_agree [OF order_refl refl s0 disjI1 [OF refl] sample_poll_table k refl]]]
  show ?thesis unfolding s0 snd_conv using agree sample_poll_sockets by blast
qed

end
