(* ===== verification/Pd_Restart.thy ===== *)
theory Pd_Restart
  imports Sys_Fd
begin

text \<open>
  The test-only driver-restart trigger: \<open>src/src/pd/beam/restart/runtime_pd_restart_parse.{h,c}\<close>
  and \<open>runtime_pd_restart.c\<close>.  A payload is its characters, and what a write notifies is a channel
  or nothing.  The channel table is an argument: each image's own is patched into the binary.
\<close>

abbreviation (input) PD_RESTART_CH_NONE :: u8 where "PD_RESTART_CH_NONE \<equiv> 0xFF"
abbreviation (input) runtime_pd_restart_mode_healthy :: nat where "runtime_pd_restart_mode_healthy \<equiv> 0"
abbreviation (input) runtime_pd_restart_mode_fault :: nat where "runtime_pd_restart_mode_fault \<equiv> 1"

section \<open>Decoding a request\<close>

definition is_trailing_space :: "char \<Rightarrow> bool" where
  "is_trailing_space c \<longleftrightarrow> c = CHR 0x0A \<or> c = CHR 0x0D \<or> c = CHR '' '' \<or> c = CHR 0x09"

fun trim_count :: "string \<Rightarrow> nat \<Rightarrow> nat" where
  "trim_count buf 0 = 0"
| "trim_count buf (Suc n) = (if is_trailing_space (buf ! n) then trim_count buf n else Suc n)"

abbreviation (input) fault_prefix :: string where "fault_prefix \<equiv> ''fault:''"

text \<open>The first class from \<open>i\<close> on whose name the payload is.\<close>

fun match_class :: "string \<Rightarrow> nat \<Rightarrow> string list \<Rightarrow> nat option" where
  "match_class buf count [] = None"
| "match_class buf count (name # names) =
     (if count = length name \<and> length name > 0 \<and> take (length name) buf = name then Some 0
      else map_option Suc (match_class buf count names))"

text \<open>The mode and the class index, or \<open>None\<close> for an unknown request.\<close>

definition runtime_pd_restart_parse :: "string \<Rightarrow> nat \<Rightarrow> string list \<Rightarrow> nat \<Rightarrow> (nat \<times> nat) option" where
  "runtime_pd_restart_parse buf count names class_count =
     (let count = trim_count buf count;
          (request_mode, buf, count) =
            (if count > length fault_prefix \<and> take (length fault_prefix) buf = fault_prefix
             then (runtime_pd_restart_mode_fault, drop (length fault_prefix) buf, count - length fault_prefix)
             else (runtime_pd_restart_mode_healthy, buf, count))
      in map_option (\<lambda>i. (request_mode, i)) (match_class buf count (take class_count names)))"

definition runtime_pd_restart_any_channel :: "nat \<Rightarrow> nat \<Rightarrow> u8 list list \<Rightarrow> u8 \<Rightarrow> bool" where
  "runtime_pd_restart_any_channel modes classes channels none =
     list_ex (\<lambda>m. list_ex (\<lambda>c. channels ! m ! c \<noteq> none) [0..<classes]) [0..<modes]"

section \<open>The device\<close>

definition pd_restart_names :: "string list" where
  "pd_restart_names = [''serial'', ''timer'', ''blk'', ''eth'']"

text \<open>The result, and the channel notified.\<close>

definition pd_restart_write :: "u8 list list \<Rightarrow> string \<Rightarrow> nat \<Rightarrow> int \<times> u8 option" where
  "pd_restart_write channels data count =
     (case runtime_pd_restart_parse data count pd_restart_names 4 of
        None \<Rightarrow> (- EINVAL, None)
      | Some (mode, class_index) \<Rightarrow>
          let ch = channels ! mode ! class_index
          in if ch = PD_RESTART_CH_NONE then (- ENODEV, None) else (int count, Some ch))"

definition pd_restart_fstat :: "int \<times> u32" where
  "pd_restart_fstat = (0, 0x2000 OR 0x92)"

definition is_pd_restart_path :: "string \<Rightarrow> bool" where
  "is_pd_restart_path path \<longleftrightarrow> path = ''/dev/pd-restart'' \<or> path = ''dev/pd-restart''"

definition runtime_pd_restart_handles_path :: "u8 list list \<Rightarrow> string \<Rightarrow> bool" where
  "runtime_pd_restart_handles_path channels path \<longleftrightarrow>
     is_pd_restart_path path \<and> runtime_pd_restart_any_channel 2 4 channels PD_RESTART_CH_NONE"

definition runtime_pd_restart_open :: "'t libc_fd \<Rightarrow> ('t, 'z) fd_state_scheme \<Rightarrow> int \<times> ('t, 'z) fd_state_scheme" where
  "runtime_pd_restart_open L =
     on_libc (runtime_fd_alloc L None (Some Fd_pd_restart_write) (Some Fd_pd_restart_fstat) (of_nat O_WRONLY))"

section \<open>Exactly the named requests\<close>

lemma trim_count_spec:
  "count \<le> length buf \<Longrightarrow> trim_count buf count \<le> count \<and>
   list_all is_trailing_space (drop (trim_count buf count) (take count buf)) \<and>
   (0 < trim_count buf count \<longrightarrow> \<not> is_trailing_space (buf ! (trim_count buf count - 1)))"
proof (induction count)
  case (Suc n)
  then show ?case by (auto simp: take_Suc_conv_app_nth)
qed simp

lemma trim_unique:
  assumes "take count buf = body @ ws" "list_all is_trailing_space ws" "body = [] \<or> \<not> is_trailing_space (List.last body)"
    "count \<le> length buf"
  shows "trim_count buf count = length body"
  using assms
proof (induction count arbitrary: ws)
  case (Suc n)
  have t: "take (Suc n) buf = take n buf @ [buf ! n]" using Suc.prems(4) by (simp add: take_Suc_conv_app_nth)
  show ?case
  proof (cases ws rule: rev_cases)
    case Nil
    then have b: "body = take n buf @ [buf ! n]" using Suc.prems(1) t by simp
    then show ?thesis using Suc.prems(3,4) by simp
  next
    case (snoc ws' c)
    then have "take n buf = body @ ws'" "c = buf ! n" using Suc.prems(1) t by simp_all
    then show ?thesis using Suc.IH [of ws'] Suc.prems snoc by simp
  qed
qed simp

lemma match_class_Some:
  "match_class buf count names = Some i \<Longrightarrow> i < length names \<and> names ! i \<noteq> [] \<and> count = length (names ! i) \<and> take count buf = names ! i"
proof (induction names arbitrary: i)
  case (Cons n names)
  then show ?case by (cases i) (auto split: if_splits)
qed simp

lemma match_class_distinct:
  "distinct names \<Longrightarrow> i < length names \<Longrightarrow> names ! i \<noteq> [] \<Longrightarrow> take count buf = names ! i \<Longrightarrow> count = length (names ! i) \<Longrightarrow>
   match_class buf count names = Some i"
proof (induction names arbitrary: i)
  case (Cons n names)
  show ?case
  proof (cases i)
    case 0
    then show ?thesis using Cons.prems by simp
  next
    case (Suc j)
    have "names ! j \<noteq> n" using Cons.prems Suc by (metis distinct.simps(2) nth_Cons_Suc nth_mem Suc_less_eq length_Cons)
    then show ?thesis using Cons.IH [of j] Cons.prems Suc by auto
  qed
qed simp

definition pd_restart_request :: "nat \<Rightarrow> nat \<Rightarrow> string" where
  "pd_restart_request mode i = (if mode = 1 then fault_prefix else []) @ pd_restart_names ! i"

lemma pd_restart_names: "distinct pd_restart_names" "length pd_restart_names = 4"
  "i < 4 \<Longrightarrow> pd_restart_names ! i \<noteq> []" "i < 4 \<Longrightarrow> length (pd_restart_names ! i) \<le> 6"
  "i < 4 \<Longrightarrow> \<not> is_trailing_space (List.last (pd_restart_names ! i))"
proof -
  have c: "i = 0 \<or> i = 1 \<or> i = 2 \<or> i = 3" if "i < 4" using that by auto
  show "distinct pd_restart_names" "length pd_restart_names = 4" by (simp_all add: pd_restart_names_def)
  show "i < 4 \<Longrightarrow> pd_restart_names ! i \<noteq> []" "i < 4 \<Longrightarrow> length (pd_restart_names ! i) \<le> 6"
    "i < 4 \<Longrightarrow> \<not> is_trailing_space (List.last (pd_restart_names ! i))"
    using c by (auto simp: pd_restart_names_def is_trailing_space_def)
qed

lemma parse_eq:
  "runtime_pd_restart_parse data count pd_restart_names 4 =
     (let c = trim_count data count
      in if c > 6 \<and> take 6 data = fault_prefix
         then map_option (\<lambda>i. (1, i)) (match_class (drop 6 data) (c - 6) pd_restart_names)
         else map_option (\<lambda>i. (0, i)) (match_class data c pd_restart_names))"
proof -
  have "length fault_prefix = 6" by simp
  then show ?thesis
    unfolding runtime_pd_restart_parse_def Let_def by (simp only: pd_restart_names(2) take_all order_refl if_distrib prod.case split: if_split) auto
qed

lemma parse_request:
  assumes "mode < 2" "i < 4" "list_all is_trailing_space ws" "data = pd_restart_request mode i @ ws"
  shows "runtime_pd_restart_parse data (length data) pd_restart_names 4 = Some (mode, i)"
proof -
  note n = pd_restart_names(3-5) [OF assms(2)]
  have l: "\<not> is_trailing_space (List.last (pd_restart_request mode i))" using n by (simp add: pd_restart_request_def)
  have t: "trim_count data (length data) = length (pd_restart_request mode i)"
    using trim_unique [of "length data" data "pd_restart_request mode i" ws] l assms(3,4) by simp
  have m: "match_class buf (length (pd_restart_names ! i)) pd_restart_names = Some i"
    if "take (length (pd_restart_names ! i)) buf = pd_restart_names ! i" for buf
    by (rule match_class_distinct) (use pd_restart_names(1,2) n(1) assms(2) that in simp_all)
  show ?thesis
  proof (cases "mode = 1")
    case True
    then have p: "take 6 data = ''fault:''" "length (pd_restart_request mode i) = 6 + length (pd_restart_names ! i)"
      "drop 6 data = pd_restart_names ! i @ ws"
      by (simp_all add: assms(4) pd_restart_request_def)
    show ?thesis unfolding parse_eq t using p n m [of "drop 6 data"] True pd_restart_names(2) by (simp add: Let_def)
  next
    case False
    then have p: "pd_restart_request mode i = pd_restart_names ! i" "mode = 0" using assms(1) by (simp_all add: pd_restart_request_def)
    then have "\<not> length (pd_restart_request mode i) > 6" using n(2) by simp
    then show ?thesis unfolding parse_eq t using p m [of data] pd_restart_names(2) by (simp add: Let_def assms(4))
  qed
qed

lemma parse_is_request:
  assumes "runtime_pd_restart_parse data (length data) pd_restart_names 4 = Some (mode, i)"
  shows "mode < 2 \<and> i < 4 \<and> (\<exists>ws. list_all is_trailing_space ws \<and> data = pd_restart_request mode i @ ws)"
proof -
  define c where "c = trim_count data (length data)"
  have c: "c \<le> length data" "list_all is_trailing_space (drop c data)" using trim_count_spec [of "length data" data] by (simp_all add: c_def)
  have "take c data = pd_restart_request mode i \<and> mode < 2 \<and> i < 4"
  proof (cases "c > 6 \<and> take 6 data = ''fault:''")
    case True
    then have m: "mode = 1" "match_class (drop 6 data) (c - 6) pd_restart_names = Some i"
      using assms by (auto simp: parse_eq c_def [symmetric] Let_def)
    note k = match_class_Some [OF m(2)]
    have "take c data = take 6 data @ take (c - 6) (drop 6 data)" using True take_add [of 6 "c - 6" data] by (metis le_add_diff_inverse less_imp_le)
    then have "take c data = fault_prefix @ pd_restart_names ! i" using True k by metis
    then show ?thesis using k m(1) pd_restart_names(2) by (simp add: pd_restart_request_def)
  next
    case False
    then have m: "mode = 0" "match_class data c pd_restart_names = Some i"
      using assms by (auto simp: parse_eq c_def [symmetric] Let_def split: if_splits)
    note k = match_class_Some [OF m(2)]
    then have "take c data = pd_restart_names ! i" by blast
    then show ?thesis using k m(1) pd_restart_names(2) by (simp add: pd_restart_request_def)
  qed
  then show ?thesis using c append_take_drop_id [of c data] by metis
qed

text \<open>
  C40.  The restart trigger acts on exactly the requests it names.  A payload decodes to a mode
  and a class if and only if it is that class's name, after ''fault:'' for a fault, followed by
  nothing but blanks; a write notifies a channel if and only if its payload is such a request
  and the image wired that channel for it, and otherwise reports an error and notifies nothing.
\<close>

theorem pd_restart_requests_exact:
  "(runtime_pd_restart_parse data (length data) pd_restart_names 4 = Some (mode, i)) =
     (mode < 2 \<and> i < 4 \<and> (\<exists>ws. list_all is_trailing_space ws \<and> data = pd_restart_request mode i @ ws)) \<and>
   (pd_restart_write channels data (length data) = (int (length data), Some ch)) =
     (\<exists>mode i ws. mode < 2 \<and> i < 4 \<and> list_all is_trailing_space ws \<and> data = pd_restart_request mode i @ ws \<and>
        channels ! mode ! i = ch \<and> ch \<noteq> PD_RESTART_CH_NONE) \<and>
   (snd (pd_restart_write channels data (length data)) = None) = (fst (pd_restart_write channels data (length data)) < 0)"
proof (intro conjI)
  have eq: "(runtime_pd_restart_parse data (length data) pd_restart_names 4 = Some (mode, i)) =
     (mode < 2 \<and> i < 4 \<and> (\<exists>ws. list_all is_trailing_space ws \<and> data = pd_restart_request mode i @ ws))" for mode i
    using parse_request parse_is_request by blast
  show "(runtime_pd_restart_parse data (length data) pd_restart_names 4 = Some (mode, i)) =
     (mode < 2 \<and> i < 4 \<and> (\<exists>ws. list_all is_trailing_space ws \<and> data = pd_restart_request mode i @ ws))" by (rule eq)
  have "(pd_restart_write channels data (length data) = (int (length data), Some ch)) =
      (\<exists>mode i. runtime_pd_restart_parse data (length data) pd_restart_names 4 = Some (mode, i) \<and>
         channels ! mode ! i = ch \<and> ch \<noteq> 0xFF)"
    by (auto simp: pd_restart_write_def Let_def split: option.split)
  then show "(pd_restart_write channels data (length data) = (int (length data), Some ch)) =
     (\<exists>mode i ws. mode < 2 \<and> i < 4 \<and> list_all is_trailing_space ws \<and> data = pd_restart_request mode i @ ws \<and>
        channels ! mode ! i = ch \<and> ch \<noteq> PD_RESTART_CH_NONE)" unfolding eq by blast
  show "(snd (pd_restart_write channels data (length data)) = None) = (fst (pd_restart_write channels data (length data)) < 0)"
    by (auto simp: pd_restart_write_def Let_def split: option.split)
qed

end
