(* ===== verification/Descriptors.thy ===== *)
theory Descriptors
  imports Control_Dev Poll_Wakeup Pd_Restart
begin

text \<open>
  All the BEAM's synthetic descriptors together: the descriptor table of the libc with the pipes
  (\<open>runtime_sys_fd.c\<close>), the epoll instances (\<open>runtime_sys_poll.c\<close>) and the control device's owner
  (\<open>runtime_control_dev.c\<close>) behind it.  A step is one call of one handler.  The libc dispatches a
  read, a write, a close or a duplication to the callback its entry names; what else it does
  touches only the entries that are its own.
\<close>

section \<open>Steps\<close>

definition libc_owned :: "fd_entry \<Rightarrow> bool" where
  "libc_owned e \<longleftrightarrow> (\<exists>a b c d f. fe_read e = Libc_read a \<and> fe_write e = Libc_write b \<and> fe_close e = Libc_close c \<and>
     fe_dup3 e = Libc_dup3 d \<and> fe_fstat e = Libc_fstat f)"

text \<open>sys_dup3 copies the entry to the free descriptor \<open>newfd\<close> before it calls the callback.\<close>

definition dup_copied :: "'t libc_fd \<Rightarrow> 't dev_state \<Rightarrow> int \<Rightarrow> int \<Rightarrow> fd_entry \<Rightarrow> 't dev_state \<Rightarrow> bool" where
  "dup_copied L s oldfd newfd e s1 \<longleftrightarrow>
     entries L s oldfd = Some e \<and> entries L s newfd = None \<and>
     (\<exists>t. s1 = s\<lparr>fs_libc := t\<rparr>) \<and> entries L s1 = (entries L s)(newfd \<mapsto> e)"

inductive fd_step :: "'t libc_fd \<Rightarrow> 'r ppcall \<Rightarrow> 't dev_state \<Rightarrow> 't dev_state \<Rightarrow> bool"
  for L :: "'t libc_fd" and ppcall :: "'r ppcall" where
  pipe2: "runtime_sys_pipe2 L null flags s = (r, s') \<Longrightarrow> fd_step L ppcall s s'"
| timerfd: "runtime_sys_timerfd_create L s = (r, s') \<Longrightarrow> fd_step L ppcall s s'"
| socketpair: "runtime_sys_socketpair L null s = (r, s') \<Longrightarrow> fd_step L ppcall s s'"
| epoll_create: "runtime_sys_epoll_create1 L s = (r, s') \<Longrightarrow> fd_step L ppcall s s'"
| epoll_ctl: "runtime_sys_epoll_ctl L w epfd op fd event s = (r, s') \<Longrightarrow> fd_step L ppcall s s'"
| epoll_wait: "runtime_sys_epoll_pwait w now now' epfd null maxevents timeout s = (r, s') \<Longrightarrow> fd_step L ppcall s s'"
| epoll_woken: "i < epoll_instances \<Longrightarrow> epoll_pwait_woken w (i, maxevents) s = (r, s') \<Longrightarrow> fd_step L ppcall s s'"
| poll: "runtime_sys_ppoll L w now now' fds nfds tmo s = (r, s') \<Longrightarrow> fd_step L ppcall s s'"
| select: "runtime_sys_pselect6 L w now now' n rd wr ex tmo s = (r, s') \<Longrightarrow> fd_step L ppcall s s'"
| control_open: "runtime_control_dev_open L env path flags s = (r, s') \<Longrightarrow> fd_step L ppcall s s'"
| restart_open: "runtime_pd_restart_open L s = (r, s') \<Longrightarrow> fd_step L ppcall s s'"
| read_pipe: "entries L s fd = Some e \<Longrightarrow> fe_read e = Fd_pipe_read \<Longrightarrow> pipe_read L count fd s = (r, s') \<Longrightarrow> fd_step L ppcall s s'"
| read_ctl: "entries L s fd = Some e \<Longrightarrow> fe_read e = Fd_ctl_read \<Longrightarrow> ctl_read data count fd s = (r, s') \<Longrightarrow> fd_step L ppcall s s'"
| read_stat: "entries L s fd = Some e \<Longrightarrow> fe_read e = Fd_stat_read \<Longrightarrow> stat_read L env reads count fd s = (r, s') \<Longrightarrow> fd_step L ppcall s s'"
| write_pipe: "entries L s fd = Some e \<Longrightarrow> fe_write e = Fd_pipe_write \<Longrightarrow> pipe_write count fd s = (r, s') \<Longrightarrow> fd_step L ppcall s s'"
| write_ctl: "entries L s fd = Some e \<Longrightarrow> fe_write e = Fd_ctl_write \<Longrightarrow> ctl_write ppcall buf count fd (s, root) = (r, s', root') \<Longrightarrow> fd_step L ppcall s s'"
| write_wake: "entries L s fd = Some e \<Longrightarrow> fe_write e = Fd_discard_write \<Longrightarrow> s' = thread_io_wake s \<Longrightarrow> fd_step L ppcall s s'"
| close_plain: "entries L s fd = Some e \<Longrightarrow> fe_close e = Fd_close \<Longrightarrow> on_libc (runtime_fd_close L fd) s = (r, s') \<Longrightarrow> fd_step L ppcall s s'"
| close_pipe: "entries L s fd = Some e \<Longrightarrow> fe_close e = Fd_pipe_close \<Longrightarrow> pipe_close L fd s = (r, s') \<Longrightarrow> fd_step L ppcall s s'"
| close_epoll: "entries L s fd = Some e \<Longrightarrow> fe_close e = Fd_epoll_close \<Longrightarrow> epoll_close L fd s = (r, s') \<Longrightarrow> fd_step L ppcall s s'"
| close_ctl: "entries L s fd = Some e \<Longrightarrow> fe_close e = Fd_ctl_close \<Longrightarrow> ctl_close L fd s = (r, s') \<Longrightarrow> fd_step L ppcall s s'"
| dup_plain: "dup_copied L s oldfd newfd e s' \<Longrightarrow> fe_dup3 e = Fd_dup3 \<Longrightarrow> fd_step L ppcall s s'"
| dup_pipe: "dup_copied L s oldfd newfd e s1 \<Longrightarrow> fe_dup3 e = Fd_pipe_dup3 \<Longrightarrow> pipe_dup3 L oldfd newfd s1 = (r, s') \<Longrightarrow> fd_step L ppcall s s'"
| dup_epoll: "dup_copied L s oldfd newfd e s1 \<Longrightarrow> fe_dup3 e = Fd_epoll_dup3 \<Longrightarrow> epoll_dup3 L oldfd newfd s1 = (r, s') \<Longrightarrow> fd_step L ppcall s s'"
| dup_ctl: "dup_copied L s oldfd newfd e s1 \<Longrightarrow> fe_dup3 e = Fd_ctl_dup3 \<Longrightarrow> ctl_dup3 L oldfd newfd s1 = (r, s') \<Longrightarrow> fd_step L ppcall s s'"
| libc: "\<forall>fd. entries L (s\<lparr>fs_libc := t\<rparr>) fd = entries L s fd \<or>
    pred_option libc_owned (entries L s fd) \<and> pred_option libc_owned (entries L (s\<lparr>fs_libc := t\<rparr>) fd) \<Longrightarrow>
    fd_step L ppcall s (s\<lparr>fs_libc := t\<rparr>)"
| timer: "fd_step L ppcall s (s\<lparr>ps_timer := tm\<rparr>)"

section \<open>Types\<close>

text \<open>The callbacks of an entry belong together.\<close>

definition entry_typed :: "fd_entry \<Rightarrow> bool" where
  "entry_typed e \<longleftrightarrow>
     (case fe_close e of
        Fd_pipe_close \<Rightarrow> fe_dup3 e = Fd_pipe_dup3 \<and> fe_fstat e = Fd_bad_fstat \<and>
          (fe_read e = Fd_pipe_read \<and> fe_write e = Fd_bad_write \<or> fe_read e = Fd_bad_read \<and> fe_write e = Fd_pipe_write)
      | Fd_epoll_close \<Rightarrow> fe_dup3 e = Fd_epoll_dup3 \<and> fe_fstat e = Fd_bad_fstat \<and> fe_read e = Fd_eof_read \<and> fe_write e = Fd_discard_write
      | Fd_ctl_close \<Rightarrow> fe_dup3 e = Fd_ctl_dup3 \<and> fe_fstat e = Fd_ctl_fstat \<and> fe_read e = Fd_ctl_read \<and> fe_write e = Fd_ctl_write
      | Fd_close \<Rightarrow> fe_dup3 e = Fd_dup3 \<and> fe_read e \<in> {Fd_bad_read, Fd_empty_read, Fd_stat_read} \<and>
          fe_write e \<in> {Fd_bad_write, Fd_discard_write, Fd_pd_restart_write}
      | Libc_close n \<Rightarrow> libc_owned e)"

type_synonym fd_table = "int \<Rightarrow> fd_entry option"

definition having :: "(fd_entry \<Rightarrow> bool) \<Rightarrow> fd_table \<Rightarrow> int set" where
  "having P m = {fd. \<exists>e. m fd = Some e \<and> P e}"

definition read_ends :: "runtime_pipe_slot list \<Rightarrow> int set" where
  "read_ends tab = {fd. \<exists>i < length tab. is_read_end fd (tab ! i)}"

definition write_ends :: "runtime_pipe_slot list \<Rightarrow> int set" where
  "write_ends tab = {fd. \<exists>i < length tab. is_write_end fd (tab ! i)}"

definition pipes_typed :: "fd_table \<Rightarrow> runtime_pipe_slot list \<Rightarrow> bool" where
  "pipes_typed m tab \<longleftrightarrow> pipes_ok tab \<and>
     read_ends tab = having (\<lambda>e. fe_read e = Fd_pipe_read) m \<and> write_ends tab = having (\<lambda>e. fe_write e = Fd_pipe_write) m"

definition epoll_ids :: "epoll_instance list \<Rightarrow> int set" where
  "epoll_ids es = {fd. 0 \<le> fd \<and> (\<exists>i < length es. ei_epfd (es ! i) = fd)}"

definition epolls_typed :: "fd_table \<Rightarrow> epoll_instance list \<Rightarrow> bool" where
  "epolls_typed m es \<longleftrightarrow> length es = epoll_instances \<and>
     (\<forall>i < length es. epoll_ok (ei_table (es ! i)) \<and> length (ei_table (es ! i)) = epoll_max_fds) \<and>
     (\<forall>i j. i < length es \<longrightarrow> j < length es \<longrightarrow> 0 \<le> ei_epfd (es ! i) \<longrightarrow> ei_epfd (es ! i) = ei_epfd (es ! j) \<longrightarrow> i = j) \<and>
     epoll_ids es = having (\<lambda>e. fe_close e = Fd_epoll_close) m"

definition ctl_typed :: "fd_table \<Rightarrow> runtime_ctl_owner \<Rightarrow> bool" where
  "ctl_typed m owner \<longleftrightarrow> ow_phase owner \<noteq> Ctl_calling \<and>
     having (\<lambda>e. fe_close e = Fd_ctl_close) m = (if ow_phase owner = Ctl_closed then {} else {ow_fd owner})"

definition descriptors_typed :: "'t libc_fd \<Rightarrow> 't dev_state \<Rightarrow> bool" where
  "descriptors_typed L s \<longleftrightarrow>
     (\<forall>fd e. entries L s fd = Some e \<longrightarrow> entry_typed e) \<and> pipes_typed (entries L s) (fs_pipes s) \<and>
     epolls_typed (entries L s) (ps_epolls s) \<and> ctl_typed (entries L s) (ds_owner s)"

section \<open>Tables that change\<close>

text \<open>An entry no device keeps state for.\<close>

definition stateless :: "fd_entry option \<Rightarrow> bool" where
  "stateless x \<longleftrightarrow> (case x of None \<Rightarrow> True
     | Some e \<Rightarrow> fe_read e \<noteq> Fd_pipe_read \<and> fe_write e \<noteq> Fd_pipe_write \<and> fe_close e \<noteq> Fd_epoll_close \<and> fe_close e \<noteq> Fd_ctl_close)"

lemma having_upd:
  "having P (m(fd := x)) = (if \<exists>e. x = Some e \<and> P e then insert fd (having P m) else having P m - {fd})"
  by (auto simp: having_def)

lemma having_same:
  assumes "\<And>fd. m' fd = m fd \<or> (stateless (m fd) \<and> stateless (m' fd))" "\<And>x. stateless (Some x) \<Longrightarrow> \<not> P x"
  shows "having P m' = having P m"
proof -
  have "(\<exists>e. m' fd = Some e \<and> P e) \<longleftrightarrow> (\<exists>e. m fd = Some e \<and> P e)" for fd
    using assms(1) [of fd] assms(2) by metis
  then show ?thesis by (simp add: having_def)
qed

text \<open>A change confined to stateless entries keeps every agreement.\<close>

lemma typed_stateless:
  assumes "\<And>fd. m' fd = m fd \<or> (stateless (m fd) \<and> stateless (m' fd))"
  shows "pipes_typed m' tab = pipes_typed m tab" "epolls_typed m' es = epolls_typed m es" "ctl_typed m' ow = ctl_typed m ow"
proof -
  have h: "having (\<lambda>e. fe_read e = Fd_pipe_read) m' = having (\<lambda>e. fe_read e = Fd_pipe_read) m"
    "having (\<lambda>e. fe_write e = Fd_pipe_write) m' = having (\<lambda>e. fe_write e = Fd_pipe_write) m"
    "having (\<lambda>e. fe_close e = Fd_epoll_close) m' = having (\<lambda>e. fe_close e = Fd_epoll_close) m"
    "having (\<lambda>e. fe_close e = Fd_ctl_close) m' = having (\<lambda>e. fe_close e = Fd_ctl_close) m"
    by (rule having_same [OF assms]; simp add: stateless_def)+
  show "pipes_typed m' tab = pipes_typed m tab" "epolls_typed m' es = epolls_typed m es" "ctl_typed m' ow = ctl_typed m ow"
    by (simp_all add: pipes_typed_def epolls_typed_def ctl_typed_def h)
qed

lemma stateless_libc: "pred_option libc_owned x \<Longrightarrow> stateless x"
  by (auto simp: stateless_def libc_owned_def split: option.split)

lemma stateless_plain: "entry_typed e \<Longrightarrow> fe_close e = Fd_close \<Longrightarrow> stateless (Some e)"
  by (auto simp: stateless_def entry_typed_def)

lemma more_fields:
  "fd_state.more s' = fd_state.more s \<Longrightarrow> ps_epolls s' = ps_epolls s \<and> ds_owner s' = ds_owner s"
  for s :: "'t dev_state"
  by (cases s; cases s') simp

lemma typed_by_stateless:
  assumes "descriptors_typed L s" "fs_pipes s' = fs_pipes s" "ps_epolls s' = ps_epolls s" "ds_owner s' = ds_owner s"
    "\<And>fd. entries L s' fd = entries L s fd \<or>
       stateless (entries L s fd) \<and> stateless (entries L s' fd) \<and> pred_option entry_typed (entries L s' fd)"
  shows "descriptors_typed L s'"
proof -
  have "entries L s' fd = entries L s fd \<or> (stateless (entries L s fd) \<and> stateless (entries L s' fd))" for fd
    using assms(5) by blast
  note t = typed_stateless [OF this]
  have "entry_typed e" if "entries L s' fd = Some e" for fd e
    using assms(5) [of fd] that assms(1) by (auto simp: descriptors_typed_def)
  then show ?thesis using assms(1-4) by (simp add: descriptors_typed_def t)
qed

text \<open>Allocating and releasing a descriptor no device keeps state for.\<close>

lemma alloc_stateless:
  assumes "libc_fd_laws L" "on_libc (runtime_fd_alloc_ops L ops flags) s = (fd, s')" "descriptors_typed L s"
    "stateless (Some (fd_entry_of ops flags))" "entry_typed (fd_entry_of ops flags)"
  shows "descriptors_typed L s'"
proof -
  note a = on_libc_alloc [OF assms(1,2)]
  have "entries L s' x = entries L s x \<or>
      stateless (entries L s x) \<and> stateless (entries L s' x) \<and> pred_option entry_typed (entries L s' x)" for x
    using a(1,2) assms(4,5) by (cases "fd < 0") (auto simp: stateless_def [of None])
  then show ?thesis using a(3) more_fields [of s' s] by (intro typed_by_stateless [OF assms(3)]) blast+
qed

lemma close_stateless:
  assumes "libc_fd_laws L" "on_libc (runtime_fd_close L fd) s = (r, s')" "descriptors_typed L s" "stateless (entries L s fd)"
  shows "descriptors_typed L s'"
proof -
  note a = on_libc_close [OF assms(1,2)]
  have "entries L s' x = entries L s x \<or>
      stateless (entries L s x) \<and> stateless (entries L s' x) \<and> pred_option entry_typed (entries L s' x)" for x
    using a(1) assms(4) by (auto simp: stateless_def [of None])
  then show ?thesis using a(2) more_fields [of s' s] by (intro typed_by_stateless [OF assms(3)]) blast+
qed

lemma dup_refused:
  assumes "libc_fd_laws L" "descriptors_typed L s" "dup_copied L s oldfd newfd e s1" "on_libc (runtime_fd_close L newfd) s1 = (r, s')"
  shows "descriptors_typed L s'"
proof -
  note a = on_libc_close [OF assms(1,4)]
  have "entries L s' = entries L s" "fs_pipes s1 = fs_pipes s" "ps_epolls s1 = ps_epolls s" "ds_owner s1 = ds_owner s"
    using a(1) assms(3) by (auto simp: dup_copied_def)
  then show ?thesis using a(2) more_fields [of s' s1] by (intro typed_by_stateless [OF assms(2)]) simp_all
qed

section \<open>Pipe tables\<close>

lemma ends_update:
  assumes "pipes_ok tab" "i < length tab"
  shows "read_ends (tab[i := k]) = (read_ends tab - {fd. is_read_end fd (tab ! i)}) \<union> {fd. is_read_end fd k}"
    "write_ends (tab[i := k]) = (write_ends tab - {fd. is_write_end fd (tab ! i)}) \<union> {fd. is_write_end fd k}"
proof -
  have u: "j = i" if "is_end fd (tab ! i)" "j < length tab" "is_end fd (tab ! j)" for j fd
    using pipe_end_unique [OF assms(1) that(3,1)] that(2) assms(2) by simp
  have split: "(\<exists>j < length tab. P (tab[i := k] ! j)) \<longleftrightarrow> (\<exists>j < length tab. j \<noteq> i \<and> P (tab ! j)) \<or> P k" for P
    using assms(2) by (metis nth_list_update_eq nth_list_update_neq)
  have "(\<exists>j < length tab. j \<noteq> i \<and> is_read_end fd (tab ! j)) \<longleftrightarrow>
      (\<exists>j < length tab. is_read_end fd (tab ! j)) \<and> \<not> is_read_end fd (tab ! i)"
    "(\<exists>j < length tab. j \<noteq> i \<and> is_write_end fd (tab ! j)) \<longleftrightarrow>
      (\<exists>j < length tab. is_write_end fd (tab ! j)) \<and> \<not> is_write_end fd (tab ! i)" for fd
    using u [of fd] unfolding is_end_def by metis+
  then show "read_ends (tab[i := k]) = (read_ends tab - {fd. is_read_end fd (tab ! i)}) \<union> {fd. is_read_end fd k}"
    "write_ends (tab[i := k]) = (write_ends tab - {fd. is_write_end fd (tab ! i)}) \<union> {fd. is_write_end fd k}"
    unfolding read_ends_def write_ends_def length_list_update split by auto
qed

lemma ends_same:
  assumes "pipes_ok tab" "i < length tab" "\<And>fd. is_read_end fd k = is_read_end fd (tab ! i)" "\<And>fd. is_write_end fd k = is_write_end fd (tab ! i)"
  shows "read_ends (tab[i := k]) = read_ends tab" "write_ends (tab[i := k]) = write_ends tab"
proof -
  have "fd \<in> read_ends tab" if "is_read_end fd (tab ! i)" for fd using that assms(2) by (auto simp: read_ends_def)
  then show "read_ends (tab[i := k]) = read_ends tab" unfolding ends_update(1) [OF assms(1,2)] assms(3) by auto
  have "fd \<in> write_ends tab" if "is_write_end fd (tab ! i)" for fd using that assms(2) by (auto simp: write_ends_def)
  then show "write_ends (tab[i := k]) = write_ends tab" unfolding ends_update(2) [OF assms(1,2)] assms(4) by auto
qed

lemma moved_ends:
  assumes "pipes_ok tab"
  shows "read_ends (pipe_step (Ev_write fd n) tab) = read_ends tab" "write_ends (pipe_step (Ev_write fd n) tab) = write_ends tab"
    "read_ends (pipe_step (Ev_read fd n) tab) = read_ends tab" "write_ends (pipe_step (Ev_read fd n) tab) = write_ends tab"
proof -
  have w: "read_ends (pipe_step (Ev_write fd n) tab) = read_ends tab \<and> write_ends (pipe_step (Ev_write fd n) tab) = write_ends tab"
  proof (cases "slot_of_write tab fd")
    case None
    then show ?thesis by (simp add: runtime_pipe_write_def)
  next
    case (Some i)
    note k = slot_of_Some(2) [OF Some]
    then have "pp_state (tab ! i) \<noteq> Pipe_free" by (simp add: is_write_end_def)
    then have "read_ends (tab[i := set_pending q (tab ! i)]) = read_ends tab \<and> write_ends (tab[i := set_pending q (tab ! i)]) = write_ends tab" for q
      using ends_same [OF assms conjunct1 [OF k]] set_pending_ends by auto
    then show ?thesis by (simp add: pipe_write_effect [OF assms conjunct1 [OF k] conjunct2 [OF k]] Let_def)
  qed
  have r: "read_ends (pipe_step (Ev_read fd n) tab) = read_ends tab \<and> write_ends (pipe_step (Ev_read fd n) tab) = write_ends tab"
  proof (cases "slot_of_read tab fd")
    case None
    then show ?thesis by (simp add: runtime_pipe_read_def)
  next
    case (Some i)
    note k = slot_of_Some(1) [OF Some]
    then have "pp_state (tab ! i) \<noteq> Pipe_free" by (simp add: is_read_end_def)
    then have "read_ends (tab[i := set_pending q (tab ! i)]) = read_ends tab \<and> write_ends (tab[i := set_pending q (tab ! i)]) = write_ends tab" for q
      using ends_same [OF assms conjunct1 [OF k]] set_pending_ends by auto
    then show ?thesis by (simp add: pipe_read_effect [OF assms conjunct1 [OF k] conjunct2 [OF k]] Let_def)
  qed
  show "read_ends (pipe_step (Ev_write fd n) tab) = read_ends tab" "write_ends (pipe_step (Ev_write fd n) tab) = write_ends tab"
    "read_ends (pipe_step (Ev_read fd n) tab) = read_ends tab" "write_ends (pipe_step (Ev_read fd n) tab) = write_ends tab"
    using w r by simp_all
qed

lemma closed_ends:
  assumes "pipes_ok tab"
  shows "read_ends (pipe_step (Ev_close fd) tab) = read_ends tab - {fd}" "write_ends (pipe_step (Ev_close fd) tab) = write_ends tab - {fd}"
proof -
  have sep: "fd \<notin> write_ends tab" if "slot_of_read tab fd = Some i" for i
    using slot_of_Some(1) [OF that] slot_of_end(2) [OF assms, of i fd] slot_of_end(3) [OF assms, of _ fd]
    by (auto simp: write_ends_def)
  have sep': "fd \<notin> read_ends tab" if "slot_of_write tab fd = Some i" for i
    using slot_of_Some(2) [OF that] slot_of_end(4) [OF assms, of i fd] slot_of_end(1) [OF assms, of _ fd]
    by (auto simp: read_ends_def)
  have "read_ends (pipe_step (Ev_close fd) tab) = read_ends tab - {fd} \<and> write_ends (pipe_step (Ev_close fd) tab) = write_ends tab - {fd}"
  proof (cases "slot_of_read tab fd")
    case (Some i)
    note k = slot_of_Some(1) [OF Some]
    have w: "{f. is_write_end f (tab ! i)} \<subseteq> write_ends tab" using k by (auto simp: write_ends_def)
    have r: "{f. is_read_end f (tab ! i)} = {fd}" using k by (auto simp: is_read_end_def)
    define k' where "k' = (if pp_write_open (tab ! i) then (tab ! i)\<lparr>pp_read_open := False\<rparr> else pipe_slot_zero)"
    have e: "\<not> is_read_end f k'" "is_write_end f k' = is_write_end f (tab ! i)" for f
      by (auto simp: k'_def is_read_end_def is_write_end_def)
    have "pipe_step (Ev_close fd) tab = tab[i := k']"
      using pipe_close_effect(1) [OF assms conjunct1 [OF k] conjunct2 [OF k]] by (simp add: k'_def)
    then show ?thesis
      using sep [OF Some] w by (auto simp: ends_update [OF assms conjunct1 [OF k]] e r)
  next
    case None
    show ?thesis
    proof (cases "slot_of_write tab fd")
      case (Some i)
      note k = slot_of_Some(2) [OF Some]
      have w: "{f. is_read_end f (tab ! i)} \<subseteq> read_ends tab" using k by (auto simp: read_ends_def)
      have r: "{f. is_write_end f (tab ! i)} = {fd}" using k by (auto simp: is_write_end_def)
      define k' where "k' = (if pp_read_open (tab ! i) then (tab ! i)\<lparr>pp_write_open := False\<rparr> else pipe_slot_zero)"
      have e: "\<not> is_write_end f k'" "is_read_end f k' = is_read_end f (tab ! i)" for f
        by (auto simp: k'_def is_read_end_def is_write_end_def)
      have "pipe_step (Ev_close fd) tab = tab[i := k']"
        using pipe_close_effect(2) [OF assms conjunct1 [OF k] conjunct2 [OF k]] by (simp add: k'_def)
      then show ?thesis
        using sep' [OF Some] w by (auto simp: ends_update [OF assms conjunct1 [OF k]] e r)
    next
      case None': None
      have "fd \<notin> read_ends tab" "fd \<notin> write_ends tab"
        using slot_of_None [OF None None'] by (auto simp: pipe_ends_def read_ends_def write_ends_def is_end_def)
      then show ?thesis using None None' by (simp add: runtime_pipe_close_def)
    qed
  qed
  then show "read_ends (pipe_step (Ev_close fd) tab) = read_ends tab - {fd}" "write_ends (pipe_step (Ev_close fd) tab) = write_ends tab - {fd}"
    by simp_all
qed

lemma pipe_ends_split: "pipe_ends tab = read_ends tab \<union> write_ends tab"
  by (auto simp: pipe_ends_def read_ends_def write_ends_def is_end_def)

lemma typed_pipes_agree:
  assumes "descriptors_typed L s"
  shows "pipes_agree L s"
proof -
  have "fe_close e = Fd_pipe_close \<longleftrightarrow> fe_read e = Fd_pipe_read \<or> fe_write e = Fd_pipe_write" if "entry_typed e" for e
    using that by (auto simp: entry_typed_def libc_owned_def split: fd_close_func.splits)
  then show ?thesis
    using assms by (auto simp: descriptors_typed_def pipes_typed_def pipes_agree_def pipe_ends_split having_def)
qed

text \<open>What a step has to show when it changes the pipes only.\<close>

lemma typed_pipes:
  assumes "descriptors_typed L s" "entries L s' = entries L s" "ps_epolls s' = ps_epolls s" "ds_owner s' = ds_owner s"
    "pipes_ok (fs_pipes s')" "read_ends (fs_pipes s') = read_ends (fs_pipes s)" "write_ends (fs_pipes s') = write_ends (fs_pipes s)"
  shows "descriptors_typed L s'"
  using assms by (simp add: descriptors_typed_def pipes_typed_def)

lemma typed_pipe_read:
  assumes "descriptors_typed L s" "pipe_read L n fd s = (r, s')"
  shows "descriptors_typed L s'"
proof -
  have ok: "pipes_ok (fs_pipes s)" using assms(1) by (simp add: descriptors_typed_def pipes_typed_def)
  have "s' = s\<lparr>fs_pipes := pipe_step (Ev_read fd n) (fs_pipes s)\<rparr>"
    using assms(2) by (auto simp: pipe_read_def Let_def split: prod.splits if_splits)
  then show ?thesis
    using pipe_step_ok(1) [OF ok, of "Ev_read fd n"] moved_ends [OF ok, of fd n] by (intro typed_pipes [OF assms(1)]) simp_all
qed

lemma typed_pipe_write:
  assumes "descriptors_typed L s" "pipe_write n fd s = (r, s')"
  shows "descriptors_typed L s'"
proof -
  have ok: "pipes_ok (fs_pipes s)" using assms(1) by (simp add: descriptors_typed_def pipes_typed_def)
  have "s' = thread_io_wake (s\<lparr>fs_pipes := pipe_step (Ev_write fd n) (fs_pipes s)\<rparr>)"
    using assms(2) by (auto simp: pipe_write_def split: prod.splits)
  then show ?thesis
    using pipe_step_ok(1) [OF ok, of "Ev_write fd n"] moved_ends [OF ok, of fd n]
    by (intro typed_pipes [OF assms(1)]) (simp_all add: thread_io_wake_def)
qed

lemma typed_pipe_close:
  assumes "libc_fd_laws L" "descriptors_typed L s" "pipe_close L fd s = (r, s')" "entries L s fd = Some e" "fe_close e = Fd_pipe_close"
  shows "descriptors_typed L s'"
proof -
  let ?s = "s\<lparr>fs_pipes := snd (runtime_pipe_close (fs_pipes s) fd)\<rparr>"
  have ok: "pipes_ok (fs_pipes s)" using assms(2) by (simp add: descriptors_typed_def pipes_typed_def)
  note c = on_libc_close [OF assms(1) assms(3) [unfolded pipe_close_def]]
  have f: "ps_epolls s' = ps_epolls s" "ds_owner s' = ds_owner s" using c(2) more_fields [of s' ?s] by simp_all
  have n: "fe_close e \<noteq> Fd_epoll_close" "fe_close e \<noteq> Fd_ctl_close" using assms(5) by simp_all
  have h: "having P (entries L s') = having P (entries L s) - {fd}" for P using c(1) by (simp add: having_upd)
  have k: "having (\<lambda>e. fe_close e = Fd_epoll_close) (entries L s') = having (\<lambda>e. fe_close e = Fd_epoll_close) (entries L s)"
    "having (\<lambda>e. fe_close e = Fd_ctl_close) (entries L s') = having (\<lambda>e. fe_close e = Fd_ctl_close) (entries L s)"
    unfolding h using n assms(4) by (auto simp: having_def)
  have p: "pipes_typed (entries L s') (fs_pipes s')"
    using assms(2) c(2) closed_ends [OF ok, of fd] pipe_step_ok(1) [OF ok, of "Ev_close fd"]
    by (simp add: descriptors_typed_def pipes_typed_def h)
  have "\<forall>x e. entries L s' x = Some e \<longrightarrow> entry_typed e"
    using c(1) assms(2) by (auto simp: descriptors_typed_def)
  then show ?thesis
    using assms(2) p by (simp add: descriptors_typed_def epolls_typed_def ctl_typed_def f k)
qed

lemma typed_pipe2:
  assumes "libc_fd_laws L" "descriptors_typed L s" "runtime_sys_pipe2 L null flags s = (r, s')"
  shows "descriptors_typed L s'"
proof -
  have agree: "pipes_agree L s" by (rule typed_pipes_agree [OF assms(2)])
  have ok: "pipes_ok (fs_pipes s)" using agree by (simp add: pipes_agree_def)
  obtain status out where r: "runtime_sys_pipe2 L null flags s = ((status, out), s')" using assms(3) by (cases r) simp
  from assms(1) agree r show ?thesis
  proof (cases rule: pipe2_cases)
    case failed
    then show ?thesis using more_fields [of s' s] by (intro typed_by_stateless [OF assms(2)]) auto
  next
    case (made rd wr i)
    let ?er = "pipe_entry Fd_pipe_read Fd_bad_write (flags AND push_bit 11 1)"
    let ?ew = "pipe_entry Fd_bad_read Fd_pipe_write (1 OR flags AND push_bit 11 1)"
    have f: "ps_epolls s' = ps_epolls s" "ds_owner s' = ds_owner s" using made(11) more_fields [of s' s] by simp_all
    have fresh: "rd \<notin> pipe_ends (fs_pipes s)" "wr \<notin> pipe_ends (fs_pipes s)"
      using made(4,5) pipes_agree_entry [OF agree] by simp_all
    have p: "pipes_ok (fs_pipes s')" using new_pipe_opened(1) [OF ok made(6,7,9,3) fresh] by (simp add: made(8) pipe_here_def)
    have e: "read_ends (fs_pipes s') = insert rd (read_ends (fs_pipes s))" "write_ends (fs_pipes s') = insert wr (write_ends (fs_pipes s))"
      unfolding made(8) ends_update [OF ok made(6)] made(7) by (auto simp: is_read_end_def is_write_end_def)
    have m: "entries L s' = (entries L s)(rd \<mapsto> ?er, wr \<mapsto> ?ew)" by (rule made(10))
    have h: "having P (entries L s') = having P (entries L s) \<union> {fd. fd = rd \<and> P ?er \<or> fd = wr \<and> P ?ew}" for P
      using made(3-5) by (auto simp: m having_def)
    have n: "having (\<lambda>e. fe_read e = Fd_pipe_read) (entries L s') = insert rd (having (\<lambda>e. fe_read e = Fd_pipe_read) (entries L s))"
      "having (\<lambda>e. fe_write e = Fd_pipe_write) (entries L s') = insert wr (having (\<lambda>e. fe_write e = Fd_pipe_write) (entries L s))"
      "having (\<lambda>e. fe_close e = Fd_epoll_close) (entries L s') = having (\<lambda>e. fe_close e = Fd_epoll_close) (entries L s)"
      "having (\<lambda>e. fe_close e = Fd_ctl_close) (entries L s') = having (\<lambda>e. fe_close e = Fd_ctl_close) (entries L s)"
      unfolding h by (auto simp: pipe_entry_def)
    have t: "\<forall>fd e. entries L s' fd = Some e \<longrightarrow> entry_typed e"
      using assms(2) by (auto simp: m descriptors_typed_def entry_typed_def pipe_entry_def)
    have "pipes_typed (entries L s') (fs_pipes s')"
      using assms(2) p e by (simp add: descriptors_typed_def pipes_typed_def n)
    then show ?thesis
      using assms(2) t by (simp add: descriptors_typed_def epolls_typed_def ctl_typed_def f n)
  qed
qed

section \<open>Epoll instances\<close>

lemma epoll_ok_by_keys:
  assumes "map (\<lambda>e. (ep_active e, ep_fd e)) tab' = map (\<lambda>e. (ep_active e, ep_fd e)) tab"
  shows "epoll_ok tab' = epoll_ok tab"
proof -
  let ?k = "\<lambda>e. (ep_active e, ep_fd e)"
  have ok: "epoll_ok tab = (\<forall>i j. i < length (map ?k tab) \<longrightarrow> j < length (map ?k tab) \<longrightarrow> fst (map ?k tab ! i) \<longrightarrow>
      fst (map ?k tab ! j) \<longrightarrow> snd (map ?k tab ! i) = snd (map ?k tab ! j) \<longrightarrow> i = j)" for tab
    by (simp add: epoll_ok_def)
  show ?thesis unfolding ok assms ..
qed

lemma scan_keys:
  "map (\<lambda>e. (ep_active e, ep_fd e)) (snd (runtime_epoll_table_scan rd room tab)) = map (\<lambda>e. (ep_active e, ep_fd e)) tab"
proof (induction tab arbitrary: room)
  case (Cons e tab)
  have d: "(ep_active (disarm e), ep_fd (disarm e)) = (ep_active e, ep_fd e)" by (simp add: disarm_def)
  show ?case unfolding scan_step using Cons.IH d by (simp split: prod.split) (metis snd_conv)
qed simp

definition table_typed :: "runtime_epoll_entry list \<Rightarrow> bool" where
  "table_typed tab \<longleftrightarrow> epoll_ok tab \<and> length tab = epoll_max_fds"

lemma table_typed_calls:
  assumes "table_typed tab"
  shows "table_typed (snd (runtime_epoll_table_scan rd room tab))" "table_typed (runtime_epoll_table_remove tab fd)"
    "table_typed (snd (runtime_epoll_table_set tab fd events data is_sock h))" "table_typed (replicate 64 no_entry)"
proof -
  have ok: "epoll_ok tab" and l: "length tab = 64" using assms by (simp_all add: table_typed_def)
  show "table_typed (snd (runtime_epoll_table_scan rd room tab))"
    using epoll_ok_by_keys [OF scan_keys [of rd room tab]] ok l arg_cong [OF scan_keys [of rd room tab], of length] by (simp add: table_typed_def)
  obtain st tab' where s: "runtime_epoll_table_set tab fd events data is_sock h = (st, tab')" by (cases "runtime_epoll_table_set tab fd events data is_sock h")
  have "length tab' = length tab" using s by (auto simp: runtime_epoll_table_set_def split: option.splits)
  then show "table_typed (snd (runtime_epoll_table_set tab fd events data is_sock h))" "table_typed (runtime_epoll_table_remove tab fd)"
    using epoll_table_laws [OF ok s] l by (simp_all add: table_typed_def s runtime_epoll_table_remove_def split: option.split)
  show "table_typed (replicate 64 no_entry)" by (simp add: table_typed_def epoll_ok_empty)
qed

lemma typed_tables:
  "epolls_typed m es \<longleftrightarrow> length es = 4 \<and> (\<forall>p \<in> set es. table_typed (ei_table p)) \<and>
     (\<forall>i j. i < length es \<longrightarrow> j < length es \<longrightarrow> 0 \<le> map ei_epfd es ! i \<longrightarrow> map ei_epfd es ! i = map ei_epfd es ! j \<longrightarrow> i = j) \<and>
     {fd. 0 \<le> fd \<and> fd \<in> set (map ei_epfd es)} = having (\<lambda>e. fe_close e = Fd_epoll_close) m"
proof -
  have "epoll_ids es = {fd. 0 \<le> fd \<and> fd \<in> set (map ei_epfd es)}" by (auto simp: epoll_ids_def in_set_conv_nth simp del: set_map)
  then show ?thesis by (auto simp: epolls_typed_def table_typed_def all_set_conv_all_nth)
qed

lemma typed_on_table:
  assumes "descriptors_typed L s" "on_table i f s = (r, s')" "i < 4" "\<And>tab. table_typed tab \<Longrightarrow> table_typed (snd (f tab))"
  shows "descriptors_typed L s'"
proof -
  have e: "epolls_typed (entries L s) (ps_epolls s)" using assms(1) by (simp add: descriptors_typed_def)
  then have l: "length (ps_epolls s) = 4" by (simp add: typed_tables)
  obtain tab where t: "f (ei_table (ps_epolls s ! i)) = (r, tab)"
    and s': "s' = s\<lparr>ps_epolls := (ps_epolls s)[i := (ps_epolls s ! i)\<lparr>ei_table := tab\<rparr>]\<rparr>"
    using assms(2) by (auto simp: on_table_def split: prod.splits)
  have "table_typed tab" using assms(4) [of "ei_table (ps_epolls s ! i)"] t e l assms(3) by (simp add: typed_tables)
  moreover have "map ei_epfd (ps_epolls s') = map ei_epfd (ps_epolls s)"
    using l assms(3) by (auto simp: s' map_update intro!: nth_equalityI simp: nth_list_update_if)
  ultimately have "epolls_typed (entries L s) (ps_epolls s')"
    using e l unfolding typed_tables by (auto simp: s' dest!: set_update_subset_insert [THEN subsetD])
  then show ?thesis using assms(1) by (simp add: descriptors_typed_def s')
qed

text \<open>A free instance, whose number is negative, taking a number no other has.\<close>

lemma numbers_insert:
  fixes xs :: "int list"
  assumes "i < length xs" "xs ! i < 0" "0 \<le> n"
  shows "{x. 0 \<le> x \<and> x \<in> set (xs[i := n])} = insert n {x. 0 \<le> x \<and> x \<in> set xs}"
proof -
  have "x = n \<or> x \<in> set xs" if "x \<in> set (xs[i := n])" for x
    using that set_update_subset_insert by fastforce
  moreover have "n \<in> set (xs[i := n])" by (rule set_update_memI [OF assms(1)])
  moreover have "x \<in> set (xs[i := n])" if x: "0 \<le> x" "x \<in> set xs" for x
  proof -
    obtain j where j: "j < length xs" "xs ! j = x" using x(2) by (auto simp: in_set_conv_nth)
    then have "j \<noteq> i" using assms(2) x(1) by auto
    then have "xs[i := n] ! j = x" "j < length (xs[i := n])" using j by simp_all
    then show ?thesis by (metis nth_mem)
  qed
  ultimately show ?thesis using assms(3) by blast
qed

lemma numbers_distinct:
  fixes xs :: "int list"
  assumes "\<And>j k. j < length xs \<Longrightarrow> k < length xs \<Longrightarrow> 0 \<le> xs ! j \<Longrightarrow> xs ! j = xs ! k \<Longrightarrow> j = k" "n \<notin> set xs"
    "j < length xs" "k < length xs" "0 \<le> xs[i := n] ! j" "xs[i := n] ! j = xs[i := n] ! k"
  shows "j = k"
proof -
  have n: "xs ! j \<noteq> n" "xs ! k \<noteq> n" using assms(2-4) nth_mem by metis+
  have eq: "i < length xs \<Longrightarrow> xs[i := n] ! i = n" by simp
  consider "j = i" | "k = i" | "j \<noteq> i" "k \<noteq> i" by blast
  then show ?thesis
  proof cases
    case 1
    then show ?thesis using eq assms(3,6) n(2) nth_list_update_neq [of i k xs n] by metis
  next
    case 2
    then show ?thesis using eq assms(4,6) n(1) nth_list_update_neq [of i j xs n] by metis
  next
    case 3
    then have "xs[i := n] ! j = xs ! j" "xs[i := n] ! k = xs ! k" by simp_all
    then show ?thesis using assms(1) [OF assms(3,4)] assms(5,6) by metis
  qed
qed

lemma typed_epoll_create:
  assumes "libc_fd_laws L" "descriptors_typed L s" "runtime_sys_epoll_create1 L s = (r, s')"
  shows "descriptors_typed L s'"
proof (cases "find_index (\<lambda>p. ei_epfd p < 0) (ps_epolls s)")
  case None
  then show ?thesis using assms(2,3) by (simp add: runtime_sys_epoll_create1_def)
next
  case (Some i)
  let ?ops = "no_fd_ops\<lparr>op_read := Some Fd_eof_read, op_write := Some Fd_discard_write,
    op_close := Some Fd_epoll_close, op_dup3 := Some Fd_epoll_dup3\<rparr>"
  obtain fd s1 where a: "on_libc (runtime_fd_alloc_ops L ?ops (of_nat O_RDWR)) s = (fd, s1)"
    by (metis prod.exhaust)
  note al = on_libc_alloc [OF assms(1) a]
  have f: "ps_epolls s1 = ps_epolls s" "ds_owner s1 = ds_owner s" "fs_pipes s1 = fs_pipes s" using al(3) more_fields [of s1 s] by simp_all
  have s': "s' = (if fd \<ge> 0 then s1\<lparr>ps_epolls := (ps_epolls s1)[i := epoll_instance_of fd]\<rparr> else s1)"
    using assms(3) unfolding runtime_sys_epoll_create1_def Some option.case a prod.case by auto
  show ?thesis
  proof (cases "fd < 0")
    case True
    then show ?thesis using al(1) f s' by (intro typed_by_stateless [OF assms(2)]) simp_all
  next
    case False
    let ?e = "fd_entry_of ?ops (of_nat O_RDWR)" and ?es = "(ps_epolls s)[i := epoll_instance_of fd]"
    have e: "fe_read ?e = Fd_eof_read" "fe_write ?e = Fd_discard_write" "fe_close ?e = Fd_epoll_close" "entry_typed ?e"
      by (simp_all add: fd_entry_of_def no_fd_ops_def entry_typed_def)
    have m: "entries L s fd = None" "entries L s' = (entries L s)(fd \<mapsto> ?e)" using al(2) False s' by simp_all
    have i: "i < length (ps_epolls s)" "ei_epfd (ps_epolls s ! i) < 0" using find_index_Some [OF Some] by simp_all
    have h: "having P (entries L s') = having P (entries L s) \<union> (if P ?e then {fd} else {})" for P
      using m(1) by (auto simp: m(2) having_def)
    have ty: "epolls_typed (entries L s) (ps_epolls s)" using assms(2) by (simp add: descriptors_typed_def)
    have ids: "fd \<notin> set (map ei_epfd (ps_epolls s))"
    proof
      assume "fd \<in> set (map ei_epfd (ps_epolls s))"
      then have "fd \<in> having (\<lambda>e. fe_close e = Fd_epoll_close) (entries L s)" using ty False unfolding typed_tables by auto
      then show False using m(1) by (simp add: having_def)
    qed
    have mp: "map ei_epfd ?es = (map ei_epfd (ps_epolls s))[i := fd]" by (simp add: map_update epoll_instance_of_def)
    have set: "{x. 0 \<le> x \<and> x \<in> set (map ei_epfd ?es)} = insert fd {x. 0 \<le> x \<and> x \<in> set (map ei_epfd (ps_epolls s))}"
      unfolding mp by (rule numbers_insert) (use i False in simp_all)
    have dist: "j = k" if "j < length ?es" "k < length ?es" "0 \<le> map ei_epfd ?es ! j" "map ei_epfd ?es ! j = map ei_epfd ?es ! k" for j k
    proof (rule numbers_distinct [OF _ ids])
      show "x = y" if "x < length (map ei_epfd (ps_epolls s))" "y < length (map ei_epfd (ps_epolls s))"
        "0 \<le> map ei_epfd (ps_epolls s) ! x" "map ei_epfd (ps_epolls s) ! x = map ei_epfd (ps_epolls s) ! y" for x y
        using that ty unfolding typed_tables length_map by blast
    qed (use that in \<open>simp_all only: mp length_map length_list_update\<close>)
    have es: "ps_epolls s' = ?es" using False f(1) s' by simp
    have tabs: "\<forall>p \<in> set ?es. table_typed (ei_table p)"
      using ty table_typed_calls(4) unfolding typed_tables
      by (auto simp: epoll_instance_of_def table_typed_def epoll_ok_empty dest!: set_update_subset_insert [THEN subsetD])
    have "epolls_typed (entries L s') (ps_epolls s')"
      unfolding typed_tables es set h e(3)
    proof (intro conjI allI impI)
      show "length ?es = 4" using ty by (simp add: typed_tables)
      show "\<forall>p \<in> set ?es. table_typed (ei_table p)" by (rule tabs)
      show "j = k" if "j < length ?es" "k < length ?es" "0 \<le> map ei_epfd ?es ! j" "map ei_epfd ?es ! j = map ei_epfd ?es ! k" for j k
        by (rule dist [OF that])
      show "insert fd {x. 0 \<le> x \<and> x \<in> set (map ei_epfd (ps_epolls s))} =
          having (\<lambda>e. fe_close e = Fd_epoll_close) (entries L s) \<union> (if Fd_epoll_close = Fd_epoll_close then {fd} else {})"
        using ty by (simp add: typed_tables)
    qed
    moreover have "fs_pipes s' = fs_pipes s" "ds_owner s' = ds_owner s" using False f s' by simp_all
    then have "pipes_typed (entries L s') (fs_pipes s')" "ctl_typed (entries L s') (ds_owner s')"
      using assms(2) unfolding descriptors_typed_def pipes_typed_def ctl_typed_def h e by simp_all
    ultimately show ?thesis using assms(2) e(4) by (auto simp: descriptors_typed_def m(2))
  qed
qed

lemma typed_epoll_close:
  assumes "libc_fd_laws L" "descriptors_typed L s" "epoll_close L fd s = (r, s')" "entries L s fd = Some e" "fe_close e = Fd_epoll_close"
  shows "descriptors_typed L s'"
proof -
  define es where "es = map (\<lambda>p. if ei_epfd p = fd then epoll_instance_of (- 1) else p) (ps_epolls s)"
  note c = on_libc_close [OF assms(1) assms(3) [unfolded epoll_close_def es_def [symmetric]]]
  have f: "ps_epolls s' = es" "ds_owner s' = ds_owner s" "fs_pipes s' = fs_pipes s"
    using c(2) more_fields [of s' "s\<lparr>ps_epolls := es\<rparr>"] by simp_all
  have m: "entries L s' = (entries L s)(fd := None)" using c(1) by simp
  have t: "entry_typed e" using assms(2,4) by (simp add: descriptors_typed_def)
  then have n: "fe_read e \<noteq> Fd_pipe_read" "fe_write e \<noteq> Fd_pipe_write" using assms(5) by (simp_all add: entry_typed_def)
  have h: "having P (entries L s') = having P (entries L s) - {fd}" for P by (simp add: m having_upd)
  have k: "having (\<lambda>e. fe_read e = Fd_pipe_read) (entries L s') = having (\<lambda>e. fe_read e = Fd_pipe_read) (entries L s)"
    "having (\<lambda>e. fe_write e = Fd_pipe_write) (entries L s') = having (\<lambda>e. fe_write e = Fd_pipe_write) (entries L s)"
    "having (\<lambda>e. fe_close e = Fd_ctl_close) (entries L s') = having (\<lambda>e. fe_close e = Fd_ctl_close) (entries L s)"
    unfolding h using n assms(4,5) by (auto simp: having_def)
  have ty: "epolls_typed (entries L s) (ps_epolls s)" using assms(2) by (simp add: descriptors_typed_def)
  have ids: "map ei_epfd es = map (\<lambda>x. if x = fd then - 1 else x) (map ei_epfd (ps_epolls s))"
    by (simp add: es_def epoll_instance_of_def)
  have set: "{x. 0 \<le> x \<and> x \<in> set (map ei_epfd es)} = {x. 0 \<le> x \<and> x \<in> set (map ei_epfd (ps_epolls s))} - {fd}"
    unfolding ids by auto
  have dist: "j = k" if "j < length es" "k < length es" "0 \<le> map ei_epfd es ! j" "map ei_epfd es ! j = map ei_epfd es ! k" for j k
  proof -
    have jk: "j < length (ps_epolls s)" "k < length (ps_epolls s)" using that(1,2) by (simp_all add: es_def)
    then show ?thesis using that(3,4) ty unfolding ids typed_tables by (auto split: if_splits)
  qed
  have tabs: "\<forall>p \<in> set es. table_typed (ei_table p)"
    using ty unfolding typed_tables by (auto simp: es_def epoll_instance_of_def table_typed_def epoll_ok_empty)
  have "length es = 4" using ty by (simp add: es_def typed_tables)
  then have "epolls_typed (entries L s') es"
    unfolding typed_tables set h using ty tabs dist unfolding typed_tables by auto
  then show ?thesis
    using assms(2) by (simp add: descriptors_typed_def pipes_typed_def ctl_typed_def f k) (simp add: m)
qed

section \<open>The control device\<close>

lemma typed_owner:
  assumes "descriptors_typed L s" "s' = s\<lparr>ds_owner := owner\<rparr>" "ow_phase owner \<noteq> Ctl_calling"
    "(ow_phase owner = Ctl_closed) = (ow_phase (ds_owner s) = Ctl_closed)" "ow_fd owner = ow_fd (ds_owner s)"
  shows "descriptors_typed L s'"
  using assms by (auto simp: descriptors_typed_def ctl_typed_def)

lemma not_calling: "descriptors_typed L s \<Longrightarrow> ow_phase (ds_owner s) \<noteq> Ctl_calling"
  by (simp add: descriptors_typed_def ctl_typed_def)

lemma typed_ctl_read:
  assumes "descriptors_typed L s" "ctl_read data count fd s = (r, s')"
  shows "descriptors_typed L s'"
proof -
  obtain st out owner where c: "runtime_ctl_read fd data count (ds_owner s) = ((st, out), owner)" by (metis prod.exhaust)
  have "s' = s\<lparr>ds_owner := owner\<rparr>" using assms(2) by (simp add: ctl_read_def c)
  moreover have "ow_phase owner \<noteq> Ctl_calling \<and> (ow_phase owner = Ctl_closed) = (ow_phase (ds_owner s) = Ctl_closed) \<and>
      ow_fd owner = ow_fd (ds_owner s)"
    using c not_calling [OF assms(1)] by (cases "ow_phase (ds_owner s)") (auto simp: ctl_calls split: if_splits)
  ultimately show ?thesis using typed_owner [OF assms(1)] by blast
qed

lemma typed_ctl_write:
  assumes "descriptors_typed L s" "ctl_write ppcall buf count fd (s, root) = (r, s', root')"
  shows "descriptors_typed L s'"
proof -
  obtain st call owner where c: "runtime_ctl_write fd buf count (ds_owner s) = ((st, call), owner)" by (metis prod.exhaust)
  show ?thesis
  proof (cases "st = Ctls_ok")
    case False
    then have "owner = ds_owner s" using c by (auto simp: ctl_calls split: if_splits option.splits)
    then have "s' = s" using assms(2) c False by (simp add: ctl_write_def)
    then show ?thesis using assms(1) by simp
  next
    case True
    have o: "owner = (ds_owner s)\<lparr>ow_phase := Ctl_calling\<rparr>" "ow_phase (ds_owner s) = Ctl_idle" "ow_fd (ds_owner s) = fd"
      using c True by (cases "ow_phase (ds_owner s)"; auto simp: ctl_calls split: if_splits option.splits)+
    obtain label words mr root1 where p: "ppcall (ca_opcode (the call)) (ca_args (the call)) root = ((label, words, mr), root1)"
      by (metis prod.exhaust)
    define vs where "vs = (if words = of_nat runtime_ctl_words then map mr [0..<runtime_ctl_words] else replicate runtime_ctl_words 0)"
    obtain st' owner' where q: "runtime_ctl_reply fd label words vs owner = (st', owner')" by (metis prod.exhaust)
    have "s' = s\<lparr>ds_owner := owner'\<rparr>"
      using assms(2) q unfolding ctl_write_def prod.case c Let_def using True p by (simp add: vs_def)
    moreover have "ow_phase owner' \<noteq> Ctl_calling \<and> (ow_phase owner' = Ctl_closed) = (ow_phase (ds_owner s) = Ctl_closed) \<and>
        ow_fd owner' = ow_fd (ds_owner s)"
      using q o by (auto simp: ctl_calls split: if_splits)
    ultimately show ?thesis using typed_owner [OF assms(1)] by blast
  qed
qed

lemma typed_ctl_close:
  assumes "libc_fd_laws L" "descriptors_typed L s" "ctl_close L fd s = (r, s')" "entries L s fd = Some e" "fe_close e = Fd_ctl_close"
  shows "descriptors_typed L s'"
proof -
  have "fd \<in> having (\<lambda>e. fe_close e = Fd_ctl_close) (entries L s)" using assms(4,5) by (simp add: having_def)
  then have o: "ow_phase (ds_owner s) \<noteq> Ctl_closed" "ow_fd (ds_owner s) = fd"
    and sole: "having (\<lambda>e. fe_close e = Fd_ctl_close) (entries L s) = {fd}"
    using assms(2) by (auto simp: descriptors_typed_def ctl_typed_def split: if_splits)
  have z: "snd (runtime_ctl_close fd (ds_owner s)) = ctl_owner_zero"
    using o by (cases "ow_phase (ds_owner s)") (simp_all add: ctl_calls)
  note c = on_libc_close [OF assms(1) assms(3) [unfolded ctl_close_def z]]
  have f: "ps_epolls s' = ps_epolls s" "ds_owner s' = ctl_owner_zero" "fs_pipes s' = fs_pipes s"
    using c(2) more_fields [of s' "s\<lparr>ds_owner := ctl_owner_zero\<rparr>"] by simp_all
  have m: "entries L s' = (entries L s)(fd := None)" using c(1) by simp
  have t: "entry_typed e" using assms(2,4) by (simp add: descriptors_typed_def)
  then have n: "fe_read e \<noteq> Fd_pipe_read" "fe_write e \<noteq> Fd_pipe_write" using assms(5) by (simp_all add: entry_typed_def)
  have h: "having P (entries L s') = having P (entries L s) - {fd}" for P by (simp add: m having_upd)
  have k: "having (\<lambda>e. fe_read e = Fd_pipe_read) (entries L s') = having (\<lambda>e. fe_read e = Fd_pipe_read) (entries L s)"
    "having (\<lambda>e. fe_write e = Fd_pipe_write) (entries L s') = having (\<lambda>e. fe_write e = Fd_pipe_write) (entries L s)"
    "having (\<lambda>e. fe_close e = Fd_epoll_close) (entries L s') = having (\<lambda>e. fe_close e = Fd_epoll_close) (entries L s)"
    "having (\<lambda>e. fe_close e = Fd_ctl_close) (entries L s') = {}"
    unfolding h sole using n assms(4,5) by (auto simp: having_def)
  show ?thesis
    using assms(2) by (simp add: descriptors_typed_def pipes_typed_def epolls_typed_def ctl_typed_def f k ctl_owner_zero_def) (simp add: m)
qed

lemma typed_ctl_open:
  assumes "libc_fd_laws L" "descriptors_typed L s" "ctl_open L env flags s = (r, s')"
  shows "descriptors_typed L s'"
proof -
  let ?ops = "\<lparr>op_read = Some Fd_ctl_read, op_write = Some Fd_ctl_write, op_fstat = Some Fd_ctl_fstat,
    op_close = Some Fd_ctl_close, op_dup3 = Some Fd_ctl_dup3\<rparr>"
  obtain fd s1 where a: "on_libc (runtime_fd_alloc_ops L ?ops (of_nat O_RDWR)) s = (fd, s1)" by (metis prod.exhaust)
  obtain st owner where op: "runtime_ctl_open fd (ds_owner s1) = (st, owner)" by (metis prod.exhaust)
  note al = on_libc_alloc [OF assms(1) a]
  have f: "ps_epolls s1 = ps_epolls s" "ds_owner s1 = ds_owner s" "fs_pipes s1 = fs_pipes s" using al(3) more_fields [of s1 s] by simp_all
  note d = assms(3) [unfolded ctl_open_def a prod.case op Let_def]
  consider (refused) "s' = s" | (no_slot) "fd < 0" "s' = s1"
    | (busy) "0 \<le> fd" "st \<noteq> Ctls_ok" "s' = snd (on_libc (runtime_fd_close L fd) (s1\<lparr>ds_owner := owner\<rparr>))"
    | (opened) "0 \<le> fd" "st = Ctls_ok" "s' = s1\<lparr>ds_owner := owner\<rparr>"
    using d by (auto split: if_splits)
  then show ?thesis
  proof cases
    case refused
    then show ?thesis using assms(2) by simp
  next
    case no_slot
    then show ?thesis using al(1) f by (intro typed_by_stateless [OF assms(2)]) simp_all
  next
    case busy
    have same: "owner = ds_owner s" using op busy(2) f(2) by (auto simp: ctl_calls split: if_splits)
    obtain r' s2 where c: "on_libc (runtime_fd_close L fd) (s1\<lparr>ds_owner := owner\<rparr>) = (r', s2)" by (metis prod.exhaust)
    note k = on_libc_close [OF assms(1) c]
    have "entries L s' = entries L s" using al(2) busy(1,3) k(1) c by auto
    then show ?thesis
      using busy(3) c k(2) f same more_fields [of s2 "s1\<lparr>ds_owner := owner\<rparr>"] by (intro typed_by_stateless [OF assms(2)]) simp_all
  next
    case opened
    let ?e = "fd_entry_of ?ops (of_nat O_RDWR)"
    have e: "fe_read ?e = Fd_ctl_read" "fe_write ?e = Fd_ctl_write" "fe_close ?e = Fd_ctl_close" "entry_typed ?e"
      by (simp_all add: fd_entry_of_def entry_typed_def)
    have m: "entries L s fd = None" "entries L s' = (entries L s)(fd \<mapsto> ?e)" using al(2) opened by simp_all
    have h: "having P (entries L s') = having P (entries L s) \<union> (if P ?e then {fd} else {})" for P
      using m(1) by (auto simp: m(2) having_def)
    have o: "ow_phase (ds_owner s) = Ctl_closed" "ow_phase owner = Ctl_idle" "ow_fd owner = fd"
      using op opened(2) f(2) by (cases "ow_phase (ds_owner s)"; auto simp: ctl_calls)+
    have "ctl_typed (entries L s') (ds_owner s')"
      using assms(2) o opened(3) unfolding ctl_typed_def h descriptors_typed_def e by simp
    moreover have "pipes_typed (entries L s') (fs_pipes s')" "epolls_typed (entries L s') (ps_epolls s')"
      using assms(2) f opened(3) unfolding pipes_typed_def epolls_typed_def h descriptors_typed_def e by simp_all
    ultimately show ?thesis using assms(2) e(4) by (auto simp: descriptors_typed_def m(2))
  qed
qed

section \<open>Every step keeps the types\<close>

lemma typed_fields:
  "descriptors_typed L s \<Longrightarrow> fs_libc s' = fs_libc s \<Longrightarrow> fs_pipes s' = fs_pipes s \<Longrightarrow> ps_epolls s' = ps_epolls s \<Longrightarrow>
   ds_owner s' = ds_owner s \<Longrightarrow> descriptors_typed L s'"
  by (simp add: descriptors_typed_def)

lemma typed_instances: "descriptors_typed L s \<Longrightarrow> epoll_table_of s epfd = Some i \<Longrightarrow> i < 4"
  using epoll_table_of_Some [of s epfd i] by (simp add: descriptors_typed_def epolls_typed_def)

lemma typed_epoll_ctl:
  assumes "descriptors_typed L s" "runtime_sys_epoll_ctl L w epfd op fd event s = (r, s')"
  shows "descriptors_typed L s'"
proof (cases "epoll_table_of s epfd")
  case None
  then show ?thesis using assms by (simp add: runtime_sys_epoll_ctl_def)
next
  case (Some i)
  note i = typed_instances [OF assms(1) Some]
  define sets where "sets = (\<lambda>ev da tab. runtime_epoll_table_set tab fd ev da (fd_is_socket L w s fd)
    (if fd_is_socket L w s fd then pw_socket_index w fd else - 1))"
  have on: "descriptors_typed L (snd (on_table i (sets ev da) s))" for ev da
    by (rule typed_on_table [OF assms(1) _ i, of "sets ev da" "fst (on_table i (sets ev da) s)"])
      (simp_all add: sets_def table_typed_calls)
  have off: "descriptors_typed L (snd (on_table i (\<lambda>tab. ((), runtime_epoll_table_remove tab fd)) s))"
    by (rule typed_on_table [OF assms(1) _ i, of "\<lambda>tab. ((), runtime_epoll_table_remove tab fd)" "()"])
      (simp_all add: table_typed_calls prod_eq_iff)
  have "s' = s \<or> (\<exists>ev da. s' = snd (on_table i (sets ev da) s)) \<or>
      s' = snd (on_table i (\<lambda>tab. ((), runtime_epoll_table_remove tab fd)) s)"
    using assms(2) Some
    by (auto simp: runtime_sys_epoll_ctl_def Let_def sets_def [abs_def] split: if_splits option.splits prod.splits) (metis snd_conv)+
  then show ?thesis using assms(1) on off by blast
qed

lemma typed_epoll_scan:
  assumes "descriptors_typed L s" "i < 4" "epoll_scan w i m s = (r, s')"
  shows "descriptors_typed L s'"
  using typed_on_table [OF assms(1) assms(3) [unfolded epoll_scan_def] assms(2)] table_typed_calls(1) by blast

lemma typed_epoll_wait:
  assumes "descriptors_typed L s" "runtime_sys_epoll_pwait w now now' epfd null m timeout s = (r, s')"
  shows "descriptors_typed L s'"
proof (cases "null \<or> m \<le> 0 \<or> epoll_table_of s epfd = None")
  case True
  then show ?thesis using assms by (auto simp: runtime_sys_epoll_pwait_def split: if_splits)
next
  case False
  then obtain i where i: "epoll_table_of s epfd = Some i" by auto
  obtain reports s1 where sc: "epoll_scan w i m s = (reports, s1)" by (cases "epoll_scan w i m s")
  have t: "descriptors_typed L s1" by (rule typed_epoll_scan [OF assms(1) typed_instances [OF assms(1) i] sc])
  have "s' = s1 \<or> (\<exists>tm. s' = s1\<lparr>ps_timer := tm\<rparr>)"
    using assms(2) False i sc by (auto simp: runtime_sys_epoll_pwait_def arm_timeout_def split: if_splits)
  then show ?thesis using t by (auto simp: descriptors_typed_def)
qed

lemma typed_plain_alloc:
  assumes "libc_fd_laws L" "descriptors_typed L s" "on_libc (runtime_fd_alloc L rd wr fst' flags) s = (fd, s')"
    "rd \<in> {None, Some Fd_empty_read, Some Fd_stat_read}" "wr \<in> {None, Some Fd_discard_write, Some Fd_pd_restart_write}"
  shows "descriptors_typed L s'"
proof -
  have "on_libc (runtime_fd_alloc_ops L (no_fd_ops\<lparr>op_read := rd, op_write := wr, op_fstat := fst'\<rparr>) flags) s = (fd, s')"
    using assms(3) by (simp add: runtime_fd_alloc_def [abs_def])
  then show ?thesis
    by (rule alloc_stateless [OF assms(1) _ assms(2)])
      (use assms(4,5) in \<open>auto simp: fd_entry_of_def no_fd_ops_def stateless_def entry_typed_def\<close>)
qed

lemma typed_socketpair:
  assumes "libc_fd_laws L" "descriptors_typed L s" "runtime_sys_socketpair L null s = (r, s')"
  shows "descriptors_typed L s'"
proof (cases null)
  case True
  then show ?thesis using assms(2,3) by (simp add: runtime_sys_socketpair_def)
next
  case False
  obtain a sa where a: "socketpair_alloc L 0 s = (a, sa)" by (cases "socketpair_alloc L 0 s")
  obtain b sb where b: "socketpair_alloc L 1 sa = (b, sb)" by (cases "socketpair_alloc L 1 sa")
  obtain c sc where c: "pair_close L a sb = (c, sc)" by (cases "pair_close L a sb")
  have alloc: "descriptors_typed L s''" if "socketpair_alloc L n s0 = (f, s'')" "descriptors_typed L s0" for n s0 f s''
    using typed_plain_alloc [OF assms(1) that(2) that(1) [unfolded socketpair_alloc_def]] by simp
  note ta = alloc [OF a assms(2)]
  note tb = alloc [OF b ta]
  have o: "s' = sa \<or> s' = sc \<or> s' = sb"
    using assms(3) False a b c by (auto simp: runtime_sys_socketpair_def runtime_fd_alloc_pair_def split: if_splits)
  have "descriptors_typed L sc" if "0 \<le> a" "b < 0"
  proof -
    let ?ops = "no_fd_ops\<lparr>op_read := Some Fd_empty_read, op_write := Some Fd_discard_write, op_fstat := None\<rparr>"
    have la: "on_libc (runtime_fd_alloc_ops L ?ops (of_nat O_RDWR OR push_bit O_NONBLOCK_BIT 1)) s = (a, sa)"
      and lb: "on_libc (runtime_fd_alloc_ops L ?ops (of_nat O_RDWR OR push_bit O_NONBLOCK_BIT 1)) sa = (b, sb)"
      using a b by (simp_all add: socketpair_alloc_def runtime_fd_alloc_def [abs_def])
    have "stateless (entries L sb a)"
      using on_libc_alloc(2) [OF assms(1) la that(1)] on_libc_alloc(1) [OF assms(1) lb that(2)]
      by (simp add: stateless_def fd_entry_of_def no_fd_ops_def)
    then show ?thesis by (rule close_stateless [OF assms(1) c [unfolded pair_close_def] tb])
  qed
  moreover have "s' = sc \<Longrightarrow> s' = sa \<or> s' = sb \<or> 0 \<le> a \<and> b < 0"
    using assms(3) False a b c by (auto simp: runtime_sys_socketpair_def runtime_fd_alloc_pair_def split: if_splits)
  ultimately show ?thesis using o ta tb by blast
qed

lemma stat_read_entry:
  assumes "libc_fd_laws L" "stat_read L env reads count fd s = (r, s')" "entries L s fd = Some e"
  shows "s' = s \<or> fs_pipes s' = fs_pipes s \<and> fd_state.more s' = fd_state.more s \<and>
    entries L s' = (entries L s)(fd \<mapsto> e\<lparr>fe_file_ptr := int status_page_size\<rparr>)"
  using assms(2,3) fd_lawsD(4) [OF assms(1), of "fs_libc s" fd e]
  by (auto simp: stat_read_def fun_eq_iff split: if_splits runtime_stat_step.splits root_status_read_result.splits prod.splits)

lemma typed_stat_read:
  assumes "libc_fd_laws L" "descriptors_typed L s" "stat_read L env reads count fd s = (r, s')" "entries L s fd = Some e"
    "fe_read e = Fd_stat_read"
  shows "descriptors_typed L s'"
proof -
  have t: "entry_typed e" using assms(2,4) by (simp add: descriptors_typed_def)
  then have c: "fe_close e = Fd_close" using assms(5) by (auto simp: entry_typed_def libc_owned_def split: fd_close_func.splits)
  let ?e = "e\<lparr>fe_file_ptr := int status_page_size\<rparr>"
  have e: "entry_typed ?e" "fe_close ?e = Fd_close" using t c by (simp_all add: entry_typed_def)
  note st = stateless_plain [OF t c] stateless_plain [OF e]
  from stat_read_entry [OF assms(1,3,4)] show ?thesis
  proof
    assume "s' = s"
    then show ?thesis using assms(2) by simp
  next
    assume a: "fs_pipes s' = fs_pipes s \<and> fd_state.more s' = fd_state.more s \<and> entries L s' = (entries L s)(fd \<mapsto> ?e)"
    then have "entries L s' x = entries L s x \<or>
        stateless (entries L s x) \<and> stateless (entries L s' x) \<and> pred_option entry_typed (entries L s' x)" for x
      using st e(1) assms(4) by (cases "x = fd") auto
    then show ?thesis using a more_fields [of s' s] by (intro typed_by_stateless [OF assms(2)]) blast+
  qed
qed

lemma typed_dup_plain:
  assumes "descriptors_typed L s" "dup_copied L s oldfd newfd e s'" "fe_dup3 e = Fd_dup3"
  shows "descriptors_typed L s'"
proof -
  have t: "entry_typed e" using assms(1,2) unfolding descriptors_typed_def dup_copied_def by blast
  then have "fe_close e = Fd_close" using assms(3) by (auto simp: entry_typed_def libc_owned_def split: fd_close_func.splits)
  note st = stateless_plain [OF t this]
  have "entries L s' x = entries L s x \<or>
      stateless (entries L s x) \<and> stateless (entries L s' x) \<and> pred_option entry_typed (entries L s' x)" for x
    using st t assms(2) by (cases "x = newfd") (auto simp: dup_copied_def stateless_def [of None])
  then show ?thesis using assms(2) by (intro typed_by_stateless [OF assms(1)]) (auto simp: dup_copied_def)
qed

lemma libc_owned_typed: "libc_owned e \<Longrightarrow> entry_typed e"
  by (auto simp: libc_owned_def entry_typed_def)

lemma poll_state: "runtime_sys_ppoll L w now now' fds nfds tmo s = (r, s') \<Longrightarrow> s' = s \<or> (\<exists>tm. s' = s\<lparr>ps_timer := tm\<rparr>)"
  by (auto simp: runtime_sys_ppoll_def arm_timeout_def Let_def split: if_splits prod.splits option.splits)

lemma select_state: "runtime_sys_pselect6 L w now now' n rd wr ex tmo s = (r, s') \<Longrightarrow> s' = s \<or> (\<exists>tm. s' = s\<lparr>ps_timer := tm\<rparr>)"
  by (auto simp: runtime_sys_pselect6_def arm_timeout_def Let_def split: if_splits prod.splits option.splits)

lemma timer_typed: "descriptors_typed L s \<Longrightarrow> descriptors_typed L (s\<lparr>ps_timer := tm\<rparr>)"
  by (simp add: descriptors_typed_def)

lemma fd_step_typed [keeps]:
  assumes "fd_step L ppcall s s'" "libc_fd_laws L" "descriptors_typed L s"
  shows "descriptors_typed L s'"
  using assms
proof (induction rule: fd_step.induct)
  case (poll w now now' fds nfds tmo s r s')
  then show ?case using poll_state [OF poll(1)] timer_typed by blast
next
  case (select w now now' n rd wr ex tmo s r s')
  then show ?case using select_state [OF select(1)] timer_typed by blast
next
  case (epoll_woken i w m s r s')
  obtain reports s1 where sc: "epoll_scan w i m s = (reports, s1)" by (cases "epoll_scan w i m s")
  then have "s' = s1" using epoll_woken(2) by (simp add: epoll_pwait_woken_def)
  then show ?case using typed_epoll_scan [OF epoll_woken(4) epoll_woken(1) sc] by simp
next
  case (timerfd s r s')
  then show ?case using typed_plain_alloc [OF timerfd(2,3) timerfd(1) [unfolded runtime_sys_timerfd_create_def]] by simp
next
  case (restart_open s r s')
  then show ?case using typed_plain_alloc [OF restart_open(2,3) restart_open(1) [unfolded runtime_pd_restart_open_def]] by simp
next
  case (control_open env path flags s r s')
  have stat: "descriptors_typed L s''" if "stat_open L env flags s = (fd, s'')" for fd s''
    using typed_plain_alloc [OF control_open(2,3), of "Some Fd_stat_read" None "Some Fd_stat_fstat" "of_nat O_RDONLY" fd s'']
      that control_open(3) by (auto simp: stat_open_def split: if_splits)
  show ?case
    using control_open stat typed_ctl_open [OF control_open(2,3)]
    by (auto simp: runtime_control_dev_open_def split: if_splits)
next
  case (write_wake s fd e s')
  then show ?case by (auto simp: descriptors_typed_def thread_io_wake_def)
next
  case (close_plain s fd e r s')
  have "entry_typed e" using close_plain(1,5) by (simp add: descriptors_typed_def)
  then have "stateless (entries L s fd)" using stateless_plain close_plain(1,2) by metis
  then show ?case by (rule close_stateless [OF close_plain(4) close_plain(3) close_plain(5)])
next
  case (dup_pipe s oldfd newfd e s1 r s')
  obtain c s2 where "on_libc (runtime_fd_close L newfd) s1 = (c, s2)" by (metis prod.exhaust)
  then show ?case using dup_refused [OF dup_pipe(4,5,1)] dup_pipe(3) by (simp add: pipe_dup3_def)
next
  case (dup_epoll s oldfd newfd e s1 r s')
  obtain c s2 where "on_libc (runtime_fd_close L newfd) s1 = (c, s2)" by (metis prod.exhaust)
  then show ?case using dup_refused [OF dup_epoll(4,5,1)] dup_epoll(3) by (simp add: epoll_dup3_def)
next
  case (dup_ctl s oldfd newfd e s1 r s')
  obtain c s2 where "on_libc (runtime_fd_close L newfd) s1 = (c, s2)" by (metis prod.exhaust)
  then show ?case using dup_refused [OF dup_ctl(4,5,1)] dup_ctl(3) by (simp add: ctl_dup3_def)
next
  case (libc t s)
  let ?s = "s\<lparr>fs_libc := t\<rparr>"
  have k: "entries L ?s fd = entries L s fd \<or>
      stateless (entries L s fd) \<and> stateless (entries L ?s fd) \<and> pred_option entry_typed (entries L ?s fd)" for fd
    using libc(1) stateless_libc libc_owned_typed by (metis option.pred_mono_strong)
  show ?case by (rule typed_by_stateless [OF libc(3)]) (rule k | simp)+
qed (auto intro: typed_pipe2 typed_socketpair typed_epoll_create typed_epoll_ctl typed_epoll_wait typed_pipe_read
      typed_ctl_read typed_stat_read typed_pipe_write typed_ctl_write typed_pipe_close typed_epoll_close typed_ctl_close
      typed_dup_plain timer_typed)

section \<open>Properties\<close>

text \<open>The reset state: the descriptors there are belong to the libc, and every table is empty.\<close>

definition fd_boot :: "'t libc_fd \<Rightarrow> 't dev_state \<Rightarrow> bool" where
  "fd_boot L s \<longleftrightarrow> (\<forall>fd. pred_option libc_owned (entries L s fd)) \<and> fs_pipes s = replicate pipe_slots pipe_slot_zero \<and>
     ps_epolls s = replicate epoll_instances (epoll_instance_of (- 1)) \<and> ds_owner s = ctl_owner_zero"

lemma boot_typed:
  assumes "fd_boot L s"
  shows "descriptors_typed L s"
proof -
  have none: "having P (entries L s) = {}" if "\<And>e. libc_owned e \<Longrightarrow> \<not> P e" for P
    using assms that by (auto simp: fd_boot_def having_def) (metis option.pred_inject(2))
  have h: "having (\<lambda>e. fe_read e = Fd_pipe_read) (entries L s) = {}" "having (\<lambda>e. fe_write e = Fd_pipe_write) (entries L s) = {}"
    "having (\<lambda>e. fe_close e = Fd_epoll_close) (entries L s) = {}" "having (\<lambda>e. fe_close e = Fd_ctl_close) (entries L s) = {}"
    by (rule none; auto simp: libc_owned_def)+
  have t: "\<forall>fd e. entries L s fd = Some e \<longrightarrow> entry_typed e"
    using assms libc_owned_typed by (metis fd_boot_def option.pred_inject(2))
  show ?thesis
    using assms t by (simp add: fd_boot_def descriptors_typed_def pipes_typed_def epolls_typed_def ctl_typed_def h pipes_ok_zero
        read_ends_def write_ends_def epoll_ids_def epoll_instance_of_def epoll_ok_empty ctl_owner_zero_def)
qed

lemma steps_typed:
  "(fd_step L ppcall)\<^sup>*\<^sup>* s s' \<Longrightarrow> libc_fd_laws L \<Longrightarrow> descriptors_typed L s \<Longrightarrow> descriptors_typed L s'"
  by (induction rule: rtranclp_induct) (blast intro: fd_step_typed)+

lemma typed_finds:
  assumes "descriptors_typed L s" "entries L s fd = Some e"
  shows "entry_typed e"
    "fe_read e = Fd_pipe_read \<Longrightarrow> fst (runtime_pipe_read (fs_pipes s) fd n) \<noteq> Pipe_unknown_fd"
    "fe_write e = Fd_pipe_write \<Longrightarrow> fst (runtime_pipe_write (fs_pipes s) fd n) \<noteq> Pipe_unknown_fd"
    "fe_close e = Fd_epoll_close \<Longrightarrow> epoll_table_of s fd \<noteq> None"
    "fe_close e = Fd_ctl_close \<Longrightarrow> ow_fd (ds_owner s) = fd \<and> ow_phase (ds_owner s) \<in> {Ctl_idle, Ctl_reply_ready}"
proof -
  have p: "pipes_ok (fs_pipes s)" using assms(1) by (simp add: descriptors_typed_def pipes_typed_def)
  show "entry_typed e" using assms by (simp add: descriptors_typed_def)
  show "fst (runtime_pipe_read (fs_pipes s) fd n) \<noteq> Pipe_unknown_fd" if r: "fe_read e = Fd_pipe_read"
  proof -
    have "fd \<in> read_ends (fs_pipes s)"
      using assms r by (auto simp: descriptors_typed_def pipes_typed_def having_def)
    then obtain i where "i < length (fs_pipes s)" "is_read_end fd (fs_pipes s ! i)" by (auto simp: read_ends_def)
    then show ?thesis using slot_of_end(1) [OF p] by (simp add: runtime_pipe_read_def Let_def)
  qed
  show "fst (runtime_pipe_write (fs_pipes s) fd n) \<noteq> Pipe_unknown_fd" if w: "fe_write e = Fd_pipe_write"
  proof -
    have "fd \<in> write_ends (fs_pipes s)"
      using assms w by (auto simp: descriptors_typed_def pipes_typed_def having_def)
    then obtain i where "i < length (fs_pipes s)" "is_write_end fd (fs_pipes s ! i)" by (auto simp: write_ends_def)
    then show ?thesis using slot_of_end(3) [OF p] by (simp add: runtime_pipe_write_def Let_def)
  qed
  show "epoll_table_of s fd \<noteq> None" if c: "fe_close e = Fd_epoll_close"
  proof -
    have "fd \<in> epoll_ids (ps_epolls s)"
      using assms c by (auto simp: descriptors_typed_def epolls_typed_def having_def)
    then show ?thesis unfolding epoll_table_of_def find_index_None epoll_ids_def by (auto dest: nth_mem)
  qed
  show "ow_fd (ds_owner s) = fd \<and> ow_phase (ds_owner s) \<in> {Ctl_idle, Ctl_reply_ready}" if c: "fe_close e = Fd_ctl_close"
  proof -
    have "fd \<in> having (\<lambda>e. fe_close e = Fd_ctl_close) (entries L s)" using assms(2) c by (simp add: having_def)
    then show ?thesis
      using assms(1) by (cases "ow_phase (ds_owner s)") (auto simp: descriptors_typed_def ctl_typed_def)
  qed
qed

text \<open>
  C14.  A descriptor always names what its callbacks expect.  From the reset state, after any
  sequence of calls of the handlers, with whatever the libc does to its own descriptors in
  between: the callbacks of each open descriptor belong to one kind; a read or a write of a pipe
  end finds its pipe, an epoll descriptor its table, and a control descriptor is the one that
  owns the device; so no handler answers an open descriptor with bad descriptor.  And nothing
  outlives its descriptor: every open pipe end, every epoll table in use and the owner of the
  control device is an open descriptor.
\<close>

theorem descriptors_never_dangle:
  assumes "libc_fd_laws L" "fd_boot L s0" "(fd_step L ppcall)\<^sup>*\<^sup>* s0 s"
  shows "(\<forall>fd e. entries L s fd = Some e \<longrightarrow> entry_typed e \<and>
      (fe_read e = Fd_pipe_read \<longrightarrow> fst (runtime_pipe_read (fs_pipes s) fd n) \<noteq> Pipe_unknown_fd) \<and>
      (fe_write e = Fd_pipe_write \<longrightarrow> fst (runtime_pipe_write (fs_pipes s) fd n) \<noteq> Pipe_unknown_fd) \<and>
      (fe_close e = Fd_epoll_close \<longrightarrow> fst (runtime_sys_epoll_pwait w now now' fd False 1 0 s) \<noteq> Finished (- EBADF, [])) \<and>
      (fe_close e = Fd_ctl_close \<longrightarrow> fst (fst (ctl_read True count fd s)) \<noteq> - EBADF)) \<and>
    pipe_ends (fs_pipes s) \<union> epoll_ids (ps_epolls s) \<subseteq> dom (entries L s) \<and>
    (ow_phase (ds_owner s) \<noteq> Ctl_closed \<longrightarrow> ow_fd (ds_owner s) \<in> dom (entries L s))"
proof (intro conjI allI impI)
  note t = steps_typed [OF assms(3,1) boot_typed [OF assms(2)]]
  have epf: "fst (runtime_sys_epoll_pwait w now now' fd False 1 0 s) \<noteq> Finished (- EBADF, [])" if "epoll_table_of s fd \<noteq> None" for fd
    using that by (auto simp: runtime_sys_epoll_pwait_def split: option.splits prod.splits)
  have ctl: "fst (fst (ctl_read True count fd s)) \<noteq> - EBADF"
    if "ow_fd (ds_owner s) = fd \<and> ow_phase (ds_owner s) \<in> {Ctl_idle, Ctl_reply_ready}" for fd
    using that by (auto simp: ctl_read_def ctl_calls)
  fix fd e
  assume e: "entries L s fd = Some e"
  note f = typed_finds [OF t e]
  show "entry_typed e" by (rule f(1))
  show "fst (runtime_pipe_read (fs_pipes s) fd n) \<noteq> Pipe_unknown_fd" if "fe_read e = Fd_pipe_read" by (rule f(2) [OF that])
  show "fst (runtime_pipe_write (fs_pipes s) fd n) \<noteq> Pipe_unknown_fd" if "fe_write e = Fd_pipe_write" by (rule f(3) [OF that])
  show "fst (runtime_sys_epoll_pwait w now now' fd False 1 0 s) \<noteq> Finished (- EBADF, [])" if "fe_close e = Fd_epoll_close"
    by (rule epf [OF f(4) [OF that]])
  show "fst (fst (ctl_read True count fd s)) \<noteq> - EBADF" if "fe_close e = Fd_ctl_close" by (rule ctl [OF f(5) [OF that]])
next
  note t = steps_typed [OF assms(3,1) boot_typed [OF assms(2)]]
  have d: "having P (entries L s) \<subseteq> dom (entries L s)" for P by (auto simp: having_def)
  show "pipe_ends (fs_pipes s) \<union> epoll_ids (ps_epolls s) \<subseteq> dom (entries L s)"
    using t d unfolding pipe_ends_split descriptors_typed_def pipes_typed_def epolls_typed_def by auto
  show "ow_fd (ds_owner s) \<in> dom (entries L s)" if "ow_phase (ds_owner s) \<noteq> Ctl_closed"
    using t that d [of "\<lambda>e. fe_close e = Fd_ctl_close"] by (simp add: descriptors_typed_def ctl_typed_def)
qed

definition sample_boot :: "fd_entry option list dev_state" where
  "sample_boot = \<lparr>fs_libc = replicate 8 None, fs_pipes = replicate 8 pipe_slot_zero, fs_wakes = 0,
     ps_epolls = replicate 4 (epoll_instance_of (- 1)), ps_timer = \<lparr>tm_slot = 0, tm_timeouts = []\<rparr>, ds_owner = ctl_owner_zero\<rparr>"

lemma sample_booted: "fd_boot list_libc sample_boot"
  by (simp add: fd_boot_def sample_boot_def list_libc_def)

lemma sample_booted_pipe: "fst (runtime_sys_pipe2 list_libc False 0 sample_boot) = (0, Some (0, 1))"
  by (simp add: runtime_sys_pipe2_def runtime_fd_alloc_pair_def pipe_alloc_def on_libc_def runtime_fd_alloc_ops_def
      list_libc_def sample_boot_def numeral_eq_Suc runtime_pipe_open_def Let_def pipe_slot_zero_def)

theorem descriptors_never_dangle_witness:
  "fst (runtime_sys_pipe2 list_libc False 0 sample_boot) = (0, Some (0, 1)) \<and>
   pipe_ends (fs_pipes (snd (runtime_sys_pipe2 list_libc False 0 sample_boot))) \<subseteq>
     dom (entries list_libc (snd (runtime_sys_pipe2 list_libc False 0 sample_boot)))"
proof -
  have "fd_step list_libc (\<lambda>opcode args root. ((1, 4, \<lambda>i. 0), root :: unit)) sample_boot
      (snd (runtime_sys_pipe2 list_libc False 0 sample_boot))"
    by (rule fd_step.pipe2 [of list_libc False 0 sample_boot "fst (runtime_sys_pipe2 list_libc False 0 sample_boot)"]) simp
  from descriptors_never_dangle [OF list_libc_laws sample_booted r_into_rtranclp [of "fd_step _ _", OF this]]
  show ?thesis using sample_booted_pipe by simp
qed

end
