(* ===== verification/Control_Root.thy ===== *)
theory Control_Root
  imports Control_Dev Root_Lifecycle
begin

text \<open>
  The control path end to end: a write to \<open>/dev/chrysoctl\<close>
  (\<open>src/src/pd/beam/control/runtime_control_dev.c\<close>), the protected call it makes into Root
  (\<open>src/src/pd/root/main.c\<close>), and the reply the writer then reads.
\<close>

section \<open>Root answers every call with a frame\<close>

definition memo_sized :: "root_state \<Rightarrow> bool" where
  "memo_sized s \<longleftrightarrow> length (cs_memo_values (rs_command s)) = root_command_words"

lemma decide_restart_answer:
  "length (cs_memo_values st) = 4 \<Longrightarrow> length (cd_values d) = 4 \<Longrightarrow>
   length (cd_values (decide_restart st view d)) = 4 \<and> cd_result (decide_restart st view d) \<noteq> Ctl_unset"
  by (simp add: decide_restart_def Let_def split: option.split)

lemma decide_answer:
  assumes "length (cs_memo_values st) = 4"
  shows "length (cd_values (fst (root_command_decide st view opcode args now v))) = 4 \<and>
    cd_result (fst (root_command_decide st view opcode args now v)) \<noteq> Ctl_unset"
proof -
  have d: "length (cd_values (decision_zero opcode args)) = 4" by (simp add: decision_zero_def)
  show ?thesis
  proof (cases "malformed (row_of (ucast opcode)) args \<or> cs_tokens (refill_step st now v) = 0")
    case True
    then show ?thesis using d by (auto simp: root_command_decide_def Let_def)
  next
    case False
    have "length (cs_memo_values ((refill_step st now v)\<lparr>cs_tokens := cs_tokens (refill_step st now v) - 1\<rparr>)) = 4"
      using assms by simp
    note r = decide_restart_answer [OF this d, of view]
    show ?thesis using False d r
      by (cases "fst (row_of (ucast opcode))") (simp_all add: root_command_decide_def Let_def)
  qed
qed

lemma protected_answer:
  assumes "memo_sized s" "protected env rd ch l n mr s = ((label, values), s')"
  shows "length values = 4 \<and> label \<noteq> 0 \<and> label \<le> 9 \<and> memo_sized s'"
proof -
  have wire: "ctl_result_wire r \<le> 9 \<and> (ctl_result_wire r = 0 \<longleftrightarrow> r = Ctl_unset)" for r by (cases r) simp_all
  let ?f = "root_command_frame (rs_command s) ch control_pp_channel_root l n"
  define s1 where "s1 = s\<lparr>rs_command := snd ?f\<rparr>"
  have m1: "length (cs_memo_values (rs_command s1)) = 4"
    using assms(1) by (simp add: s1_def memo_sized_def root_command_frame_def Let_def)
  show ?thesis
  proof (cases "fst ?f = Ctl_ok")
    case False
    have "fst ?f \<noteq> Ctl_unset" by (simp add: root_command_frame_def Let_def)
    then show ?thesis
      using assms(2) False m1 wire [of "fst ?f"]
      by (auto simp: protected_def case_prod_unfold Let_def root_command_reply_def memo_sized_def s1_def)
  next
    case True
    obtain d s2 where d: "decide_command env l mr s1 = (d, s2)" by (cases "decide_command env l mr s1")
    have a: "length (cd_values d) = 4" "cd_result d \<noteq> Ctl_unset" and m2: "length (cs_memo_values (rs_command s2)) = 4"
      using d m1 decide_answer [OF m1] by (auto simp: decide_command_def case_prod_unfold Let_def)
    show ?thesis
    proof (cases "cd_action d")
      case Command_none
      then show ?thesis
        using assms(2) True d a m2 wire [of "cd_result d"]
        by (auto simp: protected_def case_prod_unfold Let_def root_command_reply_def memo_sized_def s1_def)
    next
      case Command_restart
      obtain d' s3 where d': "root_command_restart_child env rd d s2 = (d', s3)" by (cases "root_command_restart_child env rd d s2")
      have "length (cd_values d') = 4 \<and> cd_result d' \<noteq> Ctl_unset \<and> length (cs_memo_values (rs_command s3)) = 4"
        using d' a m2 Command_restart
        by (auto simp: root_command_restart_child_def case_prod_unfold Let_def root_command_complete_def split: if_splits)
      then show ?thesis
        using assms(2) True d d' Command_restart wire [of "cd_result d'"]
        by (auto simp: protected_def case_prod_unfold Let_def root_command_reply_def memo_sized_def s1_def)
    qed
  qed
qed

lemma serve_memo_sized: "memo_sized s \<Longrightarrow> memo_sized (serve env call s)"
proof (cases call)
  case (Call_notified rd ch)
  then show "memo_sized s \<Longrightarrow> ?thesis"
    by (simp add: memo_sized_def notified_def case_prod_unfold Let_def split: root_notify_kind.split)
next
  case (Call_protected rd ch l n mr)
  then show "memo_sized s \<Longrightarrow> ?thesis" using protected_answer [of s env rd ch l n mr] by (metis prod.exhaust serve.simps(2) snd_conv)
next
  case (Call_fault rd raw l n mr)
  then show "memo_sized s \<Longrightarrow> ?thesis"
    by (simp add: memo_sized_def fault_def fault_child_def case_prod_unfold Let_def split: option.split)
qed

lemma root_run_memo_sized: "memo_sized (root_run env page calls)"
proof -
  have "memo_sized s \<Longrightarrow> memo_sized (foldl (\<lambda>s c. serve env c s) s calls)" for s
    by (induction calls arbitrary: s) (simp_all add: serve_memo_sized)
  moreover have "memo_sized (root_init env page)"
    by (simp add: memo_sized_def root_init_def case_prod_unfold Let_def root_command_init_def)
  ultimately show ?thesis by (simp add: root_run_def)
qed

section \<open>A command and its reply\<close>

text \<open>Root on the other side of the call: the label is the opcode, with four message registers.\<close>

definition root_ppcall :: "root_env \<Rightarrow> page_reads \<Rightarrow> root_state ppcall" where
  "root_ppcall env rd opcode args root =
     (case protected env rd control_pp_channel_root (ucast opcode) (of_nat runtime_ctl_words) (\<lambda>i. args ! i) root of
        ((label, values), root) \<Rightarrow> ((label, of_nat (length values), \<lambda>i. values ! i), root))"

text \<open>The descriptor owns the device, has no command in flight and no reply waiting.\<close>

definition ctl_ready_for :: "'t dev_state \<Rightarrow> int \<Rightarrow> bool" where
  "ctl_ready_for s fd \<longleftrightarrow> ow_phase (ds_owner s) = Ctl_idle \<and> ow_fd (ds_owner s) = fd"

lemma label_fits: "label \<le> 9 \<Longrightarrow> label \<le> 0xFFFF \<and> (ucast label :: u16) \<le> 9" for label :: u64
proof -
  assume "label \<le> 9"
  then have "unat label \<le> 9" by (simp add: word_le_unat)
  moreover from this have "unat (ucast label :: u16) = unat label" by (intro unat_ucast_down) simp
  ultimately show "label \<le> 0xFFFF \<and> (ucast label :: u16) \<le> 9" by (simp add: word_le_unat)
qed

lemma ctl_write_reaches_root:
  assumes "ctl_ready_for s fd" "chryso_check_ctl_command (take 64 bs) = Abi_ok" "memo_sized root"
    "protected env rd control_pp_channel_root (ucast (load_u16le bs 10)) 4
       (\<lambda>i. map (\<lambda>i. load_u64le bs (16 + 8 * i)) [0..<4] ! i) root = ((label, values), root')"
  shows "ctl_write (root_ppcall env rd) (Some bs) 64 fd (s, root) =
    (64, s\<lparr>ds_owner := (ds_owner s)\<lparr>ow_reply := ctl_answer label values, ow_phase := Ctl_reply_ready\<rparr>\<rparr>, root')"
proof -
  have o: "ow_phase (ds_owner s) = Ctl_idle" "ow_fd (ds_owner s) = fd" using assms(1) by (simp_all add: ctl_ready_for_def)
  have a: "length values = 4" "label \<noteq> 0" "label \<le> 9" using protected_answer [OF assms(3,4)] by simp_all
  have four: "map (\<lambda>i. values ! i) [0..<4] = values" using a(1) by (metis map_nth)
  have w: "runtime_ctl_write fd (Some bs) 64 (ds_owner s) =
      ((Ctls_ok, Some \<lparr>ca_opcode = load_u16le bs 10, ca_args = map (\<lambda>i. load_u64le bs (16 + 8 * i)) [0..<4]\<rparr>),
       (ds_owner s)\<lparr>ow_phase := Ctl_calling\<rparr>)"
    using o assms(2) by (simp add: runtime_ctl_write_def admit_def load_ctl_command_def)
  have f: "reply_frame_valid label 4"
    using a label_fits [OF a(3)] by (simp add: reply_frame_valid_def chryso_ctl_result_is_member_def)
  have r: "runtime_ctl_reply fd label 4 values ((ds_owner s)\<lparr>ow_phase := Ctl_calling\<rparr>) =
      (Ctls_ok, (ds_owner s)\<lparr>ow_reply := ctl_answer label values, ow_phase := Ctl_reply_ready\<rparr>)"
    using o f by (simp add: runtime_ctl_reply_def admit_def ctl_answer_def)
  have p: "root_ppcall env rd (load_u16le bs 10) (map (\<lambda>i. load_u64le bs (16 + 8 * i)) [0..<4]) root =
      ((label, 4, \<lambda>i. values ! i), root')"
    using assms(4) a(1) by (simp add: root_ppcall_def)
  show ?thesis unfolding ctl_write_def prod.case w Let_def option.sel runtime_ctl_call.simps p
    using r four by simp
qed

text \<open>
  C16.  A command reaches Root once and its reply comes back whole.  When the descriptor that
  owns the device, with nothing pending, writes a record the generated checker accepts, Root is
  entered once, with that record's opcode and arguments, and the write reports every byte; the
  next read gives a record the checker accepts whose result and values are those Root answered
  with, and leaves the device ready again, so a second read finds nothing.  So long as Root is in
  any state its own calls can lead to, no command is lost to a malformed answer.
\<close>

theorem ctl_command_answered:
  assumes "ctl_ready_for s fd" "chryso_check_ctl_command (take 64 bs) = Abi_ok" "root = root_run env page calls"
  shows "case protected env rd control_pp_channel_root (ucast (load_u16le bs 10)) 4
      (\<lambda>i. map (\<lambda>i. load_u64le bs (16 + 8 * i)) [0..<4] ! i) root of
    ((label, values), root') \<Rightarrow>
      \<exists>s1 s2 bytes. ctl_write (root_ppcall env rd) (Some bs) 64 fd (s, root) = (64, s1, root') \<and>
        ctl_read True 64 fd s1 = ((64, Some bytes), s2) \<and> chryso_check_ctl_reply bytes = Abi_ok \<and>
        load_u16le bytes 10 = ucast label \<and> map (\<lambda>i. load_u64le bytes (16 + 8 * i)) [0..<4] = values \<and>
        ctl_ready_for s2 fd \<and> ctl_read True 64 fd s2 = ((- ENODATA, None), s2)"
proof -
  obtain label "values" root' where p: "protected env rd control_pp_channel_root (ucast (load_u16le bs 10)) 4
      (\<lambda>i. map (\<lambda>i. load_u64le bs (16 + 8 * i)) [0..<4] ! i) root = ((label, values), root')" by (metis prod.exhaust)
  have m: "memo_sized root" by (simp add: assms(3) root_run_memo_sized)
  note a = protected_answer [OF m p]
  have l: "length values = 4" "label \<noteq> 0" "label \<le> 9" using a by simp_all
  have o: "ow_fd (ds_owner s) = fd" using assms(1) by (simp add: ctl_ready_for_def)
  define s1 where "s1 = s\<lparr>ds_owner := (ds_owner s)\<lparr>ow_reply := ctl_answer label values, ow_phase := Ctl_reply_ready\<rparr>\<rparr>"
  define s2 where "s2 = s1\<lparr>ds_owner := (ds_owner s1)\<lparr>ow_reply := ctl_reply_zero, ow_phase := Ctl_idle\<rparr>\<rparr>"
  have w: "ctl_write (root_ppcall env rd) (Some bs) 64 fd (s, root) = (64, s1, root')"
    unfolding s1_def by (rule ctl_write_reaches_root [OF assms(1,2) m p])
  have r: "ctl_read True 64 fd s1 = ((64, Some (ctl_reply_bytes (ctl_answer label values))), s2)"
    by (simp add: ctl_read_def runtime_ctl_read_def admit_def s2_def s1_def o)
  have e: "ctl_ready_for s2 fd" "ctl_read True 64 fd s2 = ((- ENODATA, None), s2)"
    by (simp_all add: ctl_ready_for_def ctl_read_def runtime_ctl_read_def admit_def s2_def s1_def o)
  have "\<exists>bytes. ctl_read True 64 fd s1 = ((64, Some bytes), s2) \<and> chryso_check_ctl_reply bytes = Abi_ok \<and>
      load_u16le bytes 10 = ucast label \<and> map (\<lambda>i. load_u64le bytes (16 + 8 * i)) [0..<4] = values"
    using r answer_bytes [OF l(1), of label] answer_accepted [OF l] by blast
  then show ?thesis using w e p by auto
qed

definition sample_dev :: "unit dev_state" where
  "sample_dev = \<lparr>fs_libc = (), fs_pipes = [], fs_wakes = 0, ps_epolls = [], ps_timer = \<lparr>tm_slot = 0, tm_timeouts = []\<rparr>,
     ds_owner = ctl_owner_zero\<lparr>ow_phase := Ctl_idle, ow_fd := 7\<rparr>\<rparr>"

definition sample_hello :: "u8 list" where
  "sample_hello = [0x43, 0x48, 0x52, 0x59, 0x43, 0x4D, 0x44, 0x31, 1, 0, 1, 0, 0, 0, 0, 0] @ replicate 48 0"

lemma sample_hello_ok: "chryso_check_ctl_command (take 64 sample_hello) = Abi_ok" "load_u16le sample_hello 10 = 1"
  by (simp_all add: chryso_check_ctl_command_def ctl_rules_def sample_hello_def load_u64le_def load_u32le_def
      load_u16le_def zero_span_def chryso_pp_opcode_is_member_def) (simp add: list_all_iff)

theorem ctl_command_answered_witness:
  "\<exists>s1 s2 bytes root'.
     ctl_write (root_ppcall sample_env (quiet_reads [])) (Some sample_hello) 64 7
       (sample_dev, root_run sample_env blank_status_page []) = (64, s1, root') \<and>
     ctl_read True 64 7 s1 = ((64, Some bytes), s2) \<and> chryso_check_ctl_reply bytes = Abi_ok"
proof -
  have "ctl_ready_for sample_dev 7" by (simp add: ctl_ready_for_def sample_dev_def)
  from ctl_command_answered [OF this sample_hello_ok(1) refl, of sample_env "quiet_reads []" blank_status_page "[]"]
  show ?thesis by (auto split: prod.splits)
qed

end
