(* ===== verification/Spec2Isabelle.thy ===== *)
theory Spec2Isabelle
  imports Root_Publishing Root_Format Spec_Commit Status_Reader Tcp_Properties Beam_Lives Descriptors Control_Root
begin

text \<open>
  Chrysopolis runs an Erlang node (the BEAM) on seL4 with Microkit.  The C code under \<open>src/src\<close> has
  two parts that must be right for the node to survive its own faults.  Root
  (\<open>src/src/pd/root\<close>) is the monitor: it receives the faults of its children, decides whether to
  restart them or to give them up, answers commands and publishes what it did.  The BEAM domain
  (\<open>src/src/pd/beam\<close>) gives a POSIX program a home on lwIP and a cooperative scheduler: sockets,
  pipes, polling, time, and a restart that puts the loaded image back.  Two shared pages and one
  protected call connect them, laid out by \<open>interfaces/orchestrator_abi.zig\<close>: Root writes the
  status page, the BEAM writes the policy page, and the BEAM sends commands through
  \<open>/dev/chrysoctl\<close>.  This development models both parts, both pages and the call.

  \<^bold>\<open>Conventions.\<close>  A C struct is a record, an enum a datatype, a \<open>uintN_t\<close> a word
  of its width wherever the width can matter.  A \<open>size_t\<close> that counts the elements of a
  buffer is a natural number, and an \<open>int\<close> that stays far inside its range an integer.  A null
  pointer is \<open>None\<close>.  A C static is a field of the state that the operations return changed.  A
  volatile load from memory that another domain writes is an input, so a reader is modelled
  for every value it may see.  A call that leaves the sources - the kernel, lwIP, the libc's
  descriptor table - is an argument (what it returned) and an entry of a trace (that it was made).
  A handler that waits is split at its wait: the first half returns that it parked, and what it
  does when it is resumed is an operation of its own, in whatever state it then finds.

  \<^bold>\<open>The contract.\<close>
  \<^item> \<open>Chryso_Prelude\<close>: the word types, the fact collections \<open>wordpos\<close>, \<open>frame\<close> and \<open>keeps\<close>, and
    lemmas on words as numbers and on lists by index.
  \<^item> \<open>Abi\<close>: the enums, the little-endian loads and stores, CRC-32 and the policy page's checkers
    that \<open>tools/abi/generate_c.zig\<close> puts into the generated headers.  The locale \<open>le_field\<close> is
    what a client of a little-endian field relies on; it is interpreted for both widths.
  \<^item> \<open>Status_Page\<close>: the status page's records and the rules of its checker (\<open>tools/abi/checks.zig\<close>).

  \<^bold>\<open>Root.\<close>  Each theory is one file of \<open>src/src/pd/root\<close>.
  \<^item> \<open>Rate_Limiter\<close>: the locale \<open>rate_limiter\<close>, the contract of both limiters below: at most the
    capacity plus what time pays for is admitted over any run at non-decreasing times.
  \<^item> \<open>Root_Policy\<close> (\<open>policy/root_policy.h\<close>): child records, the clock that is lost for
    good when it moves back, the leaky restart window (interpreted as a \<open>rate_limiter\<close>), notifications.
  \<^item> \<open>Root_Spec\<close> (\<open>spec.c\<close>): the consumer of the policy page.  \<open>root_spec_consume_refines\<close> compares
    it with \<open>page_policy\<close>, an abstract reading of the page; \<open>root_spec_retained_checked\<close> is the
    invariant over any sequence of pages, hostile ones included.
  \<^item> \<open>Restart_Plan\<close> (\<open>restart_plan.c\<close>): what Root does about a fault.  The locale \<open>restart_decider\<close>
    is the contract, interpreted for the plan.
  \<^item> \<open>Root_Command\<close> (\<open>command.c\<close>): the token bucket (a \<open>rate_limiter\<close>), the retry fence and the
    command decision.
  \<^item> \<open>Root_Status\<close> (\<open>status.c\<close>) and \<open>Status_Reader\<close> (\<open>lib/abi/root_status_reader.c\<close>): the two sides of
    the sequence lock on the status page.  Any number of attempts of a reader, each with any
    contents, never yields a page that fails the checker.
  \<^item> \<open>Root_Main\<close> (\<open>main.c\<close>): \<open>init\<close>, \<open>notified\<close>, \<open>protected\<close>, \<open>fault\<close> and all they call.  The capability
    invocations are a trace.
  \<^item> \<open>Root_Lifecycle\<close>: an abstract machine with three steps - nothing, a decision, the injected fault
    - that every entry point refines; what is proved of its runs holds of every run of Root.
  \<^item> \<open>Root_Publishing\<close>: the status page is valid in every run, and a command acts at most once.
  \<^item> \<open>Root_Format\<close>: what \<open>put_dec\<close> and \<open>put_hex\<close> print.

  \<^bold>\<open>The policy page's writer.\<close>  \<open>Spec_Writer\<close> models \<open>lib/abi/spec_writer.c\<close> over the page's bytes;
  \<open>Spec_Commit\<close> stops a commit after each of its stores and shows what \<open>Root_Spec\<close> then adopts, and
  that a bank with one changed byte is refused.

  \<^bold>\<open>The BEAM's warm restart\<close> (\<open>src/src/pd/beam/restart\<close>).
  \<^item> \<open>Restart_Layout\<close> (\<open>beam_restart_layout.h\<close>): the checks on addresses, compared with exact ones.
  \<^item> \<open>Snapshot_Codec\<close> (\<open>beam_snapshot_codec.c\<close>): the survivor runs of a .bss that is zero but for
    a few words.  The encoder, the validator and the replay are loops with measures.
  \<^item> \<open>Beam_Memory\<close>, \<open>Beam_Restart\<close> (\<open>restart.c\<close>): memory by address, capture and restore over it.
  \<^item> \<open>Restart_Pristine\<close>, \<open>Beam_Lives\<close>: one restore gives back the image; by induction over the
    lives of the domain (\<open>beam_life\<close>), every restore does.
  \<^item> \<open>Pd_Restart\<close> (\<open>runtime_pd_restart.c\<close> and its parser): the test trigger, write by write.

  \<^bold>\<open>Sockets\<close> (\<open>src/src/pd/beam/io\<close>).
  \<^item> \<open>Tcp_Rules\<close> (\<open>runtime_tcp_state.h\<close>, \<open>runtime_tcp_logic.h\<close>) and \<open>Tcp_Socket\<close> (\<open>tcp.c\<close>): ten
    slots, a two-megabyte receive ring for each, the accept backlogs, the callbacks.
  \<^item> \<open>Tcp_Stream\<close>: a connected socket is a byte queue.  The locale \<open>byte_stream\<close> carries the run;
    the interpretation is the receive path with its two copy loops.
  \<^item> \<open>Tcp_Lifecycle\<close>, \<open>Tcp_Ownership\<close>, \<open>Tcp_Properties\<close>: all runs (\<open>tcp_reach\<close>) of any application and
    any lwIP that keeps lwIP's documented contract, which \<open>call_ok\<close> and \<open>event_ok\<close> state: callbacks
    only for PCBs that exist and have them registered, fresh PCBs where a new one is given.  The
    invariant relates slots, reference counts, backlogs and what the trace says of each PCB.

  \<^bold>\<open>Descriptors, polling, time\<close> (\<open>src/src/pd/beam/compat\<close>, \<open>io/timer\<close>).
  \<^item> \<open>Errno\<close>; \<open>Wake_Pipe\<close> (\<open>runtime_wake_pipe.c\<close>), with the locale \<open>wake_source\<close>; \<open>Posix_Fd\<close>
    (\<open>runtime_fd.c\<close>, \<open>runtime_fd_pair.c\<close>), over a libc table whose four operations keep
    \<open>libc_fd_laws\<close>; \<open>Sys_Fd\<close> (\<open>runtime_sys_fd.c\<close>); \<open>Epoll_Table\<close>; \<open>Sys_Poll\<close>
    (\<open>runtime_sys_poll.c\<close>).
  \<^item> \<open>Deadline\<close>: \<open>runtime_deadline.h\<close>, the timer multiplexer, sleeps and futexes.
  \<^item> \<open>Poll_Wakeup\<close>: the three polling calls agree on readiness and none sleeps through a wakeup.
  \<^item> \<open>Ctl_Device\<close>, \<open>Control_Dev\<close> (\<open>control/\<close>): the two character devices over the owner record.
  \<^item> \<open>Control_Root\<close>: the same protected call on both sides, from \<open>ctl_write\<close> through Root's
    \<open>protected\<close> and back to \<open>ctl_read\<close>.
  \<^item> \<open>Descriptors\<close>: the whole descriptor table under any interleaving of these calls (\<open>fd_step\<close>).

  \<^bold>\<open>Bounds and fuel.\<close>  No definition takes fuel.  The one loop with a bound of its own, the status
  reader's, has it in the source.  The two loops whose ends depend on the state (\<open>rx_store\<close>,
  \<open>socket_drain_backlog\<close>) are partial functions, and \<open>tcp_calls_return\<close> shows that in every reachable
  state they return.  Table sizes are the source's: 62 children, 128 events, 10 sockets, 8 pipes,
  4 epoll instances of 64 entries.

  \<^bold>\<open>Not modelled.\<close>  The threads of the BEAM domain are cothreads that change only where they wait, so
  every modelled call is one step between its waits; the scheduler (\<open>compat/pthread\<close>) itself, which
  is mostly stack and register handling around libmicrokitco, is left out.  So are the glue that
  starts lwIP, the file system and the console (\<open>io/network/runtime_network.c\<close>, \<open>io/filesystem\<close>,
  \<open>io/console\<close>), the random source (\<open>security\<close>), the boot and trace plumbing (\<open>config\<close>,
  \<open>payload\<close>), the identity and device entries of the syscall table, the test fixtures, and the
  generators, which are Zig programs.  Memory orders are not modelled: the store groups of the two
  shared pages are taken in program order, as the fences between them require.  Log lines are kept
  where they are part of a contract (Root's), and dropped in \<open>tcp.c\<close>.
\<close>

end
